(* ===== verification/Prov_Prelude.thy ===== *)
theory Prov_Prelude
  imports Main "HOL-Library.Sublist"
begin

section \<open>Prelude: machine integers, results, byte strings and list helpers\<close>

text \<open>
  What the components share. Rust's \<open>u64\<close> (and \<open>usize\<close>, \<open>u32\<close>, \<open>u8\<close>) values are \<open>nat\<close> and
  its \<open>i64\<close> values are \<open>int\<close>; every operation of the source that can leave the width is one of
  the checked or saturating operations below, which test the bound explicitly. A Rust
  \<open>Result\<close> is a sum with the error on the left, an \<open>Option\<close> is an \<open>option\<close>. A Rust
  \<open>String\<close> is the list of its UTF-8 bytes, so that \<open>length\<close> is Rust's \<open>len\<close>.
\<close>

named_theorems ok_iff \<open>when a fallible computation returns a value, by its parts\<close>

subsection \<open>Machine integers\<close>

type_synonym u64 = nat
type_synonym i64 = int

abbreviation U64_MAX :: nat where
  "U64_MAX \<equiv> 18446744073709551615"

abbreviation I64_MAX :: int where
  "I64_MAX \<equiv> 9223372036854775807"

abbreviation I64_MIN :: int where
  "I64_MIN \<equiv> - 9223372036854775808"

definition is_i64 :: "int \<Rightarrow> bool" where
  "is_i64 x \<longleftrightarrow> I64_MIN \<le> x \<and> x \<le> I64_MAX"

definition u64_checked_add :: "nat \<Rightarrow> nat \<Rightarrow> nat option" where
  "u64_checked_add a b = (if a + b \<le> U64_MAX then Some (a + b) else None)"

definition u64_checked_mul :: "nat \<Rightarrow> nat \<Rightarrow> nat option" where
  "u64_checked_mul a b = (if a * b \<le> U64_MAX then Some (a * b) else None)"

definition u64_saturating_add :: "nat \<Rightarrow> nat \<Rightarrow> nat" where
  "u64_saturating_add a b = min U64_MAX (a + b)"

definition i64_checked_add :: "int \<Rightarrow> int \<Rightarrow> int option" where
  "i64_checked_add a b = (if is_i64 (a + b) then Some (a + b) else None)"

definition i64_saturating_add :: "int \<Rightarrow> int \<Rightarrow> int" where
  "i64_saturating_add a b = max I64_MIN (min I64_MAX (a + b))"

definition i64_saturating_sub :: "int \<Rightarrow> int \<Rightarrow> int" where
  "i64_saturating_sub a b = max I64_MIN (min I64_MAX (a - b))"

text \<open>\<open>i64::try_from\<close> of an unsigned value.\<close>

definition i64_try_from :: "nat \<Rightarrow> int option" where
  "i64_try_from n = (if int n \<le> I64_MAX then Some (int n) else None)"

text \<open>\<open>u64::try_from\<close> of a signed value.\<close>

definition u64_try_from :: "int \<Rightarrow> nat option" where
  "u64_try_from i = (if 0 \<le> i then Some (nat i) else None)"

text \<open>The cast \<open>as i64\<close> of an unsigned value keeps the bits.\<close>

definition u64_as_i64 :: "nat \<Rightarrow> int" where
  "u64_as_i64 n = (if int n \<le> I64_MAX then int n else int n - 2 ^ 64)"

lemma u64_checked_add_Some [simp, ok_iff]:
  "u64_checked_add a b = Some c \<longleftrightarrow> c = a + b \<and> a + b \<le> U64_MAX"
  by (auto simp: u64_checked_add_def)

lemma u64_checked_add_None [simp]: "u64_checked_add a b = None \<longleftrightarrow> U64_MAX < a + b"
  by (auto simp: u64_checked_add_def)

lemma u64_checked_mul_Some [simp]:
  "u64_checked_mul a b = Some c \<longleftrightarrow> c = a * b \<and> a * b \<le> U64_MAX"
  by (auto simp: u64_checked_mul_def)

lemma i64_checked_add_Some [simp, ok_iff]:
  "i64_checked_add a b = Some c \<longleftrightarrow> c = a + b \<and> is_i64 (a + b)"
  by (auto simp: i64_checked_add_def)

lemma i64_checked_add_None [simp]: "i64_checked_add a b = None \<longleftrightarrow> \<not> is_i64 (a + b)"
  by (auto simp: i64_checked_add_def)

lemma i64_try_from_Some [simp, ok_iff]:
  "i64_try_from n = Some i \<longleftrightarrow> i = int n \<and> int n \<le> I64_MAX"
  by (auto simp: i64_try_from_def)

lemma is_i64_between: "is_i64 a \<Longrightarrow> is_i64 c \<Longrightarrow> a \<le> b \<Longrightarrow> b \<le> c \<Longrightarrow> is_i64 b"
  by (simp add: is_i64_def)

subsection \<open>Results\<close>

text \<open>\<open>res_bind\<close> is the \<open>?\<close> operator, \<open>ensure\<close> an early \<open>return Err\<close>.\<close>

definition res_bind :: "'e + 'a \<Rightarrow> ('a \<Rightarrow> 'e + 'b) \<Rightarrow> 'e + 'b" where
  "res_bind m f = (case m of Inl e \<Rightarrow> Inl e | Inr x \<Rightarrow> f x)"

definition ensure :: "bool \<Rightarrow> 'e \<Rightarrow> 'e + unit" where
  "ensure c e = (if c then Inr () else Inl e)"

definition ok_or :: "'e \<Rightarrow> 'a option \<Rightarrow> 'e + 'a" where
  "ok_or e x = (case x of None \<Rightarrow> Inl e | Some v \<Rightarrow> Inr v)"

definition is_ok :: "'e + 'a \<Rightarrow> bool" where
  "is_ok r = (case r of Inl _ \<Rightarrow> False | Inr _ \<Rightarrow> True)"

definition is_some_and :: "'a option \<Rightarrow> ('a \<Rightarrow> bool) \<Rightarrow> bool" where
  "is_some_and x p = (case x of None \<Rightarrow> False | Some v \<Rightarrow> p v)"

definition is_none_or :: "'a option \<Rightarrow> ('a \<Rightarrow> bool) \<Rightarrow> bool" where
  "is_none_or x p = (case x of None \<Rightarrow> True | Some v \<Rightarrow> p v)"

definition unwrap_or :: "'a \<Rightarrow> 'a option \<Rightarrow> 'a" where
  "unwrap_or d x = (case x of None \<Rightarrow> d | Some v \<Rightarrow> v)"

lemma res_bind_simps [simp]:
  "res_bind (Inl e) f = Inl e"
  "res_bind (Inr x) f = f x"
  by (simp_all add: res_bind_def)

lemma res_bind_Inr_iff [simp, ok_iff]:
  "res_bind m f = Inr y \<longleftrightarrow> (\<exists>x. m = Inr x \<and> f x = Inr y)"
  by (cases m) simp_all

lemma res_bind_Inl_iff:
  "res_bind m f = Inl e \<longleftrightarrow> m = Inl e \<or> (\<exists>x. m = Inr x \<and> f x = Inl e)"
  by (cases m) simp_all

lemma ensure_simps [simp]:
  "ensure True e = Inr ()"
  "ensure False e = Inl e"
  by (simp_all add: ensure_def)

lemma ensure_Inr_iff [simp, ok_iff]: "ensure c e = Inr u \<longleftrightarrow> c"
  by (simp add: ensure_def)

lemma ensure_Inl_iff [simp]: "ensure c e = Inl e' \<longleftrightarrow> \<not> c \<and> e' = e"
  by (auto simp: ensure_def)

lemma ok_or_simps [simp]:
  "ok_or e None = Inl e"
  "ok_or e (Some v) = Inr v"
  by (simp_all add: ok_or_def)

lemma ok_or_Inr_iff [simp, ok_iff]: "ok_or e x = Inr v \<longleftrightarrow> x = Some v"
  by (cases x) simp_all

lemma if_Inl_eq_Inr [ok_iff]: "(if c then Inl e else x) = Inr y \<longleftrightarrow> \<not> c \<and> x = Inr y"
  by simp

lemma is_ok_simps [simp]:
  "is_ok (Inl e) = False"
  "is_ok (Inr x) = True"
  by (simp_all add: is_ok_def)

lemma is_ok_iff: "is_ok r \<longleftrightarrow> (\<exists>x. r = Inr x)"
  by (cases r) simp_all

lemma is_some_and_simps [simp]:
  "is_some_and None p = False"
  "is_some_and (Some v) p = p v"
  by (simp_all add: is_some_and_def)

lemma is_some_and_iff: "is_some_and x p \<longleftrightarrow> (\<exists>v. x = Some v \<and> p v)"
  by (cases x) simp_all

lemma is_none_or_simps [simp]:
  "is_none_or None p = True"
  "is_none_or (Some v) p = p v"
  by (simp_all add: is_none_or_def)

lemma is_none_or_iff: "is_none_or x p \<longleftrightarrow> (\<forall>v. x = Some v \<longrightarrow> p v)"
  by (cases x) simp_all

lemma unwrap_or_simps [simp]:
  "unwrap_or d None = d"
  "unwrap_or d (Some v) = v"
  by (simp_all add: unwrap_or_def)

subsection \<open>JSON values kept for forward compatibility\<close>

text \<open>
  Durable records carry the fields an older reader does not know in an \<open>extra\<close> object. The
  operations copy these objects and never look inside them.
\<close>

datatype json =
    JNull
  | JBool bool
  | JNumber string
  | JString string
  | JArray "json list"
  | JObject "(string \<times> json) list"

type_synonym extra_fields = "(string \<times> json) list"

subsection \<open>Byte strings\<close>

abbreviation byte_of :: "char \<Rightarrow> nat" where
  "byte_of c \<equiv> of_char c"

definition is_ascii_digit :: "char \<Rightarrow> bool" where
  "is_ascii_digit c \<longleftrightarrow> 48 \<le> byte_of c \<and> byte_of c \<le> 57"

definition is_ascii_alphanumeric :: "char \<Rightarrow> bool" where
  "is_ascii_alphanumeric c \<longleftrightarrow> is_ascii_digit c
     \<or> (65 \<le> byte_of c \<and> byte_of c \<le> 90) \<or> (97 \<le> byte_of c \<and> byte_of c \<le> 122)"

text \<open>
  \<open>s.chars().any(char::is_control)\<close>: the control characters are U+0000 to U+001F, U+007F and
  U+0080 to U+009F. In UTF-8 the first two ranges are one byte and the last is the byte C2
  followed by 80 to 9F; C2 is never a continuation byte, so the scan needs no alignment.
\<close>

definition c1_continuation :: "string \<Rightarrow> bool" where
  "c1_continuation cs = (case cs of [] \<Rightarrow> False | d # _ \<Rightarrow> 128 \<le> byte_of d \<and> byte_of d \<le> 159)"

fun has_control :: "string \<Rightarrow> bool" where
  "has_control [] = False"
| "has_control (c # cs) =
     (byte_of c < 32 \<or> byte_of c = 127 \<or> (byte_of c = 194 \<and> c1_continuation cs)
      \<or> has_control cs)"

definition strip_prefix :: "string \<Rightarrow> string \<Rightarrow> string option" where
  "strip_prefix p s = (if prefix p s then Some (drop (length p) s) else None)"

definition strip_suffix :: "string \<Rightarrow> string \<Rightarrow> string option" where
  "strip_suffix x s = (if suffix x s then Some (take (length s - length x) s) else None)"

fun split_once :: "char \<Rightarrow> string \<Rightarrow> (string \<times> string) option" where
  "split_once c [] = None"
| "split_once c (x # xs) =
     (if x = c then Some ([], xs)
      else map_option (\<lambda>(a, b). (x # a, b)) (split_once c xs))"

lemma strip_prefix_Some [simp]: "strip_prefix p s = Some t \<longleftrightarrow> s = p @ t"
  by (auto simp: strip_prefix_def prefix_def)

lemma strip_prefix_append [simp]: "strip_prefix p (p @ t) = Some t"
  by simp

lemma strip_suffix_Some [simp]: "strip_suffix x s = Some t \<longleftrightarrow> s = t @ x"
  by (auto simp: strip_suffix_def suffix_def)

lemma has_control_suffix: "\<not> has_control (s @ t) \<Longrightarrow> \<not> has_control t"
  by (induction s) auto

subsection \<open>Lists\<close>

text \<open>\<open>iter_mut().find(p)\<close> followed by an update of the element found.\<close>

fun update_first :: "('a \<Rightarrow> bool) \<Rightarrow> ('a \<Rightarrow> 'a) \<Rightarrow> 'a list \<Rightarrow> 'a list" where
  "update_first p f [] = []"
| "update_first p f (x # xs) = (if p x then f x # xs else x # update_first p f xs)"

text \<open>\<open>collect::<Option<Vec<_>>>()\<close>.\<close>

fun all_some :: "'a option list \<Rightarrow> 'a list option" where
  "all_some [] = Some []"
| "all_some (None # xs) = None"
| "all_some (Some x # xs) = map_option (Cons x) (all_some xs)"

text \<open>\<open>iter().max()\<close> and \<open>iter().min()\<close>.\<close>

definition list_max :: "int list \<Rightarrow> int option" where
  "list_max xs = (case xs of [] \<Rightarrow> None | y # ys \<Rightarrow> Some (fold max ys y))"

definition list_min :: "int list \<Rightarrow> int option" where
  "list_min xs = (case xs of [] \<Rightarrow> None | y # ys \<Rightarrow> Some (fold min ys y))"

text \<open>\<open>iter().position(p)\<close>.\<close>

fun position :: "('a \<Rightarrow> bool) \<Rightarrow> 'a list \<Rightarrow> nat option" where
  "position p [] = None"
| "position p (x # xs) = (if p x then Some 0 else map_option Suc (position p xs))"

text \<open>\<open>slice::chunks\<close>; the source panics for a chunk size of 0, which every caller excludes.\<close>

function chunks :: "nat \<Rightarrow> 'a list \<Rightarrow> 'a list list" where
  "chunks n xs = (if xs = [] \<or> n = 0 then [] else take n xs # chunks n (drop n xs))"
  by pat_completeness auto
termination
  by (relation "measure (\<lambda>(n, xs). length xs)") auto

declare chunks.simps [simp del]

lemma find_None_iff_filter: "List.find p xs = None \<longleftrightarrow> filter p xs = []"
  by (induction xs) auto

lemma find_Some_in: "List.find p xs = Some x \<Longrightarrow> x \<in> set xs \<and> p x"
  by (auto simp: find_Some_iff)

lemma find_Some_split:
  "List.find p xs = Some x \<longleftrightarrow>
   (\<exists>ys zs. xs = ys @ x # zs \<and> p x \<and> list_all (\<lambda>y. \<not> p y) ys)"
proof (induction xs)
  case (Cons y ys)
  show ?case
  proof (cases "p y")
    case True
    then show ?thesis by (auto simp: Cons_eq_append_conv)
  next
    case False
    have "(\<exists>us zs. y # ys = us @ x # zs \<and> p x \<and> list_all (\<lambda>y. \<not> p y) us) \<longleftrightarrow>
        (\<exists>us zs. ys = us @ x # zs \<and> p x \<and> list_all (\<lambda>y. \<not> p y) us)" (is "?L \<longleftrightarrow> ?R")
    proof
      assume ?L
      then show ?R using False by (auto simp: Cons_eq_append_conv)
    next
      assume ?R
      then obtain us zs where "ys = us @ x # zs" "p x" "list_all (\<lambda>y. \<not> p y) us" by blast
      with False show ?L by (intro exI [of _ "y # us"] exI [of _ zs]) simp
    qed
    with False Cons.IH show ?thesis by simp
  qed
qed simp

lemma find_append:
  "List.find p (xs @ ys) = (case List.find p xs of None \<Rightarrow> List.find p ys | Some x \<Rightarrow> Some x)"
  by (induction xs) auto

lemma find_eq_None: "(\<And>x. x \<in> set xs \<Longrightarrow> \<not> p x) \<Longrightarrow> List.find p xs = None"
  by (auto simp: find_None_iff)

lemma update_first_map:
  "(\<And>x. g (f x) = g x) \<Longrightarrow> map g (update_first p f xs) = map g xs"
  by (induction xs) auto

lemma length_update_first [simp]: "length (update_first p f xs) = length xs"
  by (induction xs) auto

lemma update_first_id: "(\<And>x. x \<in> set xs \<Longrightarrow> \<not> p x) \<Longrightarrow> update_first p f xs = xs"
  by (induction xs) auto

lemma set_update_first_subset:
  "set (update_first p f xs) \<subseteq> set xs \<union> f ` {x \<in> set xs. p x}"
  by (induction xs) auto

lemma fold_min_Min: "fold min ys y = Min (insert y (set ys))" for y :: int
proof (induction ys arbitrary: y)
  case (Cons x ys)
  have "fold min (x # ys) y = Min (insert (min x y) (set ys))" by (simp add: Cons.IH)
  also have "\<dots> = Min (insert y (set (x # ys)))"
    by (cases "ys = []") (simp_all add: min.commute min.left_commute)
  finally show ?case .
qed simp

lemma list_min_Some:
  "list_min xs = Some m \<longleftrightarrow> m \<in> set xs \<and> (\<forall>x \<in> set xs. m \<le> x)"
proof (cases xs)
  case (Cons y ys)
  have "Min (insert y (set ys)) = m \<longleftrightarrow> m \<in> set xs \<and> (\<forall>x \<in> set xs. m \<le> x)"
    unfolding Cons list.set using Min_eq_iff [of "insert y (set ys)" m] by simp
  with Cons show ?thesis by (simp add: list_min_def fold_min_Min)
qed (simp add: list_min_def)

lemma set_map_filter: "y \<in> set (List.map_filter f xs) \<longleftrightarrow> (\<exists>x \<in> set xs. f x = Some y)"
  by (induction xs) (auto simp: map_filter_simps split: option.splits)

lemma list_all2_member: "list_all2 P xs ys \<Longrightarrow> y \<in> set ys \<Longrightarrow> \<exists>x \<in> set xs. P x y"
  by (induction rule: list_all2_induct) auto

lemma update_first_keeps:
  "x \<in> set xs \<Longrightarrow> x \<in> set (update_first p f xs) \<or> (p x \<and> f x \<in> set (update_first p f xs))"
  by (induction xs) auto

lemma update_first_hits:
  "\<exists>x \<in> set xs. p x \<Longrightarrow> \<exists>x \<in> set xs. p x \<and> f x \<in> set (update_first p f xs)"
  by (induction xs) auto

lemma position_SomeD:
  "position p xs = Some i \<Longrightarrow> i < length xs \<and> p (xs ! i) \<and> List.find p xs = Some (xs ! i)"
  by (induction xs arbitrary: i) (auto split: if_splits)

lemma position_find: "map_option ((!) xs) (position p xs) = List.find p xs"
  by (induction xs) (auto simp: option.map_comp comp_def)

lemma position_None_iff: "position p xs = None \<longleftrightarrow> (\<forall>x \<in> set xs. \<not> p x)"
  by (induction xs) auto

lemma chunks_empty [simp]: "chunks n [] = []"
  by (subst chunks.simps) simp

lemma chunks_step: "xs \<noteq> [] \<Longrightarrow> 0 < n \<Longrightarrow> chunks n xs = take n xs # chunks n (drop n xs)"
  by (subst chunks.simps) simp

lemma chunks_zero [simp]: "chunks 0 xs = []"
  by (subst chunks.simps) simp

lemma concat_chunks: "0 < n \<Longrightarrow> concat (chunks n xs) = xs"
proof (induction n xs rule: chunks.induct)
  case (1 n xs)
  then show ?case
    by (cases "xs = []") (simp_all add: chunks_step [of xs n])
qed

lemma chunks_bounds: "ys \<in> set (chunks n xs) \<Longrightarrow> ys \<noteq> [] \<and> length ys \<le> n"
proof (induction n xs rule: chunks.induct)
  case (1 n xs)
  show ?case
  proof (cases "xs = [] \<or> n = 0")
    case True
    with "1.prems" show ?thesis by auto
  next
    case False
    with "1.prems" have "ys = take n xs \<or> ys \<in> set (chunks n (drop n xs))"
      by (simp add: chunks_step [of xs n])
    with "1.IH" False show ?thesis by auto
  qed
qed

subsection \<open>Lists with one element per identity\<close>

text \<open>A list with one element per identity, as the map from identities to elements.\<close>

definition keyed :: "('a \<Rightarrow> 'k) \<Rightarrow> 'a list \<Rightarrow> 'k \<Rightarrow> 'a option" where
  "keyed k xs = map_of (map (\<lambda>x. (k x, x)) xs)"

lemma keyed_simps [simp]:
  "keyed k [] = Map.empty" "keyed k (x # xs) = (keyed k xs)(k x \<mapsto> x)"
  by (simp_all add: keyed_def)

lemma keyed_find: "keyed k xs i = List.find (\<lambda>x. k x = i) xs"
  by (induction xs) auto

lemma keyed_None: "keyed k xs i = None \<longleftrightarrow> i \<notin> k ` set xs"
  by (auto simp: keyed_def map_of_eq_None_iff image_image)

lemma keyed_Some: "distinct (map k xs) \<Longrightarrow> keyed k xs i = Some x \<longleftrightarrow> x \<in> set xs \<and> k x = i"
  by (induction xs) (auto simp: image_iff)

lemma keyed_update:
  "position (\<lambda>x. k x = i) xs = Some p \<Longrightarrow> distinct (map k xs) \<Longrightarrow> k y = i \<Longrightarrow>
   keyed k (xs[p := y]) = (keyed k xs)(i \<mapsto> y) \<and> map k (xs[p := y]) = map k xs"
  by (induction xs arbitrary: p) (auto simp: fun_eq_iff split: if_splits)

lemma keyed_append:
  "position (\<lambda>x. k x = i) xs = None \<Longrightarrow> distinct (map k xs) \<Longrightarrow> k y = i \<Longrightarrow>
   keyed k (xs @ [y]) = (keyed k xs)(i \<mapsto> y) \<and> distinct (map k (xs @ [y]))"
  by (induction xs) (auto simp: fun_eq_iff split: if_splits)

lemma keyed_remove:
  "position (\<lambda>x. k x = i) xs = Some p \<Longrightarrow> distinct (map k xs) \<Longrightarrow>
   keyed k (take p xs @ drop (Suc p) xs) = (keyed k xs)(i := None)
   \<and> distinct (map k (take p xs @ drop (Suc p) xs))"
proof (induction xs arbitrary: p)
  case (Cons x xs)
  show ?case
  proof (cases "k x = i")
    case True
    with Cons.prems have "p = 0" "i \<notin> k ` set xs" by auto
    with Cons.prems True show ?thesis by (auto simp: keyed_None [symmetric])
  next
    case False
    with Cons.prems obtain q where q: "position (\<lambda>x. k x = i) xs = Some q" "p = Suc q" by auto
    let ?rest = "take q xs @ drop (Suc q) xs"
    have tail: "distinct (map k xs)" using Cons.prems(2) by simp
    have IH: "keyed k ?rest = (keyed k xs)(i := None)" "distinct (map k ?rest)"
      using Cons.IH [OF q(1) tail] by blast+
    have "set ?rest \<subseteq> set xs"
      using set_take_subset [of q xs] set_drop_subset [of "Suc q" xs] by simp
    then have "k x \<notin> set (map k ?rest)" using Cons.prems(2) by auto
    moreover have "take p (x # xs) @ drop (Suc p) (x # xs) = x # ?rest" by (simp add: q(2))
    ultimately show ?thesis
      using IH False by (simp only: keyed_simps list.map distinct.simps) (auto simp: fun_eq_iff)
  qed
qed simp

lemma keyed_perm: "distinct (map k xs) \<Longrightarrow> set ys = set xs \<Longrightarrow> distinct (map k ys) \<Longrightarrow> keyed k ys = keyed k xs"
proof
  fix i
  assume d: "distinct (map k xs)" "set ys = set xs" "distinct (map k ys)"
  then have "keyed k ys i = Some x \<longleftrightarrow> keyed k xs i = Some x" for x
    by (simp add: keyed_Some)
  then show "keyed k ys i = keyed k xs i"
    by (cases "keyed k xs i"; cases "keyed k ys i") auto
qed

subsection \<open>Keyed replacement: retain the other keys, push the new entry\<close>

text \<open>
  Several operations keep a list with at most one entry per key and replace an entry by
  \<open>retain\<close> (drop the old entry, and possibly expired ones) followed by \<open>push\<close>. The locale
  states that interface once: \<open>upsert\<close> keeps the entries that \<open>keep\<close> selects, drops every
  entry of the new one's key, and appends the new one.
\<close>

locale keyed_upsert =
  fixes key :: "'a \<Rightarrow> 'k"
    and keep :: "'a \<Rightarrow> bool"
    and upsert :: "'a \<Rightarrow> 'a list \<Rightarrow> 'a list"
  assumes upsert_eq: "upsert x xs = filter (\<lambda>y. key y \<noteq> key x \<and> keep y) xs @ [x]"
begin

lemma upsert_member: "x \<in> set (upsert x xs)"
  by (simp add: upsert_eq)

lemma upsert_set: "set (upsert x xs) = insert x {y \<in> set xs. key y \<noteq> key x \<and> keep y}"
  by (auto simp: upsert_eq)

lemma upsert_distinct: "distinct (map key xs) \<Longrightarrow> distinct (map key (upsert x xs))"
  by (auto simp: upsert_eq distinct_map_filter)

lemma upsert_unique: "y \<in> set (upsert x xs) \<Longrightarrow> key y = key x \<Longrightarrow> y = x"
  by (auto simp: upsert_eq)

lemma upsert_find: "List.find (\<lambda>y. key y = key x) (upsert x xs) = Some x"
  by (auto simp: upsert_eq find_append split: option.splits dest: find_Some_in)

lemma upsert_find_other:
  "k \<noteq> key x \<Longrightarrow> (\<And>y. y \<in> set xs \<Longrightarrow> key y = k \<Longrightarrow> keep y) \<Longrightarrow>
   List.find (\<lambda>y. key y = k) (upsert x xs) = List.find (\<lambda>y. key y = k) xs"
proof -
  assume k: "k \<noteq> key x" and kept: "\<And>y. y \<in> set xs \<Longrightarrow> key y = k \<Longrightarrow> keep y"
  have "List.find (\<lambda>y. key y = k) (filter (\<lambda>y. key y \<noteq> key x \<and> keep y) xs) =
        List.find (\<lambda>y. key y = k) xs"
    using kept k by (induction xs) auto
  then show ?thesis
    using k by (simp add: upsert_eq find_append split: option.splits)
qed

lemma upsert_length: "length (upsert x xs) \<le> Suc (length xs)"
  by (simp add: upsert_eq)

end

subsection \<open>Machines with an invariant\<close>

text \<open>
  A deterministic machine: \<open>step s e\<close> is the next state and what the step emits. The locale
  asks that each step keeps an invariant, and gives it for whole runs.
\<close>

fun run_machine :: "('s \<Rightarrow> 'e \<Rightarrow> 's \<times> 'o list) \<Rightarrow> 's \<Rightarrow> 'e list \<Rightarrow> 's \<times> 'o list" where
  "run_machine step s [] = (s, [])"
| "run_machine step s (e # es) =
     (fst (run_machine step (fst (step s e)) es),
      snd (step s e) @ snd (run_machine step (fst (step s e)) es))"

lemma run_machine_snoc:
  "run_machine step s (es @ [e]) =
    (fst (step (fst (run_machine step s es)) e),
     snd (run_machine step s es) @ snd (step (fst (run_machine step s es)) e))"
  by (induction es arbitrary: s) simp_all

lemma run_machine_Cons:
  "run_machine step s (e # es) = (case step s e of (s', out) \<Rightarrow> case run_machine step s' es of (s'', outs) \<Rightarrow> (s'', out @ outs))"
  by (simp add: case_prod_beta)

locale invariant_machine =
  fixes step :: "'s \<Rightarrow> 'e \<Rightarrow> 's \<times> 'o list"
    and inv :: "'s \<Rightarrow> bool"
  assumes step_inv: "inv s \<Longrightarrow> inv (fst (step s e))"
begin

lemma run_inv: "inv s \<Longrightarrow> inv (fst (run_machine step s es))"
  by (induction es arbitrary: s) (simp_all add: step_inv)

lemma run_pred:
  assumes "\<And>s e. inv s \<Longrightarrow> list_all (P (fst (step s e))) (snd (step s e))"
    and "\<And>s e o'. inv s \<Longrightarrow> P s o' \<Longrightarrow> P (fst (step s e)) o'"
    and "inv s"
  shows "list_all (P (fst (run_machine step s es))) (snd (run_machine step s es))"
  using assms(3)
proof (induction es arbitrary: s rule: rev_induct)
  case Nil
  then show ?case by simp
next
  case (snoc e es)
  have inv: "inv (fst (run_machine step s es))"
    using snoc.prems by (rule run_inv)
  let ?t = "fst (run_machine step s es)"
  have "P (fst (step ?t e)) x" if "x \<in> set (snd (run_machine step s es))" for x
    using assms(2) [OF inv] snoc.IH [OF snoc.prems] that by (simp only: list_all_iff)
  moreover have "P (fst (step ?t e)) x" if "x \<in> set (snd (step ?t e))" for x
    using assms(1) [OF inv] that by (simp only: list_all_iff)
  ultimately show ?case
    unfolding run_machine_snoc list_all_iff by auto
qed

end

text \<open>A relation that every step respects and that composes holds over a whole run.\<close>

locale monotone_machine = invariant_machine +
  fixes rel :: "'s \<Rightarrow> 's \<Rightarrow> bool"
  assumes rel_refl: "rel s s"
    and rel_trans: "rel s t \<Longrightarrow> rel t u \<Longrightarrow> rel s u"
    and step_rel: "inv s \<Longrightarrow> rel s (fst (step s e))"
begin

lemma run_rel: "inv s \<Longrightarrow> rel s (fst (run_machine step s es))"
proof (induction es arbitrary: s)
  case Nil
  then show ?case by (simp add: rel_refl)
next
  case (Cons e es)
  from Cons.prems have "inv (fst (step s e))"
    by (rule step_inv)
  then have "rel (fst (step s e)) (fst (run_machine step (fst (step s e)) es))"
    by (rule Cons.IH)
  with step_rel [OF Cons.prems] show ?case
    unfolding run_machine.simps fst_conv by (rule rel_trans)
qed

end

text \<open>
  A machine whose state is explained by what it has emitted so far: then everything it emits is
  admissible after what came before.
\<close>

locale traced_machine =
  fixes step :: "'s \<Rightarrow> 'e \<Rightarrow> 's \<times> 'o list"
    and start :: 's
    and event_ok :: "'e \<Rightarrow> bool"
    and traced :: "'o list \<Rightarrow> 's \<Rightarrow> bool"
    and admissible :: "'o list \<Rightarrow> 'o \<Rightarrow> bool"
  assumes traced_start: "traced [] start"
    and traced_step: "traced tr s \<Longrightarrow> event_ok e \<Longrightarrow> traced (tr @ snd (step s e)) (fst (step s e))"
    and admissible_step: "traced tr s \<Longrightarrow> event_ok e \<Longrightarrow> snd (step s e) = xs @ x # ys \<Longrightarrow> admissible (tr @ xs) x"
begin

lemma run_traced:
  assumes "list_all event_ok es"
  shows "traced (snd (run_machine step start es)) (fst (run_machine step start es))"
  using assms by (induction es rule: rev_induct) (simp_all add: traced_start traced_step run_machine_snoc)

lemma run_admissible:
  assumes "list_all event_ok es" and "snd (run_machine step start es) = before @ x # after"
  shows "admissible before x"
  using assms
proof (induction es arbitrary: after rule: rev_induct)
  case (snoc e es)
  let ?tr = "snd (run_machine step start es)" and ?out = "snd (step (fst (run_machine step start es)) e)"
  from snoc.prems have ok: "list_all event_ok es" "event_ok e" by simp_all
  note tr = run_traced [OF ok(1)]
  from snoc.prems(2) have "?tr @ ?out = before @ x # after" by (simp add: run_machine_snoc)
  then consider us where "?tr = before @ us" "us @ ?out = x # after" | us where "before = ?tr @ us" "?out = us @ x # after"
    by (auto simp: append_eq_append_conv2)
  then show ?case
  proof cases
    case (1 us)
    show ?thesis
    proof (cases us)
      case Nil
      with 1 have "before = ?tr" "?out = [] @ x # after" by simp_all
      with admissible_step [OF tr ok(2), of "[]"] show ?thesis by simp
    next
      case (Cons y zs)
      with 1 have "?tr = before @ x # zs" by simp
      with snoc.IH [OF ok(1)] show ?thesis by blast
    qed
  next
    case (2 us)
    with admissible_step [OF tr ok(2)] show ?thesis by simp
  qed
qed simp

end

end
