(* ===== verification/Core_Time.thy ===== *)
theory Core_Time
  imports Prov_Prelude
begin

section \<open>Time values, wait budgets and retry delays (crate core)\<close>

text \<open>
  \<open>core/src/time.rs\<close> and \<open>core/src/retry.rs\<close>: instants and durations as exact microseconds,
  bounded waits, the virtual clock of simulations, and the capped exponential delay every
  retry of the program uses. The calendar library \<open>jiff\<close> is not part of the repository: which
  microsecond counts it accepts (\<open>jiff_ok\<close>), how it reads a text (\<open>jiff_parse\<close>) and how it
  prints an instant (\<open>jiff_show\<close>) are arguments of the definitions that call it.
\<close>

subsection \<open>Instants and durations\<close>

datatype time_error =
    Overflow
  | WallRange
  | WallSpelling
  | WaitLimit nat
  | HostClock

text \<open>A \<open>UtcMicros\<close> (\<open>WallTime\<close>) is its microsecond count, a \<open>MonoTime\<close> and a
  \<open>DurationMicros\<close> likewise.\<close>

type_synonym wall_time = i64
type_synonym mono_time = u64
type_synonym duration_micros = u64

definition from_micros :: "(i64 \<Rightarrow> bool) \<Rightarrow> i64 \<Rightarrow> time_error + wall_time" where
  "from_micros jiff_ok micros =
     (if micros < - 62167219200000000 then Inl WallRange
      else if jiff_ok micros then Inr micros
      else Inl WallRange)"

definition from_unix_seconds :: "(i64 \<Rightarrow> bool) \<Rightarrow> i64 \<Rightarrow> time_error + wall_time" where
  "from_unix_seconds jiff_ok seconds =
     (if is_i64 (seconds * 1000000) then from_micros jiff_ok (seconds * 1000000)
      else Inl WallRange)"

text \<open>Division that truncates towards zero, as Rust's \<open>/\<close> and jiff's whole units do.\<close>

definition trunc_div :: "int \<Rightarrow> int \<Rightarrow> int" where
  "trunc_div a b = sgn a * sgn b * (\<bar>a\<bar> div \<bar>b\<bar>)"

definition unix_seconds :: "wall_time \<Rightarrow> i64" where
  "unix_seconds t = trunc_div t 1000000"

definition unix_millis :: "wall_time \<Rightarrow> i64" where
  "unix_millis t = trunc_div t 1000"

text \<open>
  \<open>parse\<close> accepts only the spelling that \<open>Display\<close> writes. \<open>jiff_parse\<close> gives the microsecond
  count and the nanoseconds below a microsecond.
\<close>

definition parse ::
  "(string \<Rightarrow> (i64 \<times> i64) option) \<Rightarrow> (i64 \<Rightarrow> string) \<Rightarrow> (i64 \<Rightarrow> bool) \<Rightarrow> string \<Rightarrow> time_error + wall_time"
where
  "parse jiff_parse jiff_show jiff_ok txt =
     (case jiff_parse txt of
        None \<Rightarrow> Inl WallSpelling
      | Some (micros, sub_nanos) \<Rightarrow>
          if sub_nanos \<noteq> 0 then Inl WallRange
          else res_bind (from_micros jiff_ok micros) (\<lambda>value.
            if jiff_show value \<noteq> txt then Inl WallSpelling else Inr value))"

text \<open>Fractions beyond nine digits are cut before the text reaches \<open>jiff\<close>.\<close>

definition trim_fraction :: "string \<Rightarrow> string" where
  "trim_fraction txt =
     (case split_once CHR ''.'' txt of
        None \<Rightarrow> txt
      | Some (before, after) \<Rightarrow>
          let digits = length (takeWhile is_ascii_digit after)
          in if 9 < digits then before @ ''.'' @ take 9 after @ drop digits after else txt)"

definition parse_rfc3339 ::
  "(string \<Rightarrow> (i64 \<times> i64) option) \<Rightarrow> (i64 \<Rightarrow> bool) \<Rightarrow> string \<Rightarrow> time_error + wall_time"
where
  "parse_rfc3339 jiff_parse jiff_ok txt =
     (case jiff_parse (trim_fraction txt) of
        None \<Rightarrow> Inl WallSpelling
      | Some (micros, _) \<Rightarrow> from_micros jiff_ok micros)"

definition wall_checked_add ::
  "(i64 \<Rightarrow> bool) \<Rightarrow> wall_time \<Rightarrow> duration_micros \<Rightarrow> time_error + wall_time"
where
  "wall_checked_add jiff_ok t d =
     (if is_i64 (t + int d) then from_micros jiff_ok (t + int d) else Inl Overflow)"

definition duration_from_seconds :: "nat \<Rightarrow> time_error + duration_micros" where
  "duration_from_seconds seconds = ok_or Overflow (u64_checked_mul seconds 1000000)"

definition mono_checked_add :: "mono_time \<Rightarrow> duration_micros \<Rightarrow> time_error + mono_time" where
  "mono_checked_add t d = ok_or Overflow (u64_checked_add t d)"

definition is_expired :: "mono_time \<Rightarrow> mono_time \<Rightarrow> bool" where
  "is_expired deadline now \<longleftrightarrow> deadline \<le> now"

subsection \<open>Wait budgets\<close>

abbreviation MAX_LANE_RUNTIME_SECONDS :: nat where
  "MAX_LANE_RUNTIME_SECONDS \<equiv> 14400"

datatype wait_transport = Cli | Mcp

fun maximum_seconds :: "wait_transport \<Rightarrow> nat" where
  "maximum_seconds Cli = MAX_LANE_RUNTIME_SECONDS"
| "maximum_seconds Mcp = 55"

record wait_budget =
  wb_deadline :: mono_time
  wb_nonblocking :: bool

definition budget_nonblocking :: "mono_time \<Rightarrow> wait_budget" where
  "budget_nonblocking now = \<lparr>wb_deadline = now, wb_nonblocking = True\<rparr>"

definition budget_new ::
  "mono_time \<Rightarrow> duration_micros \<Rightarrow> wait_transport \<Rightarrow> time_error + wait_budget"
where
  "budget_new now d transport =
     (let maximum = maximum_seconds transport
      in if d < 1000000 \<or> maximum * 1000000 < d then Inl (WaitLimit maximum)
         else res_bind (mono_checked_add now d) (\<lambda>deadline.
           Inr \<lparr>wb_deadline = deadline, wb_nonblocking = False\<rparr>))"

definition budget_up_to :: "mono_time \<Rightarrow> duration_micros \<Rightarrow> wait_budget" where
  "budget_up_to now d =
     (let maximum = MAX_LANE_RUNTIME_SECONDS * 1000000
      in \<lparr>wb_deadline = (case mono_checked_add now (min d maximum) of
                            Inl _ \<Rightarrow> U64_MAX
                          | Inr deadline \<Rightarrow> deadline),
          wb_nonblocking = False\<rparr>)"

definition budget_cli :: "mono_time \<Rightarrow> nat \<Rightarrow> time_error + wait_budget" where
  "budget_cli now seconds =
     res_bind (duration_from_seconds seconds) (\<lambda>d. budget_new now d Cli)"

definition budget_mcp :: "mono_time \<Rightarrow> nat \<Rightarrow> time_error + wait_budget" where
  "budget_mcp now seconds =
     res_bind (duration_from_seconds seconds) (\<lambda>d. budget_new now d Mcp)"

definition cap_at :: "wait_budget \<Rightarrow> mono_time \<Rightarrow> wait_budget" where
  "cap_at b deadline = b\<lparr>wb_deadline := min (wb_deadline b) deadline\<rparr>"

definition remaining :: "wait_budget \<Rightarrow> mono_time \<Rightarrow> duration_micros" where
  "remaining b now = wb_deadline b - now"

subsection \<open>The virtual clock\<close>

record test_clock =
  tc_wall :: wall_time
  tc_mono :: mono_time

definition clock_shifted ::
  "(i64 \<Rightarrow> bool) \<Rightarrow> test_clock \<Rightarrow> duration_micros \<Rightarrow> time_error + test_clock"
where
  "clock_shifted jiff_ok c d =
     res_bind (wall_checked_add jiff_ok (tc_wall c) d) (\<lambda>wall.
     res_bind (mono_checked_add (tc_mono c) d) (\<lambda>mono.
       Inr \<lparr>tc_wall = wall, tc_mono = mono\<rparr>))"

text \<open>The mutating methods return the result and the clock they leave behind.\<close>

definition advance ::
  "(i64 \<Rightarrow> bool) \<Rightarrow> test_clock \<Rightarrow> duration_micros \<Rightarrow> (time_error + unit) \<times> test_clock"
where
  "advance jiff_ok c d =
     (case clock_shifted jiff_ok c d of Inl e \<Rightarrow> (Inl e, c) | Inr c' \<Rightarrow> (Inr (), c'))"

definition wait_until ::
  "(i64 \<Rightarrow> bool) \<Rightarrow> test_clock \<Rightarrow> mono_time \<Rightarrow> (time_error + unit) \<times> test_clock"
where
  "wait_until jiff_ok c deadline =
     (if tc_mono c < deadline then advance jiff_ok c (deadline - tc_mono c)
      else (Inr (), c))"

subsection \<open>Retry delays\<close>

text \<open>A \<open>std::time::Duration\<close> is its nanosecond count.\<close>

abbreviation DURATION_MAX :: nat where
  "DURATION_MAX \<equiv> 18446744073709551615999999999"

definition duration_saturating_mul :: "nat \<Rightarrow> nat \<Rightarrow> nat" where
  "duration_saturating_mul d k = min DURATION_MAX (d * k)"

definition duration_saturating_add :: "nat \<Rightarrow> nat \<Rightarrow> nat" where
  "duration_saturating_add d e = min DURATION_MAX (d + e)"

record backoff_policy =
  bo_first :: nat
  bo_factor :: nat
  bo_cap :: nat

text \<open>The loop \<open>for _ in 0..attempt\<close> with its early \<open>break\<close>.\<close>

fun delay_loop :: "backoff_policy \<Rightarrow> nat \<Rightarrow> nat \<Rightarrow> nat" where
  "delay_loop b 0 d = d"
| "delay_loop b (Suc n) d =
     (let next = min (duration_saturating_mul d (bo_factor b)) (bo_cap b)
      in if next = d then d else delay_loop b n next)"

definition delay :: "backoff_policy \<Rightarrow> nat \<Rightarrow> nat" where
  "delay b attempt = delay_loop b attempt (min (bo_first b) (bo_cap b))"

definition delay_with_jitter :: "backoff_policy \<Rightarrow> nat \<Rightarrow> nat \<Rightarrow> nat" where
  "delay_with_jitter b attempt jitter =
     min (duration_saturating_add (delay b attempt) jitter) (bo_cap b)"

text \<open>
  \<open>str::to_lowercase\<close> as far as a search for an ASCII word can tell: ASCII letters, and the
  two characters outside ASCII whose lower case contains an ASCII letter (the Kelvin sign,
  bytes E2 84 AA, and the dotted capital I, bytes C4 B0). Every other character lowers to
  characters outside ASCII and stays as it is here.
\<close>

fun to_lowercase :: "string \<Rightarrow> string" where
  "to_lowercase [] = []"
| "to_lowercase (c # cs) =
     (if 65 \<le> byte_of c \<and> byte_of c \<le> 90 then char_of (byte_of c + 32) # to_lowercase cs
      else if byte_of c = 226 \<and> take 2 cs = [char_of (132::nat), char_of (170::nat)]
      then CHR ''k'' # to_lowercase (drop 2 cs)
      else if byte_of c = 196 \<and> take 1 cs = [char_of (176::nat)]
      then CHR ''i'' # char_of (204::nat) # char_of (135::nat) # to_lowercase (drop 1 cs)
      else c # to_lowercase cs)"

datatype retry_cause =
    Contention
  | Timeout
  | Cancelled
  | Transport
  | Permanent
  | CommandOutput string string

definition transient_markers :: "string list" where
  "transient_markers =
     [''http 5'', ''http 429'', ''rate limit'', ''abuse detection'', ''timed out'', ''timeout'',
      ''connection reset'', ''connection refused'', ''unexpected eof'', ''no such host'',
      ''could not resolve host'', ''temporary failure'', ''tls handshake'',
      ''network is unreachable'', ''bad gateway'', ''service unavailable'']"

fun is_transient :: "retry_cause \<Rightarrow> bool" where
  "is_transient Contention = True"
| "is_transient Timeout = True"
| "is_transient Cancelled = True"
| "is_transient Transport = True"
| "is_transient Permanent = False"
| "is_transient (CommandOutput stderr stdout) =
     list_ex (\<lambda>marker. sublist marker (to_lowercase (stderr @ [char_of (10::nat)] @ stdout)))
       transient_markers"

subsection \<open>Retry delays: the loop against its closed form\<close>

lemma min_cap_mul: "min cap (min cap x * f) = min cap (x * f)" for x f cap :: nat
proof (cases "x \<le> cap")
  case False
  show ?thesis
  proof (cases f)
    case (Suc g)
    with False have "cap \<le> cap * f" "cap \<le> x * f"
      by (auto intro: trans_le_add1)
    with False show ?thesis by (simp add: min_def)
  qed simp
qed simp

lemma min_cap_power: "min cap (min cap x * f ^ n) = min cap (x * f ^ n)" for x f cap :: nat
  by (rule min_cap_mul)

lemma fixpoint_power:
  fixes d f cap :: nat
  assumes "min cap (d * f) = d"
  shows "min cap (d * f ^ n) = d"
proof (induction n)
  case 0
  then show ?case using assms by (simp add: min_def split: if_splits)
next
  case (Suc n)
  have "min cap (d * f ^ Suc n) = min cap ((d * f ^ n) * f)"
    by (simp add: ac_simps)
  also have "\<dots> = min cap (min cap (d * f ^ n) * f)"
    by (simp only: min_cap_mul)
  finally show ?case using Suc.IH assms by simp
qed

lemma delay_loop_closed:
  assumes "bo_cap b \<le> DURATION_MAX"
  shows "delay_loop b n d = (if n = 0 then d else min (bo_cap b) (d * bo_factor b ^ n))"
proof (induction n arbitrary: d)
  case (Suc n)
  define e where "e = min (bo_cap b) (d * bo_factor b)"
  have e: "min (duration_saturating_mul d (bo_factor b)) (bo_cap b) = e"
    using assms by (auto simp: duration_saturating_mul_def e_def min_def)
  have "min (bo_cap b) (d * bo_factor b ^ Suc n) = min (bo_cap b) (e * bo_factor b ^ n)"
    unfolding e_def by (simp only: min_cap_power mult.assoc power_Suc)
  then show ?case
    using Suc.IH [of e] fixpoint_power [of "bo_cap b" d "bo_factor b" "Suc n"]
    by (auto simp: e Let_def e_def [symmetric])
qed simp

lemma delay_eq:
  "bo_cap b \<le> DURATION_MAX \<Longrightarrow> delay b n = min (bo_cap b) (bo_first b * bo_factor b ^ n)"
  by (simp add: delay_def delay_loop_closed min_cap_power min.commute)

text \<open>
  the delay before attempt \<open>n\<close> is the first delay multiplied by the factor \<open>n\<close> times and
  capped. The loop's early exit and the saturation of each product at the largest duration
  never change that value. (The cap is a duration, so it is at most the largest one.)
\<close>

theorem delay_closed_form:
  assumes "bo_cap b \<le> DURATION_MAX"
  shows "delay b n = min (bo_cap b) (bo_first b * bo_factor b ^ n)"
  using assms by (rule delay_eq)

theorem delay_closed_form_witness:
  "delay \<lparr>bo_first = 5, bo_factor = 6, bo_cap = 120\<rparr> 2 = 120"
  using delay_closed_form [of "\<lparr>bo_first = 5, bo_factor = 6, bo_cap = 120\<rparr>" 2] by simp

lemma delay_le_cap: "bo_cap b \<le> DURATION_MAX \<Longrightarrow> delay b n \<le> bo_cap b"
  by (simp add: delay_eq)

lemma delay_mono:
  assumes "bo_cap b \<le> DURATION_MAX" and "1 \<le> bo_factor b" and "m \<le> n"
  shows "delay b m \<le> delay b n"
proof -
  have "bo_first b * bo_factor b ^ m \<le> bo_first b * bo_factor b ^ n"
    using assms by (simp add: power_increasing)
  then show ?thesis
    using assms(1) by (simp add: delay_eq min.coboundedI2 min_le_iff_disj)
qed

text \<open>
  a delay with jitter lies between the delay without it and the cap, and with a factor of
  at least one the delays never shrink from one attempt to a later one.
\<close>

theorem delay_bounds:
  assumes "bo_cap b \<le> DURATION_MAX" and "1 \<le> bo_factor b" and "m \<le> n"
  shows "delay b m \<le> delay b n \<and> delay b n \<le> delay_with_jitter b n j
    \<and> delay_with_jitter b n j \<le> bo_cap b"
  using delay_mono [OF assms] delay_le_cap [OF assms(1), of n] assms(1)
  by (auto simp: delay_with_jitter_def duration_saturating_add_def)

theorem delay_bounds_witness:
  "delay \<lparr>bo_first = 5, bo_factor = 6, bo_cap = 120\<rparr> 1 \<le> delay \<lparr>bo_first = 5, bo_factor = 6, bo_cap = 120\<rparr> 2
   \<and> delay_with_jitter \<lparr>bo_first = 5, bo_factor = 6, bo_cap = 120\<rparr> 2 7 \<le> 120"
  using delay_bounds [of "\<lparr>bo_first = 5, bo_factor = 6, bo_cap = 120\<rparr>" 1 2 7] by simp

subsection \<open>Waits\<close>



lemma budget_up_to_remaining:
  "now \<le> U64_MAX \<Longrightarrow>
   remaining (budget_up_to now d) now \<le> MAX_LANE_RUNTIME_SECONDS * 1000000"
  by (auto simp: budget_up_to_def mono_checked_add_def remaining_def Let_def ok_or_def
      split: option.splits)

text \<open>
  waiting on the virtual clock is all or nothing. When it succeeds the monotonic reading is
  the later of the deadline and the old reading, and the wall clock moved by the same amount;
  when the sum leaves the range of either clock, neither reading changes.
\<close>

theorem wait_until_atomic:
  "case wait_until jiff_ok c deadline of
     (Inr _, c') \<Rightarrow> tc_mono c' = max (tc_mono c) deadline
        \<and> tc_wall c' - tc_wall c = int (tc_mono c') - int (tc_mono c)
   | (Inl _, c') \<Rightarrow> c' = c \<and> tc_mono c < deadline"
  by (auto simp: wait_until_def advance_def clock_shifted_def wall_checked_add_def
      from_micros_def mono_checked_add_def ok_or_def split: sum.splits option.splits if_splits)

end
