(* ===== verification/Supervisor_Machine.thy ===== *)
theory Supervisor_Machine
  imports Prov_Prelude
begin

section \<open>The provider lifecycle machine (crate supervisor)\<close>

text \<open>
  \<open>supervisor/src/machine.rs\<close>: the pure machine that decides, from one event and one tick of
  observations, when a provider process may be signalled, when its exit is published and when
  the lane is done. Effects are values; the guardian loop applies them.
\<close>

subsection \<open>Data\<close>

abbreviation DEFAULT_DESCENDANT_GRACE_MS :: nat where
  "DEFAULT_DESCENDANT_GRACE_MS \<equiv> 500"

abbreviation DEFAULT_ROOT_FLUSH_MS :: nat where
  "DEFAULT_ROOT_FLUSH_MS \<equiv> 2000"

datatype termination_status = Exit int | Signal int

datatype phase =
    Prepared
  | Running
  | TerminalGrace
  | Stopping
  | Cleaning
  | Exited
  | Published

datatype stop_reason =
    ExplicitCancellation
  | WallDeadline
  | ProtocolRejected
  | SupervisorSignal
  | PostTerminalCleanup
  | TokenBudget

datatype delivery_failure =
    IdentityChanged
  | NotOwned
  | NoSuchProcess
  | PermissionDenied
  | OsError int

datatype delivery_outcome = Delivered | Failed delivery_failure

record stop_attempt =
  sa_reason :: stop_reason
  sa_delivery :: "delivery_outcome option"

datatype cleanup_observation =
    CleanupUnknown
  | CleanupPending
  | DescendantsPresent
  | Unresolved
  | Complete

datatype publication_failure = NoSpace | IoError int | ReservationUnavailable

datatype publication_outcome =
    Durable
  | PublicationPending publication_failure
  | VisibleDurabilityUnconfirmed publication_failure

datatype deadline_kind = Wall | RootFlush | DescendantGrace

datatype effect =
    CloseStdin
  | BeginCleanup termination_status
  | DeliverStop stop_reason
  | PublishExit
  | RetryExitPublication
  | RetryPublishedDirectorySync
  | DeadlineUnavailable deadline_kind
  | RejectDeliveryReceipt stop_reason

record budgets =
  wall_deadline_ms :: u64
  root_flush_ms :: u64
  descendant_grace_ms :: u64

definition budgets_new :: "u64 \<Rightarrow> budgets" where
  "budgets_new wall = \<lparr>wall_deadline_ms = wall, root_flush_ms = DEFAULT_ROOT_FLUSH_MS,
     descendant_grace_ms = DEFAULT_DESCENDANT_GRACE_MS\<rparr>"

definition with_cleanup :: "u64 \<Rightarrow> u64 \<Rightarrow> u64 \<Rightarrow> budgets" where
  "with_cleanup wall flush grace = \<lparr>wall_deadline_ms = wall, root_flush_ms = flush,
     descendant_grace_ms = grace\<rparr>"

record state =
  st_phase :: phase
  st_budgets :: budgets
  root_flush_deadline_ms :: "u64 option"
  descendant_deadline_ms :: "u64 option"
  st_exit :: "termination_status option"
  never_spawned_reason :: "stop_reason option"
  stop_attempts :: "stop_attempt list"
  st_publication :: "publication_outcome option"
  last_progress_ms :: "u64 option"

definition extend_wall_deadline :: "state \<Rightarrow> u64 \<Rightarrow> state" where
  "extend_wall_deadline s ms = s\<lparr>st_budgets := (st_budgets s)
     \<lparr>wall_deadline_ms := u64_saturating_add (wall_deadline_ms (st_budgets s)) ms\<rparr>\<rparr>"

definition prepared :: "budgets \<Rightarrow> state" where
  "prepared b = \<lparr>st_phase = Prepared, st_budgets = b, root_flush_deadline_ms = None,
     descendant_deadline_ms = None, st_exit = None, never_spawned_reason = None,
     stop_attempts = [], st_publication = None, last_progress_ms = None\<rparr>"

definition never_spawned :: state where
  "never_spawned = (prepared (budgets_new 0))\<lparr>st_phase := Exited\<rparr>"

text \<open>Time until a lifecycle deadline that can change the next decision.\<close>

definition deadline_in_ms :: "state \<Rightarrow> u64 \<Rightarrow> u64 \<Rightarrow> u64 option" where
  "deadline_in_ms s now wall =
     (let wall_left =
            (if st_phase s \<in> {Prepared, Running, TerminalGrace}
             then Some (wall_deadline_ms (st_budgets s) - max now wall) else None);
          flush_left =
            (if st_phase s = TerminalGrace
             then map_option (\<lambda>deadline. deadline - now) (root_flush_deadline_ms s) else None)
      in (case (wall_left, flush_left) of
            (Some a, Some b) \<Rightarrow> Some (min a b)
          | (Some a, None) \<Rightarrow> Some a
          | (None, b) \<Rightarrow> b))"

definition timed_out :: "state \<Rightarrow> bool" where
  "timed_out s = list_ex (\<lambda>a. sa_reason a = WallDeadline \<and> sa_delivery a = Some Delivered)
     (stop_attempts s)"

datatype event =
    Started
  | Progress
  | Terminal
  | Cancel
  | EvProtocolRejected
  | EvSupervisorSignal
  | EvTokenBudget
  | RetryStop stop_reason
  | Silence
  | CaptureFailure
  | ObservationFailure

record delivery_receipt =
  dr_reason :: stop_reason
  dr_outcome :: delivery_outcome

record tick =
  now_ms :: u64
  wall_ms :: u64
  observed_exit :: "termination_status option"
  tk_delivery :: "delivery_receipt option"
  tk_cleanup :: "cleanup_observation option"
  tk_publication :: "publication_outcome option"

definition tick_at :: "u64 \<Rightarrow> tick" where
  "tick_at now = \<lparr>now_ms = now, wall_ms = 0, observed_exit = None, tk_delivery = None,
     tk_cleanup = None, tk_publication = None\<rparr>"

subsection \<open>Stop requests\<close>

text \<open>Both return the new state and the effects they push.\<close>

definition request_stop :: "state \<Rightarrow> stop_reason \<Rightarrow> state \<times> effect list" where
  "request_stop s reason =
     (if st_phase s = Stopping \<or> (st_phase s = Cleaning \<and> reason \<noteq> PostTerminalCleanup)
      then (s, [])
      else
        let s1 = s\<lparr>st_phase := Stopping\<rparr>
        in (case List.find (\<lambda>a. sa_reason a = reason) (stop_attempts s1) of
              Some a \<Rightarrow>
                if sa_delivery a \<noteq> None then (s1, []) else (s1, [DeliverStop reason])
            | None \<Rightarrow>
                (s1\<lparr>stop_attempts := stop_attempts s1 @ [\<lparr>sa_reason = reason, sa_delivery = None\<rparr>]\<rparr>,
                 [DeliverStop reason])))"

definition retry_stop :: "state \<Rightarrow> stop_reason \<Rightarrow> state \<times> effect list" where
  "retry_stop s reason =
     (if st_phase s \<noteq> Stopping then (s, [])
      else if List.find (\<lambda>a. sa_reason a = reason) (stop_attempts s) \<noteq> None
      then (s\<lparr>stop_attempts := update_first (\<lambda>a. sa_reason a = reason)
                (\<lambda>a. a\<lparr>sa_delivery := None\<rparr>) (stop_attempts s)\<rparr>, [DeliverStop reason])
      else (s, []))"

subsection \<open>The step\<close>

text \<open>The delivery receipt, which every step applies first.\<close>

definition apply_receipt :: "state \<Rightarrow> delivery_receipt option \<Rightarrow> state \<times> effect list" where
  "apply_receipt s receipt =
     (case receipt of
        None \<Rightarrow> (s, [])
      | Some r \<Rightarrow>
          if List.find (\<lambda>a. sa_reason a = dr_reason r) (stop_attempts s) \<noteq> None
          then (s\<lparr>stop_attempts := update_first (\<lambda>a. sa_reason a = dr_reason r)
                    (\<lambda>a. a\<lparr>sa_delivery := Some (dr_outcome r)\<rparr>) (stop_attempts s)\<rparr>, [])
          else (s, [RejectDeliveryReceipt (dr_reason r)]))"

text \<open>A leader that exited while it ran, flushed or was being stopped.\<close>

definition observe_exit :: "state \<Rightarrow> termination_status \<Rightarrow> u64 \<Rightarrow> state \<times> effect list" where
  "observe_exit s exit_status now =
     (let deadline = u64_checked_add now (descendant_grace_ms (st_budgets s))
      in (s\<lparr>st_exit := Some exit_status, st_phase := Cleaning, descendant_deadline_ms := deadline\<rparr>,
          (if deadline = None then [DeadlineUnavailable DescendantGrace] else [])
            @ [BeginCleanup exit_status]))"

definition exited_step :: "state \<Rightarrow> tick \<Rightarrow> state \<times> effect list" where
  "exited_step s t =
     (case tk_publication t of
        None \<Rightarrow> (s, [])
      | Some p \<Rightarrow>
          let s1 = s\<lparr>st_publication := Some p\<rparr>
          in (case p of
                Durable \<Rightarrow> (s1\<lparr>st_phase := Published\<rparr>, [])
              | PublicationPending _ \<Rightarrow> (s1, [RetryExitPublication])
              | VisibleDurabilityUnconfirmed _ \<Rightarrow> (s1, [RetryPublishedDirectorySync])))"

definition prepared_step :: "state \<Rightarrow> event \<Rightarrow> state \<times> effect list" where
  "prepared_step s ev =
     (case ev of
        Started \<Rightarrow> (s\<lparr>st_phase := Running\<rparr>, [])
      | Cancel \<Rightarrow>
          (s\<lparr>st_phase := Exited, never_spawned_reason := Some ExplicitCancellation\<rparr>, [PublishExit])
      | EvSupervisorSignal \<Rightarrow>
          (s\<lparr>st_phase := Exited, never_spawned_reason := Some SupervisorSignal\<rparr>, [PublishExit])
      | _ \<Rightarrow> (s, []))"

definition running_step :: "state \<Rightarrow> event \<Rightarrow> tick \<Rightarrow> state \<times> effect list" where
  "running_step s ev t =
     (case ev of
        Progress \<Rightarrow> (s\<lparr>last_progress_ms := Some (now_ms t)\<rparr>, [])
      | Terminal \<Rightarrow>
          let deadline = u64_checked_add (now_ms t) (root_flush_ms (st_budgets s))
          in (s\<lparr>st_phase := TerminalGrace, root_flush_deadline_ms := deadline\<rparr>,
              CloseStdin # (if deadline = None then [DeadlineUnavailable RootFlush] else []))
      | Cancel \<Rightarrow> request_stop s ExplicitCancellation
      | EvProtocolRejected \<Rightarrow> request_stop s ProtocolRejected
      | EvSupervisorSignal \<Rightarrow> request_stop s SupervisorSignal
      | EvTokenBudget \<Rightarrow> request_stop s TokenBudget
      | _ \<Rightarrow> (s, []))"

definition terminal_grace_step :: "state \<Rightarrow> event \<Rightarrow> tick \<Rightarrow> state \<times> effect list" where
  "terminal_grace_step s ev t =
     (let s1 = (if ev = Progress then s\<lparr>last_progress_ms := Some (now_ms t)\<rparr> else s)
      in if is_some_and (root_flush_deadline_ms s1) (\<lambda>deadline. deadline \<le> now_ms t)
         then request_stop s1 PostTerminalCleanup
         else (case ev of
                 Cancel \<Rightarrow> request_stop s1 ExplicitCancellation
               | EvProtocolRejected \<Rightarrow> request_stop s1 ProtocolRejected
               | EvSupervisorSignal \<Rightarrow> request_stop s1 SupervisorSignal
               | RetryStop reason \<Rightarrow> retry_stop s1 reason
               | _ \<Rightarrow> (s1, [])))"

definition stopping_step :: "state \<Rightarrow> event \<Rightarrow> tick \<Rightarrow> state \<times> effect list" where
  "stopping_step s ev t =
     (let (s1, out) = (case ev of RetryStop reason \<Rightarrow> retry_stop s reason | _ \<Rightarrow> (s, []))
      in if st_exit s1 \<noteq> None \<and> tk_cleanup t = Some Complete
         then (s1\<lparr>st_phase := Exited\<rparr>, out @ [PublishExit])
         else (s1, out))"

definition cleaning_step :: "state \<Rightarrow> tick \<Rightarrow> state \<times> effect list" where
  "cleaning_step s t =
     (if tk_cleanup t \<in> {Some Complete, Some Unresolved}
      then (s\<lparr>st_phase := Exited\<rparr>, [PublishExit])
      else if tk_cleanup t = Some DescendantsPresent
           \<and> is_some_and (descendant_deadline_ms s) (\<lambda>deadline. deadline \<le> now_ms t)
      then request_stop s PostTerminalCleanup
      else (s, []))"

text \<open>Everything after the delivery receipt, in the order of the source's early returns.\<close>

definition step_core :: "state \<Rightarrow> event \<Rightarrow> tick \<Rightarrow> state \<times> effect list" where
  "step_core s ev t =
     (case (observed_exit t, st_phase s \<in> {Running, TerminalGrace, Stopping}) of
        (Some exit_status, True) \<Rightarrow> observe_exit s exit_status (now_ms t)
      | _ \<Rightarrow>
          if st_phase s = Published then (s, [])
          else if st_phase s = Exited then exited_step s t
          else if st_phase s = Prepared \<and> wall_deadline_ms (st_budgets s) \<le> now_ms t
          then (s\<lparr>st_phase := Exited, never_spawned_reason := Some WallDeadline\<rparr>, [PublishExit])
          else if st_phase s \<in> {Running, TerminalGrace}
               \<and> wall_deadline_ms (st_budgets s) \<le> max (now_ms t) (wall_ms t)
          then request_stop s WallDeadline
          else (case st_phase s of
                  Prepared \<Rightarrow> prepared_step s ev
                | Running \<Rightarrow> running_step s ev t
                | TerminalGrace \<Rightarrow> terminal_grace_step s ev t
                | Stopping \<Rightarrow> stopping_step s ev t
                | Cleaning \<Rightarrow> cleaning_step s t
                | Exited \<Rightarrow> (s, [])
                | Published \<Rightarrow> (s, [])))"

definition step :: "state \<Rightarrow> event \<Rightarrow> tick \<Rightarrow> state \<times> effect list" where
  "step s ev t =
     (let (s1, pre) = apply_receipt s (tk_delivery t); (s2, out) = step_core s1 ev t
      in (s2, pre @ out))"

text \<open>
  The guardian alternates \<open>step\<close> with deadline extensions for time the lane spent queued for a
  build slot. A run is a list of these actions.
\<close>

datatype action = Act event tick | Extend u64

fun act :: "state \<Rightarrow> action \<Rightarrow> state \<times> effect list" where
  "act s (Act ev t) = step s ev t"
| "act s (Extend ms) = (extend_wall_deadline s ms, [])"

subsection \<open>Well-formed states\<close>

text \<open>
  What the phase says about the rest of the state: no stop attempt and no exit before a stop or
  an exit observation, one attempt per reason, a recorded exit or a reason for never spawning
  once the phase is \<open>Exited\<close>, and a durable publication exactly when the phase is \<open>Published\<close>.
\<close>

definition has_exited :: "state \<Rightarrow> bool" where
  "has_exited s \<longleftrightarrow> st_phase s \<in> {Exited, Published}"

definition wf_state :: "state \<Rightarrow> bool" where
  "wf_state s \<longleftrightarrow>
     distinct (map sa_reason (stop_attempts s))
   \<and> (st_phase s \<in> {Prepared, Running, TerminalGrace} \<longrightarrow> stop_attempts s = [] \<and> st_exit s = None)
   \<and> (st_phase s = Stopping \<longrightarrow> stop_attempts s \<noteq> [])
   \<and> (st_phase s = Cleaning \<longrightarrow> st_exit s \<noteq> None)
   \<and> (if has_exited s then (never_spawned_reason s \<noteq> None \<longleftrightarrow> st_exit s = None)
      else never_spawned_reason s = None \<and> st_publication s = None)
   \<and> (st_publication s = Some Durable \<longleftrightarrow> st_phase s = Published)"

fun rank :: "phase \<Rightarrow> nat" where
  "rank Prepared = 0"
| "rank Running = 1"
| "rank TerminalGrace = 2"
| "rank Stopping = 3"
| "rank Cleaning = 3"
| "rank Exited = 4"
| "rank Published = 5"

text \<open>No step undoes progress: the phase rank, a recorded exit and the set of stop reasons.\<close>

definition advances :: "state \<Rightarrow> state \<Rightarrow> bool" where
  "advances s s' \<longleftrightarrow> rank (st_phase s) \<le> rank (st_phase s')
     \<and> (st_exit s \<noteq> None \<longrightarrow> st_exit s' \<noteq> None)
     \<and> sa_reason ` set (stop_attempts s) \<subseteq> sa_reason ` set (stop_attempts s')
     \<and> (has_exited s \<longrightarrow> st_exit s' = st_exit s \<and> never_spawned_reason s' = never_spawned_reason s)"

lemmas phase_step_defs =
  exited_step_def prepared_step_def running_step_def terminal_grace_step_def stopping_step_def
  cleaning_step_def observe_exit_def

lemmas stop_defs = request_stop_def retry_stop_def

lemma sa_reasons_update_first [simp]:
  "map sa_reason (update_first p (\<lambda>a. a\<lparr>sa_delivery := d\<rparr>) xs) = map sa_reason xs"
  "sa_reason ` set (update_first p (\<lambda>a. a\<lparr>sa_delivery := d\<rparr>) xs) = sa_reason ` set xs"
proof -
  show eq: "map sa_reason (update_first p (\<lambda>a. a\<lparr>sa_delivery := d\<rparr>) xs) = map sa_reason xs"
    by (rule update_first_map) simp
  show "sa_reason ` set (update_first p (\<lambda>a. a\<lparr>sa_delivery := d\<rparr>) xs) = sa_reason ` set xs"
    using arg_cong [OF eq, of set] by simp
qed

lemma update_first_Nil_iff [simp]: "update_first p f xs = [] \<longleftrightarrow> xs = []"
  by (cases xs) auto

lemma find_reason_None: "List.find (\<lambda>a. sa_reason a = r) xs = None \<longleftrightarrow> r \<notin> sa_reason ` set xs"
  by (auto simp: find_None_iff)

lemma apply_receipt_state:
  "\<exists>xs. fst (apply_receipt s r) = s\<lparr>stop_attempts := xs\<rparr>
      \<and> map sa_reason xs = map sa_reason (stop_attempts s)"
  by (cases r) (auto simp: apply_receipt_def intro: exI [of _ "stop_attempts s"])

lemma apply_receipt_effects: "set (snd (apply_receipt s r)) \<subseteq> range RejectDeliveryReceipt"
  by (cases r) (auto simp: apply_receipt_def)

lemma step_split:
  obtains xs where "map sa_reason xs = map sa_reason (stop_attempts s)"
    and "fst (apply_receipt s (tk_delivery t)) = s\<lparr>stop_attempts := xs\<rparr>"
    and "fst (step s ev t) = fst (step_core (s\<lparr>stop_attempts := xs\<rparr>) ev t)"
    and "snd (step s ev t) =
           snd (apply_receipt s (tk_delivery t)) @ snd (step_core (s\<lparr>stop_attempts := xs\<rparr>) ev t)"
proof -
  obtain xs where xs: "fst (apply_receipt s (tk_delivery t)) = s\<lparr>stop_attempts := xs\<rparr>"
    "map sa_reason xs = map sa_reason (stop_attempts s)"
    using apply_receipt_state [of s "tk_delivery t"] by blast
  then show thesis
    by (intro that [of xs]) (simp_all add: step_def split_beta)
qed

lemma wf_stopping:
  "wf_state s \<Longrightarrow> \<not> has_exited s \<Longrightarrow> distinct (map sa_reason xs) \<Longrightarrow> xs \<noteq> [] \<Longrightarrow>
   wf_state (s\<lparr>st_phase := Stopping, stop_attempts := xs\<rparr>)"
  by (simp add: wf_state_def has_exited_def)

lemma wf_request_stop:
  assumes wf: "wf_state s" and phase: "st_phase s \<in> {Running, TerminalGrace, Cleaning}"
  shows "wf_state (fst (request_stop s r))"
proof -
  have go: "\<not> (st_phase s = Stopping)" "\<not> has_exited s" "distinct (map sa_reason (stop_attempts s))"
    using wf phase by (auto simp: has_exited_def wf_state_def)
  show ?thesis
  proof (cases "List.find (\<lambda>a. sa_reason a = r) (stop_attempts s)")
    case None
    then have "distinct (map sa_reason (stop_attempts s @ [\<lparr>sa_reason = r, sa_delivery = None\<rparr>]))"
      using go by (auto simp: find_reason_None)
    with wf_stopping [OF wf go(2)] None go(1) wf show ?thesis
      by (simp add: request_stop_def Let_def)
  next
    case (Some a)
    then have "stop_attempts s \<noteq> []" by auto
    with wf_stopping [OF wf go(2,3)] Some go(1) wf show ?thesis
      by (simp add: request_stop_def Let_def)
  qed
qed

lemma wf_retry_stop: "wf_state s \<Longrightarrow> wf_state (fst (retry_stop s r))"
  by (auto simp: wf_state_def retry_stop_def has_exited_def)

lemma wf_attempts:
  "wf_state s \<Longrightarrow> map sa_reason xs = map sa_reason (stop_attempts s) \<Longrightarrow>
   wf_state (s\<lparr>stop_attempts := xs\<rparr>)"
  by (auto simp: wf_state_def has_exited_def)

lemma retry_stop_phase [simp]: "st_phase (fst (retry_stop s r)) = st_phase s"
  by (simp add: retry_stop_def)

lemma wf_cleaning:
  "wf_state s \<Longrightarrow> st_phase s \<in> {Running, TerminalGrace, Stopping} \<Longrightarrow>
   wf_state (s\<lparr>st_exit := Some x, st_phase := Cleaning, descendant_deadline_ms := d\<rparr>)"
  unfolding wf_state_def has_exited_def by auto

lemma wf_exited:
  "wf_state s \<Longrightarrow> st_phase s \<in> {Stopping, Cleaning} \<Longrightarrow> st_exit s \<noteq> None \<Longrightarrow>
   wf_state (s\<lparr>st_phase := Exited\<rparr>)"
  unfolding wf_state_def has_exited_def by auto

lemma wf_never_spawned:
  "wf_state s \<Longrightarrow> st_phase s = Prepared \<Longrightarrow>
   wf_state (s\<lparr>st_phase := Exited, never_spawned_reason := Some r\<rparr>)"
  unfolding wf_state_def has_exited_def by auto

lemma wf_running:
  "wf_state s \<Longrightarrow> st_phase s = Prepared \<Longrightarrow> wf_state (s\<lparr>st_phase := Running\<rparr>)"
  "wf_state s \<Longrightarrow> st_phase s = Running \<Longrightarrow>
   wf_state (s\<lparr>st_phase := TerminalGrace, root_flush_deadline_ms := d\<rparr>)"
  "wf_state s \<Longrightarrow> wf_state (s\<lparr>last_progress_ms := p\<rparr>)"
  unfolding wf_state_def has_exited_def by auto

lemma wf_publication:
  "wf_state s \<Longrightarrow> st_phase s = Exited \<Longrightarrow>
   wf_state (s\<lparr>st_publication := Some Durable, st_phase := Published\<rparr>)"
  "wf_state s \<Longrightarrow> st_phase s = Exited \<Longrightarrow> p \<noteq> Durable \<Longrightarrow>
   wf_state (s\<lparr>st_publication := Some p\<rparr>)"
  unfolding wf_state_def has_exited_def by auto

lemmas wf_updates =
  wf_cleaning wf_exited wf_never_spawned wf_running wf_publication wf_request_stop wf_retry_stop

lemma wf_step_core:
  assumes wf: "wf_state s"
  shows "wf_state (fst (step_core s ev t))"
proof (cases "st_phase s")
  case Prepared
  with wf show ?thesis
    by (cases ev) (simp_all add: step_core_def prepared_step_def wf_updates split: option.split)
next
  case Running
  with wf show ?thesis
    by (cases ev) (simp_all add: step_core_def running_step_def observe_exit_def Let_def
        wf_updates split: option.split)
next
  case TerminalGrace
  with wf show ?thesis
    by (cases ev) (simp_all add: step_core_def terminal_grace_step_def observe_exit_def Let_def
        wf_updates split: option.split)
next
  case Stopping
  with wf show ?thesis
    by (cases ev) (simp_all add: step_core_def stopping_step_def observe_exit_def split_beta
        wf_updates split: option.split)
next
  case Cleaning
  then have "st_exit s \<noteq> None"
    using wf by (simp add: wf_state_def)
  with wf Cleaning show ?thesis
    by (simp add: step_core_def cleaning_step_def wf_updates split: option.split)
next
  case Exited
  with wf show ?thesis
    by (simp add: step_core_def exited_step_def Let_def wf_updates
        split: option.split publication_outcome.split)
next
  case Published
  with wf show ?thesis
    by (simp add: step_core_def split: option.split)
qed

lemma wf_act: "wf_state s \<Longrightarrow> wf_state (fst (act s a))"
proof (cases a)
  case (Act ev t)
  assume wf: "wf_state s"
  obtain xs where "map sa_reason xs = map sa_reason (stop_attempts s)"
    and "fst (step s ev t) = fst (step_core (s\<lparr>stop_attempts := xs\<rparr>) ev t)"
    by (rule step_split)
  then show ?thesis
    using wf Act by (simp add: wf_step_core wf_attempts)
next
  case (Extend ms)
  then show "wf_state s \<Longrightarrow> ?thesis"
    by (auto simp: extend_wall_deadline_def wf_state_def has_exited_def)
qed

subsection \<open>Progress\<close>

lemma advances_refl [simp]: "advances s s"
  by (simp add: advances_def)

lemma advances_trans: "advances s t \<Longrightarrow> advances t u \<Longrightarrow> advances s u"
proof -
  assume "advances s t" and "advances t u"
  moreover have "has_exited s \<Longrightarrow> rank (st_phase s) \<le> rank (st_phase t) \<Longrightarrow> has_exited t"
    by (cases "st_phase s"; cases "st_phase t") (simp_all add: has_exited_def)
  ultimately show ?thesis
    by (auto simp: advances_def)
qed

lemma advances_request_stop:
  "st_phase s \<in> {Running, TerminalGrace, Cleaning} \<Longrightarrow> advances s (fst (request_stop s r))"
  by (auto simp: advances_def request_stop_def has_exited_def Let_def split: option.split)

lemma advances_retry_stop: "advances s (fst (retry_stop s r))"
  by (auto simp: advances_def retry_stop_def)

lemma advances_update:
  "rank (st_phase s) \<le> rank (st_phase s') \<Longrightarrow> stop_attempts s' = stop_attempts s \<Longrightarrow>
   (st_exit s \<noteq> None \<Longrightarrow> st_exit s' \<noteq> None) \<Longrightarrow>
   (has_exited s \<Longrightarrow> st_exit s' = st_exit s \<and> never_spawned_reason s' = never_spawned_reason s) \<Longrightarrow>
   advances s s'"
  by (auto simp: advances_def)

lemma advances_progress: "advances s (fst (request_stop (s\<lparr>last_progress_ms := p\<rparr>) r))"
  if "st_phase s = TerminalGrace"
  using advances_request_stop [of "s\<lparr>last_progress_ms := p\<rparr>" r] that
  by (simp add: advances_def has_exited_def)

lemma advances_stopping:
  assumes "st_phase s = Stopping"
  shows "advances s (fst (stopping_step s ev t))"
proof -
  obtain s1 out where s1: "(case ev of RetryStop r \<Rightarrow> retry_stop s r | _ \<Rightarrow> (s, [])) = (s1, out)"
    by fastforce
  then have "s1 = s \<or> (\<exists>r. s1 = fst (retry_stop s r))"
    by (cases ev) (auto simp: eq_fst_iff)
  then have "advances s s1 \<and> st_phase s1 = Stopping"
    using assms advances_retry_stop by auto
  then have "advances s s1" and "advances s (s1\<lparr>st_phase := Exited\<rparr>)"
    using assms by (auto simp: advances_def has_exited_def)
  then show ?thesis
    by (simp add: stopping_step_def s1)
qed

lemma advances_step_core: "advances s (fst (step_core s ev t))"
proof (cases "st_phase s")
  case Prepared
  then show ?thesis
    by (cases ev) (auto simp: step_core_def prepared_step_def has_exited_def
        intro: advances_update split: option.split)
next
  case Running
  then show ?thesis
    by (cases ev) (auto simp: step_core_def running_step_def observe_exit_def Let_def has_exited_def
        intro!: advances_request_stop intro: advances_update split: option.split)
next
  case TerminalGrace
  then show ?thesis
    by (cases ev) (auto simp: step_core_def terminal_grace_step_def observe_exit_def Let_def
        has_exited_def advances_progress
        intro!: advances_request_stop advances_retry_stop intro: advances_update split: option.split)
next
  case Stopping
  then show ?thesis
    by (auto simp: step_core_def advances_stopping observe_exit_def Let_def has_exited_def
        intro: advances_update split: option.split)
next
  case Cleaning
  then show ?thesis
    by (auto simp: step_core_def cleaning_step_def has_exited_def
        intro!: advances_request_stop intro: advances_update split: option.split)
next
  case Exited
  then show ?thesis
    by (auto simp: step_core_def exited_step_def has_exited_def Let_def intro!: advances_update
        split: option.split publication_outcome.split)
next
  case Published
  then show ?thesis
    by (simp add: step_core_def split: option.split)
qed

lemma advances_attempts:
  assumes "map sa_reason xs = map sa_reason (stop_attempts s)"
  shows "advances s (s\<lparr>stop_attempts := xs\<rparr>)"
  using arg_cong [OF assms, of set] by (simp add: advances_def)

lemma advances_act: "advances s (fst (act s a))"
proof (cases a)
  case (Act ev t)
  obtain xs where "map sa_reason xs = map sa_reason (stop_attempts s)"
    and "fst (step s ev t) = fst (step_core (s\<lparr>stop_attempts := xs\<rparr>) ev t)"
    by (rule step_split)
  then show ?thesis
    using Act advances_trans [OF advances_attempts advances_step_core] by simp
next
  case (Extend ms)
  then show ?thesis
    by (auto simp: extend_wall_deadline_def intro: advances_update)
qed

interpretation lifecycle: monotone_machine act wf_state advances
  by unfold_locales (auto simp: wf_act advances_act intro: advances_trans)

lemma wf_prepared [simp]: "wf_state (prepared b)"
  by (simp add: prepared_def wf_state_def has_exited_def)

subsection \<open>Effects of one step\<close>

lemma request_stop_effects:
  "set (snd (request_stop s r)) \<subseteq> {DeliverStop r}"
  by (auto simp: request_stop_def Let_def split: option.split)

lemma retry_stop_effects:
  "x \<in> set (snd (retry_stop s r)) \<longleftrightarrow>
   x = DeliverStop r \<and> st_phase s = Stopping \<and> r \<in> sa_reason ` set (stop_attempts s)"
  using find_reason_None [of r "stop_attempts s"] by (auto simp: retry_stop_def)

lemma count_stop_effects [simp]:
  "count_list (snd (request_stop s r)) PublishExit = 0"
  "count_list (snd (retry_stop s r)) PublishExit = 0"
  by (auto simp: request_stop_def retry_stop_def Let_def split: option.split)

lemma count_receipt_effects [simp]:
  "count_list (snd (apply_receipt s d)) PublishExit = 0"
  by (cases d) (auto simp: apply_receipt_def)

lemma request_stop_not_exited [simp]:
  "\<not> has_exited s \<Longrightarrow> \<not> has_exited (fst (request_stop s r))"
  by (auto simp: request_stop_def has_exited_def Let_def split: option.split)

lemma has_exited_cong [simp]:
  "has_exited (s\<lparr>last_progress_ms := p\<rparr>) = has_exited s"
  "has_exited (s\<lparr>stop_attempts := xs\<rparr>) = has_exited s"
  "has_exited (s\<lparr>st_budgets := b\<rparr>) = has_exited s"
  "has_exited (fst (retry_stop s r)) = has_exited s"
  by (simp_all add: has_exited_def)

lemma publish_count_step_core:
  "count_list (snd (step_core s ev t)) PublishExit + of_bool (has_exited s) =
   of_bool (has_exited (fst (step_core s ev t)))"
proof (cases "st_phase s")
  case Prepared
  then show ?thesis
    by (cases ev) (simp_all add: step_core_def prepared_step_def has_exited_def split: option.split)
next
  case Running
  then have "\<not> has_exited s" by (simp add: has_exited_def)
  with Running show ?thesis
    by (cases ev) (simp_all add: step_core_def running_step_def observe_exit_def Let_def
        has_exited_def [of "s\<lparr>st_phase := p, root_flush_deadline_ms := d\<rparr>" for p d]
        has_exited_def [of "s\<lparr>st_exit := x, st_phase := p, descendant_deadline_ms := d\<rparr>" for x p d]
        split: option.split)
next
  case TerminalGrace
  then have "\<not> has_exited s" by (simp add: has_exited_def)
  with TerminalGrace show ?thesis
    by (cases ev) (simp_all add: step_core_def terminal_grace_step_def observe_exit_def Let_def
        has_exited_def [of "s\<lparr>st_exit := x, st_phase := p, descendant_deadline_ms := d\<rparr>" for x p d]
        split: option.split)
next
  case Stopping
  then show ?thesis
    by (cases ev) (simp_all add: step_core_def stopping_step_def observe_exit_def split_beta Let_def
        has_exited_def split: option.split)
next
  case Cleaning
  then have "\<not> has_exited s" by (simp add: has_exited_def)
  with Cleaning show ?thesis
    by (simp add: step_core_def cleaning_step_def
        has_exited_def [of "s\<lparr>st_phase := p\<rparr>" for p] split: option.split)
next
  case Exited
  then show ?thesis
    by (simp add: step_core_def exited_step_def has_exited_def Let_def
        split: option.split publication_outcome.split)
next
  case Published
  then show ?thesis
    by (simp add: step_core_def split: option.split)
qed

lemma publish_count_act:
  "count_list (snd (act s a)) PublishExit + of_bool (has_exited s) =
   of_bool (has_exited (fst (act s a)))"
proof (cases a)
  case (Act ev t)
  obtain xs where "fst (step s ev t) = fst (step_core (s\<lparr>stop_attempts := xs\<rparr>) ev t)"
    and "snd (step s ev t) =
           snd (apply_receipt s (tk_delivery t)) @ snd (step_core (s\<lparr>stop_attempts := xs\<rparr>) ev t)"
    by (rule step_split)
  then show ?thesis
    using Act publish_count_step_core [of "s\<lparr>stop_attempts := xs\<rparr>" ev t] by simp
next
  case (Extend ms)
  then show ?thesis by (simp add: extend_wall_deadline_def)
qed

lemma publish_count_run:
  "count_list (snd (run_machine act s as)) PublishExit + of_bool (has_exited s) =
   of_bool (has_exited (fst (run_machine act s as)))"
proof (induction as arbitrary: s)
  case (Cons a as)
  show ?case
    using Cons.IH [of "fst (act s a)"] publish_count_act [of s a] by simp
qed simp

text \<open>What must have happened for a stop signal with a given reason.\<close>

fun stop_cause :: "stop_reason \<Rightarrow> state \<Rightarrow> event \<Rightarrow> tick \<Rightarrow> bool" where
  "stop_cause ExplicitCancellation s ev t = (ev = Cancel)"
| "stop_cause WallDeadline s ev t =
     (wall_deadline_ms (st_budgets s) \<le> max (now_ms t) (wall_ms t))"
| "stop_cause ProtocolRejected s ev t = (ev = EvProtocolRejected)"
| "stop_cause SupervisorSignal s ev t = (ev = EvSupervisorSignal)"
| "stop_cause PostTerminalCleanup s ev t =
     ((st_phase s = TerminalGrace \<and> is_some_and (root_flush_deadline_ms s) (\<lambda>d. d \<le> now_ms t))
      \<or> (st_phase s = Cleaning \<and> tk_cleanup t = Some DescendantsPresent
         \<and> is_some_and (descendant_deadline_ms s) (\<lambda>d. d \<le> now_ms t)))"
| "stop_cause TokenBudget s ev t = (ev = EvTokenBudget \<and> st_phase s = Running)"

text \<open>A signal is a first one, for its cause, or a retry of one already recorded.\<close>

definition may_stop :: "stop_reason \<Rightarrow> state \<Rightarrow> event \<Rightarrow> tick \<Rightarrow> bool" where
  "may_stop r s ev t \<longleftrightarrow>
     (st_phase s \<in> {Running, TerminalGrace, Cleaning} \<and> stop_cause r s ev t)
     \<or> (st_phase s = Stopping \<and> ev = RetryStop r \<and> r \<in> sa_reason ` set (stop_attempts s))"

lemma deliver_request: "DeliverStop r \<in> set (snd (request_stop s r')) \<Longrightarrow> r = r'"
  using request_stop_effects [of s r'] by auto

lemma step_core_authorised:
  assumes "DeliverStop r \<in> set (snd (step_core s ev t))"
  shows "may_stop r s ev t \<and> \<not> (observed_exit t \<noteq> None \<and> st_phase s \<noteq> Cleaning)"
proof (cases "st_phase s")
  case Prepared
  with assms show ?thesis
    by (cases ev) (auto simp: step_core_def prepared_step_def split: option.splits if_splits)
next
  case Running
  with assms show ?thesis
    by (cases ev) (auto simp: step_core_def running_step_def observe_exit_def may_stop_def Let_def
        dest!: deliver_request split: option.splits if_splits)
next
  case TerminalGrace
  with assms show ?thesis
    by (cases ev) (auto simp: step_core_def terminal_grace_step_def observe_exit_def may_stop_def
        Let_def retry_stop_effects dest!: deliver_request split: option.splits if_splits)
next
  case Stopping
  with assms show ?thesis
    by (cases ev) (auto simp: step_core_def stopping_step_def observe_exit_def may_stop_def Let_def
        retry_stop_effects split_beta split: option.splits if_splits)
next
  case Cleaning
  with assms show ?thesis
    by (auto simp: step_core_def cleaning_step_def may_stop_def
        dest!: deliver_request split: option.splits if_splits)
next
  case Exited
  with assms show ?thesis
    by (auto simp: step_core_def exited_step_def Let_def
        split: option.splits publication_outcome.splits)
next
  case Published
  with assms show ?thesis
    by (auto simp: step_core_def split: option.splits)
qed

lemma stop_cause_attempts [simp]:
  "stop_cause r (s\<lparr>stop_attempts := xs\<rparr>) ev t = stop_cause r s ev t"
  by (cases r) simp_all

lemma may_stop_attempts:
  "map sa_reason xs = map sa_reason (stop_attempts s) \<Longrightarrow>
   may_stop r (s\<lparr>stop_attempts := xs\<rparr>) ev t = may_stop r s ev t"
  by (drule arg_cong [of _ _ set]) (simp add: may_stop_def)

lemma step_authorised:
  assumes "DeliverStop r \<in> set (snd (step s ev t))"
  shows "may_stop r s ev t \<and> \<not> (observed_exit t \<noteq> None \<and> st_phase s \<noteq> Cleaning)"
proof -
  obtain xs where xs: "map sa_reason xs = map sa_reason (stop_attempts s)"
    and "snd (step s ev t) =
           snd (apply_receipt s (tk_delivery t)) @ snd (step_core (s\<lparr>stop_attempts := xs\<rparr>) ev t)"
    by (rule step_split)
  with assms apply_receipt_effects [of s "tk_delivery t"]
  have "DeliverStop r \<in> set (snd (step_core (s\<lparr>stop_attempts := xs\<rparr>) ev t))"
    by auto
  from step_core_authorised [OF this] show ?thesis
    by (simp add: may_stop_attempts [OF xs])
qed

subsection \<open>Timeouts\<close>

definition stops_for_wall :: "state \<Rightarrow> action \<Rightarrow> bool" where
  "stops_for_wall s a = (case a of
      Act ev t \<Rightarrow> wall_deadline_ms (st_budgets s) \<le> max (now_ms t) (wall_ms t)
        \<and> DeliverStop WallDeadline \<in> set (snd (step s ev t))
    | Extend _ \<Rightarrow> False)"

definition confirms_wall :: "action \<Rightarrow> bool" where
  "confirms_wall a = (case a of
      Act ev t \<Rightarrow> tk_delivery t = Some \<lparr>dr_reason = WallDeadline, dr_outcome = Delivered\<rparr>
    | Extend _ \<Rightarrow> False)"

definition reasons :: "state \<Rightarrow> stop_reason set" where
  "reasons s = sa_reason ` set (stop_attempts s)"

lemma reasons_request_stop:
  "x \<in> reasons (fst (request_stop s r)) \<Longrightarrow>
   x \<in> reasons s \<or> x = r \<and> DeliverStop r \<in> set (snd (request_stop s r))"
  by (auto simp: reasons_def request_stop_def Let_def split: option.splits if_splits)

lemma reasons_retry_stop [simp]: "reasons (fst (retry_stop s r)) = reasons s"
  by (simp add: reasons_def retry_stop_def)

lemma reasons_cong:
  "stop_attempts s' = stop_attempts s \<Longrightarrow> reasons s' = reasons s"
  by (simp add: reasons_def)

lemma reasons_simps [simp]:
  "reasons (s\<lparr>st_phase := p\<rparr>) = reasons s"
  "reasons (s\<lparr>last_progress_ms := m\<rparr>) = reasons s"
  by (simp_all add: reasons_def)

lemma reasons_step_core:
  assumes "r \<in> reasons (fst (step_core s ev t))" and "r \<notin> reasons s"
  shows "DeliverStop r \<in> set (snd (step_core s ev t))"
proof -
  have *: "x \<in> reasons (fst (request_stop s' q)) \<Longrightarrow> x \<notin> reasons s' \<Longrightarrow>
      x = q \<and> DeliverStop q \<in> set (snd (request_stop s' q))" for x s' q
    using reasons_request_stop [of x s' q] by blast
  note [dest] = *
  show ?thesis
  proof (cases "st_phase s")
    case Prepared
    with assms show ?thesis
      by (cases ev) (auto simp: step_core_def prepared_step_def reasons_def split: option.splits if_splits)
  next
    case Running
    with assms show ?thesis
      by (cases ev) (auto simp: step_core_def running_step_def observe_exit_def Let_def
          reasons_def [of "_\<lparr>root_flush_deadline_ms := _\<rparr>"]
          reasons_def [of "_\<lparr>descendant_deadline_ms := _\<rparr>"] reasons_def [of s]
          split: option.splits if_splits)
  next
    case TerminalGrace
    with assms show ?thesis
      by (cases ev) (auto simp: step_core_def terminal_grace_step_def observe_exit_def Let_def
          reasons_cong [of "_\<lparr>descendant_deadline_ms := _\<rparr>" s] split: option.splits if_splits)
  next
    case Stopping
    with assms show ?thesis
      by (cases ev) (auto simp: step_core_def stopping_step_def observe_exit_def Let_def split_beta
          reasons_cong [of "_\<lparr>descendant_deadline_ms := _\<rparr>" s] split: option.splits if_splits)
  next
    case Cleaning
    with assms show ?thesis
      by (auto simp: step_core_def cleaning_step_def split: option.splits if_splits)
  next
    case Exited
    with assms show ?thesis
      by (auto simp: step_core_def exited_step_def Let_def reasons_def
          split: option.splits publication_outcome.splits)
  next
    case Published
    with assms show ?thesis
      by (auto simp: step_core_def split: option.splits)
  qed
qed

lemma reasons_attempts: "map sa_reason xs = map sa_reason (stop_attempts s) \<Longrightarrow>
   reasons (s\<lparr>stop_attempts := xs\<rparr>) = reasons s"
  by (drule arg_cong [of _ _ set]) (simp add: reasons_def)

lemma wall_reason_act:
  assumes "WallDeadline \<in> reasons (fst (act s a))" and "WallDeadline \<notin> reasons s"
  shows "stops_for_wall s a"
proof (cases a)
  case (Act ev t)
  obtain xs where xs: "map sa_reason xs = map sa_reason (stop_attempts s)"
    and st: "fst (step s ev t) = fst (step_core (s\<lparr>stop_attempts := xs\<rparr>) ev t)"
      "snd (step s ev t) =
           snd (apply_receipt s (tk_delivery t)) @ snd (step_core (s\<lparr>stop_attempts := xs\<rparr>) ev t)"
    by (rule step_split)
  have "DeliverStop WallDeadline \<in> set (snd (step_core (s\<lparr>stop_attempts := xs\<rparr>) ev t))"
    by (rule reasons_step_core) (use assms(1,2) Act st reasons_attempts [OF xs] in simp_all)
  then have d: "DeliverStop WallDeadline \<in> set (snd (step s ev t))"
    by (simp add: st)
  from step_authorised [OF d] assms(2) have "stop_cause WallDeadline s ev t"
    by (auto simp: may_stop_def reasons_def)
  with d Act show ?thesis
    by (simp add: stops_for_wall_def)
next
  case (Extend ms)
  with assms show ?thesis
    by (simp add: extend_wall_deadline_def reasons_def)
qed

lemma timed_out_reasons: "timed_out s \<Longrightarrow> WallDeadline \<in> reasons s"
  by (force simp: timed_out_def reasons_def list_ex_iff)

lemma timed_out_cong: "stop_attempts s' = stop_attempts s \<Longrightarrow> timed_out s' = timed_out s"
  by (simp add: timed_out_def)

lemma timed_out_stops:
  "timed_out (fst (request_stop s r)) = timed_out s"
  "timed_out (fst (retry_stop s r)) \<Longrightarrow> timed_out s"
proof -
  show "timed_out (fst (request_stop s r)) = timed_out s"
    by (auto simp: timed_out_def request_stop_def Let_def split: option.split)
  assume "timed_out (fst (retry_stop s r))"
  then show "timed_out s"
    using set_update_first_subset [of "\<lambda>a. sa_reason a = r" "\<lambda>a. a\<lparr>sa_delivery := None\<rparr>" "stop_attempts s"]
    by (fastforce simp: timed_out_def retry_stop_def list_ex_iff split: if_splits)
qed

lemma timed_out_step_core: "timed_out (fst (step_core s ev t)) \<Longrightarrow> timed_out s"
proof -
  assume to: "timed_out (fst (step_core s ev t))"
  let ?s' = "fst (step_core s ev t)"
  have "stop_attempts ?s' = stop_attempts s \<or> (\<exists>r. ?s' = fst (request_stop s r))
      \<or> (\<exists>p r. ?s' = fst (request_stop (s\<lparr>last_progress_ms := p\<rparr>) r))
      \<or> (\<exists>r. stop_attempts ?s' = stop_attempts (fst (retry_stop s r)))"
    by (cases "st_phase s"; cases ev)
      (auto simp: step_core_def phase_step_defs Let_def split_beta
        split: option.split publication_outcome.split)
  moreover have "timed_out (s\<lparr>last_progress_ms := p\<rparr>) = timed_out s" for p
    by (simp add: timed_out_def)
  ultimately show ?thesis
    using to by (elim disjE exE)
      (auto simp: timed_out_stops(1) dest: timed_out_cong timed_out_stops(2))
qed

lemma timed_out_receipt:
  assumes "timed_out (fst (apply_receipt s r))" and "\<not> timed_out s"
  shows "r = Some \<lparr>dr_reason = WallDeadline, dr_outcome = Delivered\<rparr>"
proof (cases r)
  case None
  with assms show ?thesis by (simp add: apply_receipt_def)
next
  case (Some x)
  with assms show ?thesis
    using set_update_first_subset [of "\<lambda>a. sa_reason a = dr_reason x"
        "\<lambda>a. a\<lparr>sa_delivery := Some (dr_outcome x)\<rparr>" "stop_attempts s"]
    by (cases x) (fastforce simp: apply_receipt_def timed_out_def list_ex_iff split: if_splits)
qed

lemma timed_out_act:
  assumes "timed_out (fst (act s a))" and "\<not> timed_out s"
  shows "confirms_wall a \<and> WallDeadline \<in> reasons s"
proof (cases a)
  case (Act ev t)
  obtain xs where xs: "map sa_reason xs = map sa_reason (stop_attempts s)"
    and ar: "fst (apply_receipt s (tk_delivery t)) = s\<lparr>stop_attempts := xs\<rparr>"
    and st: "fst (step s ev t) = fst (step_core (s\<lparr>stop_attempts := xs\<rparr>) ev t)"
    by (rule step_split)
  from assms(1) Act st have to: "timed_out (s\<lparr>stop_attempts := xs\<rparr>)"
    using timed_out_step_core by simp
  then have "confirms_wall a"
    using timed_out_receipt [of s "tk_delivery t"] assms(2) Act ar
    by (simp add: confirms_wall_def)
  with timed_out_reasons [OF to] show ?thesis
    by (simp add: reasons_attempts [OF xs])
next
  case (Extend ms)
  with assms show ?thesis
    by (simp add: extend_wall_deadline_def timed_out_def)
qed

lemma wall_reason_run:
  assumes "WallDeadline \<in> reasons (fst (run_machine act (prepared b) as))"
  shows "\<exists>as1 a as2. as = as1 @ a # as2 \<and> stops_for_wall (fst (run_machine act (prepared b) as1)) a"
  using assms
proof (induction as rule: rev_induct)
  case Nil
  then show ?case by (simp add: prepared_def reasons_def)
next
  case (snoc a as)
  show ?case
  proof (cases "WallDeadline \<in> reasons (fst (run_machine act (prepared b) as))")
    case True
    from snoc.IH [OF this] show ?thesis
      by (metis append_Cons append_assoc)
  next
    case False
    with snoc.prems have "stops_for_wall (fst (run_machine act (prepared b) as)) a"
      by (intro wall_reason_act) (simp_all add: run_machine_snoc)
    then show ?thesis by blast
  qed
qed

lemma timed_out_run:
  assumes "timed_out (fst (run_machine act (prepared b) as))"
  shows "\<exists>as1 a as2 c as3. as = as1 @ a # as2 @ c # as3
    \<and> stops_for_wall (fst (run_machine act (prepared b) as1)) a \<and> confirms_wall c"
  using assms
proof (induction as rule: rev_induct)
  case Nil
  then show ?case by (simp add: prepared_def timed_out_def)
next
  case (snoc c as)
  show ?case
  proof (cases "timed_out (fst (run_machine act (prepared b) as))")
    case True
    from snoc.IH [OF this] obtain as1 a as2 c' as3 where
      "as = as1 @ a # as2 @ c' # as3" "confirms_wall c'"
      "stops_for_wall (fst (run_machine act (prepared b) as1)) a" by blast
    then show ?thesis
      by (intro exI [of _ as1] exI [of _ a] exI [of _ as2] exI [of _ c'] exI [of _ "as3 @ [c]"]) simp
  next
    case False
    with snoc.prems have c: "confirms_wall c"
      and "WallDeadline \<in> reasons (fst (run_machine act (prepared b) as))"
      using timed_out_act [of _ c] by (simp_all add: run_machine_snoc)
    from wall_reason_run [OF this(2)] obtain as1 a as2 where
      "as = as1 @ a # as2" "stops_for_wall (fst (run_machine act (prepared b) as1)) a" by blast
    with c show ?thesis
      by (intro exI [of _ as1] exI [of _ a] exI [of _ as2] exI [of _ c] exI [of _ "[]"]) simp
  qed
qed

subsection \<open>Reaching publication\<close>

lemma step_core_started: "st_phase (fst (step_core s Started t)) \<noteq> Prepared"
  by (cases "st_phase s") (auto simp: step_core_def phase_step_defs Let_def request_stop_def
      split: option.split publication_outcome.split)

definition exit_seen :: "state \<Rightarrow> bool" where
  "exit_seen s \<longleftrightarrow> has_exited s \<or> (st_phase s \<in> {Cleaning, Stopping} \<and> st_exit s \<noteq> None)"

lemma step_core_exit_seen:
  assumes "wf_state s" and "st_phase s \<noteq> Prepared" and "observed_exit t \<noteq> None"
  shows "exit_seen (fst (step_core s ev t))"
proof -
  have "st_phase s = Cleaning \<Longrightarrow> st_exit s \<noteq> None"
    using assms(1) by (simp add: wf_state_def)
  with assms(2,3) show ?thesis
    by (cases "st_phase s") (auto simp: step_core_def phase_step_defs Let_def request_stop_def
        exit_seen_def has_exited_def split: option.split publication_outcome.split)
qed

lemma step_core_completes:
  assumes "exit_seen s" and "observed_exit t = None" and "tk_cleanup t = Some Complete"
  shows "has_exited (fst (step_core s ev t))"
proof -
  have "st_exit (fst (retry_stop s r)) = st_exit s" for r
    by (simp add: retry_stop_def)
  with assms show ?thesis
    by (cases "st_phase s"; cases ev) (auto simp: step_core_def phase_step_defs Let_def split_beta
        exit_seen_def has_exited_def split: option.split publication_outcome.split)
qed

lemma step_core_publishes:
  "has_exited s \<Longrightarrow> tk_publication t = Some Durable \<Longrightarrow>
   st_phase (fst (step_core s ev t)) = Published"
  by (auto simp: step_core_def exited_step_def has_exited_def split: option.split)

lemma step_receipt_lift:
  assumes "\<And>xs. map sa_reason xs = map sa_reason (stop_attempts s) \<Longrightarrow>
      P (fst (step_core (s\<lparr>stop_attempts := xs\<rparr>) ev t))"
  shows "P (fst (step s ev t))"
  by (rule step_split [of s t ev]) (simp add: assms)

lemma closing_steps:
  assumes "wf_state s"
    and "observed_exit t2 \<noteq> None"
    and "observed_exit t3 = None" and "tk_cleanup t3 = Some Complete"
    and "tk_publication t4 = Some Durable"
  shows "st_phase (fst (run_machine act s
           [Act Started t1, Act e2 t2, Act e3 t3, Act e4 t4])) = Published"
proof -
  define s1 where "s1 = fst (step s Started t1)"
  define s2 where "s2 = fst (step s1 e2 t2)"
  define s3 where "s3 = fst (step s2 e3 t3)"
  have "st_phase s1 \<noteq> Prepared"
    unfolding s1_def by (rule step_receipt_lift) (rule step_core_started)
  moreover have "wf_state s1"
    using wf_act [OF assms(1), of "Act Started t1"] by (simp add: s1_def)
  ultimately have "exit_seen s2"
    unfolding s2_def using assms(2)
    by - (rule step_receipt_lift, rule step_core_exit_seen, simp_all add: wf_attempts)
  then have "has_exited s3"
    unfolding s3_def using assms(3,4)
    by - (rule step_receipt_lift, rule step_core_completes, simp_all add: exit_seen_def)
  then have "st_phase (fst (step s3 e4 t4)) = Published"
    using assms(5)
    by - (rule step_receipt_lift [where P = "\<lambda>s. st_phase s = Published"],
        rule step_core_publishes, simp_all)
  then show ?thesis
    by (simp add: s1_def s2_def s3_def)
qed

subsection \<open>The wake-up time\<close>

lemma deadline_le:
  assumes "deadline_in_ms s now wall = Some w" and "st_phase s \<in> {Running, TerminalGrace}"
  shows "w \<le> wall_deadline_ms (st_budgets s) - max now wall"
    and "st_phase s = TerminalGrace \<Longrightarrow> root_flush_deadline_ms s = Some d \<Longrightarrow> w \<le> d - now"
    and "w = wall_deadline_ms (st_budgets s) - max now wall
      \<or> (\<exists>d. st_phase s = TerminalGrace \<and> root_flush_deadline_ms s = Some d \<and> w = d - now)"
  using assms by (auto simp: deadline_in_ms_def min_def split: option.splits if_splits)

lemma silence_step:
  assumes "st_phase s \<in> {Running, TerminalGrace}" and "observed_exit t = None"
    and "tk_delivery t = None"
  shows "step s Silence t =
    (if wall_deadline_ms (st_budgets s) \<le> max (now_ms t) (wall_ms t) then request_stop s WallDeadline
     else if st_phase s = TerminalGrace
             \<and> is_some_and (root_flush_deadline_ms s) (\<lambda>d. d \<le> now_ms t)
     then request_stop s PostTerminalCleanup
     else (s, []))"
  using assms by (auto simp: step_def apply_receipt_def step_core_def running_step_def
      terminal_grace_step_def split_beta)

lemma deadline_quiet:
  assumes "deadline_in_ms s now wall = Some w" and "st_phase s \<in> {Running, TerminalGrace}"
    and "now \<le> now_ms t" and "wall \<le> wall_ms t"
    and "now_ms t < now + w" and "wall_ms t < wall + w"
    and "observed_exit t = None" and "tk_delivery t = None"
  shows "step s Silence t = (s, [])"
proof -
  have "max (now_ms t) (wall_ms t) < wall_deadline_ms (st_budgets s)"
    using deadline_le(1) [OF assms(1,2)] assms(3-6) by linarith
  moreover have "now_ms t < d" if "st_phase s = TerminalGrace" "root_flush_deadline_ms s = Some d" for d
    using deadline_le(2) [OF assms(1,2) that] assms(3,5) by linarith
  ultimately show ?thesis
    unfolding silence_step [OF assms(2,7,8)] by (auto simp: is_some_and_iff not_le [symmetric])
qed

lemma request_stop_fresh:
  "stop_attempts s = [] \<Longrightarrow> st_phase s \<in> {Running, TerminalGrace} \<Longrightarrow>
   snd (request_stop s r) = [DeliverStop r] \<and> st_phase (fst (request_stop s r)) = Stopping"
  by (auto simp: request_stop_def)

lemma deadline_acts:
  assumes "deadline_in_ms s now wall = Some w" and "st_phase s \<in> {Running, TerminalGrace}"
    and "now + w \<le> now_ms t" and "wall + w \<le> wall_ms t" and "wf_state s"
    and "observed_exit t = None" and "tk_delivery t = None"
  shows "\<exists>r. snd (step s Silence t) = [DeliverStop r] \<and> st_phase (fst (step s Silence t)) = Stopping"
proof -
  have fresh: "stop_attempts s = []"
    using assms(2,5) by (auto simp: wf_state_def)
  have "wall_deadline_ms (st_budgets s) \<le> max (now_ms t) (wall_ms t)
      \<or> st_phase s = TerminalGrace \<and> is_some_and (root_flush_deadline_ms s) (\<lambda>d. d \<le> now_ms t)"
    using deadline_le(3) [OF assms(1,2)] assms(3,4) by (auto simp: is_some_and_iff)
  then show ?thesis
    unfolding silence_step [OF assms(2,6,7)] using request_stop_fresh [OF fresh assms(2)] by auto
qed

text \<open>
  Before the provider is started only the monotonic clock ends the lane: the wake-up time is
  already zero on the wall clock and the step does nothing.
\<close>

lemma prepared_ignores_wall_clock:
  "st_phase s = Prepared \<Longrightarrow> now < wall_deadline_ms (st_budgets s) \<Longrightarrow>
   wall_deadline_ms (st_budgets s) \<le> wall \<Longrightarrow>
   deadline_in_ms s now wall = Some 0
   \<and> step s Silence ((tick_at now)\<lparr>wall_ms := wall\<rparr>) = (s, [])"
  by (simp add: deadline_in_ms_def step_def apply_receipt_def step_core_def prepared_step_def
      tick_at_def)

subsection \<open>The theorems\<close>


text \<open>
  C21: an exit observation wins. In the tick that observes the leader's exit no stop signal
  is sent, whatever event or deadline is due, the exit is recorded and cleanup begins.
\<close>

theorem exit_observation_wins:
  assumes "observed_exit t = Some x" and "st_phase s \<in> {Running, TerminalGrace, Stopping}"
  shows "st_phase (fst (step s ev t)) = Cleaning \<and> st_exit (fst (step s ev t)) = Some x
    \<and> BeginCleanup x \<in> set (snd (step s ev t)) \<and> DeliverStop r \<notin> set (snd (step s ev t))"
proof -
  obtain xs where "fst (step s ev t) = fst (step_core (s\<lparr>stop_attempts := xs\<rparr>) ev t)"
    and "snd (step s ev t) =
           snd (apply_receipt s (tk_delivery t)) @ snd (step_core (s\<lparr>stop_attempts := xs\<rparr>) ev t)"
    by (rule step_split)
  moreover have "DeliverStop r \<notin> set (snd (step s ev t))"
    using step_authorised [of r s ev t] assms by auto
  ultimately show ?thesis
    using assms by (auto simp: step_core_def observe_exit_def Let_def)
qed

theorem exit_observation_wins_witness:
  "let s = fst (step (prepared (with_cleanup 100 10 5)) Started (tick_at 0));
       t = (tick_at 200)\<lparr>observed_exit := Some (Exit 0)\<rparr>
   in snd (step s Cancel t) = [BeginCleanup (Exit 0)] \<and> DeliverStop WallDeadline \<notin> set (snd (step s Cancel t))"
  using exit_observation_wins [of "(tick_at 200)\<lparr>observed_exit := Some (Exit 0)\<rparr>" "Exit 0"
      "fst (step (prepared (with_cleanup 100 10 5)) Started (tick_at 0))" Cancel WallDeadline]
  by (simp add: step_def step_core_def apply_receipt_def tick_at_def prepared_def with_cleanup_def
      prepared_step_def observe_exit_def u64_checked_add_def)

text \<open>
  C3: every stop signal has a cause. A signal with a reason is sent only by a step in which
  that reason's own condition holds (the cancel request, the reached wall deadline, the
  flush deadline after the terminal message, descendants past their grace, and so on), or as
  a retry of an attempt already recorded; never before the provider runs, and never in a tick
  that observes the exit of a leader not yet in cleanup. Silence, lost capture and failed observations therefore
  cannot stop a provider by themselves.
\<close>

theorem stop_signals_have_causes:
  assumes "DeliverStop r \<in> set (snd (step s ev t))"
  shows "(st_phase s \<in> {Running, TerminalGrace, Cleaning} \<and> stop_cause r s ev t
      \<or> st_phase s = Stopping \<and> ev = RetryStop r \<and> r \<in> sa_reason ` set (stop_attempts s))
    \<and> (observed_exit t = None \<or> st_phase s = Cleaning)"
  using step_authorised [OF assms] by (auto simp: may_stop_def)

theorem stop_signals_have_causes_witness:
  "stop_cause WallDeadline (fst (step (prepared (with_cleanup 100 10 5)) Started (tick_at 0)))
     Silence ((tick_at 7)\<lparr>wall_ms := 100\<rparr>)"
  using stop_signals_have_causes [of WallDeadline
      "fst (step (prepared (with_cleanup 100 10 5)) Started (tick_at 0))" Silence
      "(tick_at 7)\<lparr>wall_ms := 100\<rparr>"]
  by (simp add: step_def step_core_def apply_receipt_def tick_at_def prepared_def with_cleanup_def
      prepared_step_def request_stop_def)

text \<open>
  C4: the exit record is requested exactly once. The number of PublishExit effects of a run
  is one when the run has reached Exited or Published and zero otherwise; retries of the
  publication are separate effects.
\<close>

theorem exit_published_once:
  "count_list (snd (run_machine act (prepared b) as)) PublishExit =
   (if st_phase (fst (run_machine act (prepared b) as)) \<in> {Exited, Published} then 1 else 0)"
  using publish_count_run [of "prepared b" as] by (simp add: has_exited_def prepared_def)

text \<open>
  a lane never goes backwards. Along every continuation of a run the phase rank does not
  fall (stopping and cleaning may alternate), a recorded exit stays recorded, no stop reason
  is forgotten, and from Exited on neither the exit nor the never-spawned reason changes.
\<close>

theorem lifecycle_monotone:
  "advances (fst (run_machine act (prepared b) as)) (fst (run_machine act (prepared b) (as @ as')))"
proof -
  have split: "fst (run_machine act s (xs @ ys)) = fst (run_machine act (fst (run_machine act s xs)) ys)"
    for s xs ys by (induction xs arbitrary: s) simp_all
  show ?thesis
    unfolding split by (rule lifecycle.run_rel) (rule lifecycle.run_inv, simp)
qed

text \<open>
  C19: a timeout is reported only for a real one. If a lane counts as timed out, then at some
  point of its run one of its clocks had reached the wall deadline in force and a stop signal
  for it was sent, and at a later point a receipt confirmed that this signal was delivered.
\<close>

theorem timed_out_sound:
  assumes "timed_out (fst (run_machine act (prepared b) as))"
  shows "\<exists>as1 a as2 c as3. as = as1 @ a # as2 @ c # as3
    \<and> stops_for_wall (fst (run_machine act (prepared b) as1)) a \<and> confirms_wall c"
  using assms by (rule timed_out_run)

theorem timed_out_sound_witness:
  "\<exists>as1 a as2 c as3.
     [Act Started (tick_at 0), Act Silence (tick_at 100),
      Act Silence ((tick_at 101)\<lparr>tk_delivery := Some \<lparr>dr_reason = WallDeadline, dr_outcome = Delivered\<rparr>\<rparr>)]
       = as1 @ a # as2 @ c # as3
     \<and> stops_for_wall (fst (run_machine act (prepared (with_cleanup 100 10 5)) as1)) a \<and> confirms_wall c"
  by (rule timed_out_sound)
    (simp add: step_def step_core_def apply_receipt_def tick_at_def prepared_def with_cleanup_def
      prepared_step_def request_stop_def stopping_step_def timed_out_def)





end
