(* ===== verification/Records_Adapters.thy ===== *)
theory Records_Adapters
  imports Prov_Prelude
begin

section \<open>The adapter table (crate records)\<close>

text \<open>
  \<open>records/src/adapters.rs\<close>: the closed list of provider adapters with their facts, and the
  checks every launch and every quota decision makes against it. The table has one definition
  per row, with all the fields of the source's \<open>AdapterSpec\<close>. The row behind the
  \<open>registry-fixture\<close> feature exists in tests only and is left out.
\<close>

subsection \<open>Closed facts\<close>

datatype quota_probe_kind = QP_None | QP_HttpGet | QP_Command | QP_LocalLedger

datatype cloud_transport = CT_Claude | CT_Codex

datatype github_auth = GA_Environment | GA_ShellEnvironment

datatype login_reprobe = LR_None | LR_Codex | LR_Cursor | LR_AccountIdentity | LR_ExecutableOnly

datatype login_observation = LO_None | LO_AccountAvailability | LO_Reprobe | LO_ExecutableOnly

datatype setup_root = SR_None | SR_Home | SR_XdgDataHome

datatype named_entry = NE_None | NE_Command | NE_DelegatedAgent

datatype model_observation = MO_Stream | MO_Rollout | MO_SessionDatabase

datatype network_access = NA_Provider | NA_Local | NA_Open

datatype control_support = CS_LiveInjection | CS_MailOnly | CS_ContinuationOnly | CS_Unsupported

datatype harness =
    H_Claude
  | H_Codex
  | H_Cursor
  | H_Agy
  | H_Opencode
  | H_Command
  | H_HostNative

record skill_location =
  sl_environment :: "string option"
  sl_fallback :: string
  sl_suffix :: string

record control_capabilities =
  cc_lane :: control_support
  cc_chair :: control_support

record launch_capabilities =
  lc_model :: bool
  lc_default_network :: network_access
  lc_effort :: bool
  lc_resume :: bool
  lc_control :: control_capabilities
  lc_network :: "network_access list"
  lc_image_input :: bool
  lc_write :: bool

definition delivers :: "control_support \<Rightarrow> bool" where
  "delivers c \<longleftrightarrow> c \<in> {CS_LiveInjection, CS_MailOnly}"

abbreviation ALL_NETWORK :: "network_access list" where
  "ALL_NETWORK \<equiv> [NA_Provider, NA_Local, NA_Open]"

abbreviation SKILL_INSTALL_ROOTS :: "string list" where
  "SKILL_INSTALL_ROOTS \<equiv> [''.local/share/provenant/v1/releases'']"

subsection \<open>The rows\<close>

record adapter_spec =
  ad_id :: harness
  ad_name :: string
  ad_binary :: string
  ad_skills :: "skill_location option"
  ad_skill_install_roots :: "string list"
  ad_default_account_directory :: "(string \<times> string) option"
  ad_registered_account :: bool
  ad_account_config_dir :: bool
  ad_account_directory_prefix :: "string option"
  ad_shared_account_settings :: bool
  ad_isolated_login_keychain :: bool
  ad_transcript_account_root :: bool
  ad_setup_root :: setup_root
  ad_local_login :: bool
  ad_login_reprobe :: login_reprobe
  ad_login_observation :: login_observation
  ad_login_check_names_account :: bool
  ad_local_account :: "string \<times> string"
  ad_argv_prompt :: bool
  ad_authentication :: "string option"
  ad_credential_files :: "string list"
  ad_credential_profile_sibling :: bool
  ad_credential_host_keychain :: bool
  ad_login_hint :: string
  ad_login_template :: "string option"
  ad_login_refresh_template :: "string option"
  ad_auth_markers :: "string list"
  ad_shell_prefix :: "(string \<times> string) option"
  ad_context_directory_arg :: "string option"
  ad_compaction_env :: "string option"
  ad_allowance_prefix :: "string option"
  ad_allowance_windows :: "string list"
  ad_namespaced_models :: bool
  ad_chair_switch :: bool
  ad_local_offer_reader :: bool
  ad_cloud_transport :: "cloud_transport option"
  ad_github_auth :: "github_auth option"
  ad_session_handoff :: bool
  ad_launch_token_refresh :: bool
  ad_deduplicate_result :: bool
  ad_result_event_usage :: bool
  ad_token_budget_notice :: "string option"
  ad_exit_route :: bool
  ad_stderr_quota :: bool
  ad_model_observation :: model_observation
  ad_named_entry :: named_entry
  ad_user_sessions :: bool
  ad_copy_sessions_only :: bool
  ad_quota_probe :: quota_probe_kind
  ad_quota_credits :: bool
  ad_grouped_quota_pools :: bool
  ad_retain_quota_accounts :: bool
  ad_quota_identity_check :: bool
  ad_peer_bootstrap :: bool
  ad_quota_model_prefix :: "string option"
  ad_free_account :: "(string \<times> string) option"
  ad_free_pool :: "string option"
  ad_pacing_keys :: "(string \<times> string) option"
  ad_launch :: launch_capabilities

definition spec_claude :: adapter_spec where
  "spec_claude = \<lparr>ad_id = H_Claude, ad_name = ''claude'', ad_binary = ''claude'',
     ad_skills = Some \<lparr>sl_environment = None, sl_fallback = ''.claude'', sl_suffix = ''skills''\<rparr>,
     ad_skill_install_roots = SKILL_INSTALL_ROOTS, ad_default_account_directory = None,
     ad_registered_account = True, ad_account_config_dir = True,
     ad_account_directory_prefix = Some ''.claude-'', ad_shared_account_settings = True,
     ad_isolated_login_keychain = False, ad_transcript_account_root = True,
     ad_setup_root = SR_None, ad_local_login = False, ad_login_reprobe = LR_None,
     ad_login_observation = LO_AccountAvailability, ad_login_check_names_account = False,
     ad_local_account = (''default'', ''local''), ad_argv_prompt = False,
     ad_authentication = None, ad_credential_files = [''.credentials.json'', ''settings.json''],
     ad_credential_profile_sibling = True, ad_credential_host_keychain = True,
     ad_login_hint = ''claude auth login'',
     ad_login_template = Some ''CLAUDE_CONFIG_DIR={directory} claude auth login'',
     ad_login_refresh_template = Some ''CLAUDE_CONFIG_DIR={directory} claude'',
     ad_auth_markers = [''not logged in'', ''authentication_failed''],
     ad_shell_prefix = Some (''bin/claude-shell'', ''CLAUDE_CODE_SHELL_PREFIX''),
     ad_context_directory_arg = Some ''--add-dir'',
     ad_compaction_env = Some ''CLAUDE_CODE_AUTO_COMPACT_WINDOW'', ad_allowance_prefix = None,
     ad_allowance_windows = [], ad_namespaced_models = False, ad_chair_switch = True,
     ad_local_offer_reader = True, ad_cloud_transport = Some CT_Claude,
     ad_github_auth = Some GA_Environment, ad_session_handoff = True,
     ad_launch_token_refresh = True, ad_deduplicate_result = False,
     ad_result_event_usage = True, ad_token_budget_notice = None, ad_exit_route = False,
     ad_stderr_quota = False, ad_model_observation = MO_Stream, ad_named_entry = NE_None,
     ad_user_sessions = True, ad_copy_sessions_only = False, ad_quota_probe = QP_HttpGet,
     ad_quota_credits = True, ad_grouped_quota_pools = False, ad_retain_quota_accounts = False,
     ad_quota_identity_check = False, ad_peer_bootstrap = True, ad_quota_model_prefix = None,
     ad_free_account = None, ad_free_pool = None, ad_pacing_keys = None,
     ad_launch = \<lparr>lc_model = True, lc_default_network = NA_Open, lc_effort = True, lc_resume = True,
      lc_control = \<lparr>cc_lane = CS_ContinuationOnly, cc_chair = CS_MailOnly\<rparr>, lc_network = ALL_NETWORK,
      lc_image_input = True, lc_write = True\<rparr>\<rparr>"

definition spec_codex :: adapter_spec where
  "spec_codex = \<lparr>ad_id = H_Codex, ad_name = ''codex'', ad_binary = ''codex'',
     ad_skills = Some \<lparr>sl_environment = None, sl_fallback = ''.agents'', sl_suffix = ''skills''\<rparr>,
     ad_skill_install_roots = SKILL_INSTALL_ROOTS,
     ad_default_account_directory = Some (''CODEX_HOME'', ''.codex''),
     ad_registered_account = True, ad_account_config_dir = True,
     ad_account_directory_prefix = None, ad_shared_account_settings = False,
     ad_isolated_login_keychain = False, ad_transcript_account_root = False,
     ad_setup_root = SR_None, ad_local_login = False, ad_login_reprobe = LR_Codex,
     ad_login_observation = LO_Reprobe, ad_login_check_names_account = False,
     ad_local_account = (''default'', ''local''), ad_argv_prompt = False,
     ad_authentication = Some ''login'', ad_credential_files = [''auth.json'', ''config.toml''],
     ad_credential_profile_sibling = False, ad_credential_host_keychain = False,
     ad_login_hint = ''codex login'',
     ad_login_template = Some ''CODEX_HOME={directory} codex login'',
     ad_login_refresh_template = None,
     ad_auth_markers = [''please log out and sign in again'', ''refresh token expired'', ''not logged in''],
     ad_shell_prefix = None, ad_context_directory_arg = None, ad_compaction_env = None,
     ad_allowance_prefix = None, ad_allowance_windows = [], ad_namespaced_models = False,
     ad_chair_switch = False, ad_local_offer_reader = False, ad_cloud_transport = Some CT_Codex,
     ad_github_auth = Some GA_ShellEnvironment, ad_session_handoff = False,
     ad_launch_token_refresh = False, ad_deduplicate_result = False,
     ad_result_event_usage = False,
     ad_token_budget_notice = Some ''Codex writer token budgets are checked at completed-turn boundaries; a turn cannot be interrupted mid-flight'',
     ad_exit_route = False, ad_stderr_quota = False, ad_model_observation = MO_Rollout,
     ad_named_entry = NE_None, ad_user_sessions = False, ad_copy_sessions_only = True,
     ad_quota_probe = QP_Command, ad_quota_credits = True, ad_grouped_quota_pools = False,
     ad_retain_quota_accounts = False, ad_quota_identity_check = True, ad_peer_bootstrap = True,
     ad_quota_model_prefix = None, ad_free_account = None, ad_free_pool = None,
     ad_pacing_keys = None,
     ad_launch = \<lparr>lc_model = True, lc_default_network = NA_Open, lc_effort = True, lc_resume = True,
      lc_control = \<lparr>cc_lane = CS_ContinuationOnly, cc_chair = CS_MailOnly\<rparr>, lc_network = ALL_NETWORK,
      lc_image_input = True, lc_write = True\<rparr>\<rparr>"

definition spec_cursor :: adapter_spec where
  "spec_cursor = \<lparr>ad_id = H_Cursor, ad_name = ''cursor'', ad_binary = ''cursor-agent'',
     ad_skills = Some \<lparr>sl_environment = None, sl_fallback = ''.cursor'', sl_suffix = ''skills''\<rparr>,
     ad_skill_install_roots = SKILL_INSTALL_ROOTS, ad_default_account_directory = None,
     ad_registered_account = False, ad_account_config_dir = False,
     ad_account_directory_prefix = None, ad_shared_account_settings = False,
     ad_isolated_login_keychain = False, ad_transcript_account_root = False,
     ad_setup_root = SR_Home, ad_local_login = True, ad_login_reprobe = LR_Cursor,
     ad_login_observation = LO_Reprobe, ad_login_check_names_account = False,
     ad_local_account = (''default'', ''local''), ad_argv_prompt = True,
     ad_authentication = Some ''login'',
     ad_credential_files = [''state.vscdb'', ''state.vscdb-wal'', ''cli-config.json''],
     ad_credential_profile_sibling = False, ad_credential_host_keychain = False,
     ad_login_hint = ''agent login'', ad_login_template = None,
     ad_login_refresh_template = None,
     ad_auth_markers = [''authentication required. please run agent login'', ''not logged in''],
     ad_shell_prefix = None, ad_context_directory_arg = None, ad_compaction_env = None,
     ad_allowance_prefix = None, ad_allowance_windows = [], ad_namespaced_models = False,
     ad_chair_switch = False, ad_local_offer_reader = False, ad_cloud_transport = None,
     ad_github_auth = None, ad_session_handoff = False, ad_launch_token_refresh = False,
     ad_deduplicate_result = False, ad_result_event_usage = False,
     ad_token_budget_notice = None, ad_exit_route = False, ad_stderr_quota = False,
     ad_model_observation = MO_Stream, ad_named_entry = NE_None, ad_user_sessions = True,
     ad_copy_sessions_only = False, ad_quota_probe = QP_HttpGet, ad_quota_credits = False,
     ad_grouped_quota_pools = False, ad_retain_quota_accounts = False,
     ad_quota_identity_check = True, ad_peer_bootstrap = False, ad_quota_model_prefix = None,
     ad_free_account = None, ad_free_pool = None, ad_pacing_keys = None,
     ad_launch = \<lparr>lc_model = True, lc_default_network = NA_Open, lc_effort = False, lc_resume = True,
      lc_control = \<lparr>cc_lane = CS_ContinuationOnly, cc_chair = CS_MailOnly\<rparr>, lc_network = ALL_NETWORK,
      lc_image_input = False, lc_write = True\<rparr>\<rparr>"

definition spec_agy :: adapter_spec where
  "spec_agy = \<lparr>ad_id = H_Agy, ad_name = ''agy'', ad_binary = ''agy'',
     ad_skills = Some \<lparr>sl_environment = None, sl_fallback = ''.gemini'', sl_suffix = ''skills''\<rparr>,
     ad_skill_install_roots = SKILL_INSTALL_ROOTS, ad_default_account_directory = None,
     ad_registered_account = True, ad_account_config_dir = False,
     ad_account_directory_prefix = None, ad_shared_account_settings = False,
     ad_isolated_login_keychain = True, ad_transcript_account_root = False,
     ad_setup_root = SR_None, ad_local_login = True, ad_login_reprobe = LR_AccountIdentity,
     ad_login_observation = LO_Reprobe, ad_login_check_names_account = True,
     ad_local_account = (''default'', ''local''), ad_argv_prompt = True,
     ad_authentication = Some ''keychain'',
     ad_credential_files = [''state.vscdb'', ''state.vscdb-wal'', ''Library/Keychains/login.keychain-db''],
     ad_credential_profile_sibling = False, ad_credential_host_keychain = False,
     ad_login_hint = ''agy auth login'',
     ad_login_template = Some ''HOME={directory} agy` and use `/login'',
     ad_login_refresh_template = None,
     ad_auth_markers = [''authentication required. please login to continue.'', ''authentication required. please log in''],
     ad_shell_prefix = None, ad_context_directory_arg = None, ad_compaction_env = None,
     ad_allowance_prefix = None, ad_allowance_windows = [], ad_namespaced_models = False,
     ad_chair_switch = False, ad_local_offer_reader = False, ad_cloud_transport = None,
     ad_github_auth = None, ad_session_handoff = False, ad_launch_token_refresh = False,
     ad_deduplicate_result = True, ad_result_event_usage = False, ad_token_budget_notice = None,
     ad_exit_route = False, ad_stderr_quota = False, ad_model_observation = MO_Stream,
     ad_named_entry = NE_None, ad_user_sessions = False, ad_copy_sessions_only = False,
     ad_quota_probe = QP_Command, ad_quota_credits = False, ad_grouped_quota_pools = True,
     ad_retain_quota_accounts = True, ad_quota_identity_check = False,
     ad_peer_bootstrap = False, ad_quota_model_prefix = None, ad_free_account = None,
     ad_free_pool = None, ad_pacing_keys = None,
     ad_launch = \<lparr>lc_model = True, lc_default_network = NA_Open, lc_effort = True, lc_resume = True,
      lc_control = \<lparr>cc_lane = CS_ContinuationOnly, cc_chair = CS_MailOnly\<rparr>, lc_network = ALL_NETWORK,
      lc_image_input = False, lc_write = True\<rparr>\<rparr>"

definition spec_opencode :: adapter_spec where
  "spec_opencode = \<lparr>ad_id = H_Opencode, ad_name = ''opencode'', ad_binary = ''opencode'',
     ad_skills = Some \<lparr>sl_environment = Some ''XDG_CONFIG_HOME'', sl_fallback = ''.config'', sl_suffix = ''opencode/skills''\<rparr>,
     ad_skill_install_roots = SKILL_INSTALL_ROOTS, ad_default_account_directory = None,
     ad_registered_account = False, ad_account_config_dir = False,
     ad_account_directory_prefix = None, ad_shared_account_settings = False,
     ad_isolated_login_keychain = False, ad_transcript_account_root = False,
     ad_setup_root = SR_XdgDataHome, ad_local_login = True,
     ad_login_reprobe = LR_ExecutableOnly, ad_login_observation = LO_ExecutableOnly,
     ad_login_check_names_account = False, ad_local_account = (''go'', ''go''),
     ad_argv_prompt = False, ad_authentication = None,
     ad_credential_files = [''auth.json'', ''opencode.db'', ''opencode.db-wal'', ''opencode.json''],
     ad_credential_profile_sibling = False, ad_credential_host_keychain = False,
     ad_login_hint = ''opencode auth login'', ad_login_template = None,
     ad_login_refresh_template = None,
     ad_auth_markers = [''no api key found'', ''run opencode auth login''],
     ad_shell_prefix = None, ad_context_directory_arg = None, ad_compaction_env = None,
     ad_allowance_prefix = Some ''opencode-go/'',
     ad_allowance_windows = [''five_hour'', ''seven_day'', ''thirty_day''],
     ad_namespaced_models = True, ad_chair_switch = False, ad_local_offer_reader = False,
     ad_cloud_transport = None, ad_github_auth = None, ad_session_handoff = False,
     ad_launch_token_refresh = False, ad_deduplicate_result = False,
     ad_result_event_usage = False, ad_token_budget_notice = None, ad_exit_route = False,
     ad_stderr_quota = True, ad_model_observation = MO_SessionDatabase,
     ad_named_entry = NE_None, ad_user_sessions = True, ad_copy_sessions_only = False,
     ad_quota_probe = QP_LocalLedger, ad_quota_credits = True, ad_grouped_quota_pools = False,
     ad_retain_quota_accounts = False, ad_quota_identity_check = False,
     ad_peer_bootstrap = False, ad_quota_model_prefix = Some ''opencode-go/'',
     ad_free_account = Some (''zen'', ''opencode/''), ad_free_pool = Some ''opencode-free'',
     ad_pacing_keys = Some (''opencode_free'', ''opencode_paid''),
     ad_launch = \<lparr>lc_model = True, lc_default_network = NA_Open, lc_effort = True, lc_resume = True,
      lc_control = \<lparr>cc_lane = CS_ContinuationOnly, cc_chair = CS_MailOnly\<rparr>, lc_network = ALL_NETWORK,
      lc_image_input = False, lc_write = True\<rparr>\<rparr>"

definition spec_command :: adapter_spec where
  "spec_command = \<lparr>ad_id = H_Command, ad_name = ''command'', ad_binary = '''',
     ad_skills = None, ad_skill_install_roots = [], ad_default_account_directory = None,
     ad_registered_account = False, ad_account_config_dir = False,
     ad_account_directory_prefix = None, ad_shared_account_settings = False,
     ad_isolated_login_keychain = False, ad_transcript_account_root = False,
     ad_setup_root = SR_None, ad_local_login = False, ad_login_reprobe = LR_None,
     ad_login_observation = LO_None, ad_login_check_names_account = False,
     ad_local_account = (''default'', ''local''), ad_argv_prompt = False,
     ad_authentication = None, ad_credential_files = [], ad_credential_profile_sibling = False,
     ad_credential_host_keychain = False, ad_login_hint = '''', ad_login_template = None,
     ad_login_refresh_template = None, ad_auth_markers = [], ad_shell_prefix = None,
     ad_context_directory_arg = None, ad_compaction_env = None, ad_allowance_prefix = None,
     ad_allowance_windows = [], ad_namespaced_models = False, ad_chair_switch = False,
     ad_local_offer_reader = False, ad_cloud_transport = None, ad_github_auth = None,
     ad_session_handoff = False, ad_launch_token_refresh = False, ad_deduplicate_result = False,
     ad_result_event_usage = False, ad_token_budget_notice = None, ad_exit_route = True,
     ad_stderr_quota = False, ad_model_observation = MO_Stream, ad_named_entry = NE_Command,
     ad_user_sessions = False, ad_copy_sessions_only = False, ad_quota_probe = QP_None,
     ad_quota_credits = False, ad_grouped_quota_pools = False, ad_retain_quota_accounts = False,
     ad_quota_identity_check = False, ad_peer_bootstrap = False, ad_quota_model_prefix = None,
     ad_free_account = None, ad_free_pool = None, ad_pacing_keys = None,
     ad_launch = \<lparr>lc_model = False, lc_default_network = NA_Open, lc_effort = False, lc_resume = False,
      lc_control = \<lparr>cc_lane = CS_Unsupported, cc_chair = CS_Unsupported\<rparr>, lc_network = ALL_NETWORK,
      lc_image_input = False, lc_write = False\<rparr>\<rparr>"

definition spec_host_native :: adapter_spec where
  "spec_host_native = \<lparr>ad_id = H_HostNative, ad_name = ''host-native'', ad_binary = '''',
     ad_skills = None, ad_skill_install_roots = [], ad_default_account_directory = None,
     ad_registered_account = False, ad_account_config_dir = False,
     ad_account_directory_prefix = None, ad_shared_account_settings = False,
     ad_isolated_login_keychain = False, ad_transcript_account_root = False,
     ad_setup_root = SR_None, ad_local_login = False, ad_login_reprobe = LR_None,
     ad_login_observation = LO_None, ad_login_check_names_account = False,
     ad_local_account = (''default'', ''local''), ad_argv_prompt = False,
     ad_authentication = None, ad_credential_files = [], ad_credential_profile_sibling = False,
     ad_credential_host_keychain = False, ad_login_hint = '''', ad_login_template = None,
     ad_login_refresh_template = None, ad_auth_markers = [], ad_shell_prefix = None,
     ad_context_directory_arg = None, ad_compaction_env = None, ad_allowance_prefix = None,
     ad_allowance_windows = [], ad_namespaced_models = False, ad_chair_switch = False,
     ad_local_offer_reader = False, ad_cloud_transport = None, ad_github_auth = None,
     ad_session_handoff = False, ad_launch_token_refresh = False, ad_deduplicate_result = False,
     ad_result_event_usage = False, ad_token_budget_notice = None, ad_exit_route = False,
     ad_stderr_quota = False, ad_model_observation = MO_Stream,
     ad_named_entry = NE_DelegatedAgent, ad_user_sessions = False,
     ad_copy_sessions_only = False, ad_quota_probe = QP_None, ad_quota_credits = False,
     ad_grouped_quota_pools = False, ad_retain_quota_accounts = False,
     ad_quota_identity_check = False, ad_peer_bootstrap = False, ad_quota_model_prefix = None,
     ad_free_account = None, ad_free_pool = None, ad_pacing_keys = None,
     ad_launch = \<lparr>lc_model = False, lc_default_network = NA_Open, lc_effort = False, lc_resume = False,
      lc_control = \<lparr>cc_lane = CS_Unsupported, cc_chair = CS_Unsupported\<rparr>, lc_network = ALL_NETWORK,
      lc_image_input = False, lc_write = True\<rparr>\<rparr>"
definition ADAPTER_SPECS :: "adapter_spec list" where
  "ADAPTER_SPECS =
     [spec_claude, spec_codex, spec_cursor, spec_agy, spec_opencode, spec_command, spec_host_native]"

text \<open>\<open>Harness::spec\<close> indexes the table by the variant's position (\<open>self as usize\<close>).\<close>

fun harness_index :: "harness \<Rightarrow> nat" where
  "harness_index H_Claude = 0"
| "harness_index H_Codex = 1"
| "harness_index H_Cursor = 2"
| "harness_index H_Agy = 3"
| "harness_index H_Opencode = 4"
| "harness_index H_Command = 5"
| "harness_index H_HostNative = 6"

definition harness_spec :: "harness \<Rightarrow> adapter_spec" where
  "harness_spec h = ADAPTER_SPECS ! harness_index h"

definition get_spec :: "string \<Rightarrow> adapter_spec option" where
  "get_spec name = List.find (\<lambda>spec. ad_name spec = name) ADAPTER_SPECS"

subsection \<open>Launch checks\<close>

record launch_request =
  lq_model :: "string option"
  lq_effort :: "string option"
  lq_resume :: bool
  lq_network :: "network_access option"
  lq_write :: bool
  lq_skill_location :: bool

datatype launch_field = LF_Model | LF_Effort | LF_Resume | LF_Network | LF_Write | LF_SkillLocation

record unsupported_launch =
  ul_adapter :: string
  ul_field :: launch_field

definition is_unregistered_local :: "adapter_spec \<Rightarrow> string \<Rightarrow> bool" where
  "is_unregistered_local spec key \<longleftrightarrow>
     ad_registered_account spec \<and> ad_local_login spec \<and> key = ''local''"

definition check_launch :: "adapter_spec \<Rightarrow> launch_request \<Rightarrow> unsupported_launch + unit" where
  "check_launch spec request =
     (let caps = ad_launch spec;
          field =
            (if lq_model request \<noteq> None \<and> \<not> lc_model caps then Some LF_Model
             else if lq_effort request \<noteq> None \<and> \<not> lc_effort caps then Some LF_Effort
             else if lq_resume request \<and> \<not> lc_resume caps then Some LF_Resume
             else if is_some_and (lq_network request) (\<lambda>mode. mode \<notin> set (lc_network caps))
             then Some LF_Network
             else if lq_write request \<and> \<not> lc_write caps then Some LF_Write
             else if lq_skill_location request \<and> ad_skills spec = None then Some LF_SkillLocation
             else None)
      in (case field of
            None \<Rightarrow> Inr ()
          | Some f \<Rightarrow> Inl \<lparr>ul_adapter = ad_name spec, ul_field = f\<rparr>))"

definition account_serves_model :: "adapter_spec \<Rightarrow> string \<Rightarrow> string \<Rightarrow> bool" where
  "account_serves_model spec account model \<longleftrightarrow>
     is_none_or (ad_free_account spec)
       (\<lambda>(free_account, model_prefix). (account = free_account) = prefix model_prefix model)"

definition window_serves_pool :: "adapter_spec \<Rightarrow> string \<Rightarrow> string option \<Rightarrow> bool" where
  "window_serves_pool spec window model_pool =
     (case (ad_grouped_quota_pools spec, model_pool, split_once CHR ''.'' window) of
        (True, Some pool, Some (window_group, _)) \<Rightarrow> window_group = pool
      | _ \<Rightarrow> True)"

subsection \<open>The table is closed\<close>

lemmas spec_defs =
  spec_claude_def spec_codex_def spec_cursor_def spec_agy_def spec_opencode_def spec_command_def
  spec_host_native_def

text \<open>Field selections of the rows, so that proofs need not unfold a whole row.\<close>

lemma spec_names [simp]:
  "ad_name spec_claude = ''claude''" "ad_name spec_codex = ''codex''"
  "ad_name spec_cursor = ''cursor''" "ad_name spec_agy = ''agy''"
  "ad_name spec_opencode = ''opencode''" "ad_name spec_command = ''command''"
  "ad_name spec_host_native = ''host-native''"
  by (simp_all add: spec_defs)

lemma spec_ids [simp]:
  "ad_id spec_claude = H_Claude" "ad_id spec_codex = H_Codex" "ad_id spec_cursor = H_Cursor"
  "ad_id spec_agy = H_Agy" "ad_id spec_opencode = H_Opencode" "ad_id spec_command = H_Command"
  "ad_id spec_host_native = H_HostNative"
  by (simp_all add: spec_defs)

lemma harness_spec_simps [simp]:
  "harness_spec H_Claude = spec_claude" "harness_spec H_Codex = spec_codex"
  "harness_spec H_Cursor = spec_cursor" "harness_spec H_Agy = spec_agy"
  "harness_spec H_Opencode = spec_opencode" "harness_spec H_Command = spec_command"
  "harness_spec H_HostNative = spec_host_native"
  by (simp_all add: harness_spec_def ADAPTER_SPECS_def)

text \<open>
  the adapter table is consistent with its closed identities. Indexing the table by a
  variant's position gives the row of that variant, looking the row's wire name up gives the
  row back, and every row a name finds is the row of its own identity.
\<close>

theorem adapter_table_roundtrip:
  "ad_id (harness_spec h) = h \<and> get_spec (ad_name (harness_spec h)) = Some (harness_spec h)
   \<and> (case get_spec name of None \<Rightarrow> name \<notin> range (\<lambda>h. ad_name (harness_spec h))
      | Some spec \<Rightarrow> ad_name spec = name \<and> harness_spec (ad_id spec) = spec)"
proof -
  have "get_spec (ad_name (harness_spec h)) = Some (harness_spec h)" for h
    by (cases h) (simp_all add: get_spec_def ADAPTER_SPECS_def)
  moreover have "ad_id (harness_spec h) = h" for h
    by (cases h) simp_all
  moreover have "ad_name spec = name \<and> harness_spec (ad_id spec) = spec" if "get_spec name = Some spec" for spec
    using find_Some_in [OF that [unfolded get_spec_def]] by (auto simp: ADAPTER_SPECS_def)
  ultimately show ?thesis
    by (auto split: option.split)
qed

subsection \<open>Launch checks against a field-by-field reference\<close>

fun unsupported :: "adapter_spec \<Rightarrow> launch_request \<Rightarrow> launch_field \<Rightarrow> bool" where
  "unsupported spec rq LF_Model = (lq_model rq \<noteq> None \<and> \<not> lc_model (ad_launch spec))"
| "unsupported spec rq LF_Effort = (lq_effort rq \<noteq> None \<and> \<not> lc_effort (ad_launch spec))"
| "unsupported spec rq LF_Resume = (lq_resume rq \<and> \<not> lc_resume (ad_launch spec))"
| "unsupported spec rq LF_Network =
     (\<exists>mode \<in> set_option (lq_network rq). mode \<notin> set (lc_network (ad_launch spec)))"
| "unsupported spec rq LF_Write = (lq_write rq \<and> \<not> lc_write (ad_launch spec))"
| "unsupported spec rq LF_SkillLocation = (lq_skill_location rq \<and> ad_skills spec = None)"

definition launch_fields :: "launch_field list" where
  "launch_fields = [LF_Model, LF_Effort, LF_Resume, LF_Network, LF_Write, LF_SkillLocation]"

lemma set_launch_fields: "set launch_fields = UNIV"
proof -
  have "f \<in> set launch_fields" for f
    by (cases f) (simp_all add: launch_fields_def)
  then show ?thesis by auto
qed

lemma check_launch_find:
  "check_launch spec rq =
   (case List.find (unsupported spec rq) launch_fields of
      None \<Rightarrow> Inr () | Some f \<Rightarrow> Inl \<lparr>ul_adapter = ad_name spec, ul_field = f\<rparr>)"
  by (cases "lq_network rq") (simp_all add: check_launch_def launch_fields_def Let_def)


subsection \<open>Which account serves a model, which window governs a pool\<close>

lemma account_serves_model_none: "ad_free_account spec = None \<Longrightarrow> account_serves_model spec a m"
  by (simp add: account_serves_model_def)

lemma window_serves_pool_none [simp]: "window_serves_pool spec w None"
  by (simp add: window_serves_pool_def split: bool.split)

end
