(* ===== verification/Records_Json.thy ===== *)
theory Records_Json
  imports Prov_Prelude
begin

section \<open>Bounded JSON documents (crate records)\<close>

text \<open>
  \<open>records/src/json.rs\<close>: every stored record is checked by a validator over its bytes before
  \<open>serde_json\<close> decodes it, so that duplicate members, integers outside the machine ranges,
  deep nesting and oversized collections are refused even where the target type ignores them.
  The validator is the recursive descent \<open>jv_value\<close>, \<open>object_loop\<close>, \<open>array_loop\<close> below, with the
  state of \<open>JsonValidator\<close> as a record. The recursion carries fuel: \<open>None\<close> is a run that has
  spent it, and \<open>validate_document\<close> starts with two units per byte and one more, which
  \<open>validator_terminates\<close> shows to be enough for every input. What \<open>serde_json\<close> makes of a string
  token or of a whole document is an argument. The reference definition is the grammar
  \<open>json_value\<close>, and \<open>validator_exact\<close> shows that the validator accepts exactly its documents.
\<close>

subsection \<open>What the validator uses of the standard library\<close>

text \<open>
  \<open>std::str::from_utf8\<close>: the width of the well-formed sequence at the head of the bytes, and
  the length of the longest well-formed prefix, the \<open>valid_up_to\<close> of the error.
\<close>

definition in_range :: "nat \<Rightarrow> nat \<Rightarrow> char \<Rightarrow> bool" where
  "in_range lo hi c \<longleftrightarrow> lo \<le> byte_of c \<and> byte_of c \<le> hi"

definition continuation :: "char \<Rightarrow> bool" where
  "continuation = in_range 128 191"

definition second_byte :: "char \<Rightarrow> char \<Rightarrow> bool" where
  "second_byte b c =
     (if byte_of b = 224 then in_range 160 191 c
      else if byte_of b = 237 then in_range 128 159 c
      else if byte_of b = 240 then in_range 144 191 c
      else if byte_of b = 244 then in_range 128 143 c
      else continuation c)"

definition utf8_width :: "string \<Rightarrow> nat option" where
  "utf8_width s = (case s of
       [] \<Rightarrow> None
     | b # cs \<Rightarrow>
         if byte_of b < 128 then Some 1
         else if in_range 194 223 b then
           (if cs \<noteq> [] \<and> continuation (cs ! 0) then Some 2 else None)
         else if in_range 224 239 b then
           (if 2 \<le> length cs \<and> second_byte b (cs ! 0) \<and> continuation (cs ! 1) then Some 3 else None)
         else if in_range 240 244 b then
           (if 3 \<le> length cs \<and> second_byte b (cs ! 0) \<and> continuation (cs ! 1) \<and> continuation (cs ! 2)
            then Some 4 else None)
         else None)"

lemma utf8_width_pos: "utf8_width s = Some n \<Longrightarrow> 0 < n \<and> n \<le> length s"
  by (auto simp: utf8_width_def Suc_le_eq split: list.splits if_splits)

function valid_up_to :: "string \<Rightarrow> nat" where
  "valid_up_to s = (case utf8_width s of None \<Rightarrow> 0 | Some n \<Rightarrow> n + valid_up_to (drop n s))"
  by pat_completeness auto

termination
  by (relation "measure length") (auto dest: utf8_width_pos)

declare valid_up_to.simps [simp del]

definition from_utf8 :: "string \<Rightarrow> nat + unit" where
  "from_utf8 s = (if valid_up_to s = length s then Inr () else Inl (valid_up_to s))"

text \<open>\<open>str::parse\<close> to integers: an optional sign and at least one digit, in range.\<close>

definition nat_of_digits :: "string \<Rightarrow> nat" where
  "nat_of_digits s = foldl (\<lambda>a c. 10 * a + (byte_of c - 48)) 0 s"

definition all_digits :: "string \<Rightarrow> bool" where
  "all_digits s \<longleftrightarrow> s \<noteq> [] \<and> list_all is_ascii_digit s"

definition parse_u64 :: "string \<Rightarrow> nat option" where
  "parse_u64 s =
     (let ds = (if s \<noteq> [] \<and> hd s = CHR ''+'' then tl s else s) in
      if all_digits ds \<and> nat_of_digits ds \<le> U64_MAX then Some (nat_of_digits ds) else None)"

definition parse_i64 :: "string \<Rightarrow> int option" where
  "parse_i64 s =
     (let signed = s \<noteq> [] \<and> (hd s = CHR ''+'' \<or> hd s = CHR ''-'');
          ds = (if signed then tl s else s);
          i = (if s \<noteq> [] \<and> hd s = CHR ''-'' then - int (nat_of_digits ds) else int (nat_of_digits ds)) in
      if all_digits ds \<and> is_i64 i then Some i else None)"

text \<open>
  \<open>parse::<f64>\<close> of a decimal token rounds to nearest, ties to even. The result is finite
  exactly below the midpoint of the largest finite value, \<open>(2^53 - 1) * 2^971\<close>, and \<open>2^1024\<close>.
\<close>

abbreviation F64_OVERFLOW :: nat where
  "F64_OVERFLOW \<equiv> (2 ^ 54 - 1) * 2 ^ 970"

definition is_exponent_mark :: "char \<Rightarrow> bool" where
  "is_exponent_mark c \<longleftrightarrow> c = CHR ''e'' \<or> c = CHR ''E''"

definition decimal_mantissa :: "string \<Rightarrow> string \<times> string" where
  "decimal_mantissa s =
     (let m = takeWhile (\<lambda>c. \<not> is_exponent_mark c) (if s \<noteq> [] \<and> hd s = CHR ''-'' then tl s else s) in
      (takeWhile (\<lambda>c. c \<noteq> CHR ''.'') m, tl (dropWhile (\<lambda>c. c \<noteq> CHR ''.'') m)))"

definition decimal_exponent :: "string \<Rightarrow> int" where
  "decimal_exponent s =
     (let e = tl (dropWhile (\<lambda>c. \<not> is_exponent_mark c) s) in
      if e = [] then 0
      else if hd e = CHR ''-'' then - int (nat_of_digits (tl e))
      else if hd e = CHR ''+'' then int (nat_of_digits (tl e))
      else int (nat_of_digits e))"

definition f64_is_finite :: "string \<Rightarrow> bool" where
  "f64_is_finite s =
     (let (whole, fraction) = decimal_mantissa s;
          m = nat_of_digits (whole @ fraction);
          e = decimal_exponent s - int (length fraction) in
      if 0 \<le> e then m * 10 ^ nat e < F64_OVERFLOW else m < F64_OVERFLOW * 10 ^ nat (- e))"

subsection \<open>Limits, errors and positions\<close>

record limits =
  lm_max_bytes :: nat
  lm_max_depth :: nat
  lm_max_members :: nat

definition CONFIG_LIMITS :: limits where
  "CONFIG_LIMITS = \<lparr> lm_max_bytes = 1048576, lm_max_depth = 64, lm_max_members = 100000 \<rparr>"

definition YAML_LIMITS :: limits where
  "YAML_LIMITS = \<lparr> lm_max_bytes = 262144, lm_max_depth = 32, lm_max_members = 10000 \<rparr>"

definition default_limits :: limits where
  "default_limits = \<lparr> lm_max_bytes = 8388608, lm_max_depth = 64, lm_max_members = 100000 \<rparr>"

abbreviation ABSOLUTE_MAX_DEPTH :: nat where
  "ABSOLUTE_MAX_DEPTH \<equiv> 64"

text \<open>The two numbers are the line and the column; \<open>Read\<close> carries the text of the I/O error.\<close>

datatype decode_error =
    Read string
  | TooLarge nat
  | InvalidUtf8 nat nat
  | Syntax nat nat
  | DuplicateMember nat nat
  | IntegerOutOfRange nat nat
  | NonFinite nat nat
  | TrailingInput nat nat
  | DepthExceeded nat nat nat
  | MembersExceeded nat nat nat
  | MissingVersion nat nat
  | InvalidVersion nat nat
  | UnsupportedVersion nat nat nat
  | Typed nat nat

definition location_step :: "nat \<times> nat \<Rightarrow> char \<Rightarrow> nat \<times> nat" where
  "location_step lc c =
     (if c = CHR 0x0A then (u64_saturating_add (fst lc) 1, 1)
      else (fst lc, u64_saturating_add (snd lc) 1))"

definition location :: "string \<Rightarrow> nat \<Rightarrow> nat \<times> nat" where
  "location input offset = foldl location_step (1, 1) (take (min offset (length input)) input)"

subsection \<open>The validator\<close>

record json_validator =
  jv_offset :: nat
  jv_members :: nat
  jv_negative_zeroes :: "nat list"
  jv_schema_version_offset :: "nat option"

definition peek :: "string \<Rightarrow> nat \<Rightarrow> char option" where
  "peek input o' = (if o' < length input then Some (input ! o') else None)"

definition syntax_error :: "string \<Rightarrow> nat \<Rightarrow> decode_error" where
  "syntax_error input o' = (case location input o' of (line, column) \<Rightarrow> Syntax line column)"

definition depth_error :: "string \<Rightarrow> limits \<Rightarrow> nat \<Rightarrow> decode_error" where
  "depth_error input lim o' =
     (case location input o' of (line, column) \<Rightarrow> DepthExceeded line column (lm_max_depth lim))"

text \<open>A loop that advances the offset while the next byte satisfies a test.\<close>

definition skip_while :: "(char \<Rightarrow> bool) \<Rightarrow> string \<Rightarrow> nat \<Rightarrow> nat" where
  "skip_while p input o' = o' + length (takeWhile p (drop o' input))"

definition is_space :: "char \<Rightarrow> bool" where
  "is_space c \<longleftrightarrow> c = CHR '' '' \<or> c = CHR 0x09 \<or> c = CHR 0x0D \<or> c = CHR 0x0A"

definition jv_space :: "string \<Rightarrow> nat \<Rightarrow> nat" where
  "jv_space input o' = skip_while is_space input o'"

definition next_digit :: "string \<Rightarrow> nat \<Rightarrow> bool" where
  "next_digit input o' \<longleftrightarrow> is_some_and (peek input o') is_ascii_digit"

text \<open>The loop of \<open>string\<close>: an error at the offset reached, or the offset behind the closing quote.\<close>

function string_end :: "string \<Rightarrow> nat \<Rightarrow> nat + nat" where
  "string_end input o' = (case peek input o' of
       None \<Rightarrow> Inl o'
     | Some c \<Rightarrow>
         if c = CHR 0x22 then Inr (Suc o')
         else if c = CHR 0x5C then
           (if length input \<le> Suc o' then Inl (Suc o') else string_end input (o' + 2))
         else string_end input (Suc o'))"
  by pat_completeness auto

termination
  by (relation "measure (\<lambda>(input, o'). length input - o')") (auto simp: peek_def split: if_splits)

declare string_end.simps [simp del]

definition slice :: "string \<Rightarrow> nat \<Rightarrow> nat \<Rightarrow> string" where
  "slice input a b = take (b - a) (drop a input)"

definition jv_string :: "(string \<Rightarrow> string option) \<Rightarrow> string \<Rightarrow> nat \<Rightarrow> decode_error + string \<times> nat" where
  "jv_string decode_string input start = (case string_end input (Suc start) of
       Inl o' \<Rightarrow> Inl (syntax_error input o')
     | Inr end' \<Rightarrow> (case decode_string (slice input start end') of
           None \<Rightarrow> Inl (syntax_error input start)
         | Some key \<Rightarrow> Inr (key, end')))"

text \<open>The steps of \<open>number\<close>: sign, integer part, fraction and exponent.\<close>

definition number_sign :: "string \<Rightarrow> nat \<Rightarrow> decode_error + nat" where
  "number_sign input o' =
     (if peek input o' = Some (CHR ''-'') then
        (if next_digit input (Suc o') then Inr (Suc o') else Inl (syntax_error input (Suc o')))
      else Inr o')"

definition number_whole :: "string \<Rightarrow> nat \<Rightarrow> decode_error + nat" where
  "number_whole input o' =
     (if peek input o' = Some (CHR ''0'') then
        (if next_digit input (Suc o') then Inl (syntax_error input (Suc o')) else Inr (Suc o'))
      else if next_digit input o' then Inr (skip_while is_ascii_digit input (Suc o'))
      else Inl (syntax_error input o'))"

definition number_fraction :: "string \<Rightarrow> nat \<Rightarrow> decode_error + bool \<times> nat" where
  "number_fraction input o' =
     (if peek input o' = Some (CHR ''.'') then
        (if next_digit input (Suc o') then Inr (True, skip_while is_ascii_digit input (Suc o'))
         else Inl (syntax_error input (Suc o')))
      else Inr (False, o'))"

definition number_exponent :: "string \<Rightarrow> nat \<Rightarrow> decode_error + bool \<times> nat" where
  "number_exponent input o' =
     (if is_some_and (peek input o') is_exponent_mark then
        (let o'' = (if peek input (Suc o') = Some (CHR ''+'') \<or> peek input (Suc o') = Some (CHR ''-'')
                    then Suc (Suc o') else Suc o') in
         if next_digit input o'' then Inr (True, skip_while is_ascii_digit input o'')
         else Inl (syntax_error input o''))
      else Inr (False, o'))"

definition number_in_range :: "bool \<Rightarrow> string \<Rightarrow> bool" where
  "number_in_range is_float token =
     (if is_float then f64_is_finite token
      else if token \<noteq> [] \<and> hd token = CHR ''-'' then parse_i64 token \<noteq> None
      else parse_u64 token \<noteq> None)"

definition jv_number :: "string \<Rightarrow> json_validator \<Rightarrow> decode_error + json_validator" where
  "jv_number input v =
     (let start = jv_offset v in
      res_bind (number_sign input start) (\<lambda>o1.
      res_bind (number_whole input o1) (\<lambda>o2.
      res_bind (number_fraction input o2) (\<lambda>(fraction, o3).
      res_bind (number_exponent input o3) (\<lambda>(exponent, o4).
      let token = slice input start o4;
          zeroes = (if token = ''-0'' then jv_negative_zeroes v @ [start] else jv_negative_zeroes v) in
      if number_in_range (fraction \<or> exponent) token
      then Inr (v\<lparr>jv_offset := o4, jv_negative_zeroes := zeroes\<rparr>)
      else case location input start of (line, column) \<Rightarrow>
        Inl (if fraction \<or> exponent then NonFinite line column else IntegerOutOfRange line column))))))"

definition jv_literal :: "string \<Rightarrow> string \<Rightarrow> json_validator \<Rightarrow> decode_error + json_validator" where
  "jv_literal input text v =
     (let end' = u64_saturating_add (jv_offset v) (length text) in
      if end' \<le> length input \<and> slice input (jv_offset v) end' = text then Inr (v\<lparr>jv_offset := end'\<rparr>)
      else Inl (syntax_error input (jv_offset v)))"

definition jv_member :: "string \<Rightarrow> limits \<Rightarrow> json_validator \<Rightarrow> decode_error + json_validator" where
  "jv_member input lim v =
     (let members = u64_saturating_add (jv_members v) 1 in
      if lm_max_members lim < members then
        (case location input (jv_offset v) of (line, column) \<Rightarrow>
           Inl (MembersExceeded line column (lm_max_members lim)))
      else Inr (v\<lparr>jv_members := members\<rparr>))"

text \<open>
  One pass of the loop of \<open>object\<close> up to the value: the key, the duplicate check, the member count
  and the colon. The second component of the result is the set of keys with the new key.
\<close>

definition object_key ::
  "(string \<Rightarrow> string option) \<Rightarrow> string \<Rightarrow> limits \<Rightarrow> nat \<Rightarrow> string list \<Rightarrow> json_validator
   \<Rightarrow> decode_error + json_validator \<times> string list" where
  "object_key decode_string input lim depth keys v =
     (let key_offset = jv_space input (jv_offset v) in
      if peek input key_offset \<noteq> Some (CHR 0x22) then Inl (syntax_error input key_offset)
      else res_bind (jv_string decode_string input key_offset) (\<lambda>(key, o1).
        let v1 = (if depth = 0 \<and> key = ''schema_version''
                  then v\<lparr>jv_offset := o1, jv_schema_version_offset := Some key_offset\<rparr>
                  else v\<lparr>jv_offset := o1\<rparr>) in
        if key \<in> set keys then
          (case location input key_offset of (line, column) \<Rightarrow> Inl (DuplicateMember line column))
        else res_bind (jv_member input lim v1) (\<lambda>v2.
          let o2 = jv_space input (jv_offset v2) in
          if peek input o2 = Some (CHR '':'') then Inr (v2\<lparr>jv_offset := Suc o2\<rparr>, key # keys)
          else Inl (syntax_error input o2))))"

text \<open>Sequencing of computations that may run out of fuel.\<close>

definition fuel_bind :: "('e + 'a) option \<Rightarrow> ('a \<Rightarrow> ('e + 'b) option) \<Rightarrow> ('e + 'b) option" where
  "fuel_bind m f = (case m of None \<Rightarrow> None | Some (Inl e) \<Rightarrow> Some (Inl e) | Some (Inr x) \<Rightarrow> f x)"

text \<open>
  \<open>value\<close> after the call that reads it: \<open>object\<close> and \<open>array\<close> are the recursive calls.
\<close>

definition dispatch_value ::
  "(string \<Rightarrow> string option) \<Rightarrow> string \<Rightarrow> limits \<Rightarrow> nat
   \<Rightarrow> (json_validator \<Rightarrow> (decode_error + json_validator) option)
   \<Rightarrow> (json_validator \<Rightarrow> (decode_error + json_validator) option)
   \<Rightarrow> json_validator \<Rightarrow> (decode_error + json_validator) option" where
  "dispatch_value ds input lim depth object array v0 =
     (let v = v0\<lparr>jv_offset := jv_space input (jv_offset v0)\<rparr> in
      if lm_max_depth lim < depth then Some (Inl (depth_error input lim (jv_offset v)))
      else case peek input (jv_offset v) of
          None \<Rightarrow> Some (Inl (syntax_error input (jv_offset v)))
        | Some c \<Rightarrow>
            if c = CHR ''{'' then object v
            else if c = CHR ''['' then array v
            else if c = CHR 0x22 then
              Some (res_bind (jv_string ds input (jv_offset v)) (\<lambda>(_, end'). Inr (v\<lparr>jv_offset := end'\<rparr>)))
            else if c = CHR ''t'' then Some (jv_literal input ''true'' v)
            else if c = CHR ''f'' then Some (jv_literal input ''false'' v)
            else if c = CHR ''n'' then Some (jv_literal input ''null'' v)
            else if c = CHR ''-'' \<or> is_ascii_digit c then Some (jv_number input v)
            else Some (Inl (syntax_error input (jv_offset v))))"

text \<open>The head of \<open>object\<close> and of \<open>array\<close>: the opening byte, and an empty collection.\<close>

definition open_collection ::
  "string \<Rightarrow> char \<Rightarrow> (json_validator \<Rightarrow> (decode_error + json_validator) option)
   \<Rightarrow> json_validator \<Rightarrow> (decode_error + json_validator) option" where
  "open_collection input close loop v =
     (let o' = jv_space input (Suc (jv_offset v)) in
      if peek input o' = Some close then Some (Inr (v\<lparr>jv_offset := Suc o'\<rparr>))
      else loop (v\<lparr>jv_offset := o'\<rparr>))"

text \<open>The end of a pass: the closing byte returns, a comma starts the next pass.\<close>

definition close_or_loop ::
  "string \<Rightarrow> char \<Rightarrow> (json_validator \<Rightarrow> (decode_error + json_validator) option)
   \<Rightarrow> json_validator \<Rightarrow> (decode_error + json_validator) option" where
  "close_or_loop input close loop v =
     (let o' = jv_space input (jv_offset v) in
      if peek input o' = Some close then Some (Inr (v\<lparr>jv_offset := Suc o'\<rparr>))
      else if peek input o' = Some (CHR '','') then loop (v\<lparr>jv_offset := Suc o'\<rparr>)
      else Some (Inl (syntax_error input o')))"

fun jv_value :: "(string \<Rightarrow> string option) \<Rightarrow> string \<Rightarrow> limits \<Rightarrow> nat \<Rightarrow> nat \<Rightarrow> json_validator
      \<Rightarrow> (decode_error + json_validator) option"
  and object_loop :: "(string \<Rightarrow> string option) \<Rightarrow> string \<Rightarrow> limits \<Rightarrow> nat \<Rightarrow> nat \<Rightarrow> string list \<Rightarrow> json_validator
      \<Rightarrow> (decode_error + json_validator) option"
  and array_loop :: "(string \<Rightarrow> string option) \<Rightarrow> string \<Rightarrow> limits \<Rightarrow> nat \<Rightarrow> nat \<Rightarrow> json_validator
      \<Rightarrow> (decode_error + json_validator) option"
where
  "jv_value ds input lim 0 depth v = None"
| "jv_value ds input lim (Suc n) depth v =
     dispatch_value ds input lim depth
       (open_collection input (CHR ''}'') (\<lambda>w. object_loop ds input lim n depth [] w))
       (open_collection input (CHR '']'') (\<lambda>w. array_loop ds input lim n depth w)) v"
| "object_loop ds input lim 0 depth keys v = None"
| "object_loop ds input lim (Suc n) depth keys v =
     fuel_bind (Some (object_key ds input lim depth keys v)) (\<lambda>r.
     fuel_bind (jv_value ds input lim n (Suc depth) (fst r))
       (close_or_loop input (CHR ''}'') (\<lambda>w. object_loop ds input lim n depth (snd r) w)))"
| "array_loop ds input lim 0 depth v = None"
| "array_loop ds input lim (Suc n) depth v =
     fuel_bind (Some (jv_member input lim v)) (\<lambda>w.
     fuel_bind (jv_value ds input lim n (Suc depth) w)
       (close_or_loop input (CHR '']'') (\<lambda>u. array_loop ds input lim n depth u)))"

record validation_facts =
  vf_negative_zeroes :: "nat list"
  vf_schema_version_offset :: "nat option"

definition start_validator :: json_validator where
  "start_validator = \<lparr> jv_offset = 0, jv_members = 0, jv_negative_zeroes = [],
     jv_schema_version_offset = None \<rparr>"

definition document_limits :: "limits \<Rightarrow> limits" where
  "document_limits lim = lim\<lparr>lm_max_depth := min (lm_max_depth lim) ABSOLUTE_MAX_DEPTH\<rparr>"

definition document_fuel :: "string \<Rightarrow> nat" where
  "document_fuel input = 2 * length input + 1"

definition validate_document ::
  "(string \<Rightarrow> string option) \<Rightarrow> string \<Rightarrow> limits \<Rightarrow> (decode_error + validation_facts) option" where
  "validate_document decode_string input lim = (case from_utf8 input of
       Inl up_to \<Rightarrow> (case location input up_to of (line, column) \<Rightarrow> Some (Inl (InvalidUtf8 line column)))
     | Inr _ \<Rightarrow>
         fuel_bind (jv_value decode_string input (document_limits lim) (document_fuel input) 0
                      (start_validator\<lparr>jv_offset := jv_space input 0\<rparr>)) (\<lambda>v.
         let o' = jv_space input (jv_offset v) in
         if o' \<noteq> length input then
           (case location input o' of (line, column) \<Rightarrow> Some (Inl (TrailingInput line column)))
         else Some (Inr \<lparr> vf_negative_zeroes = jv_negative_zeroes v,
                          vf_schema_version_offset = jv_schema_version_offset v \<rparr>)))"

text \<open>
  \<open>normalise_negative_zeroes\<close>: at each position whose two bytes are in range, a minus becomes a
  zero and a zero behind it becomes a space.
\<close>

definition normalise_at :: "string \<Rightarrow> nat \<Rightarrow> string" where
  "normalise_at input i =
     (if u64_saturating_add i 2 \<le> length input then
        (let input1 = (if input ! i = CHR ''-'' then input[i := CHR ''0''] else input) in
         if input1 ! Suc i = CHR ''0'' then input1[Suc i := CHR '' ''] else input1)
      else input)"

definition normalise_negative_zeroes :: "string \<Rightarrow> nat list \<Rightarrow> string" where
  "normalise_negative_zeroes input positions = foldl normalise_at input positions"

subsection \<open>Decoding\<close>

text \<open>A reader is the I/O error it ends with, or the bytes it holds.\<close>

definition read_bounded :: "string + string \<Rightarrow> nat \<Rightarrow> decode_error + string" where
  "read_bounded reader limit = (case reader of
       Inl failure \<Rightarrow> Inl (Read failure)
     | Inr content \<Rightarrow>
         (let bytes = take (u64_saturating_add limit 1) content in
          if limit < length bytes then Inl (TooLarge limit) else Inr bytes))"

text \<open>
  \<open>from_slice\<close> is \<open>serde_json::from_slice\<close>, with the line and column of its error.
\<close>

definition typed :: "(nat \<times> nat) + 'a \<Rightarrow> decode_error + 'a" where
  "typed r = (case r of Inl (line, column) \<Rightarrow> Inl (Typed line column) | Inr x \<Rightarrow> Inr x)"

definition decode ::
  "(string \<Rightarrow> string option) \<Rightarrow> (string \<Rightarrow> (nat \<times> nat) + 'a) \<Rightarrow> string + string \<Rightarrow> limits
   \<Rightarrow> (decode_error + 'a) option" where
  "decode decode_string from_slice reader lim =
     fuel_bind (Some (read_bounded reader (lm_max_bytes lim))) (\<lambda>bytes.
     fuel_bind (validate_document decode_string bytes lim) (\<lambda>facts.
     Some (typed (from_slice (normalise_negative_zeroes bytes (vf_negative_zeroes facts))))))"

text \<open>
  The header of a version-one record. \<open>from_value\<close> decodes to a \<open>serde_json::Value\<close>, and
  \<open>as_u64\<close> reads the number a \<open>Value\<close> holds.
\<close>

definition version_location :: "string \<Rightarrow> validation_facts \<Rightarrow> nat \<times> nat" where
  "version_location bytes facts = (case vf_schema_version_offset facts of
       None \<Rightarrow> (1, 1)
     | Some o' \<Rightarrow> location bytes o')"

definition check_version ::
  "(json \<Rightarrow> nat option) \<Rightarrow> string \<Rightarrow> validation_facts \<Rightarrow> json \<Rightarrow> decode_error + unit" where
  "check_version as_u64 bytes facts header = (case header of
       JObject entries \<Rightarrow> (case map_of entries ''schema_version'' of
           None \<Rightarrow> Inl (MissingVersion 1 1)
         | Some field \<Rightarrow> (case version_location bytes facts of (line, column) \<Rightarrow>
             (case as_u64 field of
                None \<Rightarrow> Inl (InvalidVersion line column)
              | Some version \<Rightarrow>
                  if version \<noteq> 1 then Inl (UnsupportedVersion version line column) else Inr ())))
     | _ \<Rightarrow> Inl (MissingVersion 1 1))"

definition decode_v1 ::
  "(string \<Rightarrow> string option) \<Rightarrow> (string \<Rightarrow> (nat \<times> nat) + json) \<Rightarrow> (json \<Rightarrow> nat option)
   \<Rightarrow> (string \<Rightarrow> (nat \<times> nat) + 'a) \<Rightarrow> string + string \<Rightarrow> limits \<Rightarrow> (decode_error + 'a) option" where
  "decode_v1 decode_string from_value as_u64 from_slice reader lim =
     fuel_bind (Some (read_bounded reader (lm_max_bytes lim))) (\<lambda>bytes0.
     fuel_bind (validate_document decode_string bytes0 lim) (\<lambda>facts.
     let bytes = normalise_negative_zeroes bytes0 (vf_negative_zeroes facts) in
     Some (res_bind (typed (from_value bytes)) (\<lambda>header.
           res_bind (check_version as_u64 bytes facts header) (\<lambda>_.
           typed (from_slice bytes))))))"

subsection \<open>The grammar of accepted documents\<close>

text \<open>
  The grammar of RFC 8259 over bytes, with what the validator adds to it: a string token must
  be one \<open>serde_json\<close> decodes, a number one the machine types hold, the keys of an object are
  distinct after decoding, and a value at a depth above the limit is no value. The index \<open>m\<close>
  counts the members of all collections.
\<close>

fun string_chars :: "string \<Rightarrow> bool" where
  "string_chars [] = True"
| "string_chars [c] = (c \<noteq> CHR 0x5C \<and> c \<noteq> CHR 0x22)"
| "string_chars (c # d # s) =
     (if c = CHR 0x5C then string_chars s else c \<noteq> CHR 0x22 \<and> string_chars (d # s))"

definition string_token :: "string \<Rightarrow> bool" where
  "string_token s \<longleftrightarrow> (\<exists>b. s = CHR 0x22 # b @ [CHR 0x22] \<and> string_chars b)"

definition sign_part :: "string \<Rightarrow> bool" where
  "sign_part s \<longleftrightarrow> s = [] \<or> s = ''-''"

definition whole_part :: "string \<Rightarrow> bool" where
  "whole_part s \<longleftrightarrow> s = ''0'' \<or> all_digits s \<and> hd s \<noteq> CHR ''0''"

definition fraction_part :: "string \<Rightarrow> bool" where
  "fraction_part s \<longleftrightarrow> s = [] \<or> (\<exists>d. s = CHR ''.'' # d \<and> all_digits d)"

definition exponent_part :: "string \<Rightarrow> bool" where
  "exponent_part s \<longleftrightarrow> s = [] \<or> (\<exists>c d. (s = c # d \<or> s = c # CHR ''+'' # d \<or> s = c # CHR ''-'' # d)
     \<and> is_exponent_mark c \<and> all_digits d)"

definition number_token :: "string \<Rightarrow> bool" where
  "number_token s \<longleftrightarrow> (\<exists>g w f e. s = g @ w @ f @ e \<and> sign_part g \<and> whole_part w \<and> fraction_part f
     \<and> exponent_part e \<and> number_in_range (f \<noteq> [] \<or> e \<noteq> []) s)"

abbreviation spaces :: "string \<Rightarrow> bool" where
  "spaces w \<equiv> list_all is_space w"

inductive json_value :: "(string \<Rightarrow> string option) \<Rightarrow> nat \<Rightarrow> nat \<Rightarrow> nat \<Rightarrow> string \<Rightarrow> bool"
  and json_members :: "(string \<Rightarrow> string option) \<Rightarrow> nat \<Rightarrow> nat \<Rightarrow> string list \<Rightarrow> nat \<Rightarrow> string \<Rightarrow> bool"
  and json_elements :: "(string \<Rightarrow> string option) \<Rightarrow> nat \<Rightarrow> nat \<Rightarrow> nat \<Rightarrow> string \<Rightarrow> bool"
  for ds :: "string \<Rightarrow> string option" and max_depth :: nat
where
  json_string: "depth \<le> max_depth \<Longrightarrow> string_token s \<Longrightarrow> ds s = Some key \<Longrightarrow> json_value ds max_depth depth 0 s"
| json_literal: "depth \<le> max_depth \<Longrightarrow> s \<in> {''true'', ''false'', ''null''} \<Longrightarrow> json_value ds max_depth depth 0 s"
| json_number: "depth \<le> max_depth \<Longrightarrow> number_token s \<Longrightarrow> json_value ds max_depth depth 0 s"
| json_empty_object: "depth \<le> max_depth \<Longrightarrow> spaces w \<Longrightarrow> json_value ds max_depth depth 0 (''{'' @ w @ ''}'')"
| json_empty_array: "depth \<le> max_depth \<Longrightarrow> spaces w \<Longrightarrow> json_value ds max_depth depth 0 (''['' @ w @ '']'')"
| json_object: "depth \<le> max_depth \<Longrightarrow> json_members ds max_depth depth [] m s
    \<Longrightarrow> json_value ds max_depth depth m (''{'' @ s @ ''}'')"
| json_array: "depth \<le> max_depth \<Longrightarrow> json_elements ds max_depth depth m s
    \<Longrightarrow> json_value ds max_depth depth m (''['' @ s @ '']'')"
| json_last_member: "spaces w1 \<Longrightarrow> string_token k \<Longrightarrow> ds k = Some key \<Longrightarrow> key \<notin> set keys \<Longrightarrow> spaces w2 \<Longrightarrow> spaces w3
    \<Longrightarrow> json_value ds max_depth (Suc depth) m s \<Longrightarrow> spaces w4
    \<Longrightarrow> json_members ds max_depth depth keys (Suc m) (w1 @ k @ w2 @ '':'' @ w3 @ s @ w4)"
| json_more_members: "spaces w1 \<Longrightarrow> string_token k \<Longrightarrow> ds k = Some key \<Longrightarrow> key \<notin> set keys \<Longrightarrow> spaces w2 \<Longrightarrow> spaces w3
    \<Longrightarrow> json_value ds max_depth (Suc depth) m s \<Longrightarrow> spaces w4
    \<Longrightarrow> json_members ds max_depth depth (key # keys) m' t
    \<Longrightarrow> json_members ds max_depth depth keys (Suc m + m') (w1 @ k @ w2 @ '':'' @ w3 @ s @ w4 @ '','' @ t)"
| json_last_element: "spaces w1 \<Longrightarrow> json_value ds max_depth (Suc depth) m s \<Longrightarrow> spaces w2
    \<Longrightarrow> json_elements ds max_depth depth (Suc m) (w1 @ s @ w2)"
| json_more_elements: "spaces w1 \<Longrightarrow> json_value ds max_depth (Suc depth) m s \<Longrightarrow> spaces w2
    \<Longrightarrow> json_elements ds max_depth depth m' t
    \<Longrightarrow> json_elements ds max_depth depth (Suc m + m') (w1 @ s @ w2 @ '','' @ t)"

definition json_document :: "(string \<Rightarrow> string option) \<Rightarrow> limits \<Rightarrow> string \<Rightarrow> bool" where
  "json_document ds lim input \<longleftrightarrow> (\<exists>w1 s w2 m. input = w1 @ s @ w2 \<and> spaces w1 \<and> spaces w2
     \<and> json_value ds (min (lm_max_depth lim) ABSOLUTE_MAX_DEPTH) 0 m s \<and> m \<le> lm_max_members lim)"

subsection \<open>Spans of the input\<close>

definition spans :: "string \<Rightarrow> nat \<Rightarrow> nat \<Rightarrow> string \<Rightarrow> bool" where
  "spans input a b s \<longleftrightarrow> drop a input = s @ drop b input \<and> b = a + length s"

lemma spans_refl [simp]: "spans input a a s \<longleftrightarrow> s = []"
  by (auto simp: spans_def)

lemma spans_Nil [simp]: "spans input a b [] \<longleftrightarrow> b = a"
  by (auto simp: spans_def)

lemma spans_append: "spans input a c (s @ t) \<longleftrightarrow> (\<exists>b. spans input a b s \<and> spans input b c t)"
proof
  assume *: "spans input a c (s @ t)"
  then have "drop (length s) (drop a input) = t @ drop c input"
    by (simp add: spans_def del: drop_drop)
  then have "drop (a + length s) input = t @ drop c input"
    by (simp add: add.commute)
  with * show "\<exists>b. spans input a b s \<and> spans input b c t"
    by (intro exI [of _ "a + length s"]) (simp add: spans_def)
qed (auto simp: spans_def)

lemma spans_trans: "spans input a b s \<Longrightarrow> spans input b c t \<Longrightarrow> spans input a c (s @ t)"
  by (auto simp: spans_append)

lemma peek_Some: "peek input a = Some c \<longleftrightarrow> spans input a (Suc a) [c]"
  by (auto simp: peek_def spans_def Cons_nth_drop_Suc [symmetric] not_less)

lemma spans_Cons: "spans input a b (c # s) \<longleftrightarrow> peek input a = Some c \<and> spans input (Suc a) b s"
  using spans_append [of input a b "[c]" s] by (auto simp: peek_Some spans_def)

lemma spans_le: "spans input a b s \<Longrightarrow> a \<le> b"
  by (simp add: spans_def)

lemma spans_slice: "spans input a b s \<Longrightarrow> slice input a b = s"
  by (simp add: spans_def slice_def)

lemma spans_slice_self: "a \<le> b \<Longrightarrow> b \<le> length input \<Longrightarrow> spans input a b (slice input a b)"
  by (auto simp: spans_def slice_def) (metis append_take_drop_id drop_drop le_add_diff_inverse2)

lemma spans_bound: "spans input a b s \<Longrightarrow> s \<noteq> [] \<Longrightarrow> b \<le> length input"
proof -
  assume *: "spans input a b s" "s \<noteq> []"
  then have "length input - a = length s + (length input - b)"
    unfolding spans_def by (metis length_append length_drop)
  moreover have "0 < length s" "b = a + length s"
    using * by (auto simp: spans_def)
  ultimately show "b \<le> length input" by linarith
qed

lemma peek_bound: "peek input a = Some c \<Longrightarrow> a < length input"
  by (simp add: peek_def split: if_splits)

lemma spans_skip_while: "\<exists>w. list_all p w \<and> spans input a (skip_while p input a) w"
  by (intro exI [of _ "takeWhile p (drop a input)"])
    (auto simp: skip_while_def spans_def list_all_iff dest: set_takeWhileD,
     metis add.commute drop_drop dropWhile_eq_drop takeWhile_dropWhile_id)

lemma skip_while_stops: "\<not> is_some_and (peek input (skip_while p input a)) p"
proof -
  have "drop (skip_while p input a) input = dropWhile p (drop a input)"
    by (simp add: skip_while_def dropWhile_eq_drop add.commute)
  then show ?thesis
    by (auto simp: is_some_and_iff peek_Some spans_def)
      (metis append_Cons dropWhile_eq_Cons_conv)
qed

lemma skip_while_exact:
  assumes "list_all p w" and "spans input a b w" and "\<not> is_some_and (peek input b) p"
  shows "skip_while p input a = b"
proof -
  have "takeWhile p (drop b input) = []"
  proof (cases "drop b input")
    case (Cons c s)
    then have "peek input b = Some c"
      by (auto simp: peek_Some spans_def) (metis drop_Suc list.sel(3) tl_drop)
    with assms(3) Cons show ?thesis by simp
  qed simp
  with assms(1,2) show ?thesis
    by (simp add: skip_while_def spans_def list_all_iff takeWhile_append2)
qed

lemma spans_space: "\<exists>w. spaces w \<and> spans input a (jv_space input a) w"
  unfolding jv_space_def by (rule spans_skip_while)

lemma space_le: "a \<le> jv_space input a"
  by (simp add: jv_space_def skip_while_def)

lemma space_exact: "spaces w \<Longrightarrow> spans input a b w \<Longrightarrow> \<not> is_some_and (peek input b) is_space \<Longrightarrow> jv_space input a = b"
  unfolding jv_space_def by (rule skip_while_exact)

lemma space_idem: "jv_space input (jv_space input a) = jv_space input a"
  by (rule space_exact [of "[]"]) (simp_all add: jv_space_def skip_while_stops)

lemma space_over: "spaces w \<Longrightarrow> spans input a b w \<Longrightarrow> jv_space input a = jv_space input b"
proof -
  assume w: "spaces w" "spans input a b w"
  obtain w' where "spaces w'" "spans input b (jv_space input b) w'"
    using spans_space by blast
  with w have "spaces (w @ w')" "spans input a (jv_space input b) (w @ w')"
    by (auto simp: spans_append)
  then show ?thesis
    by (rule space_exact) (simp add: jv_space_def skip_while_stops)
qed

subsection \<open>Tokens\<close>

lemma string_end_sound: "string_end input a = Inr b \<Longrightarrow> \<exists>s. string_chars s \<and> spans input a b (s @ [CHR 0x22])"
proof (induction input a rule: string_end.induct)
  case (1 input a)
  then obtain c where c: "peek input a = Some c"
    by (cases "peek input a") (simp_all add: string_end.simps)
  consider (quote) "c = CHR 0x22" | (escape) "c = CHR 0x5C" "Suc a < length input" "string_end input (a + 2) = Inr b"
    | (plain) "c \<noteq> CHR 0x22" "c \<noteq> CHR 0x5C" "string_end input (Suc a) = Inr b"
    using 1(3) c by (auto simp: string_end.simps [of input a] split: if_splits)
  then show ?case
  proof cases
    case quote
    with 1(3) c show ?thesis
      by (intro exI [of _ "[]"]) (simp add: string_end.simps [of input a] spans_Cons)
  next
    case escape
    with 1(1) [OF c] obtain s where "string_chars s" "spans input (a + 2) b (s @ [CHR 0x22])"
      by auto
    moreover from escape have "peek input (Suc a) = Some (input ! Suc a)" by (simp add: peek_def)
    ultimately show ?thesis using escape c
      by (intro exI [of _ "c # input ! Suc a # s"]) (simp add: spans_Cons)
  next
    case plain
    with 1(2) [OF c] obtain s where "string_chars s" "spans input (Suc a) b (s @ [CHR 0x22])"
      by auto
    with plain c show ?thesis
      by (intro exI [of _ "c # s"], cases s) (auto simp: spans_Cons)
  qed
qed

lemma string_end_exact: "string_chars s \<Longrightarrow> spans input a b (s @ [CHR 0x22]) \<Longrightarrow> string_end input a = Inr b"
proof (induction s arbitrary: a rule: string_chars.induct)
  case 1
  then show ?case by (auto simp: string_end.simps [of input a] spans_Cons)
next
  case (2 c)
  then show ?case
    by (auto simp: string_end.simps [of input a] string_end.simps [of input "Suc a"] spans_Cons)
next
  case (3 c d s)
  then show ?case
    by (auto simp: string_end.simps [of input a] spans_Cons dest: peek_bound split: if_splits)
qed

lemma jv_string_sound:
  assumes "jv_string ds input a = Inr (key, b)" and "peek input a = Some (CHR 0x22)"
  shows "\<exists>s. string_token s \<and> ds s = Some key \<and> spans input a b s"
proof -
  from assms(1) have "string_end input (Suc a) = Inr b" and d: "ds (slice input a b) = Some key"
    by (auto simp: jv_string_def split: sum.splits option.splits)
  from string_end_sound [OF this(1)] obtain s where s: "string_chars s" "spans input (Suc a) b (s @ [CHR 0x22])"
    by blast
  with assms(2) have "spans input a b (CHR 0x22 # s @ [CHR 0x22])" by (simp add: spans_Cons)
  with d s(1) show ?thesis
    unfolding string_token_def by (metis spans_slice)
qed

lemma jv_string_exact:
  assumes "string_token s" and "ds s = Some key" and "spans input a b s"
  shows "jv_string ds input a = Inr (key, b)"
proof -
  from assms(1) obtain t where t: "s = CHR 0x22 # t @ [CHR 0x22]" "string_chars t"
    by (auto simp: string_token_def)
  with assms(3) have "string_end input (Suc a) = Inr b"
    by (intro string_end_exact [of t]) (simp_all add: spans_Cons)
  moreover from assms(3) have "slice input a b = s" by (rule spans_slice)
  ultimately show ?thesis using assms(2) by (simp add: jv_string_def)
qed

text \<open>Numbers: each part is recognised exactly.\<close>

lemma next_digit_iff: "next_digit input a \<longleftrightarrow> (\<exists>c. peek input a = Some c \<and> is_ascii_digit c)"
  by (simp add: next_digit_def is_some_and_iff)

lemma spans_digits:
  assumes "next_digit input a"
  shows "\<exists>d. all_digits d \<and> spans input a (skip_while is_ascii_digit input a) d"
proof -
  obtain d where d: "list_all is_ascii_digit d" "spans input a (skip_while is_ascii_digit input a) d"
    using spans_skip_while by blast
  have "d \<noteq> []"
    using d(2) skip_while_stops [of input is_ascii_digit a] assms by (auto simp: spans_def next_digit_def)
  with d show ?thesis by (auto simp: all_digits_def)
qed

lemma digits_next: "all_digits d \<Longrightarrow> spans input a b d \<Longrightarrow> next_digit input a"
  by (cases d) (auto simp: all_digits_def spans_Cons next_digit_iff)

lemma digits_exact:
  "all_digits d \<Longrightarrow> spans input a b d \<Longrightarrow> \<not> next_digit input b \<Longrightarrow> skip_while is_ascii_digit input a = b"
  by (rule skip_while_exact) (auto simp: all_digits_def next_digit_def)

lemma skip_digit: "next_digit input a \<Longrightarrow> skip_while is_ascii_digit input (Suc a) = skip_while is_ascii_digit input a"
  by (auto simp: next_digit_iff peek_def skip_while_def Cons_nth_drop_Suc [symmetric] split: if_splits)

lemma not_digit [simp]:
  "\<not> is_ascii_digit (CHR ''.'')" "\<not> is_ascii_digit (CHR ''-'')" "\<not> is_ascii_digit (CHR ''+'')"
  "\<not> is_ascii_digit (CHR ''e'')" "\<not> is_ascii_digit (CHR ''E'')" "is_ascii_digit (CHR ''0'')"
  by (simp_all add: is_ascii_digit_def)

lemma number_sign_sound: "number_sign input a = Inr b \<Longrightarrow> \<exists>s. sign_part s \<and> spans input a b s"
  by (intro exI [of _ "if peek input a = Some (CHR ''-'') then ''-'' else []"])
    (simp add: number_sign_def sign_part_def spans_Cons split: if_splits)

lemma number_sign_exact:
  "sign_part s \<Longrightarrow> spans input a b s \<Longrightarrow> next_digit input b \<Longrightarrow> number_sign input a = Inr b"
  by (auto simp: number_sign_def sign_part_def spans_Cons next_digit_iff)

lemma number_whole_sound: "number_whole input a = Inr b \<Longrightarrow> \<exists>s. whole_part s \<and> spans input a b s"
proof (cases "peek input a = Some (CHR ''0'')")
  case True
  moreover assume "number_whole input a = Inr b"
  ultimately show ?thesis
    by (intro exI [of _ "''0''"]) (auto simp: number_whole_def whole_part_def spans_Cons split: if_splits)
next
  case False
  moreover assume "number_whole input a = Inr b"
  ultimately have a: "next_digit input a" and "b = skip_while is_ascii_digit input (Suc a)"
    by (auto simp: number_whole_def split: if_splits)
  with spans_digits [OF a] obtain d where d: "all_digits d" "spans input a b d"
    by (auto simp: skip_digit)
  with False have "hd d \<noteq> CHR ''0''" by (cases d) (auto simp: spans_Cons all_digits_def)
  with d show ?thesis by (auto simp: whole_part_def)
qed

lemma whole_next: "whole_part s \<Longrightarrow> spans input a b s \<Longrightarrow> next_digit input a"
  by (auto simp: whole_part_def spans_Cons next_digit_iff dest: digits_next)

lemma number_whole_exact:
  assumes "whole_part s" and "spans input a b s" and "\<not> next_digit input b"
  shows "number_whole input a = Inr b"
proof (cases "s = ''0''")
  case True
  with assms show ?thesis by (auto simp: number_whole_def spans_Cons)
next
  case False
  with assms(1) have s: "all_digits s" "hd s \<noteq> CHR ''0''" by (auto simp: whole_part_def)
  with assms(2) have "peek input a \<noteq> Some (CHR ''0'')" by (cases s) (auto simp: spans_Cons all_digits_def)
  with s assms whole_next [OF assms(1,2)] digits_exact [OF s(1) assms(2,3)] show ?thesis
    by (simp add: number_whole_def skip_digit)
qed

lemma number_fraction_sound:
  "number_fraction input a = Inr (f, b) \<Longrightarrow> \<exists>s. fraction_part s \<and> f = (s \<noteq> []) \<and> spans input a b s"
proof (cases f)
  case True
  moreover assume "number_fraction input a = Inr (f, b)"
  ultimately have "peek input a = Some (CHR ''.'')" "next_digit input (Suc a)"
    "b = skip_while is_ascii_digit input (Suc a)"
    by (auto simp: number_fraction_def split: if_splits)
  moreover from spans_digits [OF this(2)] obtain d where
    "all_digits d" "spans input (Suc a) (skip_while is_ascii_digit input (Suc a)) d" by blast
  ultimately show ?thesis using True
    by (intro exI [of _ "CHR ''.'' # d"]) (auto simp: fraction_part_def spans_Cons)
next
  case False
  moreover assume "number_fraction input a = Inr (f, b)"
  ultimately show ?thesis
    by (intro exI [of _ "[]"]) (auto simp: number_fraction_def fraction_part_def split: if_splits)
qed

lemma number_fraction_exact:
  assumes "fraction_part s" and "spans input a b s" and "\<not> next_digit input b" and "peek input b \<noteq> Some (CHR ''.'')"
  shows "number_fraction input a = Inr (s \<noteq> [], b)"
  using assms
  by (auto simp: fraction_part_def number_fraction_def spans_Cons digits_exact dest: digits_next)

lemma exponent_marks [simp]:
  "is_exponent_mark (CHR ''e'')" "is_exponent_mark (CHR ''E'')" "\<not> is_exponent_mark (CHR ''.'')"
  by (simp_all add: is_exponent_mark_def)

lemma exponent_mark_not_digit: "is_exponent_mark c \<Longrightarrow> \<not> is_ascii_digit c \<and> c \<noteq> CHR ''.''"
  by (auto simp: is_exponent_mark_def)

definition exponent_start :: "string \<Rightarrow> nat \<Rightarrow> nat" where
  "exponent_start input a =
     (if peek input (Suc a) = Some (CHR ''+'') \<or> peek input (Suc a) = Some (CHR ''-'') then Suc (Suc a) else Suc a)"

lemma number_exponent_eq:
  "number_exponent input a =
     (if is_some_and (peek input a) is_exponent_mark then
        (if next_digit input (exponent_start input a)
         then Inr (True, skip_while is_ascii_digit input (exponent_start input a))
         else Inl (syntax_error input (exponent_start input a)))
      else Inr (False, a))"
  by (simp add: number_exponent_def exponent_start_def Let_def)

lemma number_exponent_sound:
  assumes "number_exponent input a = Inr (f, b)"
  shows "\<exists>s. exponent_part s \<and> f = (s \<noteq> []) \<and> spans input a b s"
proof (cases f)
  case True
  with assms have "is_some_and (peek input a) is_exponent_mark" and d: "next_digit input (exponent_start input a)"
    and b: "b = skip_while is_ascii_digit input (exponent_start input a)"
    by (auto simp: number_exponent_eq split: if_splits)
  then obtain c where c: "peek input a = Some c" "is_exponent_mark c" by (auto simp: is_some_and_iff)
  obtain d where d: "all_digits d" "spans input (exponent_start input a) b d"
    using spans_digits [OF d] b by blast
  then have "spans input a b (c # d) \<or> spans input a b (c # CHR ''+'' # d) \<or> spans input a b (c # CHR ''-'' # d)"
    using c by (auto simp: spans_Cons exponent_start_def split: if_splits)
  with c d(1) True show ?thesis
    unfolding exponent_part_def by blast
next
  case False
  with assms show ?thesis
    by (intro exI [of _ "[]"]) (auto simp: number_exponent_eq exponent_part_def split: if_splits)
qed

lemma number_exponent_exact:
  assumes "exponent_part s" and "spans input a b s" and "\<not> next_digit input b"
    and "\<not> is_some_and (peek input b) is_exponent_mark"
  shows "number_exponent input a = Inr (s \<noteq> [], b)"
proof (cases "s = []")
  case True
  with assms show ?thesis by (simp add: number_exponent_eq)
next
  case False
  with assms(1) obtain c d where s: "s = c # d \<or> s = c # CHR ''+'' # d \<or> s = c # CHR ''-'' # d"
    and c: "is_exponent_mark c" and d: "all_digits d"
    by (auto simp: exponent_part_def)
  have "spans input (exponent_start input a) b d"
    using s assms(2) digits_next [OF d, of input "Suc a" b]
    by (auto simp: exponent_start_def spans_Cons next_digit_iff)
  moreover have "peek input a = Some c" using s assms(2) by (auto simp: spans_Cons)
  ultimately show ?thesis
    using c d assms(3) False by (simp add: number_exponent_eq digits_next digits_exact)
qed

definition delimiter :: "char option \<Rightarrow> bool" where
  "delimiter x \<longleftrightarrow> is_none_or x (\<lambda>c. is_space c \<or> c = CHR '','' \<or> c = CHR ''}'' \<or> c = CHR '']'')"

lemma delimiter_not:
  assumes "delimiter (peek input b)"
  shows "\<not> next_digit input b" "peek input b \<noteq> Some (CHR ''.'')" "\<not> is_some_and (peek input b) is_exponent_mark"
  using assms
  by (auto simp: delimiter_def is_none_or_iff next_digit_iff is_some_and_iff is_space_def is_ascii_digit_def is_exponent_mark_def)

lemma jv_number_sound:
  assumes "jv_number input v = Inr v'"
  shows "\<exists>s. number_token s \<and> spans input (jv_offset v) (jv_offset v') s \<and> jv_members v' = jv_members v"
proof -
  from assms obtain o1 o2 f o3 e where parts: "number_sign input (jv_offset v) = Inr o1"
    "number_whole input o1 = Inr o2" "number_fraction input o2 = Inr (f, o3)"
    "number_exponent input o3 = Inr (e, jv_offset v')"
    and range: "number_in_range (f \<or> e) (slice input (jv_offset v) (jv_offset v'))"
    and members: "jv_members v' = jv_members v"
    by (auto simp: jv_number_def Let_def split: if_splits prod.splits)
  obtain g w fs es where spans: "spans input (jv_offset v) o1 g" "spans input o1 o2 w" "spans input o2 o3 fs"
      "spans input o3 (jv_offset v') es"
    and s: "sign_part g" "whole_part w" "fraction_part fs" "exponent_part es" "f = (fs \<noteq> [])" "e = (es \<noteq> [])"
    using number_sign_sound [OF parts(1)] number_whole_sound [OF parts(2)]
      number_fraction_sound [OF parts(3)] number_exponent_sound [OF parts(4)] by blast
  from spans have "spans input (jv_offset v) (jv_offset v') (g @ w @ fs @ es)"
    by (auto simp: spans_append)
  moreover from this range s have "number_token (g @ w @ fs @ es)"
    unfolding number_token_def by (intro exI conjI) (auto dest: spans_slice)
  ultimately show ?thesis using members by blast
qed

lemma fraction_or_exponent_next:
  assumes "fraction_part f" "exponent_part e" "spans input a b f" "spans input b c e" "delimiter (peek input c)"
  shows "\<not> next_digit input a" "f = [] \<Longrightarrow> peek input a \<noteq> Some (CHR ''.'')"
    "\<not> next_digit input b" "peek input b \<noteq> Some (CHR ''.'')"
proof -
  show b: "\<not> next_digit input b" "peek input b \<noteq> Some (CHR ''.'')"
    using assms(2,4) delimiter_not [OF assms(5)]
    by (auto simp: exponent_part_def next_digit_iff spans_Cons dest: exponent_mark_not_digit)
  show "\<not> next_digit input a" "f = [] \<Longrightarrow> peek input a \<noteq> Some (CHR ''.'')"
    using assms(1,3) b by (auto simp: fraction_part_def next_digit_iff spans_Cons)
qed

lemma jv_number_exact:
  assumes "number_token s" and "spans input (jv_offset v) b s" and "delimiter (peek input b)"
  shows "\<exists>v'. jv_number input v = Inr v' \<and> jv_offset v' = b \<and> jv_members v' = jv_members v"
proof -
  from assms(1) obtain g w f e where s: "s = g @ w @ f @ e" and parts: "sign_part g" "whole_part w" "fraction_part f"
    "exponent_part e" and range: "number_in_range (f \<noteq> [] \<or> e \<noteq> []) s"
    by (auto simp: number_token_def)
  from assms(2) s obtain o1 o2 o3 where spans: "spans input (jv_offset v) o1 g" "spans input o1 o2 w"
    "spans input o2 o3 f" "spans input o3 b e"
    by (auto simp: spans_append)
  note after = fraction_or_exponent_next [OF parts(3,4) spans(3,4) assms(3)]
  have "number_sign input (jv_offset v) = Inr o1"
    using number_sign_exact [OF parts(1) spans(1)] whole_next [OF parts(2) spans(2)] by simp
  moreover have "number_whole input o1 = Inr o2"
    using number_whole_exact [OF parts(2) spans(2)] after(1) by simp
  moreover have "number_fraction input o2 = Inr (f \<noteq> [], o3)"
    using number_fraction_exact [OF parts(3) spans(3)] after by simp
  moreover have "number_exponent input o3 = Inr (e \<noteq> [], b)"
    using number_exponent_exact [OF parts(4) spans(4)] delimiter_not [OF assms(3)] by simp
  moreover have "slice input (jv_offset v) b = s" by (rule spans_slice [OF assms(2)])
  ultimately show ?thesis using range by (simp add: jv_number_def Let_def)
qed

lemma spans_literal:
  "a + length t \<le> length input \<and> slice input a (a + length t) = t \<longleftrightarrow> spans input a (a + length t) t" if "t \<noteq> []"
  using spans_slice_self [of a "a + length t" input] spans_slice [of input a "a + length t" t]
    spans_bound [of input a "a + length t" t] that by auto

text \<open>A slice is shorter than \<open>usize::MAX\<close>, so no offset saturates.\<close>

definition fits :: "string \<Rightarrow> bool" where
  "fits input \<longleftrightarrow> length input < U64_MAX"

lemma jv_literal_iff:
  assumes "fits input" "t \<noteq> []"
  shows "jv_literal input t v = Inr v' \<longleftrightarrow>
    spans input (jv_offset v) (jv_offset v + length t) t \<and> v' = v\<lparr>jv_offset := jv_offset v + length t\<rparr>"
proof (cases "jv_offset v + length t \<le> length input")
  case True
  with assms(1) have "u64_saturating_add (jv_offset v) (length t) = jv_offset v + length t"
    by (simp add: u64_saturating_add_def fits_def)
  then show ?thesis using spans_literal [OF assms(2), of "jv_offset v" input]
    by (auto simp: jv_literal_def Let_def)
next
  case False
  with assms(1) have "\<not> u64_saturating_add (jv_offset v) (length t) \<le> length input"
    by (auto simp: u64_saturating_add_def fits_def)
  with False spans_literal [OF assms(2), of "jv_offset v" input] show ?thesis
    by (auto simp: jv_literal_def Let_def)
qed

subsection \<open>Soundness: what the validator accepts is in the grammar\<close>

lemma fuel_bind_simps [simp]:
  "fuel_bind None f = None"
  "fuel_bind (Some (Inl e)) f = Some (Inl e)"
  "fuel_bind (Some (Inr x)) f = f x"
  by (simp_all add: fuel_bind_def)

lemma fuel_bind_Inr_iff: "fuel_bind m f = Some (Inr y) \<longleftrightarrow> (\<exists>x. m = Some (Inr x) \<and> f x = Some (Inr y))"
  by (auto simp: fuel_bind_def split: option.splits sum.splits)

lemma fuel_bind_None_iff: "fuel_bind m f = None \<longleftrightarrow> m = None \<or> (\<exists>x. m = Some (Inr x) \<and> f x = None)"
  by (auto simp: fuel_bind_def split: option.splits sum.splits)

text \<open>The members a run counts, and that it stays within the limit.\<close>

definition counts :: "limits \<Rightarrow> json_validator \<Rightarrow> json_validator \<Rightarrow> nat \<Rightarrow> bool" where
  "counts lim v v' m \<longleftrightarrow> jv_members v' = min U64_MAX (jv_members v + m)
     \<and> (jv_members v \<le> lm_max_members lim \<longrightarrow> jv_members v' \<le> lm_max_members lim)"

lemma counts_trans: "counts lim v v' m \<Longrightarrow> counts lim v' v'' m' \<Longrightarrow> counts lim v v'' (m + m')"
  by (auto simp: counts_def min_def)

lemma counts_offset [simp]:
  "counts lim (v\<lparr>jv_offset := a\<rparr>) v' m = counts lim v v' m"
  "counts lim v (v'\<lparr>jv_offset := a\<rparr>) m = counts lim v v' m"
  by (simp_all add: counts_def)

lemma jv_member_iff:
  "jv_member input lim v = Inr w \<longleftrightarrow>
     u64_saturating_add (jv_members v) 1 \<le> lm_max_members lim \<and> w = v\<lparr>jv_members := u64_saturating_add (jv_members v) 1\<rparr>"
  by (auto simp: jv_member_def Let_def split: prod.splits)

lemma jv_member_counts: "jv_member input lim v = Inr w \<Longrightarrow> jv_offset w = jv_offset v \<and> counts lim v w 1"
  by (auto simp: jv_member_iff counts_def u64_saturating_add_def)

lemma object_key_sound:
  assumes "object_key ds input lim depth keys v = Inr (w, keys')"
  shows "\<exists>w1 k key w2. spaces w1 \<and> string_token k \<and> ds k = Some key \<and> key \<notin> set keys \<and> spaces w2
    \<and> keys' = key # keys \<and> spans input (jv_offset v) (jv_offset w) (w1 @ k @ w2 @ '':'') \<and> counts lim v w 1"
proof -
  let ?a = "jv_space input (jv_offset v)"
  from assms obtain key b where quote: "peek input ?a = Some (CHR 0x22)" and key: "jv_string ds input ?a = Inr (key, b)"
    and fresh: "key \<notin> set keys" and members: "u64_saturating_add (jv_members v) 1 \<le> lm_max_members lim"
      "jv_members w = u64_saturating_add (jv_members v) 1"
    and colon: "peek input (jv_space input b) = Some (CHR '':'')" "jv_offset w = Suc (jv_space input b)"
    and keys: "keys' = key # keys"
    by (auto simp: object_key_def Let_def jv_member_iff split: if_splits prod.splits)
  obtain w1 where w1: "spaces w1" "spans input (jv_offset v) ?a w1" using spans_space by blast
  obtain k where k: "string_token k" "ds k = Some key" "spans input ?a b k"
    using jv_string_sound [OF key quote] by blast
  obtain w2 where w2: "spaces w2" "spans input b (jv_space input b) w2" using spans_space by blast
  have "spans input (jv_offset v) (jv_offset w) (w1 @ k @ w2 @ '':'')"
    unfolding spans_append using w1(2) k(3) w2(2) colon by (auto simp: spans_Cons)
  moreover have "counts lim v w 1"
    using members by (simp add: counts_def u64_saturating_add_def)
  ultimately show ?thesis using w1(1) k(1,2) w2(1) fresh keys by blast
qed

lemma close_or_loop_sound:
  assumes "close_or_loop input close loop v = Some (Inr v')"
  shows "\<exists>w b. spaces w \<and> (spans input (jv_offset v) b (w @ [close]) \<and> v' = v\<lparr>jv_offset := b\<rparr>
    \<or> spans input (jv_offset v) b (w @ '','') \<and> loop (v\<lparr>jv_offset := b\<rparr>) = Some (Inr v'))"
proof -
  obtain w where w: "spaces w" "spans input (jv_offset v) (jv_space input (jv_offset v)) w"
    using spans_space by blast
  then show ?thesis using assms
    by (intro exI [of _ w] exI [of _ "Suc (jv_space input (jv_offset v))"])
      (auto simp: close_or_loop_def Let_def spans_append spans_Cons split: if_splits)
qed

lemma open_collection_sound:
  assumes "open_collection input close loop v = Some (Inr v')" and "peek input (jv_offset v) = Some c"
  shows "(\<exists>w. spaces w \<and> spans input (jv_offset v) (jv_offset v') ([c] @ w @ [close]) \<and> jv_members v' = jv_members v)
    \<or> (\<exists>w b. spaces w \<and> spans input (jv_offset v) b ([c] @ w) \<and> loop (v\<lparr>jv_offset := b\<rparr>) = Some (Inr v'))"
proof -
  let ?b = "jv_space input (Suc (jv_offset v))"
  obtain w where w: "spaces w" "spans input (Suc (jv_offset v)) ?b w"
    using spans_space by blast
  then show ?thesis
  proof (cases "peek input ?b = Some close")
    case True
    then show ?thesis using w assms
      by (intro disjI1 exI [of _ w]) (auto simp: open_collection_def Let_def spans_append spans_Cons)
  next
    case False
    then show ?thesis using w assms
      by (intro disjI2 exI [of _ w] exI [of _ ?b]) (auto simp: open_collection_def Let_def spans_append spans_Cons)
  qed
qed

lemma members_spaces:
  assumes "json_members ds D depth keys m s" and "spaces w"
  shows "json_members ds D depth keys m (w @ s)"
  using assms(1)
proof cases
  case (json_last_member w1 k key w2 w3 m s w4)
  then show ?thesis
    using json_value_json_members_json_elements.json_last_member [of "w @ w1" k ds key keys w2 w3 D depth m s w4] assms(2)
    by simp
next
  case (json_more_members w1 k key w2 w3 m s w4 m' t)
  then show ?thesis
    using json_value_json_members_json_elements.json_more_members [of "w @ w1" k ds key keys w2 w3 D depth m s w4 m' t] assms(2)
    by simp
qed

lemma elements_spaces:
  assumes "json_elements ds D depth m s" and "spaces w"
  shows "json_elements ds D depth m (w @ s)"
  using assms(1)
proof cases
  case (json_last_element w1 m s w2)
  then show ?thesis
    using json_value_json_members_json_elements.json_last_element [of "w @ w1" ds D depth m s w2] assms(2) by simp
next
  case (json_more_elements w1 m s w2 m' t)
  then show ?thesis
    using json_value_json_members_json_elements.json_more_elements [of "w @ w1" ds D depth m s w2 m' t] assms(2) by simp
qed

text \<open>What a run of each of the three recursive functions has read.\<close>

definition reads_value :: "(string \<Rightarrow> string option) \<Rightarrow> string \<Rightarrow> limits \<Rightarrow> nat \<Rightarrow> json_validator \<Rightarrow> json_validator \<Rightarrow> bool" where
  "reads_value ds input lim depth v v' \<longleftrightarrow> (\<exists>w s m. spaces w \<and> json_value ds (lm_max_depth lim) depth m s
     \<and> spans input (jv_offset v) (jv_offset v') (w @ s) \<and> counts lim v v' m)"

definition reads_members :: "(string \<Rightarrow> string option) \<Rightarrow> string \<Rightarrow> limits \<Rightarrow> nat \<Rightarrow> string list \<Rightarrow> json_validator \<Rightarrow> json_validator \<Rightarrow> bool" where
  "reads_members ds input lim depth keys v v' \<longleftrightarrow> (\<exists>s m. json_members ds (lm_max_depth lim) depth keys m s
     \<and> spans input (jv_offset v) (jv_offset v') (s @ ''}'') \<and> counts lim v v' m)"

definition reads_elements :: "(string \<Rightarrow> string option) \<Rightarrow> string \<Rightarrow> limits \<Rightarrow> nat \<Rightarrow> json_validator \<Rightarrow> json_validator \<Rightarrow> bool" where
  "reads_elements ds input lim depth v v' \<longleftrightarrow> (\<exists>s m. json_elements ds (lm_max_depth lim) depth m s
     \<and> spans input (jv_offset v) (jv_offset v') (s @ '']'') \<and> counts lim v v' m)"

lemma counts_same: "jv_members v' = jv_members v \<Longrightarrow> jv_members v \<le> U64_MAX \<Longrightarrow> counts lim v v' 0"
  by (simp add: counts_def)

lemma object_sound:
  assumes "open_collection input (CHR ''}'') loop v = Some (Inr v')" and "peek input (jv_offset v) = Some (CHR ''{'')"
    and "depth \<le> lm_max_depth lim" and "jv_members v \<le> U64_MAX"
    and loop: "\<And>w. jv_members w = jv_members v \<Longrightarrow> loop w = Some (Inr v') \<Longrightarrow> reads_members ds input lim depth [] w v'"
  shows "\<exists>s m. json_value ds (lm_max_depth lim) depth m s \<and> spans input (jv_offset v) (jv_offset v') s \<and> counts lim v v' m"
  using open_collection_sound [OF assms(1,2)]
proof (elim disjE exE conjE)
  fix w assume "spaces w" "spans input (jv_offset v) (jv_offset v') (''{'' @ w @ ''}'')" "jv_members v' = jv_members v"
  then show ?thesis
    using json_empty_object [OF assms(3), of w ds] counts_same assms(4) by blast
next
  fix w b assume w: "spaces w" "spans input (jv_offset v) b (''{'' @ w)" "loop (v\<lparr>jv_offset := b\<rparr>) = Some (Inr v')"
  obtain s m where s: "json_members ds (lm_max_depth lim) depth [] m s" "spans input b (jv_offset v') (s @ ''}'')" "counts lim v v' m"
    using loop [OF _ w(3)] by (auto simp: reads_members_def)
  have "json_value ds (lm_max_depth lim) depth m (''{'' @ (w @ s) @ ''}'')"
    using json_object [OF assms(3) members_spaces [OF s(1) w(1)]] .
  moreover have "spans input (jv_offset v) (jv_offset v') (''{'' @ (w @ s) @ ''}'')"
    using spans_trans [OF w(2) s(2)] by simp
  ultimately show ?thesis using s(3) by blast
qed

lemma array_sound:
  assumes "open_collection input (CHR '']'') loop v = Some (Inr v')" and "peek input (jv_offset v) = Some (CHR ''['')"
    and "depth \<le> lm_max_depth lim" and "jv_members v \<le> U64_MAX"
    and loop: "\<And>w. jv_members w = jv_members v \<Longrightarrow> loop w = Some (Inr v') \<Longrightarrow> reads_elements ds input lim depth w v'"
  shows "\<exists>s m. json_value ds (lm_max_depth lim) depth m s \<and> spans input (jv_offset v) (jv_offset v') s \<and> counts lim v v' m"
  using open_collection_sound [OF assms(1,2)]
proof (elim disjE exE conjE)
  fix w assume "spaces w" "spans input (jv_offset v) (jv_offset v') (''['' @ w @ '']'')" "jv_members v' = jv_members v"
  then show ?thesis
    using json_empty_array [OF assms(3), of w ds] counts_same assms(4) by blast
next
  fix w b assume w: "spaces w" "spans input (jv_offset v) b (''['' @ w)" "loop (v\<lparr>jv_offset := b\<rparr>) = Some (Inr v')"
  obtain s m where s: "json_elements ds (lm_max_depth lim) depth m s" "spans input b (jv_offset v') (s @ '']'')" "counts lim v v' m"
    using loop [OF _ w(3)] by (auto simp: reads_elements_def)
  have "json_value ds (lm_max_depth lim) depth m (''['' @ (w @ s) @ '']'')"
    using json_array [OF assms(3) elements_spaces [OF s(1) w(1)]] .
  moreover have "spans input (jv_offset v) (jv_offset v') (''['' @ (w @ s) @ '']'')"
    using spans_trans [OF w(2) s(2)] by simp
  ultimately show ?thesis using s(3) by blast
qed

lemma literal_sound:
  assumes "jv_literal input t v = Inr v'" and "t \<in> {''true'', ''false'', ''null''}" and "fits input"
    and "depth \<le> D" and "jv_members v \<le> U64_MAX"
  shows "\<exists>s m. json_value ds D depth m s \<and> spans input (jv_offset v) (jv_offset v') s \<and> counts lim v v' m"
proof -
  from assms(2) have "t \<noteq> []" by auto
  with assms(1,3) have "spans input (jv_offset v) (jv_offset v') t" "jv_members v' = jv_members v"
    by (simp_all add: jv_literal_iff)
  with json_literal [OF assms(4,2), of ds] counts_same assms(5) show ?thesis by blast
qed

lemma dispatch_sound:
  assumes "dispatch_value ds input lim depth object array v0 = Some (Inr v')" and "fits input" and "jv_members v0 \<le> U64_MAX"
    and object: "\<And>v. \<lbrakk>object v = Some (Inr v'); peek input (jv_offset v) = Some (CHR ''{''); depth \<le> lm_max_depth lim;
        jv_members v \<le> U64_MAX\<rbrakk>
      \<Longrightarrow> \<exists>s m. json_value ds (lm_max_depth lim) depth m s \<and> spans input (jv_offset v) (jv_offset v') s \<and> counts lim v v' m"
    and array: "\<And>v. \<lbrakk>array v = Some (Inr v'); peek input (jv_offset v) = Some (CHR ''[''); depth \<le> lm_max_depth lim;
        jv_members v \<le> U64_MAX\<rbrakk>
      \<Longrightarrow> \<exists>s m. json_value ds (lm_max_depth lim) depth m s \<and> spans input (jv_offset v) (jv_offset v') s \<and> counts lim v v' m"
  shows "reads_value ds input lim depth v0 v'"
proof -
  define v where "v = v0\<lparr>jv_offset := jv_space input (jv_offset v0)\<rparr>"
  from assms(1) obtain c where c: "peek input (jv_offset v) = Some c" and depth: "depth \<le> lm_max_depth lim"
    by (cases "peek input (jv_offset v)") (auto simp: dispatch_value_def Let_def v_def split: if_splits)
  have bound: "jv_members v \<le> U64_MAX" using assms(3) by (simp add: v_def)
  consider (object) "c = CHR ''{''" "object v = Some (Inr v')" | (array) "c = CHR ''[''" "array v = Some (Inr v')"
    | (string) key b where "c = CHR 0x22" "jv_string ds input (jv_offset v) = Inr (key, b)" "v' = v\<lparr>jv_offset := b\<rparr>"
    | (literal) t where "t \<in> {''true'', ''false'', ''null''}" "jv_literal input t v = Inr v'"
    | (number) "jv_number input v = Inr v'"
    using assms(1) c depth
    by (auto simp: dispatch_value_def Let_def v_def [symmetric] split: if_splits)
  then have "\<exists>s m. json_value ds (lm_max_depth lim) depth m s \<and> spans input (jv_offset v) (jv_offset v') s \<and> counts lim v v' m"
  proof cases
    case object
    then show ?thesis using assms(4) c depth bound by simp
  next
    case array
    then show ?thesis using assms(5) c depth bound by simp
  next
    case string
    then obtain s where "string_token s" "ds s = Some key" "spans input (jv_offset v) (jv_offset v') s"
      using jv_string_sound [of ds input "jv_offset v" key b] c by auto
    moreover have "counts lim v v' 0" using string bound by (simp add: counts_same)
    ultimately show ?thesis using json_string [OF depth, of s ds key] by blast
  next
    case literal
    then show ?thesis using literal_sound assms(2) depth bound by blast
  next
    case number
    from jv_number_sound [OF this] obtain s where "number_token s" "spans input (jv_offset v) (jv_offset v') s"
      "jv_members v' = jv_members v" by blast
    with json_number [OF depth, of s ds] counts_same bound show ?thesis by blast
  qed
  then obtain s m where s: "json_value ds (lm_max_depth lim) depth m s" "spans input (jv_offset v) (jv_offset v') s" "counts lim v v' m"
    by blast
  obtain w where "spaces w" "spans input (jv_offset v0) (jv_offset v) w"
    using spans_space [of input "jv_offset v0"] by (auto simp: v_def)
  with s show ?thesis
    unfolding reads_value_def by (intro exI [of _ w] exI [of _ s] exI [of _ m]) (auto simp: v_def intro: spans_trans)
qed

lemma counts_bound: "counts lim v v' m \<Longrightarrow> jv_members v' \<le> U64_MAX"
  by (simp add: counts_def)

lemma members_step_sound:
  assumes key: "object_key ds input lim depth keys v = Inr (w, keys')"
    and "value": "reads_value ds input lim (Suc depth) w u"
    and close: "close_or_loop input (CHR ''}'') loop u = Some (Inr v')"
    and loop: "\<And>x. jv_members x = jv_members u \<Longrightarrow> loop x = Some (Inr v') \<Longrightarrow> reads_members ds input lim depth keys' x v'"
  shows "reads_members ds input lim depth keys v v'"
proof -
  obtain w1 k name w2 where k: "spaces w1" "string_token k" "ds k = Some name" "name \<notin> set keys" "spaces w2"
    "keys' = name # keys" "spans input (jv_offset v) (jv_offset w) (w1 @ k @ w2 @ '':'')" "counts lim v w 1"
    using object_key_sound [OF key] by blast
  obtain w3 s m where s: "spaces w3" "json_value ds (lm_max_depth lim) (Suc depth) m s"
    "spans input (jv_offset w) (jv_offset u) (w3 @ s)" "counts lim w u m"
    using "value" unfolding reads_value_def by blast
  have vu: "counts lim v u (Suc m)" using counts_trans [OF k(8) s(4)] by simp
  have span: "spans input (jv_offset v) (jv_offset u) (w1 @ k @ w2 @ '':'' @ w3 @ s)"
    using spans_trans [OF k(7) s(3)] by simp
  from close_or_loop_sound [OF close] obtain w4 b where w4: "spaces w4"
    "spans input (jv_offset u) b (w4 @ ''}'') \<and> v' = u\<lparr>jv_offset := b\<rparr>
     \<or> spans input (jv_offset u) b (w4 @ '','') \<and> loop (u\<lparr>jv_offset := b\<rparr>) = Some (Inr v')" by blast
  from w4(2) show ?thesis
  proof (elim disjE conjE)
    assume "spans input (jv_offset u) b (w4 @ ''}'')" "v' = u\<lparr>jv_offset := b\<rparr>"
    then show ?thesis
      using json_last_member [OF k(1-5) s(1,2) w4(1)] spans_trans [OF span] vu
      unfolding reads_members_def by fastforce
  next
    assume b: "spans input (jv_offset u) b (w4 @ '','')" "loop (u\<lparr>jv_offset := b\<rparr>) = Some (Inr v')"
    then obtain t m' where t: "json_members ds (lm_max_depth lim) depth (name # keys) m' t"
      "spans input b (jv_offset v') (t @ ''}'')" "counts lim u v' m'"
      using loop [OF _ b(2)] k(6) by (auto simp: reads_members_def)
    show ?thesis
      unfolding reads_members_def
      using json_more_members [OF k(1-5) s(1,2) w4(1) t(1)] spans_trans [OF spans_trans [OF span b(1)] t(2)]
        counts_trans [OF vu t(3)] by fastforce
  qed
qed

lemma elements_step_sound:
  assumes member: "jv_member input lim v = Inr w"
    and "value": "reads_value ds input lim (Suc depth) w u"
    and close: "close_or_loop input (CHR '']'') loop u = Some (Inr v')"
    and loop: "\<And>x. jv_members x = jv_members u \<Longrightarrow> loop x = Some (Inr v') \<Longrightarrow> reads_elements ds input lim depth x v'"
  shows "reads_elements ds input lim depth v v'"
proof -
  note w = jv_member_counts [OF member]
  obtain w1 s m where s: "spaces w1" "json_value ds (lm_max_depth lim) (Suc depth) m s"
    "spans input (jv_offset v) (jv_offset u) (w1 @ s)" "counts lim w u m"
    using "value" w unfolding reads_value_def by auto
  have vu: "counts lim v u (Suc m)" using counts_trans [OF conjunct2 [OF w] s(4)] by simp
  from close_or_loop_sound [OF close] obtain w2 b where w2: "spaces w2"
    "spans input (jv_offset u) b (w2 @ '']'') \<and> v' = u\<lparr>jv_offset := b\<rparr>
     \<or> spans input (jv_offset u) b (w2 @ '','') \<and> loop (u\<lparr>jv_offset := b\<rparr>) = Some (Inr v')" by blast
  from w2(2) show ?thesis
  proof (elim disjE conjE)
    assume "spans input (jv_offset u) b (w2 @ '']'')" "v' = u\<lparr>jv_offset := b\<rparr>"
    then show ?thesis
      using json_last_element [OF s(1,2) w2(1)] spans_trans [OF s(3)] vu
      unfolding reads_elements_def by fastforce
  next
    assume b: "spans input (jv_offset u) b (w2 @ '','')" "loop (u\<lparr>jv_offset := b\<rparr>) = Some (Inr v')"
    then obtain t m' where t: "json_elements ds (lm_max_depth lim) depth m' t"
      "spans input b (jv_offset v') (t @ '']'')" "counts lim u v' m'"
      using loop [OF _ b(2)] by (auto simp: reads_elements_def)
    show ?thesis
      unfolding reads_elements_def
      using json_more_elements [OF s(1,2) w2(1) t(1)] spans_trans [OF spans_trans [OF s(3) b(1)] t(2)]
        counts_trans [OF vu t(3)] by fastforce
  qed
qed

lemma jv_sound:
  assumes "fits input"
  shows "(\<forall>depth v v'. jv_members v \<le> U64_MAX \<longrightarrow> jv_value ds input lim n depth v = Some (Inr v')
            \<longrightarrow> reads_value ds input lim depth v v')
    \<and> (\<forall>depth keys v v'. object_loop ds input lim n depth keys v = Some (Inr v')
            \<longrightarrow> reads_members ds input lim depth keys v v')
    \<and> (\<forall>depth v v'. array_loop ds input lim n depth v = Some (Inr v')
            \<longrightarrow> reads_elements ds input lim depth v v')"
    (is "?value n \<and> ?object n \<and> ?array n")
proof (induction n)
  case (Suc n)
  then have IH: "?value n" "?object n" "?array n" by blast+
  have "?value (Suc n)"
  proof (intro allI impI)
    fix depth and v v' :: json_validator
    assume bound: "jv_members v \<le> U64_MAX" and run: "jv_value ds input lim (Suc n) depth v = Some (Inr v')"
    show "reads_value ds input lim depth v v'"
      by (rule dispatch_sound [OF run [unfolded jv_value.simps] assms bound])
        (erule (3) object_sound, use IH(2) in blast, erule (3) array_sound, use IH(3) in blast)
  qed
  moreover have "?object (Suc n)"
  proof (intro allI impI)
    fix depth keys and v v' :: json_validator
    assume "object_loop ds input lim (Suc n) depth keys v = Some (Inr v')"
    then obtain w keys' u where steps: "object_key ds input lim depth keys v = Inr (w, keys')"
      "jv_value ds input lim n (Suc depth) w = Some (Inr u)"
      "close_or_loop input (CHR ''}'') (\<lambda>w. object_loop ds input lim n depth keys' w) u = Some (Inr v')"
      by (auto simp: fuel_bind_Inr_iff)
    from object_key_sound [OF steps(1)] have "jv_members w \<le> U64_MAX" by (auto dest: counts_bound)
    with IH(1) steps(2) have read: "reads_value ds input lim (Suc depth) w u" by blast
    show "reads_members ds input lim depth keys v v'"
      by (rule members_step_sound [OF steps(1) read steps(3)]) (use IH(2) in blast)
  qed
  moreover have "?array (Suc n)"
  proof (intro allI impI)
    fix depth and v v' :: json_validator
    assume "array_loop ds input lim (Suc n) depth v = Some (Inr v')"
    then obtain w u where steps: "jv_member input lim v = Inr w"
      "jv_value ds input lim n (Suc depth) w = Some (Inr u)"
      "close_or_loop input (CHR '']'') (\<lambda>w. array_loop ds input lim n depth w) u = Some (Inr v')"
      by (auto simp: fuel_bind_Inr_iff)
    from jv_member_counts [OF steps(1)] have "jv_members w \<le> U64_MAX" by (auto dest: counts_bound)
    with IH(1) steps(2) have read: "reads_value ds input lim (Suc depth) w u" by blast
    show "reads_elements ds input lim depth v v'"
      by (rule elements_step_sound [OF steps(1) read steps(3)]) (use IH(3) in blast)
  qed
  ultimately show ?case by blast
qed simp

lemmas jv_value_sound = jv_sound [THEN conjunct1, rule_format]

subsection \<open>Termination\<close>

lemma json_value_nonempty: "json_value ds D depth m s \<Longrightarrow> s \<noteq> []"
  by (erule json_value.cases) (auto simp: string_token_def number_token_def whole_part_def all_digits_def)

lemma reads_value_progress:
  assumes "reads_value ds input lim depth v v'"
  shows "jv_offset v < jv_offset v' \<and> jv_offset v' \<le> length input"
proof -
  from assms obtain w s where "s \<noteq> []" and span: "spans input (jv_offset v) (jv_offset v') (w @ s)"
    unfolding reads_value_def using json_value_nonempty by blast
  then have "w @ s \<noteq> []" by simp
  with spans_bound [OF span] span show ?thesis by (auto simp: spans_def)
qed

lemma open_collection_total:
  "(\<And>w. jv_offset v < jv_offset w \<Longrightarrow> jv_members w = jv_members v \<Longrightarrow> loop w \<noteq> None) \<Longrightarrow> open_collection input close loop v \<noteq> None"
  using space_le [of "Suc (jv_offset v)" input] by (simp add: open_collection_def Let_def)

lemma close_or_loop_total:
  "(\<And>w. jv_offset v < jv_offset w \<Longrightarrow> jv_members w = jv_members v \<Longrightarrow> loop w \<noteq> None) \<Longrightarrow> close_or_loop input close loop v \<noteq> None"
  using space_le [of "jv_offset v" input] by (simp add: close_or_loop_def Let_def less_Suc_eq_le)

lemma dispatch_total:
  assumes "\<And>v. jv_offset v0 \<le> jv_offset v \<Longrightarrow> jv_offset v < length input \<Longrightarrow> object v \<noteq> None \<and> array v \<noteq> None"
  shows "dispatch_value ds input lim depth object array v0 \<noteq> None"
proof -
  have "object (v0\<lparr>jv_offset := jv_space input (jv_offset v0)\<rparr>) \<noteq> None"
    "array (v0\<lparr>jv_offset := jv_space input (jv_offset v0)\<rparr>) \<noteq> None"
    if "peek input (jv_space input (jv_offset v0)) = Some c" for c
    using assms [of "v0\<lparr>jv_offset := jv_space input (jv_offset v0)\<rparr>"] peek_bound [OF that] space_le by simp_all
  then show ?thesis
    by (auto simp: dispatch_value_def Let_def split: option.splits)
qed

lemma object_key_progress:
  "object_key ds input lim depth keys v = Inr (w, keys') \<Longrightarrow> jv_offset v < jv_offset w \<and> jv_members w \<le> U64_MAX"
  by (auto dest!: object_key_sound simp: spans_def dest: counts_bound)

lemma jv_total:
  assumes "fits input"
  shows "(\<forall>depth v. 2 * (length input - jv_offset v) + 1 \<le> n \<longrightarrow> jv_value ds input lim n depth v \<noteq> None)
    \<and> (\<forall>depth keys v. 2 * (length input - jv_offset v) + 2 \<le> n \<longrightarrow> object_loop ds input lim n depth keys v \<noteq> None)
    \<and> (\<forall>depth v. 2 * (length input - jv_offset v) + 2 \<le> n \<longrightarrow> array_loop ds input lim n depth v \<noteq> None)"
    (is "?value n \<and> ?object n \<and> ?array n")
proof (induction n)
  case (Suc n)
  then have IH: "?value n" "?object n" "?array n" by blast+
  have "?value (Suc n)"
  proof (intro allI impI)
    fix depth and v :: json_validator
    assume n: "2 * (length input - jv_offset v) + 1 \<le> Suc n"
    have fuel: "2 * (length input - jv_offset w) + 2 \<le> n"
      if "jv_offset v \<le> jv_offset u" "jv_offset u < length input" "jv_offset u < jv_offset w" for u w :: json_validator
      using n that by linarith
    show "jv_value ds input lim (Suc n) depth v \<noteq> None"
      unfolding jv_value.simps
      by (intro dispatch_total conjI open_collection_total) (use IH(2,3) fuel in blast)+
  qed
  moreover have "?object (Suc n)"
  proof (intro allI impI)
    fix depth keys and v :: json_validator
    assume n: "2 * (length input - jv_offset v) + 2 \<le> Suc n"
    have "fuel_bind (jv_value ds input lim n (Suc depth) w) (close_or_loop input (CHR ''}'') (object_loop ds input lim n depth keys')) \<noteq> None"
      if key: "object_key ds input lim depth keys v = Inr (w, keys')" for w keys'
    proof -
      note w = object_key_progress [OF key]
      have "2 * (length input - jv_offset w) + 1 \<le> n" using n w by linarith
      then have "jv_value ds input lim n (Suc depth) w \<noteq> None"
        using IH(1) by blast
      moreover have "close_or_loop input (CHR ''}'') (object_loop ds input lim n depth keys') u \<noteq> None"
        if "jv_value ds input lim n (Suc depth) w = Some (Inr u)" for u
      proof -
        have u: "jv_offset w < jv_offset u" "jv_offset u \<le> length input"
          using reads_value_progress [OF jv_value_sound [OF assms _ that]] w by simp_all
        show ?thesis
          by (rule close_or_loop_total) (use IH(2) n w u in auto)
      qed
      ultimately show ?thesis by (auto simp: fuel_bind_None_iff)
    qed
    then show "object_loop ds input lim (Suc n) depth keys v \<noteq> None"
      by (cases "object_key ds input lim depth keys v") auto
  qed
  moreover have "?array (Suc n)"
  proof (intro allI impI)
    fix depth and v :: json_validator
    assume n: "2 * (length input - jv_offset v) + 2 \<le> Suc n"
    have "fuel_bind (jv_value ds input lim n (Suc depth) w) (close_or_loop input (CHR '']'') (array_loop ds input lim n depth)) \<noteq> None"
      if member: "jv_member input lim v = Inr w" for w
    proof -
      have w: "jv_offset w = jv_offset v" "jv_members w \<le> U64_MAX"
        using jv_member_counts [OF member] by (auto dest: counts_bound)
      have "jv_value ds input lim n (Suc depth) w \<noteq> None"
        using IH(1) n w by simp
      moreover have "close_or_loop input (CHR '']'') (array_loop ds input lim n depth) u \<noteq> None"
        if "jv_value ds input lim n (Suc depth) w = Some (Inr u)" for u
      proof -
        have u: "jv_offset w < jv_offset u" "jv_offset u \<le> length input"
          using reads_value_progress [OF jv_value_sound [OF assms w(2) that]] by simp_all
        show ?thesis
          by (rule close_or_loop_total) (use IH(3) n w u in auto)
      qed
      ultimately show ?thesis by (auto simp: fuel_bind_None_iff)
    qed
    then show "array_loop ds input lim (Suc n) depth v \<noteq> None"
      by (cases "jv_member input lim v") auto
  qed
  ultimately show ?case by blast
qed simp

subsection \<open>Completeness: the validator accepts the grammar\<close>

lemma char_classes [simp]:
  "\<not> is_space (CHR ''{'')" "\<not> is_space (CHR ''['')" "\<not> is_space (CHR ''}'')" "\<not> is_space (CHR '']'')"
  "\<not> is_space (CHR '','')" "\<not> is_space (CHR '':'')" "\<not> is_space (CHR 0x22)" "\<not> is_space (CHR ''t'')"
  "\<not> is_space (CHR ''f'')" "\<not> is_space (CHR ''n'')" "\<not> is_space (CHR ''-'')"
  by (simp_all add: is_space_def)

lemma digit_class:
  "is_ascii_digit c \<Longrightarrow> \<not> is_space c \<and> c \<noteq> CHR ''{'' \<and> c \<noteq> CHR ''['' \<and> c \<noteq> CHR 0x22 \<and> c \<noteq> CHR ''t''
     \<and> c \<noteq> CHR ''f'' \<and> c \<noteq> CHR ''n'' \<and> c \<noteq> CHR '']'' \<and> c \<noteq> CHR ''}'' \<and> c \<noteq> CHR '',''"
  by (auto simp: is_ascii_digit_def is_space_def)

lemma number_head:
  assumes "number_token s" and "spans input a b s"
  shows "\<exists>c. peek input a = Some c \<and> (c = CHR ''-'' \<or> is_ascii_digit c)"
proof -
  from assms(1) obtain g w f e where parts: "sign_part g" "whole_part w" and s: "s = g @ w @ f @ e"
    by (auto simp: number_token_def)
  from assms(2) s obtain c d where "spans input a c g" "spans input c d w"
    by (auto simp: spans_append)
  with parts whole_next [of w input c d] show ?thesis
    by (auto simp: sign_part_def spans_Cons next_digit_iff)
qed

lemma value_head:
  assumes "json_value ds D depth m s" and "spans input a b s"
  shows "\<exists>c. peek input a = Some c \<and> \<not> is_space c \<and> c \<noteq> CHR '']''"
  using assms(1)
proof cases
  case json_number
  then show ?thesis using number_head [OF _ assms(2)] by (auto dest: digit_class)
qed (use assms(2) in \<open>auto simp: string_token_def spans_Cons\<close>)

lemma space_to_value:
  assumes "spaces w" "spans input x a w" "json_value ds D depth m s" "spans input a b s"
  shows "jv_space input x = a"
  using space_exact [OF assms(1,2)] value_head [OF assms(3,4)] by auto

lemma members_head:
  assumes "json_members ds D depth keys m s" and "spans input a b s"
  shows "peek input (jv_space input a) = Some (CHR 0x22)"
proof -
  from assms(1) obtain w k t where "spaces w" "string_token k" "s = w @ k @ t"
    by cases auto
  with assms(2) obtain c where "spans input a c w" "peek input c = Some (CHR 0x22)"
    by (auto simp: spans_append string_token_def spans_Cons)
  with space_exact [OF \<open>spaces w\<close>] show ?thesis by auto
qed

lemma elements_head:
  assumes "json_elements ds D depth m s" and "spans input a b s"
  shows "peek input (jv_space input a) \<noteq> Some (CHR '']'')"
proof -
  from assms(1) obtain w k m' t where w: "spaces w" "json_value ds D (Suc depth) m' k" "s = w @ k @ t"
    by cases auto
  with assms(2) obtain c d where "spans input a c w" "spans input c d k"
    by (auto simp: spans_append)
  with space_to_value [OF w(1) this(1) w(2) this(2)] value_head [OF w(2) this(2)] show ?thesis by auto
qed

lemma delimiter_after:
  assumes "spaces w" "spans input a b w" "peek input b = Some c" "c \<in> {CHR '','', CHR ''}'', CHR '']''}"
  shows "delimiter (peek input a)"
  using assms by (cases w) (auto simp: delimiter_def spans_Cons)

lemma close_or_loop_exact:
  assumes "spaces w" "spans input (jv_offset v) b w" "close \<in> {CHR ''}'', CHR '']''}"
  shows "peek input b = Some close \<Longrightarrow> close_or_loop input close loop v = Some (Inr (v\<lparr>jv_offset := Suc b\<rparr>))"
    and "peek input b = Some (CHR '','') \<Longrightarrow> close_or_loop input close loop v = loop (v\<lparr>jv_offset := Suc b\<rparr>)"
  using assms space_exact [OF assms(1,2)] by (auto simp: close_or_loop_def Let_def)

lemma object_key_exact:
  assumes k: "spaces w1" "string_token k" "ds k = Some key" "key \<notin> set keys" "spaces w2"
    and span: "spans input a b (w1 @ k @ w2 @ '':'')" and v: "jv_space input (jv_offset v) = jv_space input a"
    and members: "Suc (jv_members v) \<le> lm_max_members lim" "Suc (jv_members v) \<le> U64_MAX"
  shows "\<exists>w. object_key ds input lim depth keys v = Inr (w, key # keys) \<and> jv_offset w = b \<and> jv_members w = Suc (jv_members v)"
proof -
  from span obtain c d e where spans: "spans input a c w1" "spans input c d k" "spans input d e w2" "peek input e = Some (CHR '':'')" "b = Suc e"
    by (auto simp: spans_append spans_Cons)
  from k(2) spans(2) have quote: "peek input c = Some (CHR 0x22)" by (auto simp: string_token_def spans_Cons)
  have "jv_space input a = c" using space_exact [OF k(1) spans(1)] quote by simp
  moreover have "jv_space input d = e" using space_exact [OF k(5) spans(3)] spans(4) by simp
  moreover have "jv_string ds input c = Inr (key, d)" using jv_string_exact [of k ds, OF k(2,3) spans(2)] .
  ultimately show ?thesis using quote k(4) v members spans(4,5)
    by (simp add: object_key_def Let_def jv_member_def u64_saturating_add_def)
qed

text \<open>That the three functions accept a phrase of the grammar that starts where they are.\<close>

definition accepts_value :: "(string \<Rightarrow> string option) \<Rightarrow> string \<Rightarrow> limits \<Rightarrow> nat \<Rightarrow> nat \<Rightarrow> string \<Rightarrow> bool" where
  "accepts_value ds input lim depth m s \<longleftrightarrow> (\<forall>n v b. jv_value ds input lim n depth v \<noteq> None
     \<longrightarrow> spans input (jv_space input (jv_offset v)) b s \<longrightarrow> delimiter (peek input b)
     \<longrightarrow> jv_members v + m \<le> min U64_MAX (lm_max_members lim)
     \<longrightarrow> (\<exists>v'. jv_value ds input lim n depth v = Some (Inr v') \<and> jv_offset v' = b \<and> jv_members v' = jv_members v + m))"

definition accepts_members :: "(string \<Rightarrow> string option) \<Rightarrow> string \<Rightarrow> limits \<Rightarrow> nat \<Rightarrow> string list \<Rightarrow> nat \<Rightarrow> string \<Rightarrow> bool" where
  "accepts_members ds input lim depth keys m s \<longleftrightarrow> (\<forall>n v a b. object_loop ds input lim n depth keys v \<noteq> None
     \<longrightarrow> jv_space input (jv_offset v) = jv_space input a \<longrightarrow> spans input a b (s @ ''}'')
     \<longrightarrow> jv_members v + m \<le> min U64_MAX (lm_max_members lim)
     \<longrightarrow> (\<exists>v'. object_loop ds input lim n depth keys v = Some (Inr v') \<and> jv_offset v' = b \<and> jv_members v' = jv_members v + m))"

definition accepts_elements :: "(string \<Rightarrow> string option) \<Rightarrow> string \<Rightarrow> limits \<Rightarrow> nat \<Rightarrow> nat \<Rightarrow> string \<Rightarrow> bool" where
  "accepts_elements ds input lim depth m s \<longleftrightarrow> (\<forall>n v a b. array_loop ds input lim n depth v \<noteq> None
     \<longrightarrow> jv_space input (jv_offset v) = jv_space input a \<longrightarrow> spans input a b (s @ '']'')
     \<longrightarrow> jv_members v + m \<le> min U64_MAX (lm_max_members lim)
     \<longrightarrow> (\<exists>v'. array_loop ds input lim n depth v = Some (Inr v') \<and> jv_offset v' = b \<and> jv_members v' = jv_members v + m))"

lemma dispatch_cases:
  assumes "peek input (jv_space input (jv_offset v)) = Some c" and "depth \<le> lm_max_depth lim"
  defines "u \<equiv> v\<lparr>jv_offset := jv_space input (jv_offset v)\<rparr>"
  shows "c = CHR ''{'' \<Longrightarrow> dispatch_value ds input lim depth object array v = object u"
    and "c = CHR ''['' \<Longrightarrow> dispatch_value ds input lim depth object array v = array u"
    and "c = CHR 0x22 \<Longrightarrow> dispatch_value ds input lim depth object array v
      = Some (res_bind (jv_string ds input (jv_offset u)) (\<lambda>(_, end'). Inr (u\<lparr>jv_offset := end'\<rparr>)))"
    and "c = CHR ''t'' \<Longrightarrow> dispatch_value ds input lim depth object array v = Some (jv_literal input ''true'' u)"
    and "c = CHR ''f'' \<Longrightarrow> dispatch_value ds input lim depth object array v = Some (jv_literal input ''false'' u)"
    and "c = CHR ''n'' \<Longrightarrow> dispatch_value ds input lim depth object array v = Some (jv_literal input ''null'' u)"
    and "c = CHR ''-'' \<or> is_ascii_digit c \<Longrightarrow> dispatch_value ds input lim depth object array v = Some (jv_number input u)"
proof -
  have eq: "dispatch_value ds input lim depth object array v =
     (if c = CHR ''{'' then object u
      else if c = CHR ''['' then array u
      else if c = CHR 0x22 then Some (res_bind (jv_string ds input (jv_offset u)) (\<lambda>(_, end'). Inr (u\<lparr>jv_offset := end'\<rparr>)))
      else if c = CHR ''t'' then Some (jv_literal input ''true'' u)
      else if c = CHR ''f'' then Some (jv_literal input ''false'' u)
      else if c = CHR ''n'' then Some (jv_literal input ''null'' u)
      else if c = CHR ''-'' \<or> is_ascii_digit c then Some (jv_number input u)
      else Some (Inl (syntax_error input (jv_offset u))))"
    using assms(1,2) by (simp add: dispatch_value_def u_def)
  show "c = CHR ''{'' \<Longrightarrow> dispatch_value ds input lim depth object array v = object u"
    and "c = CHR ''['' \<Longrightarrow> dispatch_value ds input lim depth object array v = array u"
    and "c = CHR 0x22 \<Longrightarrow> dispatch_value ds input lim depth object array v
      = Some (res_bind (jv_string ds input (jv_offset u)) (\<lambda>(_, end'). Inr (u\<lparr>jv_offset := end'\<rparr>)))"
    and "c = CHR ''t'' \<Longrightarrow> dispatch_value ds input lim depth object array v = Some (jv_literal input ''true'' u)"
    and "c = CHR ''f'' \<Longrightarrow> dispatch_value ds input lim depth object array v = Some (jv_literal input ''false'' u)"
    and "c = CHR ''n'' \<Longrightarrow> dispatch_value ds input lim depth object array v = Some (jv_literal input ''null'' u)"
    unfolding eq by simp_all
  show "dispatch_value ds input lim depth object array v = Some (jv_number input u)" if "c = CHR ''-'' \<or> is_ascii_digit c"
  proof (cases "c = CHR ''-''")
    case False
    with that have "is_ascii_digit c" by simp
    with digit_class [OF this] show ?thesis unfolding eq by simp
  qed (simp add: eq)
qed

lemma value_suc: "jv_value ds input lim n depth v \<noteq> None \<Longrightarrow> \<exists>k. n = Suc k"
  by (cases n) simp_all

lemma accepts_string:
  assumes "depth \<le> lm_max_depth lim" "string_token s" "ds s = Some key"
  shows "accepts_value ds input lim depth 0 s"
  unfolding accepts_value_def
proof (intro allI impI)
  fix n v b assume n: "jv_value ds input lim n depth v \<noteq> None" and span: "spans input (jv_space input (jv_offset v)) b s"
  from assms(2) span have "peek input (jv_space input (jv_offset v)) = Some (CHR 0x22)"
    by (auto simp: string_token_def spans_Cons)
  note step = dispatch_cases(3) [OF this assms(1) refl]
  from jv_string_exact [of s ds, OF assms(2,3) span] value_suc [OF n]
  show "\<exists>v'. jv_value ds input lim n depth v = Some (Inr v') \<and> jv_offset v' = b \<and> jv_members v' = jv_members v + 0"
    by (auto simp: step)
qed

lemma accepts_literal:
  assumes "depth \<le> lm_max_depth lim" "s \<in> {''true'', ''false'', ''null''}" "fits input"
  shows "accepts_value ds input lim depth 0 s"
  unfolding accepts_value_def
proof (intro allI impI)
  fix n v b assume n: "jv_value ds input lim n depth v \<noteq> None" and span: "spans input (jv_space input (jv_offset v)) b s"
  let ?u = "v\<lparr>jv_offset := jv_space input (jv_offset v)\<rparr>"
  from span assms(2) have b: "b = jv_space input (jv_offset v) + length s" by (simp add: spans_def)
  have "jv_literal input s ?u = Inr (?u\<lparr>jv_offset := b\<rparr>)"
    using jv_literal_iff [OF assms(3), of s ?u "?u\<lparr>jv_offset := b\<rparr>"] assms(2) span b by auto
  moreover have "dispatch_value ds input lim depth object array v = Some (jv_literal input s ?u)" for object array
    using assms(2) span dispatch_cases(4-6) [OF _ assms(1), of input v] by (auto simp: spans_Cons)
  ultimately show "\<exists>v'. jv_value ds input lim n depth v = Some (Inr v') \<and> jv_offset v' = b \<and> jv_members v' = jv_members v + 0"
    using value_suc [OF n] by auto
qed

lemma accepts_number:
  assumes "depth \<le> lm_max_depth lim" "number_token s"
  shows "accepts_value ds input lim depth 0 s"
  unfolding accepts_value_def
proof (intro allI impI)
  fix n v b assume n: "jv_value ds input lim n depth v \<noteq> None" and span: "spans input (jv_space input (jv_offset v)) b s"
    and after: "delimiter (peek input b)"
  let ?u = "v\<lparr>jv_offset := jv_space input (jv_offset v)\<rparr>"
  from number_head [OF assms(2) span] obtain c where c: "peek input (jv_space input (jv_offset v)) = Some c"
    "c = CHR ''-'' \<or> is_ascii_digit c" by blast
  from jv_number_exact [OF assms(2), of input ?u b] span after obtain v' where
    "jv_number input ?u = Inr v'" "jv_offset v' = b" "jv_members v' = jv_members v" by auto
  with value_suc [OF n] dispatch_cases(7) [OF c(1) assms(1) c(2)]
  show "\<exists>v'. jv_value ds input lim n depth v = Some (Inr v') \<and> jv_offset v' = b \<and> jv_members v' = jv_members v + 0"
    by auto
qed

lemma open_empty_exact:
  assumes "spaces w" "spans input (jv_offset u) b ([c] @ w @ [close])" "\<not> is_space close"
  shows "open_collection input close loop u = Some (Inr (u\<lparr>jv_offset := b\<rparr>))"
proof -
  from assms(2) obtain e where e: "spans input (Suc (jv_offset u)) e w" "peek input e = Some close" "b = Suc e"
    by (auto simp: spans_append spans_Cons)
  with space_exact [OF assms(1) e(1)] assms(3) show ?thesis by (simp add: open_collection_def)
qed

lemma accepts_empty:
  assumes "depth \<le> lm_max_depth lim" "spaces w" "(c, close) \<in> {(CHR ''{'', CHR ''}''), (CHR ''['', CHR '']'')}"
  shows "accepts_value ds input lim depth 0 ([c] @ w @ [close])"
  unfolding accepts_value_def
proof (intro allI impI)
  fix n v b assume n: "jv_value ds input lim n depth v \<noteq> None" and span: "spans input (jv_space input (jv_offset v)) b ([c] @ w @ [close])"
  then have c: "peek input (jv_space input (jv_offset v)) = Some c" by (simp add: spans_Cons)
  show "\<exists>v'. jv_value ds input lim n depth v = Some (Inr v') \<and> jv_offset v' = b \<and> jv_members v' = jv_members v + 0"
    using assms(3) value_suc [OF n] open_empty_exact [OF assms(2), of input "v\<lparr>jv_offset := jv_space input (jv_offset v)\<rparr>" b c close] span
    by (auto simp: dispatch_cases(1,2) [OF c assms(1)])
qed

lemma accepts_object:
  assumes "depth \<le> lm_max_depth lim" "json_members ds D depth [] m s" "accepts_members ds input lim depth [] m s"
  shows "accepts_value ds input lim depth m (''{'' @ s @ ''}'')"
  unfolding accepts_value_def
proof (intro allI impI)
  fix n v b assume n: "jv_value ds input lim n depth v \<noteq> None"
    and span: "spans input (jv_space input (jv_offset v)) b (''{'' @ s @ ''}'')"
    and bound: "jv_members v + m \<le> min U64_MAX (lm_max_members lim)"
  let ?a = "Suc (jv_space input (jv_offset v))" let ?w = "v\<lparr>jv_offset := jv_space input ?a\<rparr>"
  from span have c: "peek input (jv_space input (jv_offset v)) = Some (CHR ''{'')" and tail: "spans input ?a b (s @ ''}'')"
    by (simp_all add: spans_Cons)
  from tail obtain e where "spans input ?a e s" by (auto simp: spans_append)
  from members_head [OF assms(2) this] value_suc [OF n] obtain k where k: "n = Suc k"
    and eq: "jv_value ds input lim n depth v = object_loop ds input lim k depth [] ?w"
    by (auto simp: dispatch_cases(1) [OF c assms(1)] open_collection_def)
  from eq n have "object_loop ds input lim k depth [] ?w \<noteq> None" by simp
  with assms(3) tail bound obtain v' where "object_loop ds input lim k depth [] ?w = Some (Inr v')" "jv_offset v' = b"
    "jv_members v' = jv_members v + m"
    unfolding accepts_members_def by (force simp: space_idem)
  with eq show "\<exists>v'. jv_value ds input lim n depth v = Some (Inr v') \<and> jv_offset v' = b \<and> jv_members v' = jv_members v + m"
    by simp
qed

lemma accepts_array:
  assumes "depth \<le> lm_max_depth lim" "json_elements ds D depth m s" "accepts_elements ds input lim depth m s"
  shows "accepts_value ds input lim depth m (''['' @ s @ '']'')"
  unfolding accepts_value_def
proof (intro allI impI)
  fix n v b assume n: "jv_value ds input lim n depth v \<noteq> None"
    and span: "spans input (jv_space input (jv_offset v)) b (''['' @ s @ '']'')"
    and bound: "jv_members v + m \<le> min U64_MAX (lm_max_members lim)"
  let ?a = "Suc (jv_space input (jv_offset v))" let ?w = "v\<lparr>jv_offset := jv_space input ?a\<rparr>"
  from span have c: "peek input (jv_space input (jv_offset v)) = Some (CHR ''['')" and tail: "spans input ?a b (s @ '']'')"
    by (simp_all add: spans_Cons)
  from tail obtain e where "spans input ?a e s" by (auto simp: spans_append)
  from elements_head [OF assms(2) this] value_suc [OF n] obtain k where k: "n = Suc k"
    and eq: "jv_value ds input lim n depth v = array_loop ds input lim k depth ?w"
    by (auto simp: dispatch_cases(2) [OF c assms(1)] open_collection_def)
  from eq n have "array_loop ds input lim k depth ?w \<noteq> None" by simp
  with assms(3) tail bound obtain v' where "array_loop ds input lim k depth ?w = Some (Inr v')" "jv_offset v' = b"
    "jv_members v' = jv_members v + m"
    unfolding accepts_elements_def by (force simp: space_idem)
  with eq show "\<exists>v'. jv_value ds input lim n depth v = Some (Inr v') \<and> jv_offset v' = b \<and> jv_members v' = jv_members v + m"
    by simp
qed

text \<open>One pass of a loop over a phrase: the value is accepted and the loop is at what follows it.\<close>

lemma accepts_value_step:
  assumes "accepts_value ds input lim depth m s" "json_value ds D depth m s"
    and "spaces w" "spans input (jv_offset v) a w" "spans input a b s" "spaces w'" "spans input b c w'"
    and "peek input c = Some d" "d \<in> {CHR '','', CHR ''}'', CHR '']''}"
    and "jv_value ds input lim n depth v \<noteq> None" "jv_members v + m \<le> min U64_MAX (lm_max_members lim)"
  shows "\<exists>u. jv_value ds input lim n depth v = Some (Inr u) \<and> spans input (jv_offset u) c w'
    \<and> jv_members u = jv_members v + m"
proof -
  have "jv_space input (jv_offset v) = a" by (rule space_to_value [OF assms(3,4,2,5)])
  moreover have "delimiter (peek input b)" by (rule delimiter_after [OF assms(6-9)])
  ultimately show ?thesis
    using assms(1,5,7,10,11) unfolding accepts_value_def by fastforce
qed

lemma object_pass:
  assumes k: "spaces w1" "string_token k" "ds k = Some key" "key \<notin> set keys" "spaces w2" "spaces w3" "spaces w4"
    and s: "json_value ds D (Suc depth) m s" "accepts_value ds input lim (Suc depth) m s"
    and span: "spans input a b (w1 @ k @ w2 @ '':'' @ w3 @ s @ w4)" and at: "jv_space input (jv_offset v) = jv_space input a"
    and d: "peek input b = Some d" "d \<in> {CHR '','', CHR ''}'', CHR '']''}"
    and total: "object_loop ds input lim n depth keys v \<noteq> None"
    and bound: "jv_members v + Suc m \<le> min U64_MAX (lm_max_members lim)"
  shows "\<exists>u j. n = Suc j \<and> jv_members u = jv_members v + Suc m \<and> spans input (jv_offset u) b w4
    \<and> object_loop ds input lim n depth keys v = close_or_loop input (CHR ''}'') (object_loop ds input lim j depth (key # keys)) u"
proof -
  from total obtain j where n: "n = Suc j" by (cases n) simp_all
  from span have "spans input a b ((w1 @ k @ w2 @ '':'') @ w3 @ s @ w4)" by simp
  then obtain c where c: "spans input a c (w1 @ k @ w2 @ '':'')" "spans input c b (w3 @ s @ w4)"
    unfolding spans_append [of _ _ _ "w1 @ k @ w2 @ '':''"] by blast
  then obtain e f where spans: "spans input a c (w1 @ k @ w2 @ '':'')" "spans input c e w3" "spans input e f s" "spans input f b w4"
    by (auto simp: spans_append)
  obtain w where w: "object_key ds input lim depth keys v = Inr (w, key # keys)" "jv_offset w = c" "jv_members w = Suc (jv_members v)"
    using object_key_exact [of w1 k ds key keys w2, OF k(1-5) spans(1) at, of lim depth] bound by auto
  have "jv_value ds input lim j (Suc depth) w \<noteq> None"
    using total w(1) n by (auto simp: fuel_bind_None_iff)
  from accepts_value_step [OF s(2,1) k(6) spans(2) [folded w(2)] spans(3) k(7) spans(4) d this] bound w(3)
  obtain u where "jv_value ds input lim j (Suc depth) w = Some (Inr u)" "spans input (jv_offset u) b w4"
    "jv_members u = jv_members v + Suc m" by auto
  with n w(1) show ?thesis by auto
qed

lemma accepts_last_member:
  assumes k: "spaces w1" "string_token k" "ds k = Some key" "key \<notin> set keys" "spaces w2" "spaces w3" "spaces w4"
    and s: "json_value ds D (Suc depth) m s" "accepts_value ds input lim (Suc depth) m s"
  shows "accepts_members ds input lim depth keys (Suc m) (w1 @ k @ w2 @ '':'' @ w3 @ s @ w4)"
  unfolding accepts_members_def
proof (intro allI impI)
  fix n v a b
  assume total: "object_loop ds input lim n depth keys v \<noteq> None" and at: "jv_space input (jv_offset v) = jv_space input a"
    and span: "spans input a b ((w1 @ k @ w2 @ '':'' @ w3 @ s @ w4) @ ''}'')"
    and bound: "jv_members v + Suc m \<le> min U64_MAX (lm_max_members lim)"
  from span obtain c where c: "spans input a c (w1 @ k @ w2 @ '':'' @ w3 @ s @ w4)" "peek input c = Some (CHR ''}'')" "b = Suc c"
    unfolding spans_append [of _ _ _ "w1 @ k @ w2 @ '':'' @ w3 @ s @ w4"] by (auto simp: spans_Cons)
  from object_pass [of w1 k ds key keys w2 w3 w4, OF k s c(1) at c(2) _ total bound] obtain u j where u: "jv_members u = jv_members v + Suc m"
    "spans input (jv_offset u) c w4"
    "object_loop ds input lim n depth keys v = close_or_loop input (CHR ''}'') (object_loop ds input lim j depth (key # keys)) u"
    by auto
  show "\<exists>v'. object_loop ds input lim n depth keys v = Some (Inr v') \<and> jv_offset v' = b \<and> jv_members v' = jv_members v + Suc m"
    using close_or_loop_exact(1) [OF k(7) u(2) _ c(2)] u(1,3) c(3) by simp
qed

lemma accepts_more_members:
  assumes k: "spaces w1" "string_token k" "ds k = Some key" "key \<notin> set keys" "spaces w2" "spaces w3" "spaces w4"
    and s: "json_value ds D (Suc depth) m s" "accepts_value ds input lim (Suc depth) m s"
    and t: "accepts_members ds input lim depth (key # keys) m' t"
  shows "accepts_members ds input lim depth keys (Suc m + m') (w1 @ k @ w2 @ '':'' @ w3 @ s @ w4 @ '','' @ t)"
  unfolding accepts_members_def
proof (intro allI impI)
  fix n v a b
  assume total: "object_loop ds input lim n depth keys v \<noteq> None" and at: "jv_space input (jv_offset v) = jv_space input a"
    and span: "spans input a b ((w1 @ k @ w2 @ '':'' @ w3 @ s @ w4 @ '','' @ t) @ ''}'')"
    and bound: "jv_members v + (Suc m + m') \<le> min U64_MAX (lm_max_members lim)"
  from span have "spans input a b ((w1 @ k @ w2 @ '':'' @ w3 @ s @ w4) @ '','' @ t @ ''}'')" by simp
  then obtain c where c: "spans input a c (w1 @ k @ w2 @ '':'' @ w3 @ s @ w4)" "peek input c = Some (CHR '','')"
      "spans input (Suc c) b (t @ ''}'')"
    unfolding spans_append [of _ _ _ "w1 @ k @ w2 @ '':'' @ w3 @ s @ w4"] by (auto simp: spans_Cons)
  from bound have "jv_members v + Suc m \<le> min U64_MAX (lm_max_members lim)" by simp
  from object_pass [of w1 k ds key keys w2 w3 w4, OF k s c(1) at c(2) _ total this] obtain u j where u: "jv_members u = jv_members v + Suc m"
    "spans input (jv_offset u) c w4"
    "object_loop ds input lim n depth keys v = close_or_loop input (CHR ''}'') (object_loop ds input lim j depth (key # keys)) u"
    by auto
  have loop: "object_loop ds input lim n depth keys v = object_loop ds input lim j depth (key # keys) (u\<lparr>jv_offset := Suc c\<rparr>)"
    using close_or_loop_exact(2) [OF k(7) u(2) _ c(2)] u(3) by simp
  show "\<exists>v'. object_loop ds input lim n depth keys v = Some (Inr v') \<and> jv_offset v' = b \<and> jv_members v' = jv_members v + (Suc m + m')"
    using t [unfolded accepts_members_def, rule_format, of j "u\<lparr>jv_offset := Suc c\<rparr>" "Suc c" b] loop total bound u(1) c(3)
    by (simp add: add.assoc)
qed

lemma array_pass:
  assumes w: "spaces w1" "spaces w2"
    and s: "json_value ds D (Suc depth) m s" "accepts_value ds input lim (Suc depth) m s"
    and span: "spans input a b (w1 @ s @ w2)" and at: "jv_space input (jv_offset v) = jv_space input a"
    and d: "peek input b = Some d" "d \<in> {CHR '','', CHR ''}'', CHR '']''}"
    and total: "array_loop ds input lim n depth v \<noteq> None"
    and bound: "jv_members v + Suc m \<le> min U64_MAX (lm_max_members lim)"
  shows "\<exists>u j. n = Suc j \<and> jv_members u = jv_members v + Suc m \<and> spans input (jv_offset u) b w2
    \<and> array_loop ds input lim n depth v = close_or_loop input (CHR '']'') (array_loop ds input lim j depth) u"
proof -
  from total obtain j where n: "n = Suc j" by (cases n) simp_all
  from span obtain c e where spans: "spans input a c w1" "spans input c e s" "spans input e b w2"
    by (auto simp: spans_append)
  let ?w = "v\<lparr>jv_members := Suc (jv_members v)\<rparr>"
  have member: "jv_member input lim v = Inr ?w"
    using bound by (simp add: jv_member_iff u64_saturating_add_def)
  have "jv_value ds input lim j (Suc depth) ?w \<noteq> None"
    using total member n by (auto simp: fuel_bind_None_iff)
  moreover have "jv_space input (jv_offset v) = c"
    using at space_to_value [OF w(1) spans(1) s(1) spans(2)] by simp
  moreover have "delimiter (peek input e)" by (rule delimiter_after [OF w(2) spans(3) d])
  ultimately obtain u where "jv_value ds input lim j (Suc depth) ?w = Some (Inr u)" "jv_offset u = e"
    "jv_members u = jv_members v + Suc m"
    using s(2) [unfolded accepts_value_def, rule_format, of j ?w e] spans(2) bound by auto
  with n member spans(3) show ?thesis by auto
qed

lemma accepts_last_element:
  assumes w: "spaces w1" "spaces w2"
    and s: "json_value ds D (Suc depth) m s" "accepts_value ds input lim (Suc depth) m s"
  shows "accepts_elements ds input lim depth (Suc m) (w1 @ s @ w2)"
  unfolding accepts_elements_def
proof (intro allI impI)
  fix n v a b
  assume total: "array_loop ds input lim n depth v \<noteq> None" and at: "jv_space input (jv_offset v) = jv_space input a"
    and span: "spans input a b ((w1 @ s @ w2) @ '']'')"
    and bound: "jv_members v + Suc m \<le> min U64_MAX (lm_max_members lim)"
  from span obtain c where c: "spans input a c (w1 @ s @ w2)" "peek input c = Some (CHR '']'')" "b = Suc c"
    unfolding spans_append [of _ _ _ "w1 @ s @ w2"] by (auto simp: spans_Cons)
  from array_pass [OF w s c(1) at c(2) _ total bound] obtain u j where u: "jv_members u = jv_members v + Suc m"
    "spans input (jv_offset u) c w2"
    "array_loop ds input lim n depth v = close_or_loop input (CHR '']'') (array_loop ds input lim j depth) u"
    by auto
  show "\<exists>v'. array_loop ds input lim n depth v = Some (Inr v') \<and> jv_offset v' = b \<and> jv_members v' = jv_members v + Suc m"
    using close_or_loop_exact(1) [OF w(2) u(2) _ c(2)] u(1,3) c(3) by simp
qed

lemma accepts_more_elements:
  assumes w: "spaces w1" "spaces w2"
    and s: "json_value ds D (Suc depth) m s" "accepts_value ds input lim (Suc depth) m s"
    and t: "accepts_elements ds input lim depth m' t"
  shows "accepts_elements ds input lim depth (Suc m + m') (w1 @ s @ w2 @ '','' @ t)"
  unfolding accepts_elements_def
proof (intro allI impI)
  fix n v a b
  assume total: "array_loop ds input lim n depth v \<noteq> None" and at: "jv_space input (jv_offset v) = jv_space input a"
    and span: "spans input a b ((w1 @ s @ w2 @ '','' @ t) @ '']'')"
    and bound: "jv_members v + (Suc m + m') \<le> min U64_MAX (lm_max_members lim)"
  from span have "spans input a b ((w1 @ s @ w2) @ '','' @ t @ '']'')" by simp
  then obtain c where c: "spans input a c (w1 @ s @ w2)" "peek input c = Some (CHR '','')" "spans input (Suc c) b (t @ '']'')"
    unfolding spans_append [of _ _ _ "w1 @ s @ w2"] by (auto simp: spans_Cons)
  from bound have "jv_members v + Suc m \<le> min U64_MAX (lm_max_members lim)" by simp
  from array_pass [OF w s c(1) at c(2) _ total this] obtain u j where u: "jv_members u = jv_members v + Suc m"
    "spans input (jv_offset u) c w2"
    "array_loop ds input lim n depth v = close_or_loop input (CHR '']'') (array_loop ds input lim j depth) u"
    by auto
  have loop: "array_loop ds input lim n depth v = array_loop ds input lim j depth (u\<lparr>jv_offset := Suc c\<rparr>)"
    using close_or_loop_exact(2) [OF w(2) u(2) _ c(2)] u(3) by simp
  show "\<exists>v'. array_loop ds input lim n depth v = Some (Inr v') \<and> jv_offset v' = b \<and> jv_members v' = jv_members v + (Suc m + m')"
    using t [unfolded accepts_elements_def, rule_format, of j "u\<lparr>jv_offset := Suc c\<rparr>" "Suc c" b] loop total bound u(1) c(3)
    by (simp add: add.assoc)
qed

lemma jv_complete:
  assumes "fits input"
  shows "json_value ds (lm_max_depth lim) depth m s \<Longrightarrow> accepts_value ds input lim depth m s"
    and "json_members ds (lm_max_depth lim) depth keys m t \<Longrightarrow> accepts_members ds input lim depth keys m t"
    and "json_elements ds (lm_max_depth lim) depth m r \<Longrightarrow> accepts_elements ds input lim depth m r"
proof (induction rule: json_value_json_members_json_elements.inducts)
  case (json_empty_object depth w)
  then show ?case using accepts_empty [where c = "CHR ''{''" and close = "CHR ''}''"] by simp
next
  case (json_empty_array depth w)
  then show ?case using accepts_empty [where c = "CHR ''[''" and close = "CHR '']''"] by simp
qed (blast intro: assms accepts_string accepts_literal accepts_number accepts_object accepts_array
      accepts_last_member accepts_more_members accepts_last_element accepts_more_elements)+

subsection \<open>Documents\<close>

lemma document_limits_simps [simp]:
  "lm_max_depth (document_limits lim) = min (lm_max_depth lim) ABSOLUTE_MAX_DEPTH"
  "lm_max_members (document_limits lim) = lm_max_members lim"
  by (simp_all add: document_limits_def)

abbreviation document_start :: "string \<Rightarrow> json_validator" where
  "document_start input \<equiv> start_validator\<lparr>jv_offset := jv_space input 0\<rparr>"

lemma document_value_total:
  assumes "fits input"
  shows "jv_value ds input lim (document_fuel input) 0 (document_start input) \<noteq> None"
  using jv_total [OF assms, of "document_fuel input" ds lim] by (simp add: document_fuel_def)

lemma validate_document_total:
  assumes "fits input"
  shows "validate_document ds input lim \<noteq> None"
proof -
  obtain r where "jv_value ds input (document_limits lim) (document_fuel input) 0 (document_start input) = Some r"
    using document_value_total [OF assms] by blast
  then show ?thesis
    by (cases r) (simp_all add: validate_document_def Let_def split: sum.splits prod.splits)
qed

lemma members_counted: "json_value ds D depth m s \<Longrightarrow> m < length s"
  "json_members ds D depth keys m t \<Longrightarrow> m < length t"
  "json_elements ds D depth m r \<Longrightarrow> m < length r + 1"
  by (induction rule: json_value_json_members_json_elements.inducts)
    (auto simp: string_token_def number_token_def whole_part_def all_digits_def)

lemma space_end: "spaces w \<Longrightarrow> spans input a (length input) w \<Longrightarrow> jv_space input a = length input"
  by (rule space_exact) (auto simp: peek_def)

lemma value_accepted_sound:
  assumes "fits input" and "jv_value ds input (document_limits lim) n 0 (document_start input) = Some (Inr v)"
    and "jv_space input (jv_offset v) = length input"
  shows "json_document ds lim input"
proof -
  obtain w s m where s: "spaces w" "json_value ds (min (lm_max_depth lim) ABSOLUTE_MAX_DEPTH) 0 m s"
    "spans input (jv_space input 0) (jv_offset v) (w @ s)" "counts (document_limits lim) (document_start input) v m"
    using jv_value_sound [OF assms(1) _ assms(2)] by (auto simp: reads_value_def start_validator_def)
  obtain w1 w2 where w: "spaces w1" "spans input 0 (jv_space input 0) w1" "spaces w2" "spans input (jv_offset v) (length input) w2"
    using spans_space [of input 0] spans_space [of input "jv_offset v"] assms(3) by auto
  have whole: "input = (w1 @ w) @ s @ w2"
    using spans_trans [OF w(2) spans_trans [OF s(3) w(4)]] by (simp add: spans_def)
  moreover have "m \<le> lm_max_members lim"
  proof -
    have "m < length s" using members_counted(1) s(2) by blast
    then have "m \<le> U64_MAX" using assms(1) whole by (simp add: fits_def)
    with s(4) show ?thesis by (simp add: counts_def start_validator_def)
  qed
  ultimately show ?thesis
    unfolding json_document_def using s(1,2) w(1,3)
    by (intro exI [of _ "w1 @ w"] exI [of _ s] exI [of _ w2] exI [of _ m]) simp
qed

lemma value_accepted_complete:
  assumes "fits input" and "json_document ds lim input"
  shows "\<exists>v. jv_value ds input (document_limits lim) (document_fuel input) 0 (document_start input) = Some (Inr v)
    \<and> jv_space input (jv_offset v) = length input"
proof -
  from assms(2) obtain w1 s w2 m where input: "input = w1 @ s @ w2" and w: "spaces w1" "spaces w2"
    and s: "json_value ds (min (lm_max_depth lim) ABSOLUTE_MAX_DEPTH) 0 m s" and m: "m \<le> lm_max_members lim"
    by (auto simp: json_document_def)
  have spans: "spans input 0 (length w1) w1" "spans input (length w1) (length w1 + length s) s"
    "spans input (length w1 + length s) (length input) w2"
    by (simp_all add: spans_def input)
  have start: "jv_space input 0 = length w1" by (rule space_to_value [OF w(1) spans(1) s spans(2)])
  have "delimiter (peek input (length w1 + length s))"
  proof (cases w2)
    case Nil
    then show ?thesis using input by (simp add: peek_def delimiter_def)
  next
    case (Cons c t)
    then show ?thesis using spans(3) w(2) by (simp add: spans_Cons delimiter_def)
  qed
  moreover have "m \<le> U64_MAX"
    using members_counted(1) [OF s] assms(1) input by (simp add: fits_def)
  moreover have "accepts_value ds input (document_limits lim) 0 m s"
    using s by (intro jv_complete(1) [OF assms(1)]) simp
  moreover note document_value_total [OF assms(1), of ds "document_limits lim"]
  moreover have "spans input (jv_space input (jv_offset (document_start input))) (length w1 + length s) s"
    using spans(2) start space_idem [of input 0] by simp
  moreover have "jv_members (document_start input) = 0" by (simp add: start_validator_def)
  ultimately obtain v where "jv_value ds input (document_limits lim) (document_fuel input) 0 (document_start input) = Some (Inr v)"
    "jv_offset v = length w1 + length s"
    unfolding accepts_value_def using m by fastforce
  with space_end [OF w(2) spans(3)] show ?thesis by auto
qed

lemma validate_document_iff:
  assumes "fits input"
  shows "(\<exists>facts. validate_document ds input lim = Some (Inr facts)) \<longleftrightarrow> from_utf8 input = Inr () \<and> json_document ds lim input"
proof (cases "from_utf8 input")
  case (Inl up_to)
  then show ?thesis by (simp add: validate_document_def split: prod.splits)
next
  case (Inr u)
  have "(\<exists>facts. validate_document ds input lim = Some (Inr facts)) \<longleftrightarrow>
    (\<exists>v. jv_value ds input (document_limits lim) (document_fuel input) 0 (document_start input) = Some (Inr v)
       \<and> jv_space input (jv_offset v) = length input)"
    by (auto simp: validate_document_def Inr fuel_bind_Inr_iff Let_def split: prod.splits if_splits)
  also have "\<dots> \<longleftrightarrow> json_document ds lim input"
    using value_accepted_sound [OF assms] value_accepted_complete [OF assms] by blast
  finally show ?thesis using Inr by simp
qed

text \<open>A decoder of string tokens for the examples: the bytes between the quotes, without escapes.\<close>

definition plain_string :: "string \<Rightarrow> string option" where
  "plain_string s = (if CHR 0x5C \<in> set s then None else Some (butlast (tl s)))"

definition sample_document :: string where
  "sample_document = ''{'' @ [CHR 0x22] @ ''schema_version'' @ [CHR 0x22] @ '': 1, '' @ [CHR 0x22] @ ''n''
     @ [CHR 0x22] @ '': [-0, 2.5e3, true]}''"

text \<open>
  C30: The validator terminates. Two units of fuel per byte and one more, the fuel
  \<open>validate_document\<close> starts with, decide every document a slice can hold, so neither
  \<open>decode\<close> nor \<open>decode_v1\<close> ever runs out.
\<close>

theorem validator_terminates:
  assumes "length content < U64_MAX"
  shows "validate_document ds content lim \<noteq> None
    \<and> decode ds from_slice (Inr content) lim \<noteq> None
    \<and> decode_v1 ds from_value as_u64 from_slice (Inr content) lim \<noteq> None"
proof (intro conjI)
  have "fits content" and "fits (take n content)" for n
    using assms by (simp_all add: fits_def)
  then have *: "validate_document ds content lim \<noteq> None" "\<And>n. validate_document ds (take n content) lim \<noteq> None"
    using validate_document_total by blast+
  show "validate_document ds content lim \<noteq> None" by (rule *(1))
  show "decode ds from_slice (Inr content) lim \<noteq> None"
    using *(2) by (auto simp: decode_def read_bounded_def fuel_bind_None_iff Let_def)
  show "decode_v1 ds from_value as_u64 from_slice (Inr content) lim \<noteq> None"
    using *(2) by (auto simp: decode_v1_def read_bounded_def fuel_bind_None_iff Let_def)
qed

theorem validator_terminates_witness:
  "validate_document plain_string sample_document default_limits \<noteq> None
    \<and> decode plain_string (\<lambda>s. Inr (length s)) (Inr sample_document) default_limits \<noteq> None
    \<and> decode_v1 plain_string (\<lambda>_. Inr JNull) (\<lambda>_. None) (\<lambda>s. Inr (length s)) (Inr sample_document) default_limits \<noteq> None"
  by (rule validator_terminates) (simp add: sample_document_def)

text \<open>
  C15: The validator is exact. It accepts a document exactly when the document is UTF-8 and is in
  the JSON grammar with decodable strings, numbers the machine types hold, distinct keys, a
  nesting depth within the smaller of the limit and 64, and at most the permitted number of
  members counted over all collections.
\<close>

theorem validator_exact:
  assumes "length input < U64_MAX"
  shows "(\<exists>facts. validate_document ds input lim = Some (Inr facts))
    \<longleftrightarrow> from_utf8 input = Inr () \<and> json_document ds lim input"
  using assms by (intro validate_document_iff) (simp add: fits_def)

theorem validator_exact_witness:
  "\<exists>facts. validate_document plain_string ''[true]'' default_limits = Some (Inr facts)"
proof -
  have "json_value plain_string 64 0 1 ''[true]''"
    using json_array [of 0 64 plain_string 1 "''true''"] json_last_element [of "[]" plain_string 64 0 0 "''true''" "[]"]
      json_literal [of 1 64 "''true''" plain_string] by simp
  then have "json_document plain_string default_limits ''[true]''"
    unfolding json_document_def
    by (intro exI [of _ "[]"] exI [of _ "''[true]''"] exI [of _ 1]) (simp add: default_limits_def)
  moreover have "from_utf8 ''[true]'' = Inr ()"
    by (simp add: from_utf8_def valid_up_to.simps utf8_width_def)
  ultimately show ?thesis
    using validator_exact [of "''[true]''" plain_string default_limits] by simp
qed

end
