(* ===== verification/Records_Jsonc.thy ===== *)
theory Records_Jsonc
  imports Records_Json
begin

section \<open>JSON with comments (crate records)\<close>

text \<open>
  \<open>records/src/jsonc.rs\<close>: a configuration document may hold comments and trailing commas. The
  scanner blanks them in a copy of the source, the projection, so that every byte keeps its
  place and the JSON validator of \<open>Records_Json\<close> decodes the projection. The document is scanned
  twice, first without collecting tokens, and a trailing comma is found twice: by the scanner,
  from the two tokens before a closing bracket, and by \<open>mark_trailing_commas\<close>, backwards over the
  token list. \<open>jsonc_projection_exact\<close> shows that the two agree and that the projection is the source
  with exactly the comments and the trailing commas blanked. An offset is an index into a slice, so the
  \<open>saturating_add\<close> of small constants to it is addition.
\<close>

datatype jsonc_token_kind =
    ObjectStart | ObjectEnd | ArrayStart | ArrayEnd | Colon | Comma | TrailingComma
  | StringToken | NumberToken | TrueToken | FalseToken | NullToken | LineComment | BlockComment

record jsonc_token =
  tk_kind :: jsonc_token_kind
  tk_start :: nat
  tk_end :: nat

record jsonc_document =
  jd_source :: string
  jd_projection :: string
  jd_tokens :: "jsonc_token list"
  jd_limits :: limits

subsection \<open>Scanning\<close>

definition ends_value :: "jsonc_token_kind \<Rightarrow> bool" where
  "ends_value k \<longleftrightarrow> k \<in> {StringToken, NumberToken, TrueToken, FalseToken, NullToken, ArrayEnd, ObjectEnd}"

definition is_comment :: "jsonc_token_kind \<Rightarrow> bool" where
  "is_comment k \<longleftrightarrow> k = LineComment \<or> k = BlockComment"

definition is_close :: "jsonc_token_kind \<Rightarrow> bool" where
  "is_close k \<longleftrightarrow> k = ArrayEnd \<or> k = ObjectEnd"

definition is_newline :: "char \<Rightarrow> bool" where
  "is_newline c \<longleftrightarrow> c = CHR 0x0D \<or> c = CHR 0x0A"

definition blank :: "string \<Rightarrow> nat \<Rightarrow> nat \<Rightarrow> string" where
  "blank projection start end' =
     map (\<lambda>i. if start \<le> i \<and> i < end' \<and> \<not> is_newline (projection ! i) then CHR '' '' else projection ! i)
       [0..<length projection]"

text \<open>The state of the loop of \<open>scan\<close>; \<open>sc_before\<close> and \<open>sc_last\<close> are the pair \<open>history\<close>.\<close>

record scan_state =
  sc_offset :: nat
  sc_tokens :: "jsonc_token list"
  sc_before :: "jsonc_token_kind option"
  sc_last :: "jsonc_token option"
  sc_projection :: string

definition trailing_comma_seen :: "jsonc_token_kind \<Rightarrow> scan_state \<Rightarrow> jsonc_token option" where
  "trailing_comma_seen kind st =
     (if is_close kind \<and> is_some_and (sc_before st) ends_value
         \<and> is_some_and (sc_last st) (\<lambda>previous. tk_kind previous = Comma)
      then sc_last st else None)"

definition emit_token :: "bool \<Rightarrow> jsonc_token \<Rightarrow> scan_state \<Rightarrow> scan_state" where
  "emit_token collect token st =
     (let st1 = (if is_comment (tk_kind token) then st
        else st\<lparr>sc_projection := (case trailing_comma_seen (tk_kind token) st of
                    None \<Rightarrow> sc_projection st
                  | Some comma \<Rightarrow> (sc_projection st)[tk_start comma := CHR '' '']),
                sc_before := map_option tk_kind (sc_last st),
                sc_last := Some token\<rparr>) in
      if collect then st1\<lparr>sc_tokens := sc_tokens st @ [token]\<rparr> else st1)"

text \<open>The end of a block comment: behind the first \<open>*/\<close>, if there is one.\<close>

function block_end :: "string \<Rightarrow> nat \<Rightarrow> nat option" where
  "block_end source o' =
     (if o' < length source then
        (if o' + 2 \<le> length source \<and> slice source o' (o' + 2) = ''*/'' then Some (o' + 2)
         else block_end source (Suc o'))
      else None)"
  by pat_completeness auto

termination
  by (relation "measure (\<lambda>(source, o'). length source - o')") auto

function scan_string_from :: "string \<Rightarrow> nat \<Rightarrow> nat option" where
  "scan_string_from source o' = (case peek source o' of
       None \<Rightarrow> None
     | Some c \<Rightarrow>
         if c = CHR 0x22 then Some (Suc o')
         else if c = CHR 0x5C then scan_string_from source (o' + 2)
         else scan_string_from source (Suc o'))"
  by pat_completeness auto

termination
  by (relation "measure (\<lambda>(source, o'). length source - o')") (auto simp: peek_def split: if_splits)

definition scan_string :: "string \<Rightarrow> nat \<Rightarrow> decode_error + nat" where
  "scan_string source start = (case scan_string_from source (Suc start) of
       None \<Rightarrow> Inl (syntax_error source start)
     | Some end' \<Rightarrow> Inr end')"

definition atom_stop :: "string \<Rightarrow> nat \<Rightarrow> char \<Rightarrow> bool" where
  "atom_stop source o' c \<longleftrightarrow>
     c = CHR ''/'' \<and> (peek source (Suc o') = Some (CHR ''/'') \<or> peek source (Suc o') = Some (CHR ''*''))
     \<or> is_space c \<or> c \<in> {CHR '','', CHR '']'', CHR ''}'', CHR '':'', CHR ''['', CHR ''{''}"

function scan_atom :: "string \<Rightarrow> nat \<Rightarrow> nat" where
  "scan_atom source o' = (case peek source o' of
       None \<Rightarrow> o'
     | Some c \<Rightarrow> if atom_stop source o' c then o' else scan_atom source (Suc o'))"
  by pat_completeness auto

termination
  by (relation "measure (\<lambda>(source, o'). length source - o')") (auto simp: peek_def split: if_splits)

declare block_end.simps [simp del] scan_string_from.simps [simp del] scan_atom.simps [simp del]

definition punctuation :: "char \<Rightarrow> jsonc_token_kind option" where
  "punctuation c =
     (if c = CHR ''{'' then Some ObjectStart
      else if c = CHR ''}'' then Some ObjectEnd
      else if c = CHR ''['' then Some ArrayStart
      else if c = CHR '']'' then Some ArrayEnd
      else if c = CHR '':'' then Some Colon
      else if c = CHR '','' then Some Comma
      else None)"

definition literal_kind :: "string \<Rightarrow> jsonc_token_kind option" where
  "literal_kind s =
     (if s = ''true'' then Some TrueToken
      else if s = ''false'' then Some FalseToken
      else if s = ''null'' then Some NullToken
      else None)"

text \<open>The token at an offset that holds a byte; \<open>None\<close> is white space.\<close>

definition scan_token :: "string \<Rightarrow> nat \<Rightarrow> decode_error + jsonc_token option" where
  "scan_token source o' =
     (let c = source ! o';
          token = (\<lambda>kind end'. Inr (Some \<lparr> tk_kind = kind, tk_start = o', tk_end = end' \<rparr>)) in
      if is_space c then Inr None
      else if c = CHR ''/'' \<and> peek source (Suc o') = Some (CHR ''/'') then
        token LineComment (skip_while (\<lambda>c. \<not> is_newline c) source (o' + 2))
      else if c = CHR ''/'' \<and> peek source (Suc o') = Some (CHR ''*'') then
        (case block_end source (o' + 2) of
           None \<Rightarrow> Inl (syntax_error source o')
         | Some end' \<Rightarrow> token BlockComment end')
      else if c = CHR ''/'' then Inl (syntax_error source o')
      else if c = CHR 0x22 then res_bind (scan_string source o') (token StringToken)
      else (case punctuation c of
          Some kind \<Rightarrow> token kind (Suc o')
        | None \<Rightarrow>
            if c = CHR ''-'' \<or> is_ascii_digit c then token NumberToken (scan_atom source o')
            else if c = CHR ''t'' \<or> c = CHR ''f'' \<or> c = CHR ''n'' then
              (case literal_kind (slice source o' (scan_atom source o')) of
                 None \<Rightarrow> Inl (syntax_error source o')
               | Some kind \<Rightarrow> token kind (scan_atom source o'))
            else Inl (syntax_error source o')))"

text \<open>One pass of the loop of \<open>scan\<close>: comments are blanked before they are emitted.\<close>

definition take_token :: "bool \<Rightarrow> jsonc_token \<Rightarrow> scan_state \<Rightarrow> scan_state" where
  "take_token collect token st =
     (emit_token collect token
        (if is_comment (tk_kind token)
         then st\<lparr>sc_projection := blank (sc_projection st) (tk_start token) (tk_end token)\<rparr> else st))
     \<lparr>sc_offset := tk_end token\<rparr>"

definition scan_step :: "string \<Rightarrow> bool \<Rightarrow> scan_state \<Rightarrow> decode_error + scan_state" where
  "scan_step source collect st =
     res_bind (scan_token source (sc_offset st)) (\<lambda>found. case found of
        None \<Rightarrow> Inr (st\<lparr>sc_offset := Suc (sc_offset st)\<rparr>)
      | Some token \<Rightarrow> Inr (take_token collect token st))"

lemma scan_atom_ge: "o' \<le> scan_atom source o'"
proof (induction source o' rule: scan_atom.induct)
  case (1 source o')
  then show ?case by (subst scan_atom.simps) (force split: option.splits)
qed

lemma scan_atom_bound: "o' \<le> length source \<Longrightarrow> scan_atom source o' \<le> length source"
proof (induction source o' rule: scan_atom.induct)
  case (1 source o')
  then show ?case
    by (subst scan_atom.simps) (auto simp: Suc_le_eq split: option.splits dest: peek_bound)
qed

lemma scan_string_from_bound: "scan_string_from source o' = Some e \<Longrightarrow> o' < e \<and> e \<le> length source"
proof (induction source o' rule: scan_string_from.induct)
  case (1 source o')
  show ?case
    using 1(3) 1(1,2) peek_bound [of source o']
    by (subst (asm) scan_string_from.simps) (force split: option.splits if_splits)
qed

lemma block_end_bound: "block_end source o' = Some e \<Longrightarrow> o' + 2 \<le> e \<and> e \<le> length source"
proof (induction source o' rule: block_end.induct)
  case (1 source o')
  show ?case
    using 1(2) 1(1)
    by (subst (asm) block_end.simps) (auto split: if_splits)
qed

lemma skip_while_bound: "a \<le> length source \<Longrightarrow> skip_while p source a \<le> length source"
  using length_takeWhile_le [of p "drop a source"] by (simp add: skip_while_def)

lemma scan_atom_step: "peek source a = Some c \<Longrightarrow> \<not> atom_stop source a c \<Longrightarrow> a < scan_atom source a \<and> scan_atom source a \<le> length source"
  using scan_atom_ge [of "Suc a" source] scan_atom_bound [of a source] peek_bound [of source a c]
  by (simp add: scan_atom.simps [of source a])

lemma atom_start: "c = CHR ''-'' \<or> is_ascii_digit c \<or> c = CHR ''t'' \<or> c = CHR ''f'' \<or> c = CHR ''n'' \<Longrightarrow> \<not> atom_stop source a c"
  by (auto simp: atom_stop_def is_space_def is_ascii_digit_def)

text \<open>What a token covers, and which bytes start it.\<close>

lemma scan_token_span:
  assumes "scan_token source a = Inr (Some t)" and a: "a < length source"
  shows "tk_start t = a \<and> a < tk_end t \<and> tk_end t \<le> length source"
proof -
  have c: "peek source a = Some (source ! a)" using a by (simp add: peek_def)
  have comment: "a + 2 \<le> length source" if "peek source (Suc a) = Some d" for d
    using peek_bound [OF that] by simp
  have atom: "a < scan_atom source a \<and> scan_atom source a \<le> length source"
    if "source ! a = CHR ''-'' \<or> is_ascii_digit (source ! a) \<or> source ! a = CHR ''t'' \<or> source ! a = CHR ''f'' \<or> source ! a = CHR ''n''"
    using scan_atom_step [OF c atom_start [OF that]] .
  have line: "a < skip_while p source (a + 2) \<and> skip_while p source (a + 2) \<le> length source"
    if "peek source (Suc a) = Some d" for p d
    using skip_while_bound [OF comment [OF that], of p] by (simp add: skip_while_def)
  from assms(1) consider
      (line_comment) d p where "peek source (Suc a) = Some d" "t = \<lparr> tk_kind = LineComment, tk_start = a, tk_end = skip_while p source (a + 2) \<rparr>"
    | (block) e where "block_end source (a + 2) = Some e" "t = \<lparr> tk_kind = BlockComment, tk_start = a, tk_end = e \<rparr>"
    | (string) e where "scan_string source a = Inr e" "t = \<lparr> tk_kind = StringToken, tk_start = a, tk_end = e \<rparr>"
    | (punctuation) k where "t = \<lparr> tk_kind = k, tk_start = a, tk_end = Suc a \<rparr>"
    | (word) k where "source ! a = CHR ''-'' \<or> is_ascii_digit (source ! a) \<or> source ! a = CHR ''t'' \<or> source ! a = CHR ''f'' \<or> source ! a = CHR ''n''"
        "t = \<lparr> tk_kind = k, tk_start = a, tk_end = scan_atom source a \<rparr>"
    by (auto simp: scan_token_def Let_def split: if_splits option.splits)
  then show ?thesis
  proof cases
    case line_comment
    then show ?thesis using line by auto
  next
    case block
    then show ?thesis using block_end_bound [of source "a + 2"] by auto
  next
    case string
    then show ?thesis
      using scan_string_from_bound [of source "Suc a"] by (auto simp: scan_string_def split: option.splits)
  next
    case punctuation
    then show ?thesis using a by simp
  next
    case word
    then show ?thesis using atom by simp
  qed
qed

lemma emit_token_offset [simp]: "sc_offset (emit_token collect t st) = sc_offset st"
  by (simp add: emit_token_def Let_def)

lemma scan_step_progress:
  assumes "scan_step source collect st = Inr st'" and "sc_offset st < length source"
  shows "sc_offset st < sc_offset st' \<and> sc_offset st' \<le> length source"
  using assms scan_token_span [of source "sc_offset st"]
  by (auto simp: scan_step_def take_token_def split: option.splits)

lemma res_bind_cong [fundef_cong]:
  "m = m' \<Longrightarrow> (\<And>x. m' = Inr x \<Longrightarrow> f x = f' x) \<Longrightarrow> res_bind m f = res_bind m' f'"
  by (cases m') simp_all

function scan_loop :: "string \<Rightarrow> bool \<Rightarrow> scan_state \<Rightarrow> decode_error + scan_state" where
  "scan_loop source collect st =
     (if sc_offset st < length source
      then res_bind (scan_step source collect st) (\<lambda>st'. scan_loop source collect st')
      else Inr st)"
  by pat_completeness auto

termination
  by (relation "measure (\<lambda>(source, collect, st). length source - sc_offset st)")
    (auto dest: scan_step_progress)

declare scan_loop.simps [simp del]

definition scan_start :: "string \<Rightarrow> scan_state" where
  "scan_start projection = \<lparr> sc_offset = 0, sc_tokens = [], sc_before = None, sc_last = None,
     sc_projection = projection \<rparr>"

text \<open>\<open>scan\<close> returns the tokens, and the projection it has written to.\<close>

definition scan :: "string \<Rightarrow> string \<Rightarrow> bool \<Rightarrow> decode_error + jsonc_token list \<times> string" where
  "scan source projection collect =
     res_bind (scan_loop source collect (scan_start projection))
       (\<lambda>st. Inr (sc_tokens st, sc_projection st))"

subsection \<open>Trailing commas in the token list\<close>

text \<open>The state of the backward loop: the commas found, the kind behind, and a comma before a closing bracket.\<close>

record mark_state =
  mk_trailing :: "nat list"
  mk_next_kind :: "jsonc_token_kind option"
  mk_candidate :: "nat option"

definition mark_step :: "jsonc_token list \<Rightarrow> nat \<Rightarrow> mark_state \<Rightarrow> mark_state" where
  "mark_step tokens i mk =
     (let kind = tk_kind (tokens ! i) in
      if is_comment kind then mk
      else \<lparr> mk_trailing = (case mk_candidate mk of
                  Some comma \<Rightarrow> if ends_value kind then mk_trailing mk @ [comma] else mk_trailing mk
                | None \<Rightarrow> mk_trailing mk),
             mk_next_kind = Some kind,
             mk_candidate = (if kind = Comma \<and> is_some_and (mk_next_kind mk) is_close then Some i else None) \<rparr>)"

definition trailing_indices :: "jsonc_token list \<Rightarrow> nat list" where
  "trailing_indices tokens =
     mk_trailing (fold (mark_step tokens) (rev [0..<length tokens])
       \<lparr> mk_trailing = [], mk_next_kind = None, mk_candidate = None \<rparr>)"

definition mark_comma :: "nat \<Rightarrow> jsonc_token list \<times> string \<Rightarrow> jsonc_token list \<times> string" where
  "mark_comma i tp = (case tp of (tokens, projection) \<Rightarrow>
     if i < length tokens
     then (tokens[i := (tokens ! i)\<lparr>tk_kind := TrailingComma\<rparr>], projection[tk_start (tokens ! i) := CHR '' ''])
     else (tokens, projection))"

definition mark_trailing_commas :: "jsonc_token list \<Rightarrow> string \<Rightarrow> jsonc_token list \<times> string" where
  "mark_trailing_commas tokens projection = fold mark_comma (trailing_indices tokens) (tokens, projection)"

subsection \<open>Documents\<close>

text \<open>\<open>from_value\<close> is \<open>serde_json::from_slice\<close> to a \<open>serde_json::Value\<close>.\<close>

definition jsonc_read ::
  "(string \<Rightarrow> string option) \<Rightarrow> (string \<Rightarrow> (nat \<times> nat) + json) \<Rightarrow> string + string \<Rightarrow> limits
   \<Rightarrow> (decode_error + jsonc_document) option" where
  "jsonc_read decode_string from_value reader lim =
     fuel_bind (Some (read_bounded reader (lm_max_bytes lim))) (\<lambda>bytes.
     case from_utf8 bytes of
       Inl up_to \<Rightarrow> (case location bytes up_to of (line, column) \<Rightarrow> Some (Inl (InvalidUtf8 line column)))
     | Inr _ \<Rightarrow>
         fuel_bind (Some (scan bytes bytes False)) (\<lambda>(_, projection1).
         fuel_bind (decode decode_string from_value (Inr projection1) lim) (\<lambda>_.
         fuel_bind (Some (scan bytes projection1 True)) (\<lambda>(tokens, projection2).
         case mark_trailing_commas tokens projection2 of (tokens', projection3) \<Rightarrow>
           Some (Inr \<lparr> jd_source = bytes, jd_projection = projection3, jd_tokens = tokens',
                       jd_limits = lim \<rparr>)))))"

definition jsonc_decode ::
  "(string \<Rightarrow> string option) \<Rightarrow> (string \<Rightarrow> (nat \<times> nat) + 'a) \<Rightarrow> jsonc_document \<Rightarrow> (decode_error + 'a) option" where
  "jsonc_decode decode_string from_slice doc =
     decode decode_string from_slice (Inr (jd_projection doc)) (jd_limits doc)"

definition decode_jsonc ::
  "(string \<Rightarrow> string option) \<Rightarrow> (string \<Rightarrow> (nat \<times> nat) + json) \<Rightarrow> (string \<Rightarrow> (nat \<times> nat) + 'a)
   \<Rightarrow> string + string \<Rightarrow> limits \<Rightarrow> (decode_error + 'a) option" where
  "decode_jsonc decode_string from_value from_slice reader lim =
     fuel_bind (jsonc_read decode_string from_value reader lim) (jsonc_decode decode_string from_slice)"

subsection \<open>Which bytes are blanked\<close>

text \<open>
  The reference: a comma of the token list is trailing when, comments apart, the token before it
  ends a value and the token behind it closes a collection.
\<close>

definition first_kind :: "jsonc_token list \<Rightarrow> jsonc_token_kind option" where
  "first_kind ts = map_option tk_kind (List.find (\<lambda>t. \<not> is_comment (tk_kind t)) ts)"

definition trailing_at :: "jsonc_token list \<Rightarrow> nat \<Rightarrow> bool" where
  "trailing_at T i \<longleftrightarrow> i < length T \<and> tk_kind (T ! i) = Comma
     \<and> is_some_and (first_kind (rev (take i T))) ends_value
     \<and> is_some_and (first_kind (drop (Suc i) T)) is_close"

definition blanked :: "jsonc_token list \<Rightarrow> nat set" where
  "blanked T = {j. \<exists>t \<in> set T. is_comment (tk_kind t) \<and> tk_start t \<le> j \<and> j < tk_end t}
     \<union> {tk_start (T ! i) | i. trailing_at T i}"

definition blank_set :: "nat set \<Rightarrow> string \<Rightarrow> string" where
  "blank_set B p = map (\<lambda>i. if i \<in> B \<and> \<not> is_newline (p ! i) then CHR '' '' else p ! i) [0..<length p]"

lemma first_kind_simps [simp]:
  "first_kind [] = None"
  "first_kind (t # ts) = (if is_comment (tk_kind t) then first_kind ts else Some (tk_kind t))"
  by (simp_all add: first_kind_def)

lemma first_kind_append:
  "first_kind (xs @ ys) = (case first_kind xs of Some k \<Rightarrow> Some k | None \<Rightarrow> first_kind ys)"
  by (induction xs) auto

lemma first_kind_None: "first_kind xs = None \<longleftrightarrow> (\<forall>t \<in> set xs. is_comment (tk_kind t))"
  by (induction xs) auto

lemma length_blank_set [simp]: "length (blank_set B p) = length p"
  by (simp add: blank_set_def)

lemma nth_blank_set: "i < length p \<Longrightarrow> blank_set B p ! i = (if i \<in> B \<and> \<not> is_newline (p ! i) then CHR '' '' else p ! i)"
  by (simp add: blank_set_def)

lemma not_newline [simp]: "\<not> is_newline (CHR '' '')" "\<not> is_newline (CHR '','')"
  by (simp_all add: is_newline_def)

lemma blank_set_blank_set [simp]: "blank_set A (blank_set B p) = blank_set (A \<union> B) p"
  by (rule nth_equalityI) (auto simp: nth_blank_set)

lemma blank_set_empty [simp]: "blank_set {} p = p"
  by (rule nth_equalityI) (auto simp: nth_blank_set)

lemma blank_blank_set: "blank p a b = blank_set {a..<b} p"
  by (simp add: blank_def blank_set_def conj_assoc)

lemma update_blank_set: "(i < length p \<Longrightarrow> \<not> is_newline (p ! i)) \<Longrightarrow> p[i := CHR '' ''] = blank_set {i} p"
  by (rule nth_equalityI) (auto simp: nth_blank_set nth_list_update)

text \<open>The pair \<open>history\<close> of the scanner, read off the tokens it has emitted.\<close>

fun kind_before :: "jsonc_token list \<Rightarrow> jsonc_token_kind option" where
  "kind_before [] = None"
| "kind_before (t # ts) = (if is_comment (tk_kind t) then kind_before ts else first_kind ts)"

definition history_of :: "jsonc_token list \<Rightarrow> scan_state \<Rightarrow> bool" where
  "history_of T st \<longleftrightarrow> sc_last st = List.find (\<lambda>t. \<not> is_comment (tk_kind t)) (rev T) \<and> sc_before st = kind_before (rev T)"

lemma last_token_split:
  assumes "List.find (\<lambda>t. \<not> is_comment (tk_kind t)) (rev T) = Some c"
  shows "\<exists>xs ys. T = xs @ c # ys \<and> \<not> is_comment (tk_kind c) \<and> first_kind ys = None \<and> kind_before (rev T) = first_kind (rev xs)"
  using assms
proof (induction T rule: rev_induct)
  case (snoc t T)
  show ?case
  proof (cases "is_comment (tk_kind t)")
    case True
    with snoc obtain xs ys where "T = xs @ c # ys" "\<not> is_comment (tk_kind c)" "first_kind ys = None"
      "kind_before (rev T) = first_kind (rev xs)" by auto
    with True show ?thesis
      by (intro exI [of _ xs] exI [of _ "ys @ [t]"]) (simp add: first_kind_append)
  next
    case False
    with snoc(2) show ?thesis by (intro exI [of _ T] exI [of _ "[]"]) simp
  qed
qed simp

lemma trailing_at_snoc:
  "trailing_at (T @ [t]) i \<longleftrightarrow> trailing_at T i
     \<or> is_close (tk_kind t) \<and> i < length T \<and> tk_kind (T ! i) = Comma
       \<and> is_some_and (first_kind (rev (take i T))) ends_value \<and> first_kind (drop (Suc i) T) = None"
proof (cases "i < length T")
  case True
  have "is_close (tk_kind t) \<Longrightarrow> \<not> is_comment (tk_kind t)" by (auto simp: is_close_def is_comment_def)
  with True show ?thesis
    by (cases "first_kind (drop (Suc i) T)") (auto simp: trailing_at_def nth_append first_kind_append)
next
  case False
  then show ?thesis by (auto simp: trailing_at_def)
qed

lemma new_trailing_comma:
  assumes "history_of T st"
  shows "{tk_start (T ! i) | i. is_close k \<and> i < length T \<and> tk_kind (T ! i) = Comma
       \<and> is_some_and (first_kind (rev (take i T))) ends_value \<and> first_kind (drop (Suc i) T) = None}
    = (case trailing_comma_seen k st of None \<Rightarrow> {} | Some c \<Rightarrow> {tk_start c})" (is "?new = _")
proof (cases "sc_last st")
  case None
  with assms have "List.find (\<lambda>t. \<not> is_comment (tk_kind t)) (rev T) = None" by (simp add: history_of_def)
  then have "\<forall>t \<in> set T. is_comment (tk_kind t)" by (simp add: find_None_iff)
  then have "tk_kind (T ! i) \<noteq> Comma" if "i < length T" for i
    using nth_mem [OF that] by (force simp: is_comment_def)
  with None show ?thesis by (auto simp: trailing_comma_seen_def)
next
  case (Some c)
  with assms have "List.find (\<lambda>t. \<not> is_comment (tk_kind t)) (rev T) = Some c" by (simp add: history_of_def)
  from last_token_split [OF this] assms obtain xs ys where T: "T = xs @ c # ys" and c: "\<not> is_comment (tk_kind c)"
    and ys: "first_kind ys = None" and before: "sc_before st = first_kind (rev xs)"
    by (auto simp: history_of_def)
  have at: "i = length xs" if "i < length T" "tk_kind (T ! i) = Comma" "first_kind (drop (Suc i) T) = None" for i
  proof (rule ccontr)
    assume "i \<noteq> length xs"
    then consider "i < length xs" | "length xs < i" by linarith
    then show False
    proof cases
      case 1
      then have "c \<in> set (drop (Suc i) T)" by (simp add: T)
      with that(3) c show False by (simp add: first_kind_None)
    next
      case 2
      with that(1) have "T ! i \<in> set ys" by (simp add: T nth_append nth_Cons')
      with ys that(2) show False by (force simp: first_kind_None is_comment_def)
    qed
  qed
  have self: "T ! length xs = c" "take (length xs) T = xs" "drop (Suc (length xs)) T = ys" "length xs < length T"
    by (simp_all add: T)
  show ?thesis
  proof (cases "trailing_comma_seen k st")
    case None
    then have no: "\<not> (is_close k \<and> tk_kind c = Comma \<and> is_some_and (first_kind (rev xs)) ends_value)"
      using Some before by (auto simp: trailing_comma_seen_def split: if_splits)
    have "\<not> (is_close k \<and> i < length T \<and> tk_kind (T ! i) = Comma
       \<and> is_some_and (first_kind (rev (take i T))) ends_value \<and> first_kind (drop (Suc i) T) = None)" for i
    proof (intro notI, elim conjE)
      assume *: "is_close k" "i < length T" "tk_kind (T ! i) = Comma" "is_some_and (first_kind (rev (take i T))) ends_value"
        "first_kind (drop (Suc i) T) = None"
      with at [of i] have "i = length xs" by simp
      with * no self show False by simp
    qed
    then have "?new = {}" by blast
    with None show ?thesis by simp
  next
    case (Some c')
    then have yes: "c' = c" "is_close k" "tk_kind c = Comma" "is_some_and (first_kind (rev xs)) ends_value"
      using \<open>sc_last st = Some c\<close> before by (auto simp: trailing_comma_seen_def split: if_splits)
    have "is_close k \<and> i < length T \<and> tk_kind (T ! i) = Comma
       \<and> is_some_and (first_kind (rev (take i T))) ends_value \<and> first_kind (drop (Suc i) T) = None
       \<longleftrightarrow> i = length xs" for i
      by (rule iffI, blast intro: at, use yes self ys in simp)
    then have "?new = {tk_start c}" using self(1) by simp
    with Some yes(1) show ?thesis by simp
  qed
qed

lemma blanked_snoc:
  assumes "history_of T st"
  shows "blanked (T @ [t]) = blanked T \<union> (if is_comment (tk_kind t) then {tk_start t..<tk_end t} else {})
    \<union> (case trailing_comma_seen (tk_kind t) st of None \<Rightarrow> {} | Some c \<Rightarrow> {tk_start c})"
proof -
  have "{tk_start ((T @ [t]) ! i) | i. trailing_at (T @ [t]) i} = {tk_start (T ! i) | i. trailing_at T i}
    \<union> {tk_start (T ! i) | i. is_close (tk_kind t) \<and> i < length T \<and> tk_kind (T ! i) = Comma
       \<and> is_some_and (first_kind (rev (take i T))) ends_value \<and> first_kind (drop (Suc i) T) = None}"
    unfolding trailing_at_snoc by (auto simp: nth_append trailing_at_def)
  then show ?thesis
    unfolding blanked_def new_trailing_comma [OF assms] by auto
qed

subsection \<open>The scanner's invariant\<close>

text \<open>What is true of a token of the source.\<close>

definition token_ok :: "string \<Rightarrow> jsonc_token \<Rightarrow> bool" where
  "token_ok source t \<longleftrightarrow> tk_start t < tk_end t \<and> tk_end t \<le> length source
     \<and> (tk_kind t = Comma \<longrightarrow> source ! tk_start t = CHR '','' \<and> tk_end t = Suc (tk_start t))
     \<and> tk_kind t \<noteq> TrailingComma"

lemma literal_kind_cases: "literal_kind s = Some k \<Longrightarrow> k \<in> {TrueToken, FalseToken, NullToken}"
  by (auto simp: literal_kind_def split: if_splits)

lemma punctuation_cases: "punctuation c = Some k \<Longrightarrow> (k = Comma \<longrightarrow> c = CHR '','') \<and> k \<noteq> TrailingComma"
  by (auto simp: punctuation_def split: if_splits)

lemma scan_token_ok:
  assumes "scan_token source a = Inr (Some t)" and "a < length source"
  shows "token_ok source t \<and> tk_start t = a"
proof -
  have "(tk_kind t = Comma \<longrightarrow> source ! a = CHR '','' \<and> tk_end t = Suc a) \<and> tk_kind t \<noteq> TrailingComma"
    using assms(1)
    by (auto simp: scan_token_def Let_def dest!: literal_kind_cases punctuation_cases split: if_splits option.splits)
  with scan_token_span [OF assms] show ?thesis by (auto simp: token_ok_def)
qed

definition in_order :: "jsonc_token list \<Rightarrow> bool" where
  "in_order T \<longleftrightarrow> sorted_wrt (\<lambda>s t. tk_end s \<le> tk_start t) T"

definition covered :: "jsonc_token list \<Rightarrow> nat \<Rightarrow> bool" where
  "covered T i \<longleftrightarrow> (\<exists>t \<in> set T. tk_start t \<le> i \<and> i < tk_end t)"

text \<open>
  The invariant of the collecting loop: the tokens are those of the bytes read, in order and
  covering every byte but white space, and the projection is the given one with \<open>blanked\<close> applied.
\<close>

definition scan_inv :: "string \<Rightarrow> string \<Rightarrow> scan_state \<Rightarrow> bool" where
  "scan_inv source p st \<longleftrightarrow> sc_offset st \<le> length source
     \<and> list_all (\<lambda>t. token_ok source t \<and> tk_end t \<le> sc_offset st) (sc_tokens st)
     \<and> in_order (sc_tokens st)
     \<and> (\<forall>i < sc_offset st. \<not> is_space (source ! i) \<longrightarrow> covered (sc_tokens st) i)
     \<and> history_of (sc_tokens st) st
     \<and> sc_projection st = blank_set (blanked (sc_tokens st)) p"

text \<open>A projection has the length of its source and a line break only where the source has one.\<close>

definition projects :: "string \<Rightarrow> string \<Rightarrow> bool" where
  "projects source p \<longleftrightarrow> length p = length source \<and> (\<forall>i < length source. is_newline (p ! i) \<longrightarrow> is_newline (source ! i))"

lemma projects_self [simp]: "projects source source"
  by (simp add: projects_def)

lemma projects_blank_set: "projects source p \<Longrightarrow> projects source (blank_set B p)"
  by (auto simp: projects_def nth_blank_set split: if_splits)

lemma trailing_comma_seen_token:
  assumes "trailing_comma_seen k st = Some c" "history_of T st"
  shows "c \<in> set T \<and> tk_kind c = Comma"
  using assms by (auto simp: trailing_comma_seen_def history_of_def is_some_and_iff dest: find_Some_in split: if_splits)

lemma take_token_simps:
  "sc_tokens (take_token True t st) = sc_tokens st @ [t]"
  "sc_offset (take_token c t st) = tk_end t"
  "sc_last (take_token c t st) = (if is_comment (tk_kind t) then sc_last st else Some t)"
  "sc_before (take_token c t st) = (if is_comment (tk_kind t) then sc_before st else map_option tk_kind (sc_last st))"
  "sc_projection (take_token c t st) =
     (if is_comment (tk_kind t) then blank (sc_projection st) (tk_start t) (tk_end t)
      else case trailing_comma_seen (tk_kind t) st of None \<Rightarrow> sc_projection st
        | Some comma \<Rightarrow> (sc_projection st)[tk_start comma := CHR '' ''])"
  by (simp_all add: take_token_def emit_token_def Let_def)

lemma history_take_token: "history_of (sc_tokens st) st \<Longrightarrow> history_of (sc_tokens st @ [t]) (take_token True t st)"
  by (auto simp: history_of_def take_token_simps first_kind_def)

lemma projection_take_token:
  assumes inv: "scan_inv source p st" and p: "projects source p"
  shows "sc_projection (take_token True t st) = blank_set (blanked (sc_tokens st @ [t])) p"
proof -
  let ?T = "sc_tokens st"
  have T: "history_of ?T st" "sc_projection st = blank_set (blanked ?T) p" "list_all (token_ok source) ?T"
    using inv by (auto simp: scan_inv_def list_all_iff)
  show ?thesis
  proof (cases "is_comment (tk_kind t)")
    case True
    then have "trailing_comma_seen (tk_kind t) st = None"
      by (auto simp: trailing_comma_seen_def is_comment_def is_close_def)
    with True T show ?thesis
      by (simp add: take_token_simps blank_blank_set blanked_snoc [OF T(1)] Un_commute)
  next
    case False
    show ?thesis
    proof (cases "trailing_comma_seen (tk_kind t) st")
      case None
      with False T show ?thesis by (simp add: take_token_simps blanked_snoc [OF T(1)])
    next
      case (Some c)
      from trailing_comma_seen_token [OF Some T(1)] T(3) have c: "token_ok source c" "tk_kind c = Comma"
        by (auto simp: list_all_iff)
      then have "tk_start c < length source" "\<not> is_newline (source ! tk_start c)" by (simp_all add: token_ok_def)
      then have "\<not> is_newline (sc_projection st ! tk_start c)"
        using projects_blank_set [OF p, of "blanked ?T"] T(2) by (auto simp: projects_def)
      then have "(sc_projection st)[tk_start c := CHR '' ''] = blank_set {tk_start c} (sc_projection st)"
        by (intro update_blank_set)
      with Some False T show ?thesis
        by (simp add: take_token_simps blanked_snoc [OF T(1)] Un_commute)
    qed
  qed
qed

lemma scan_step_inv:
  assumes inv: "scan_inv source p st" and p: "projects source p"
    and step: "scan_step source True st = Inr st'" and offset: "sc_offset st < length source"
  shows "scan_inv source p st'"
proof (cases "scan_token source (sc_offset st)")
  case (Inl e)
  with step show ?thesis by (simp add: scan_step_def)
next
  case (Inr found)
  show ?thesis
  proof (cases found)
    case None
    with Inr have "is_space (source ! sc_offset st)"
      by (auto simp: scan_token_def Let_def split: if_splits option.splits)
    moreover have "st' = st\<lparr>sc_offset := Suc (sc_offset st)\<rparr>" using step Inr None by (simp add: scan_step_def)
    ultimately show ?thesis
      using inv offset by (auto simp: scan_inv_def history_of_def list_all_iff less_Suc_eq)
  next
    case (Some t)
    with Inr scan_token_ok [of source "sc_offset st" t] offset have t: "token_ok source t" "tk_start t = sc_offset st"
      by simp_all
    have st': "st' = take_token True t st" using step Inr Some by (simp add: scan_step_def)
    have "covered (sc_tokens st @ [t]) i" if "i < tk_end t" "\<not> is_space (source ! i)" for i
      using that inv t by (cases "i < sc_offset st") (auto simp: scan_inv_def covered_def)
    moreover have "in_order (sc_tokens st @ [t])"
      using inv t by (auto simp: scan_inv_def in_order_def sorted_wrt_append list_all_iff)
    moreover have "list_all (\<lambda>u. token_ok source u \<and> tk_end u \<le> tk_end t) (sc_tokens st @ [t])"
      using inv t by (auto simp: scan_inv_def list_all_iff token_ok_def)
    moreover note projection_take_token [OF inv p, of t] history_take_token [of st t]
    ultimately show ?thesis
      using inv t unfolding scan_inv_def st' take_token_simps(1,2) by (auto simp: token_ok_def)
  qed
qed

lemma scan_loop_inv:
  "scan_loop source True st = Inr st' \<Longrightarrow> scan_inv source p st \<Longrightarrow> projects source p
    \<Longrightarrow> scan_inv source p st' \<and> sc_offset st' = length source"
proof (induction "length source - sc_offset st" arbitrary: st rule: less_induct)
  case less
  show ?case
  proof (cases "sc_offset st < length source")
    case True
    with less(2) obtain st1 where st1: "scan_step source True st = Inr st1" "scan_loop source True st1 = Inr st'"
      by (subst (asm) scan_loop.simps) auto
    have "length source - sc_offset st1 < length source - sc_offset st"
      using scan_step_progress [OF st1(1) True] by linarith
    from less(1) [OF this st1(2) scan_step_inv [OF less(3,4) st1(1) True] less(4)] show ?thesis .
  next
    case False
    with less show ?thesis by (subst (asm) scan_loop.simps) (auto simp: scan_inv_def)
  qed
qed

lemma scan_start_inv: "scan_inv source p (scan_start p)"
  by (simp add: scan_inv_def scan_start_def in_order_def history_of_def blanked_def trailing_at_def)

subsection \<open>Scanning without collecting tokens\<close>

definition forget :: "scan_state \<Rightarrow> scan_state" where
  "forget st = st\<lparr>sc_tokens := []\<rparr>"

lemma forget_simps [simp]: "sc_offset (forget st) = sc_offset st" "sc_projection (forget st) = sc_projection st"
  by (simp_all add: forget_def)

lemma scan_step_forget:
  "scan_step source False (forget st) = res_bind (scan_step source True st) (\<lambda>st'. Inr (forget st'))"
  by (cases "scan_token source (sc_offset st)")
    (auto simp: scan_step_def take_token_def emit_token_def trailing_comma_seen_def forget_def Let_def split: option.splits)

lemma scan_loop_forget:
  "scan_loop source False (forget st) = res_bind (scan_loop source True st) (\<lambda>st'. Inr (forget st'))"
proof (induction "length source - sc_offset st" arbitrary: st rule: less_induct)
  case less
  show ?case
  proof (cases "sc_offset st < length source")
    case True
    show ?thesis
    proof (cases "scan_step source True st")
      case (Inl e)
      with True show ?thesis
        by (simp add: scan_loop.simps [of source _ st] scan_loop.simps [of source _ "forget st"] scan_step_forget)
    next
      case (Inr st1)
      have "length source - sc_offset st1 < length source - sc_offset st"
        using scan_step_progress [OF Inr True] True by linarith
      from less [OF this] Inr True show ?thesis
        by (simp add: scan_loop.simps [of source _ st] scan_loop.simps [of source _ "forget st"] scan_step_forget)
    qed
  next
    case False
    then show ?thesis
      by (simp add: scan_loop.simps [of source _ st] scan_loop.simps [of source _ "forget st"])
  qed
qed

text \<open>
  The tokens depend on the source alone: two scans of a source differ in the projection only.
\<close>

definition same_scan :: "scan_state \<Rightarrow> scan_state \<Rightarrow> bool" where
  "same_scan st u \<longleftrightarrow> sc_offset u = sc_offset st \<and> sc_tokens u = sc_tokens st \<and> sc_before u = sc_before st
     \<and> sc_last u = sc_last st"

lemma same_scan_step:
  assumes "same_scan st u" and "scan_step source True st = Inr st'"
  shows "\<exists>u'. scan_step source True u = Inr u' \<and> same_scan st' u'"
  using assms
  by (cases "scan_token source (sc_offset st)")
    (auto simp: same_scan_def scan_step_def take_token_simps split: option.splits)

lemma same_scan_loop:
  "scan_loop source True st = Inr st' \<Longrightarrow> same_scan st u \<Longrightarrow> \<exists>u'. scan_loop source True u = Inr u' \<and> same_scan st' u'"
proof (induction "length source - sc_offset st" arbitrary: st u rule: less_induct)
  case less
  from less(3) have offset: "sc_offset u = sc_offset st" by (auto simp: same_scan_def)
  show ?case
  proof (cases "sc_offset st < length source")
    case True
    with less(2) obtain st1 where st1: "scan_step source True st = Inr st1" "scan_loop source True st1 = Inr st'"
      by (subst (asm) scan_loop.simps) auto
    have "length source - sc_offset st1 < length source - sc_offset st"
      using scan_step_progress [OF st1(1) True] True by linarith
    moreover obtain u1 where u1: "scan_step source True u = Inr u1" "same_scan st1 u1"
      using same_scan_step [OF less(3) st1(1)] by blast
    ultimately obtain u' where "scan_loop source True u1 = Inr u'" "same_scan st' u'"
      using less(1) [OF _ st1(2)] by blast
    with u1(1) True offset show ?thesis
      by (intro exI [of _ u']) (simp add: scan_loop.simps [of source True u])
  next
    case False
    with less(2,3) offset show ?thesis by (simp add: scan_loop.simps [of source True])
  qed
qed

text \<open>Both passes of \<open>jsonc_read\<close> together: the second leaves the projection of the first.\<close>

lemma scan_twice:
  assumes "scan source source False = Inr (T0, p1)" and "scan source p1 True = Inr (T, p2)"
  shows "p1 = blank_set (blanked T) source \<and> p2 = p1 \<and> list_all (token_ok source) T \<and> in_order T
    \<and> (\<forall>i < length source. \<not> is_space (source ! i) \<longrightarrow> covered T i)"
proof -
  have start: "forget (scan_start source) = scan_start source" by (simp add: forget_def scan_start_def)
  from assms(1) obtain st where st: "scan_loop source True (scan_start source) = Inr st" "p1 = sc_projection st"
    using scan_loop_forget [of source "scan_start source"] by (auto simp: scan_def start)
  from assms(2) obtain u where u: "scan_loop source True (scan_start p1) = Inr u" "T = sc_tokens u" "p2 = sc_projection u"
    by (auto simp: scan_def)
  have "same_scan (scan_start source) (scan_start p1)" by (simp add: same_scan_def scan_start_def)
  from same_scan_loop [OF st(1) this] u(1) have T: "sc_tokens st = T" by (auto simp: same_scan_def u(2))
  from scan_loop_inv [OF st(1) scan_start_inv projects_self] have inv: "scan_inv source source st" "sc_offset st = length source"
    by simp_all
  then have p1: "p1 = blank_set (blanked T) source" by (simp add: scan_inv_def T st(2))
  then have "projects source p1" by (simp add: projects_blank_set)
  from scan_loop_inv [OF u(1) scan_start_inv this] have "p2 = blank_set (blanked T) p1"
    by (simp add: scan_inv_def u(2,3))
  with p1 inv show ?thesis by (auto simp: scan_inv_def T list_all_iff)
qed

subsection \<open>The marking pass\<close>

definition mark_from :: "jsonc_token list \<Rightarrow> nat \<Rightarrow> mark_state" where
  "mark_from T k = fold (mark_step T) (rev [k..<length T])
     \<lparr> mk_trailing = [], mk_next_kind = None, mk_candidate = None \<rparr>"

lemma mark_from_step: "k < length T \<Longrightarrow> mark_from T k = mark_step T k (mark_from T (Suc k))"
  by (simp add: mark_from_def upt_conv_Cons)

definition mark_inv :: "jsonc_token list \<Rightarrow> nat \<Rightarrow> mark_state \<Rightarrow> bool" where
  "mark_inv T k mk \<longleftrightarrow> mk_next_kind mk = first_kind (drop k T)
     \<and> (\<forall>i. mk_candidate mk = Some i \<longleftrightarrow> k \<le> i \<and> i < length T \<and> tk_kind (T ! i) = Comma
          \<and> is_some_and (first_kind (drop (Suc i) T)) is_close \<and> first_kind (drop k (take i T)) = None)
     \<and> (\<forall>i. i \<in> set (mk_trailing mk) \<longleftrightarrow> k \<le> i \<and> i < length T \<and> tk_kind (T ! i) = Comma
          \<and> is_some_and (first_kind (drop (Suc i) T)) is_close
          \<and> is_some_and (first_kind (rev (drop k (take i T)))) ends_value)"

lemma drop_take_step: "k < i \<Longrightarrow> i \<le> length T \<Longrightarrow> drop k (take i T) = T ! k # drop (Suc k) (take i T)"
  by (simp add: Cons_nth_drop_Suc [symmetric])

lemma first_kind_rev_None: "first_kind (rev xs) = None \<longleftrightarrow> first_kind xs = None"
  by (simp add: first_kind_None)

lemma first_kind_rev_step:
  "k < i \<Longrightarrow> i \<le> length T \<Longrightarrow> first_kind (rev (drop k (take i T)))
     = (case first_kind (rev (drop (Suc k) (take i T))) of Some x \<Rightarrow> Some x
        | None \<Rightarrow> if is_comment (tk_kind (T ! k)) then None else Some (tk_kind (T ! k)))"
  by (simp add: drop_take_step first_kind_append split: option.splits)

lemma mark_step_inv:
  assumes "mark_inv T (Suc k) mk" and "k < length T"
  shows "mark_inv T k (mark_step T k mk)"
proof (cases "is_comment (tk_kind (T ! k))")
  case True
  then have here: "tk_kind (T ! k) \<noteq> Comma" by (auto simp: is_comment_def)
  have le: "k \<le> i \<and> i < length T \<and> tk_kind (T ! i) = Comma \<longleftrightarrow> Suc k \<le> i \<and> i < length T \<and> tk_kind (T ! i) = Comma" for i
    using here by (cases "i = k") auto
  have same: "first_kind (drop k (take i T)) = first_kind (drop (Suc k) (take i T))"
    "first_kind (rev (drop k (take i T))) = first_kind (rev (drop (Suc k) (take i T)))" if "Suc k \<le> i" "i < length T" for i
    using that True by (simp_all add: drop_take_step first_kind_append split: option.splits)
  have "first_kind (drop k T) = first_kind (drop (Suc k) T)"
    using True assms(2) by (simp add: Cons_nth_drop_Suc [symmetric])
  moreover have "mark_step T k mk = mk" using True by (simp add: mark_step_def)
  ultimately show ?thesis
    using assms(1) le same unfolding mark_inv_def by (metis (no_types))
next
  case False
  let ?k = "tk_kind (T ! k)"
  have mk: "mk_next_kind mk = first_kind (drop (Suc k) T)"
    "\<And>i. mk_candidate mk = Some i \<longleftrightarrow> Suc k \<le> i \<and> i < length T \<and> tk_kind (T ! i) = Comma
          \<and> is_some_and (first_kind (drop (Suc i) T)) is_close \<and> first_kind (drop (Suc k) (take i T)) = None"
    "\<And>i. i \<in> set (mk_trailing mk) \<longleftrightarrow> Suc k \<le> i \<and> i < length T \<and> tk_kind (T ! i) = Comma
          \<and> is_some_and (first_kind (drop (Suc i) T)) is_close
          \<and> is_some_and (first_kind (rev (drop (Suc k) (take i T)))) ends_value"
    using assms(1) by (simp_all add: mark_inv_def)
  have "first_kind (drop k T) = Some ?k"
    using False assms(2) by (simp add: Cons_nth_drop_Suc [symmetric])
  moreover have "(if ?k = Comma \<and> is_some_and (mk_next_kind mk) is_close then Some k else None) = Some i
    \<longleftrightarrow> k \<le> i \<and> i < length T \<and> tk_kind (T ! i) = Comma \<and> is_some_and (first_kind (drop (Suc i) T)) is_close
      \<and> first_kind (drop k (take i T)) = None" for i
  proof (cases "i = k")
    case True
    then show ?thesis using assms(2) by (simp add: mk(1))
  next
    case False
    then show ?thesis using \<open>\<not> is_comment ?k\<close> by (auto simp: drop_take_step)
  qed
  moreover have "i \<in> set (case mk_candidate mk of
        Some comma \<Rightarrow> if ends_value ?k then mk_trailing mk @ [comma] else mk_trailing mk
      | None \<Rightarrow> mk_trailing mk)
    \<longleftrightarrow> k \<le> i \<and> i < length T \<and> tk_kind (T ! i) = Comma \<and> is_some_and (first_kind (drop (Suc i) T)) is_close
      \<and> is_some_and (first_kind (rev (drop k (take i T)))) ends_value" (is "?in i \<longleftrightarrow> ?at i") for i
  proof -
    have "?in i \<longleftrightarrow> i \<in> set (mk_trailing mk) \<or> mk_candidate mk = Some i \<and> ends_value ?k"
      by (auto split: option.splits)
    also have "\<dots> \<longleftrightarrow> ?at i"
    proof (cases "k < i \<and> i < length T")
      case True
      then have "first_kind (rev (drop k (take i T))) = (case first_kind (rev (drop (Suc k) (take i T))) of
          Some x \<Rightarrow> Some x | None \<Rightarrow> Some ?k)"
        using \<open>\<not> is_comment ?k\<close> by (simp add: first_kind_rev_step)
      moreover have "first_kind (drop (Suc k) (take i T)) = None \<longleftrightarrow> first_kind (rev (drop (Suc k) (take i T))) = None"
        by (simp only: first_kind_rev_None)
      ultimately show ?thesis
        using True unfolding mk(2,3) by (cases "first_kind (rev (drop (Suc k) (take i T)))") auto
    next
      case False
      then show ?thesis unfolding mk(2,3) by auto
    qed
    finally show ?thesis .
  qed
  ultimately show ?thesis
    using False by (simp add: mark_inv_def mark_step_def Let_def)
qed

lemma mark_from_inv: "k \<le> length T \<Longrightarrow> mark_inv T k (mark_from T k)"
proof (induction k rule: inc_induct)
  case base
  show ?case by (auto simp: mark_inv_def mark_from_def)
next
  case (step k)
  then show ?case using mark_step_inv mark_from_step by simp
qed

lemma set_trailing_indices: "i \<in> set (trailing_indices T) \<longleftrightarrow> trailing_at T i"
  using mark_from_inv [of 0 T]
  by (auto simp: mark_inv_def mark_from_def trailing_indices_def trailing_at_def)

definition mark_kind :: "jsonc_token list \<Rightarrow> nat set \<Rightarrow> jsonc_token list" where
  "mark_kind T I = map (\<lambda>i. if i \<in> I then (T ! i)\<lparr>tk_kind := TrailingComma\<rparr> else T ! i) [0..<length T]"

lemma mark_kind_simps [simp]:
  "length (mark_kind T I) = length T"
  "i < length T \<Longrightarrow> mark_kind T I ! i = (if i \<in> I then (T ! i)\<lparr>tk_kind := TrailingComma\<rparr> else T ! i)"
  by (simp_all add: mark_kind_def)

lemma fold_mark_comma:
  assumes "\<forall>i \<in> set is. i < length T" and "\<forall>i < length T. i \<in> set is \<longrightarrow> (tk_start (T ! i) < length p \<longrightarrow> p ! tk_start (T ! i) = CHR '' '')"
  shows "fold mark_comma is (mark_kind T I, p) = (mark_kind T (I \<union> set is), p)"
  using assms
proof (induction "is" arbitrary: I)
  case (Cons i "is")
  have "(mark_kind T I)[i := (mark_kind T I ! i)\<lparr>tk_kind := TrailingComma\<rparr>] = mark_kind T (insert i I)"
    using Cons(2) by (intro nth_equalityI) (auto simp: nth_list_update)
  moreover have "p[tk_start (mark_kind T I ! i) := CHR '' ''] = p"
    using Cons(2,3) by (cases "tk_start (T ! i) < length p") (auto simp: list_update_same_conv list_update_beyond)
  ultimately have "mark_comma i (mark_kind T I, p) = (mark_kind T (insert i I), p)"
    using Cons(2) by (simp add: mark_comma_def)
  with Cons show ?case by simp
qed simp

lemma mark_trailing_commas_exact:
  assumes "list_all (token_ok source) T" and p: "p = blank_set (blanked T) source"
  shows "mark_trailing_commas T p = (mark_kind T {i. trailing_at T i}, p)"
proof -
  have "p ! tk_start (T ! i) = CHR '' ''" if "trailing_at T i" for i
  proof -
    from that have i: "i < length T" "tk_kind (T ! i) = Comma" by (simp_all add: trailing_at_def)
    with assms(1) have "source ! tk_start (T ! i) = CHR '',''" "tk_start (T ! i) < length source"
      by (auto simp: list_all_length token_ok_def)
    moreover have "tk_start (T ! i) \<in> blanked T" using that by (auto simp: blanked_def)
    ultimately show ?thesis by (simp add: p nth_blank_set)
  qed
  then have "fold mark_comma (trailing_indices T) (mark_kind T {}, p) = (mark_kind T ({} \<union> set (trailing_indices T)), p)"
    by (intro fold_mark_comma) (auto simp: set_trailing_indices trailing_at_def)
  moreover have "mark_kind T {} = T" by (rule nth_equalityI) simp_all
  moreover have "set (trailing_indices T) = {i. trailing_at T i}" by (auto simp: set_trailing_indices)
  ultimately show ?thesis by (simp add: mark_trailing_commas_def)
qed

definition blank_kind :: "jsonc_token_kind \<Rightarrow> bool" where
  "blank_kind k \<longleftrightarrow> k \<in> {LineComment, BlockComment, TrailingComma}"

lemma blanked_marked:
  assumes "list_all (token_ok source) T"
  shows "j \<in> blanked T \<longleftrightarrow>
    (\<exists>t \<in> set (mark_kind T {i. trailing_at T i}). blank_kind (tk_kind t) \<and> tk_start t \<le> j \<and> j < tk_end t)"
    (is "_ \<longleftrightarrow> (\<exists>t \<in> set ?M. ?hit t)")
proof
  assume "j \<in> blanked T"
  then consider i where "i < length T" "is_comment (tk_kind (T ! i))" "tk_start (T ! i) \<le> j" "j < tk_end (T ! i)"
    | i where "trailing_at T i" "j = tk_start (T ! i)"
    by (auto simp: blanked_def in_set_conv_nth)
  then show "\<exists>t \<in> set ?M. ?hit t"
  proof cases
    case (1 i)
    then have "\<not> trailing_at T i" by (auto simp: trailing_at_def is_comment_def)
    with 1 have "?hit (?M ! i)" by (auto simp: blank_kind_def is_comment_def)
    moreover have "?M ! i \<in> set ?M" using 1 by (intro nth_mem) simp
    ultimately show ?thesis by (rule bexI)
  next
    case (2 i)
    then have "i < length T" "tk_kind (T ! i) = Comma" by (simp_all add: trailing_at_def)
    with 2 assms have "?hit (?M ! i)" by (auto simp: list_all_length token_ok_def blank_kind_def)
    moreover have "?M ! i \<in> set ?M" using \<open>i < length T\<close> by (intro nth_mem) simp
    ultimately show ?thesis by (rule bexI)
  qed
next
  assume "\<exists>t \<in> set ?M. ?hit t"
  then obtain i where i: "i < length T" "?hit (?M ! i)" by (auto simp: in_set_conv_nth)
  show "j \<in> blanked T"
  proof (cases "trailing_at T i")
    case True
    then have "tk_kind (T ! i) = Comma" by (simp add: trailing_at_def)
    with True i assms have "j = tk_start (T ! i)" by (auto simp: list_all_length token_ok_def)
    with True show ?thesis by (auto simp: blanked_def)
  next
    case False
    with i assms have "is_comment (tk_kind (T ! i))"
      by (auto simp: list_all_length token_ok_def blank_kind_def is_comment_def)
    with False i show ?thesis by (auto simp: blanked_def intro!: bexI [of _ "T ! i"])
  qed
qed

text \<open>What a document that was read consists of.\<close>

lemma jsonc_read_parts:
  assumes "jsonc_read ds from_value reader lim = Some (Inr doc)"
  shows "\<exists>T. jd_tokens doc = mark_kind T {i. trailing_at T i}
    \<and> jd_projection doc = blank_set (blanked T) (jd_source doc) \<and> list_all (token_ok (jd_source doc)) T \<and> in_order T
    \<and> (\<forall>i < length (jd_source doc). \<not> is_space (jd_source doc ! i) \<longrightarrow> covered T i)
    \<and> (\<exists>x. decode ds from_value (Inr (jd_projection doc)) lim = Some (Inr x))"
proof -
  from assms obtain bytes where read: "read_bounded reader (lm_max_bytes lim) = Inr bytes"
    by (auto simp: jsonc_read_def fuel_bind_Inr_iff)
  moreover from assms read have "from_utf8 bytes = Inr ()"
    by (cases "from_utf8 bytes") (auto simp: jsonc_read_def split: prod.splits)
  ultimately obtain T0 p1 T p2 x where steps: "scan bytes bytes False = Inr (T0, p1)"
    "decode ds from_value (Inr p1) lim = Some (Inr x)" "scan bytes p1 True = Inr (T, p2)"
    and doc: "doc = \<lparr> jd_source = bytes, jd_projection = snd (mark_trailing_commas T p2),
        jd_tokens = fst (mark_trailing_commas T p2), jd_limits = lim \<rparr>"
    using assms by (auto simp: jsonc_read_def fuel_bind_Inr_iff case_prod_beta)
  note scanned = scan_twice [OF steps(1,3)]
  then have "mark_trailing_commas T p2 = (mark_kind T {i. trailing_at T i}, p1)"
    using mark_trailing_commas_exact [of bytes T p1] by simp
  with doc scanned steps(2) show ?thesis by (intro exI [of _ T]) auto
qed

subsection \<open>Positions\<close>

lemma location_newlines:
  assumes "length p = length q" and "\<forall>i < length q. (p ! i = CHR 0x0A) = (q ! i = CHR 0x0A)"
  shows "location p o' = location q o'"
proof -
  have "foldl location_step lc xs = foldl location_step lc ys"
    if "list_all2 (\<lambda>a b. (a = CHR 0x0A) = (b = CHR 0x0A)) xs ys" for lc xs ys
    using that by (induction xs ys arbitrary: lc rule: list_all2_induct) (auto simp: location_step_def)
  moreover have "list_all2 (\<lambda>a b. (a = CHR 0x0A) = (b = CHR 0x0A)) (take n p) (take n q)" for n
    using assms by (auto simp: list_all2_conv_all_nth)
  ultimately show ?thesis using assms(1) by (simp add: location_def)
qed

lemma mark_kind_in_order: "in_order T \<Longrightarrow> in_order (mark_kind T I)"
  by (auto simp: in_order_def sorted_wrt_iff_nth_less)

lemma mark_kind_spans: "map (\<lambda>t. (tk_start t, tk_end t)) (mark_kind T I) = map (\<lambda>t. (tk_start t, tk_end t)) T"
  by (rule nth_equalityI) auto

lemma covered_spans: "covered T i \<longleftrightarrow> (\<exists>(a, b) \<in> set (map (\<lambda>t. (tk_start t, tk_end t)) T). a \<le> i \<and> i < b)"
  by (auto simp: covered_def)

text \<open>An array with a trailing comma, and the document it is read to.\<close>

definition sample_limits :: limits where
  "sample_limits = \<lparr> lm_max_bytes = 100, lm_max_depth = 8, lm_max_members = 8 \<rparr>"

definition sample_jsonc :: jsonc_document where
  "sample_jsonc = \<lparr> jd_source = ''[1,]'', jd_projection = ''[1 ]'',
     jd_tokens = [\<lparr> tk_kind = ArrayStart, tk_start = 0, tk_end = 1 \<rparr>, \<lparr> tk_kind = NumberToken, tk_start = 1, tk_end = 2 \<rparr>,
       \<lparr> tk_kind = TrailingComma, tk_start = 2, tk_end = 3 \<rparr>, \<lparr> tk_kind = ArrayEnd, tk_start = 3, tk_end = 4 \<rparr>],
     jd_limits = sample_limits \<rparr>"

lemma sample_projection_valid: "\<exists>facts. validate_document plain_string ''[1 ]'' sample_limits = Some (Inr facts)"
proof -
  have "number_token ''1''"
    unfolding number_token_def
    by (intro exI [of _ "[]"] exI [of _ "''1''"])
      (simp add: sign_part_def whole_part_def fraction_part_def exponent_part_def all_digits_def is_ascii_digit_def
        number_in_range_def parse_u64_def nat_of_digits_def)
  then have "json_value plain_string 8 0 1 ''[1 ]''"
    using json_array [of 0 8 plain_string 1 "''1 ''"] json_last_element [of "[]" plain_string 8 0 0 "''1''" "'' ''"]
      json_number [of 1 8 "''1''" plain_string] by (simp add: is_space_def)
  then have "json_document plain_string sample_limits ''[1 ]''"
    unfolding json_document_def
    by (intro exI [of _ "[]"] exI [of _ "''[1 ]''"] exI [of _ 1]) (simp add: sample_limits_def)
  moreover have "from_utf8 ''[1 ]'' = Inr ()"
    by (simp add: from_utf8_def valid_up_to.simps utf8_width_def)
  ultimately show ?thesis
    using validate_document_iff [of "''[1 ]''" plain_string sample_limits] by (simp add: fits_def)
qed

lemmas scan_eval = scan_def scan_loop.simps scan_start_def scan_step_def scan_token_def take_token_def emit_token_def
  punctuation_def is_space_def is_comment_def is_close_def ends_value_def trailing_comma_seen_def scan_atom.simps atom_stop_def
  is_ascii_digit_def peek_def Let_def

lemma sample_scan:
  "scan ''[1,]'' ''[1,]'' False = Inr ([], ''[1 ]'')"
  "scan ''[1,]'' ''[1 ]'' True = Inr ([\<lparr> tk_kind = ArrayStart, tk_start = 0, tk_end = 1 \<rparr>,
     \<lparr> tk_kind = NumberToken, tk_start = 1, tk_end = 2 \<rparr>, \<lparr> tk_kind = Comma, tk_start = 2, tk_end = 3 \<rparr>,
     \<lparr> tk_kind = ArrayEnd, tk_start = 3, tk_end = 4 \<rparr>], ''[1 ]'')"
  by (simp_all add: scan_eval)

lemma sample_jsonc_read: "jsonc_read plain_string (\<lambda>_. Inr JNull) (Inr ''[1,]'') sample_limits = Some (Inr sample_jsonc)"
proof -
  obtain facts where "validate_document plain_string ''[1 ]'' sample_limits = Some (Inr facts)"
    using sample_projection_valid by blast
  then have "decode plain_string (\<lambda>_. Inr JNull) (Inr ''[1 ]'') sample_limits = Some (Inr JNull)"
    by (simp add: decode_def read_bounded_def sample_limits_def u64_saturating_add_def typed_def)
  moreover have "from_utf8 ''[1,]'' = Inr ()"
    by (simp add: from_utf8_def valid_up_to.simps utf8_width_def)
  moreover have "read_bounded (Inr ''[1,]'') (lm_max_bytes sample_limits) = Inr ''[1,]''"
    by (simp add: read_bounded_def sample_limits_def u64_saturating_add_def)
  ultimately show ?thesis
    by (simp add: jsonc_read_def sample_scan sample_jsonc_def mark_trailing_commas_def trailing_indices_def mark_step_def
        mark_comma_def is_comment_def is_close_def ends_value_def Let_def upt_rec)
qed

text \<open>
  C31: The projection of a document that was read is its source with exactly the comments and the
  trailing commas blanked: a byte is a space in it when it lies in a token marked as a comment or
  a trailing comma and is no line break, and the byte of the source otherwise. So the commas the
  scanner blanks while it streams are those the backward pass over the tokens marks, and a line
  and column of the projection, as in an error of the decoder, is a line and column of the source.
\<close>

theorem jsonc_projection_exact:
  assumes "jsonc_read decode_string from_value reader lim = Some (Inr doc)"
  shows "length (jd_projection doc) = length (jd_source doc)
    \<and> (\<forall>i < length (jd_source doc). jd_projection doc ! i =
         (if (\<exists>t \<in> set (jd_tokens doc). tk_kind t \<in> {LineComment, BlockComment, TrailingComma}
                \<and> tk_start t \<le> i \<and> i < tk_end t)
             \<and> \<not> is_newline (jd_source doc ! i)
          then CHR '' '' else jd_source doc ! i))
    \<and> (\<forall>offset. location (jd_projection doc) offset = location (jd_source doc) offset)"
proof -
  obtain T where T: "jd_tokens doc = mark_kind T {i. trailing_at T i}" "list_all (token_ok (jd_source doc)) T"
    and p: "jd_projection doc = blank_set (blanked T) (jd_source doc)"
    using jsonc_read_parts [OF assms] by blast
  have "location (jd_projection doc) offset = location (jd_source doc) offset" for offset
    by (rule location_newlines) (auto simp: p nth_blank_set is_newline_def)
  then show ?thesis
    using blanked_marked [OF T(2)] by (simp add: T(1) p nth_blank_set blank_kind_def)
qed

theorem jsonc_projection_exact_witness:
  "jd_projection sample_jsonc ! 2 = CHR '' '' \<and> jd_source sample_jsonc ! 2 = CHR '',''
    \<and> location (jd_projection sample_jsonc) 3 = location (jd_source sample_jsonc) 3"
  using jsonc_projection_exact [OF sample_jsonc_read] by (simp add: sample_jsonc_def)

text \<open>
  The tokens of a document that was read are a partition of its text: each is a non-empty
  span within the source, they follow one another without overlap, and every byte between them
  is white space.
\<close>

theorem jsonc_tokens_partition:
  assumes "jsonc_read decode_string from_value reader lim = Some (Inr doc)"
  shows "list_all (\<lambda>t. tk_start t < tk_end t \<and> tk_end t \<le> length (jd_source doc)) (jd_tokens doc)
    \<and> sorted_wrt (\<lambda>s t. tk_end s \<le> tk_start t) (jd_tokens doc)
    \<and> (\<forall>i < length (jd_source doc). \<not> is_space (jd_source doc ! i)
         \<longrightarrow> (\<exists>t \<in> set (jd_tokens doc). tk_start t \<le> i \<and> i < tk_end t))"
proof -
  obtain T where T: "jd_tokens doc = mark_kind T {i. trailing_at T i}" "list_all (token_ok (jd_source doc)) T" "in_order T"
    and c: "\<forall>i < length (jd_source doc). \<not> is_space (jd_source doc ! i) \<longrightarrow> covered T i"
    using jsonc_read_parts [OF assms] by blast
  have "covered (jd_tokens doc) i \<longleftrightarrow> covered T i" for i
    by (simp only: covered_spans T(1) mark_kind_spans)
  moreover have "list_all (\<lambda>t. tk_start t < tk_end t \<and> tk_end t \<le> length (jd_source doc)) (jd_tokens doc)"
    using T(2) by (auto simp: list_all_length T(1) token_ok_def)
  ultimately show ?thesis
    using c mark_kind_in_order [OF T(3)] by (auto simp: T(1) in_order_def covered_def)
qed

theorem jsonc_tokens_partition_witness:
  "sorted_wrt (\<lambda>s t. tk_end s \<le> tk_start t) (jd_tokens sample_jsonc)
    \<and> (\<exists>t \<in> set (jd_tokens sample_jsonc). tk_start t \<le> 2 \<and> 2 < tk_end t)"
  using jsonc_tokens_partition [OF sample_jsonc_read] by (simp add: sample_jsonc_def is_space_def)

end
