(* ===== verification/Workflow_Reconciler.thy ===== *)
theory Workflow_Reconciler
  imports Prov_Prelude
begin

section \<open>Durable review work per head (crate workflow)\<close>

text \<open>
  \<open>workflow/src/reconciler.rs\<close>: the record of the review of one head of a pull request, its leased
  attempt, and its intents, the external effects (a verdict, a merge) that are persisted before
  they are issued and reconciled with the remote afterwards. The SQLite tables are lists: \<open>pr_work\<close>
  of a key and a stored body, \<open>pr_work_ids\<close> of the identities that were used. Every operation is one
  immediate transaction, so a run is a sequence of operations; whether a transaction commits is
  an argument of each, and one that does not leaves the tables as they were. A body is a record
  or text that does not decode. The key columns are the fields of the key, and the text of a key
  determines it.
\<close>

subsection \<open>Records\<close>

record work_key =
  wk_repository :: string
  wk_pr :: nat
  wk_head :: string
  wk_policy_digest :: string
  wk_lens :: string
  wk_base_digest :: string

datatype work_state =
    NeedsReview | Reviewing | Judged | AwaitingChecks | Landable | Landing | Landed | WorkFailed

datatype work_effect = VerdictEffect | MergeEffect

record work_intent =
  wi_id :: string
  wi_effect :: work_effect
  wi_receipt :: "string option"
  wi_retryable :: bool
  wi_generation :: nat

record work_attempt =
  wa_id :: string
  wa_lease_owner :: string
  wa_lease_until :: int

record work_history =
  wh_state :: work_state
  wh_attempt :: "work_attempt option"
  wh_verdict :: "string option"
  wh_intents :: "work_intent list"

record work_record =
  wr_schema_version :: nat
  wr_key :: work_key
  wr_state :: work_state
  wr_cancelled :: bool
  wr_attempt :: "work_attempt option"
  wr_verdict :: "string option"
  wr_intents :: "work_intent list"
  wr_history :: "work_history list"

datatype work_error = SqlError | JsonError | VersionError | MissingError | InvalidError | LeaseError | UncertainError

datatype observation = Unknown | Absent | Found string

subsection \<open>The tables\<close>

datatype work_body = Body work_record | BadBody

datatype id_kind = AttemptId | IntentId

record work_db =
  db_work :: "(work_key \<times> work_body) list"
  db_ids :: "(work_key \<times> id_kind \<times> string) list"

definition empty_db :: work_db where
  "empty_db = \<lparr> db_work = [], db_ids = [] \<rparr>"

definition decode_body :: "work_body \<Rightarrow> work_error + work_record" where
  "decode_body b = (case b of
       BadBody \<Rightarrow> Inl JsonError
     | Body r \<Rightarrow> if wr_schema_version r \<noteq> 1 then Inl VersionError else Inr r)"

definition get_from :: "work_db \<Rightarrow> work_key \<Rightarrow> work_error + work_record" where
  "get_from db key = (case map_of (db_work db) key of
       None \<Rightarrow> Inl MissingError
     | Some b \<Rightarrow> decode_body b)"

definition save :: "work_record \<Rightarrow> work_db \<Rightarrow> work_db" where
  "save r db = db\<lparr>db_work := map (\<lambda>(k, b). if k = wr_key r then (k, Body r) else (k, b)) (db_work db)\<rparr>"

definition same_pr :: "work_key \<Rightarrow> work_key \<Rightarrow> bool" where
  "same_pr k k' \<longleftrightarrow> wk_repository k = wk_repository k' \<and> wk_pr k = wk_pr k'"

definition bodies_of :: "(work_key \<Rightarrow> bool) \<Rightarrow> work_db \<Rightarrow> work_body list" where
  "bodies_of p db = map snd (filter (\<lambda>row. p (fst row)) (db_work db))"

fun decode_all :: "work_body list \<Rightarrow> work_error + work_record list" where
  "decode_all [] = Inr []"
| "decode_all (b # bs) = res_bind (decode_body b) (\<lambda>r. res_bind (decode_all bs) (\<lambda>rs. Inr (r # rs)))"

definition for_pull_request :: "work_db \<Rightarrow> string \<Rightarrow> nat \<Rightarrow> work_error + work_record list" where
  "for_pull_request db repository pr =
     decode_all (bodies_of (\<lambda>k. wk_repository k = repository \<and> wk_pr k = pr) db)"

definition insert_id :: "work_key \<Rightarrow> id_kind \<Rightarrow> string \<Rightarrow> work_db \<Rightarrow> work_db" where
  "insert_id key kind i db =
     (if (key, kind, i) \<in> set (db_ids db) then db else db\<lparr>db_ids := db_ids db @ [(key, kind, i)]\<rparr>)"

definition remember_history :: "work_key \<Rightarrow> work_history \<Rightarrow> work_db \<Rightarrow> work_db" where
  "remember_history key h db =
     fold (\<lambda>i. insert_id key IntentId (wi_id i)) (wh_intents h)
       (case wh_attempt h of None \<Rightarrow> db | Some a \<Rightarrow> insert_id key AttemptId (wa_id a) db)"

definition remember_ids :: "work_record \<Rightarrow> work_db \<Rightarrow> work_db" where
  "remember_ids r db = fold (remember_history (wr_key r)) (wr_history r) db"

definition used_id :: "work_db \<Rightarrow> work_key \<Rightarrow> id_kind \<Rightarrow> string \<Rightarrow> bool" where
  "used_id db key kind i \<longleftrightarrow> (key, kind, i) \<in> set (db_ids db)"

subsection \<open>Operations\<close>

text \<open>A transaction that commits, or fails in SQLite and rolls back.\<close>

definition transact :: "bool \<Rightarrow> work_db \<Rightarrow> (work_db \<Rightarrow> work_error + 'a \<times> work_db) \<Rightarrow> (work_error + 'a) \<times> work_db" where
  "transact commits db f =
     (if commits then (case f db of Inl e \<Rightarrow> (Inl e, db) | Inr (x, db') \<Rightarrow> (Inr x, db')) else (Inl SqlError, db))"

definition cancel :: "work_record \<Rightarrow> work_db \<Rightarrow> work_db" where
  "cancel r db = (if wr_cancelled r then db else save (r\<lparr>wr_cancelled := True\<rparr>) db)"

definition new_record :: "work_key \<Rightarrow> work_record" where
  "new_record key = \<lparr> wr_schema_version = 1, wr_key = key, wr_state = NeedsReview, wr_cancelled = False,
     wr_attempt = None, wr_verdict = None, wr_intents = [], wr_history = [] \<rparr>"

definition insert_or_ignore :: "work_record \<Rightarrow> work_db \<Rightarrow> work_db" where
  "insert_or_ignore r db =
     (if wr_key r \<in> fst ` set (db_work db) then db else db\<lparr>db_work := db_work db @ [(wr_key r, Body r)]\<rparr>)"

definition archived :: "work_record \<Rightarrow> work_record" where
  "archived r = r\<lparr>wr_history := wr_history r @ [\<lparr> wh_state = wr_state r, wh_attempt = wr_attempt r,
      wh_verdict = wr_verdict r, wh_intents = wr_intents r \<rparr>],
    wr_attempt := None, wr_verdict := None, wr_intents := []\<rparr>"

definition reopened :: "work_record \<Rightarrow> work_record" where
  "reopened r = r\<lparr>wr_history := filter (\<lambda>h. list_ex (\<lambda>i. wi_receipt i = None) (wh_intents h)) (wr_history r),
     wr_state := NeedsReview, wr_cancelled := False\<rparr>"

definition observe_head :: "bool \<Rightarrow> work_db \<Rightarrow> work_key \<Rightarrow> (work_error + work_record) \<times> work_db" where
  "observe_head commits db key = transact commits db (\<lambda>db.
     res_bind (decode_all (bodies_of (\<lambda>k. same_pr k key \<and> wk_head k \<noteq> wk_head key) db)) (\<lambda>olds.
     let db1 = insert_or_ignore (new_record key) (fold cancel olds db) in
     res_bind (get_from db1 key) (\<lambda>r.
     if wr_cancelled r then
       (let db2 = remember_ids (archived r) db1; r' = reopened (archived r) in Inr (r', save r' db2))
     else Inr (r, db1))))"

definition update :: "bool \<Rightarrow> work_db \<Rightarrow> work_key \<Rightarrow> (work_record \<Rightarrow> work_error + work_record) \<Rightarrow> (work_error + unit) \<times> work_db" where
  "update commits db key f = transact commits db (\<lambda>db.
     res_bind (get_from db key) (\<lambda>r. res_bind (f r) (\<lambda>r'. Inr ((), save r' db))))"

definition all_intents :: "work_record \<Rightarrow> work_intent list" where
  "all_intents r = wr_intents r @ concat (map wh_intents (wr_history r))"

definition uncertain :: "work_intent \<Rightarrow> bool" where
  "uncertain i \<longleftrightarrow> wi_receipt i = None \<and> \<not> wi_retryable i"

fun settled_bodies :: "work_body list \<Rightarrow> work_error + unit" where
  "settled_bodies [] = Inr ()"
| "settled_bodies (b # bs) = res_bind (decode_body b) (\<lambda>r.
     if list_ex uncertain (all_intents r) then Inl UncertainError else settled_bodies bs)"

definition begin_review :: "work_attempt \<Rightarrow> int \<Rightarrow> work_record \<Rightarrow> work_error + work_record" where
  "begin_review attempt now r =
     (if wr_cancelled r \<or> wr_state r \<noteq> NeedsReview \<or> wr_attempt r \<noteq> None
         \<or> list_ex (\<lambda>h. is_some_and (wh_attempt h) (\<lambda>a. wa_id a = wa_id attempt)) (wr_history r)
      then Inl InvalidError
      else if wa_lease_until attempt \<le> now \<or> wa_id attempt = [] \<or> wa_lease_owner attempt = [] then Inl LeaseError
      else Inr (r\<lparr>wr_attempt := Some attempt, wr_state := Reviewing\<rparr>))"

definition start :: "bool \<Rightarrow> work_db \<Rightarrow> work_key \<Rightarrow> work_attempt \<Rightarrow> int \<Rightarrow> (work_error + unit) \<times> work_db" where
  "start commits db key attempt now = transact commits db (\<lambda>db.
     res_bind (settled_bodies (bodies_of (\<lambda>k. same_pr k key) db)) (\<lambda>_.
     res_bind (get_from db key) (\<lambda>r.
     if used_id db key AttemptId (wa_id attempt) then Inl InvalidError
     else res_bind (begin_review attempt now r) (\<lambda>r'. Inr ((), save r' db)))))"

definition renew_lease :: "string \<Rightarrow> string \<Rightarrow> int \<Rightarrow> int \<Rightarrow> work_record \<Rightarrow> work_error + work_record" where
  "renew_lease i owner now until' r =
     (if wr_cancelled r then Inl InvalidError
      else case wr_attempt r of
          None \<Rightarrow> Inl MissingError
        | Some a \<Rightarrow>
            if wa_id a \<noteq> i \<or> owner = [] \<or> until' \<le> now \<or> (now < wa_lease_until a \<and> wa_lease_owner a \<noteq> owner)
            then Inl LeaseError
            else Inr (r\<lparr>wr_attempt := Some (a\<lparr>wa_lease_owner := owner, wa_lease_until := until'\<rparr>)\<rparr>))"

definition renew :: "bool \<Rightarrow> work_db \<Rightarrow> work_key \<Rightarrow> string \<Rightarrow> string \<Rightarrow> int \<Rightarrow> int \<Rightarrow> (work_error + unit) \<times> work_db" where
  "renew commits db key i owner now until' = update commits db key (renew_lease i owner now until')"

definition leased :: "work_record \<Rightarrow> string \<Rightarrow> string \<Rightarrow> int \<Rightarrow> work_error + unit" where
  "leased r i owner now =
     (if wr_cancelled r then Inl InvalidError
      else case wr_attempt r of
          Some a \<Rightarrow> if wa_id a = i \<and> wa_lease_owner a = owner \<and> now < wa_lease_until a then Inr () else Inl LeaseError
        | None \<Rightarrow> Inl LeaseError)"

definition give_verdict :: "string \<Rightarrow> string \<Rightarrow> int \<Rightarrow> string \<Rightarrow> work_record \<Rightarrow> work_error + work_record" where
  "give_verdict i owner now v r =
     res_bind (leased r i owner now) (\<lambda>_.
     if wr_state r \<noteq> Reviewing \<or> wr_verdict r \<noteq> None \<or> v = [] then Inl InvalidError
     else Inr (r\<lparr>wr_verdict := Some v, wr_state := Judged\<rparr>))"

definition verdict :: "bool \<Rightarrow> work_db \<Rightarrow> work_key \<Rightarrow> string \<Rightarrow> string \<Rightarrow> int \<Rightarrow> string \<Rightarrow> (work_error + unit) \<times> work_db" where
  "verdict commits db key i owner now v = update commits db key (give_verdict i owner now v)"

definition may_follow :: "work_state \<Rightarrow> work_state \<Rightarrow> bool" where
  "may_follow s next' \<longleftrightarrow> s = Judged \<and> next' = AwaitingChecks \<or> s = AwaitingChecks \<and> next' = Landable
     \<or> s \<in> {Reviewing, Judged, AwaitingChecks, Landable} \<and> next' = WorkFailed"

definition move_to :: "string \<Rightarrow> string \<Rightarrow> int \<Rightarrow> work_state \<Rightarrow> work_record \<Rightarrow> work_error + work_record" where
  "move_to i owner now next' r =
     res_bind (leased r i owner now) (\<lambda>_.
     if \<not> may_follow (wr_state r) next' then Inl InvalidError
     else if next' = AwaitingChecks
        \<and> \<not> list_ex (\<lambda>i. wi_effect i = VerdictEffect \<and> wi_receipt i \<noteq> None) (wr_intents r)
     then Inl UncertainError
     else Inr (r\<lparr>wr_state := next'\<rparr>))"

definition transition :: "bool \<Rightarrow> work_db \<Rightarrow> work_key \<Rightarrow> string \<Rightarrow> string \<Rightarrow> int \<Rightarrow> work_state \<Rightarrow> (work_error + unit) \<times> work_db" where
  "transition commits db key i owner now next' = update commits db key (move_to i owner now next')"

definition add_intent :: "string \<Rightarrow> string \<Rightarrow> int \<Rightarrow> string \<Rightarrow> work_effect \<Rightarrow> work_record \<Rightarrow> work_error + work_record" where
  "add_intent attempt owner now i effect r =
     res_bind (leased r attempt owner now) (\<lambda>_.
     let allowed = (case effect of VerdictEffect \<Rightarrow> wr_state r = Judged | MergeEffect \<Rightarrow> wr_state r = Landable) in
     if \<not> allowed \<or> i = [] \<or> list_ex (\<lambda>x. wi_effect x = effect \<or> wi_id x = i) (wr_intents r)
        \<or> list_ex (\<lambda>x. wi_id x = i) (concat (map wh_intents (wr_history r)))
     then Inl InvalidError
     else Inr (r\<lparr>wr_intents := wr_intents r @ [\<lparr> wi_id = i, wi_effect = effect, wi_receipt = None,
                     wi_retryable = False, wi_generation = 0 \<rparr>],
                 wr_state := (if effect = MergeEffect then Landing else wr_state r)\<rparr>))"

definition intent :: "bool \<Rightarrow> work_db \<Rightarrow> work_key \<Rightarrow> string \<Rightarrow> string \<Rightarrow> int \<Rightarrow> string \<Rightarrow> work_effect \<Rightarrow> (work_error + unit) \<times> work_db" where
  "intent commits db key attempt owner now i effect = transact commits db (\<lambda>db.
     if used_id db key IntentId i then Inl InvalidError
     else res_bind (get_from db key) (\<lambda>r.
          res_bind (add_intent attempt owner now i effect r) (\<lambda>r'. Inr ((), save r' db))))"

text \<open>
  \<open>reconcile\<close>: the first intent with the identity, among the current ones and then in the
  history, takes the observation; a receipt for a current merge lands the work.
\<close>

definition observe_intent :: "observation \<Rightarrow> work_intent \<Rightarrow> work_error + work_intent" where
  "observe_intent obs i =
     (if wi_receipt i \<noteq> None then Inr i
      else case obs of
          Unknown \<Rightarrow> Inr (i\<lparr>wi_retryable := False\<rparr>)
        | Absent \<Rightarrow> Inr (i\<lparr>wi_retryable := True\<rparr>)
        | Found receipt \<Rightarrow>
            if receipt \<noteq> [] then Inr (i\<lparr>wi_receipt := Some receipt, wi_retryable := False\<rparr>) else Inl InvalidError)"

definition has_intent :: "string \<Rightarrow> work_intent list \<Rightarrow> bool" where
  "has_intent i xs \<longleftrightarrow> list_ex (\<lambda>x. wi_id x = i) xs"

definition put_intent :: "work_intent \<Rightarrow> work_intent list \<Rightarrow> work_intent list" where
  "put_intent x xs = update_first (\<lambda>y. wi_id y = wi_id x) (\<lambda>_. x) xs"

definition replace_intent :: "work_intent \<Rightarrow> work_record \<Rightarrow> work_record" where
  "replace_intent x r =
     (if has_intent (wi_id x) (wr_intents r) then r\<lparr>wr_intents := put_intent x (wr_intents r)\<rparr>
      else r\<lparr>wr_history := update_first (\<lambda>h. has_intent (wi_id x) (wh_intents h))
               (\<lambda>h. h\<lparr>wh_intents := put_intent x (wh_intents h)\<rparr>) (wr_history r)\<rparr>)"

definition reconcile_record :: "string \<Rightarrow> nat \<Rightarrow> observation \<Rightarrow> work_record \<Rightarrow> work_error + work_record" where
  "reconcile_record i generation obs r = (case List.find (\<lambda>x. wi_id x = i) (all_intents r) of
       None \<Rightarrow> Inl MissingError
     | Some x \<Rightarrow>
         if wi_generation x \<noteq> generation then Inl UncertainError
         else res_bind (observe_intent obs x) (\<lambda>x'.
           let r' = replace_intent x' r in
           Inr (if wi_receipt x = None \<and> wi_receipt x' \<noteq> None \<and> has_intent i (wr_intents r) \<and> wi_effect x = MergeEffect
                then r'\<lparr>wr_state := Landed\<rparr> else r')))"

definition reconcile :: "bool \<Rightarrow> work_db \<Rightarrow> work_key \<Rightarrow> string \<Rightarrow> nat \<Rightarrow> observation \<Rightarrow> (work_error + unit) \<times> work_db" where
  "reconcile commits db key i generation obs = update commits db key (reconcile_record i generation obs)"

text \<open>\<open>reconcile_remote\<close>: the generation is read before the remote is asked.\<close>

definition reconcile_remote ::
  "(work_key \<Rightarrow> work_intent \<Rightarrow> observation) \<Rightarrow> bool \<Rightarrow> work_db \<Rightarrow> work_key \<Rightarrow> string \<Rightarrow> (work_error + unit) \<times> work_db" where
  "reconcile_remote observe commits db key i = (case get_from db key of
       Inl e \<Rightarrow> (Inl e, db)
     | Inr r \<Rightarrow> (case List.find (\<lambda>x. wi_id x = i) (all_intents r) of
           None \<Rightarrow> (Inl MissingError, db)
         | Some pending \<Rightarrow>
             if wi_receipt pending \<noteq> None then (Inr (), db)
             else reconcile commits db key i (wi_generation pending) (observe key pending)))"

definition retry_intent :: "string \<Rightarrow> string \<Rightarrow> int \<Rightarrow> string \<Rightarrow> work_record \<Rightarrow> work_error + work_record" where
  "retry_intent attempt owner now i r =
     res_bind (leased r attempt owner now) (\<lambda>_.
     if wr_state r = WorkFailed \<or> wr_state r = Landed then Inl InvalidError
     else case List.find (\<lambda>x. wi_id x = i) (wr_intents r) of
         None \<Rightarrow> Inl MissingError
       | Some x \<Rightarrow>
           if \<not> wi_retryable x \<or> wi_receipt x \<noteq> None then Inl UncertainError
           else res_bind (ok_or InvalidError (u64_checked_add (wi_generation x) 1)) (\<lambda>g.
             Inr (r\<lparr>wr_intents := put_intent (x\<lparr>wi_generation := g, wi_retryable := False\<rparr>) (wr_intents r)\<rparr>)))"

definition retry :: "bool \<Rightarrow> work_db \<Rightarrow> work_key \<Rightarrow> string \<Rightarrow> string \<Rightarrow> int \<Rightarrow> string \<Rightarrow> (work_error + unit) \<times> work_db" where
  "retry commits db key attempt owner now i = update commits db key (retry_intent attempt owner now i)"

subsection \<open>Runs\<close>

datatype work_op =
    ObserveHead work_key
  | Start work_key work_attempt int
  | Renew work_key string string int int
  | Verdict work_key string string int string
  | Transition work_key string string int work_state
  | Intend work_key string string int string work_effect
  | Reconcile work_key string nat observation
  | Retry work_key string string int string

definition run_op :: "bool \<Rightarrow> work_op \<Rightarrow> work_db \<Rightarrow> bool \<times> work_db" where
  "run_op commits op db = (case op of
       ObserveHead key \<Rightarrow> map_prod is_ok id (observe_head commits db key)
     | Start key attempt now \<Rightarrow> map_prod is_ok id (start commits db key attempt now)
     | Renew key i owner now until' \<Rightarrow> map_prod is_ok id (renew commits db key i owner now until')
     | Verdict key i owner now v \<Rightarrow> map_prod is_ok id (verdict commits db key i owner now v)
     | Transition key i owner now next' \<Rightarrow> map_prod is_ok id (transition commits db key i owner now next')
     | Intend key attempt owner now i effect \<Rightarrow> map_prod is_ok id (intent commits db key attempt owner now i effect)
     | Reconcile key i generation obs \<Rightarrow> map_prod is_ok id (reconcile commits db key i generation obs)
     | Retry key attempt owner now i \<Rightarrow> map_prod is_ok id (retry commits db key attempt owner now i))"

text \<open>A step emits the operation when it succeeded, so a run emits the operations that took effect.\<close>

definition work_step :: "work_db \<Rightarrow> bool \<times> work_op \<Rightarrow> work_db \<times> work_op list" where
  "work_step db ev = (case run_op (fst ev) (snd ev) db of (done', db') \<Rightarrow> (db', if done' then [snd ev] else []))"

subsection \<open>Well-formed records\<close>

definition posted :: "work_record \<Rightarrow> bool" where
  "posted r \<longleftrightarrow> (\<exists>i \<in> set (wr_intents r). wi_effect i = VerdictEffect \<and> wi_receipt i \<noteq> None)"

definition merges :: "work_record \<Rightarrow> work_intent list" where
  "merges r = filter (\<lambda>i. wi_effect i = MergeEffect) (wr_intents r)"

text \<open>What each state rests on.\<close>

definition justified :: "work_record \<Rightarrow> bool" where
  "justified r = (case wr_state r of
       NeedsReview \<Rightarrow> wr_attempt r = None \<and> wr_verdict r = None \<and> wr_intents r = []
     | Reviewing \<Rightarrow> wr_attempt r \<noteq> None \<and> wr_verdict r = None \<and> wr_intents r = []
     | Judged \<Rightarrow> wr_attempt r \<noteq> None \<and> wr_verdict r \<noteq> None \<and> merges r = []
     | AwaitingChecks \<Rightarrow> wr_attempt r \<noteq> None \<and> wr_verdict r \<noteq> None \<and> merges r = [] \<and> posted r
     | Landable \<Rightarrow> wr_attempt r \<noteq> None \<and> wr_verdict r \<noteq> None \<and> merges r = [] \<and> posted r
     | Landing \<Rightarrow> wr_verdict r \<noteq> None \<and> posted r \<and> (\<exists>i. merges r = [i] \<and> wi_receipt i = None)
     | Landed \<Rightarrow> wr_verdict r \<noteq> None \<and> posted r \<and> (\<exists>i. merges r = [i] \<and> wi_receipt i \<noteq> None)
     | WorkFailed \<Rightarrow> wr_attempt r \<noteq> None \<and> merges r = [])"

definition intent_ok :: "work_intent \<Rightarrow> bool" where
  "intent_ok i \<longleftrightarrow> wi_receipt i \<noteq> Some [] \<and> (wi_retryable i \<longrightarrow> wi_receipt i = None)"

definition work_ok :: "work_key \<Rightarrow> work_record \<Rightarrow> bool" where
  "work_ok key r \<longleftrightarrow> wr_schema_version r = 1 \<and> wr_key r = key \<and> distinct (map wi_id (all_intents r))
     \<and> list_all intent_ok (all_intents r) \<and> justified r"

lemma work_ok_new: "work_ok key (new_record key)"
  by (simp add: work_ok_def new_record_def all_intents_def justified_def)

lemma leased_Inr: "leased r i owner now = Inr u \<longleftrightarrow> \<not> wr_cancelled r
    \<and> (\<exists>a. wr_attempt r = Some a \<and> wa_id a = i \<and> wa_lease_owner a = owner \<and> now < wa_lease_until a)"
  by (auto simp: leased_def split: option.splits)

lemma work_ok_cong:
  "wr_schema_version r' = wr_schema_version r \<Longrightarrow> wr_key r' = wr_key r \<Longrightarrow> wr_intents r' = wr_intents r
    \<Longrightarrow> wr_history r' = wr_history r \<Longrightarrow> justified r' \<Longrightarrow> work_ok key r \<Longrightarrow> work_ok key r'"
  by (simp add: work_ok_def all_intents_def)

lemma justified_cancelled [simp]: "justified (r\<lparr>wr_cancelled := c\<rparr>) = justified r"
  by (simp add: justified_def posted_def merges_def cong: work_state.case_cong)

lemma all_intents_cancelled [simp]: "all_intents (r\<lparr>wr_cancelled := c\<rparr>) = all_intents r"
  by (simp add: all_intents_def)

lemma posted_simps [simp]:
  "posted (r\<lparr>wr_state := st\<rparr>) = posted r" "posted (r\<lparr>wr_attempt := a\<rparr>) = posted r" "posted (r\<lparr>wr_verdict := v\<rparr>) = posted r"
  "merges (r\<lparr>wr_state := st\<rparr>) = merges r" "merges (r\<lparr>wr_attempt := a\<rparr>) = merges r" "merges (r\<lparr>wr_verdict := v\<rparr>) = merges r"
  by (simp_all add: posted_def merges_def)

lemma merges_Nil: "wr_intents r = [] \<Longrightarrow> merges r = []"
  by (simp add: merges_def)

lemma posted_ex: "list_ex (\<lambda>i. wi_effect i = VerdictEffect \<and> wi_receipt i \<noteq> None) (wr_intents r) = posted r"
  by (simp add: posted_def list_ex_iff)

lemma justified_attempt: "wr_attempt r \<noteq> None \<Longrightarrow> justified (r\<lparr>wr_attempt := Some a\<rparr>) = justified r"
  by (cases "wr_state r") (simp_all add: justified_def)

lemma begin_review_Inr:
  "begin_review attempt now r = Inr r' \<longleftrightarrow> \<not> wr_cancelled r \<and> wr_state r = NeedsReview \<and> wr_attempt r = None
    \<and> \<not> list_ex (\<lambda>h. is_some_and (wh_attempt h) (\<lambda>a. wa_id a = wa_id attempt)) (wr_history r)
    \<and> now < wa_lease_until attempt \<and> wa_id attempt \<noteq> [] \<and> wa_lease_owner attempt \<noteq> []
    \<and> r' = r\<lparr>wr_attempt := Some attempt, wr_state := Reviewing\<rparr>"
  by (auto simp: begin_review_def)

lemma begin_review_ok: "begin_review attempt now r = Inr r' \<Longrightarrow> work_ok key r \<Longrightarrow> work_ok key r'"
  by (rule work_ok_cong [where r = r]) (auto simp: begin_review_Inr work_ok_def justified_def)

lemma renew_lease_Inr:
  "renew_lease i owner now until' r = Inr r' \<longleftrightarrow> \<not> wr_cancelled r \<and> (\<exists>a. wr_attempt r = Some a \<and> wa_id a = i \<and> owner \<noteq> []
    \<and> now < until' \<and> (wa_lease_until a \<le> now \<or> wa_lease_owner a = owner)
    \<and> r' = r\<lparr>wr_attempt := Some (a\<lparr>wa_lease_owner := owner, wa_lease_until := until'\<rparr>)\<rparr>)"
  by (auto simp: renew_lease_def split: option.splits)

lemma renew_lease_ok: "renew_lease i owner now until' r = Inr r' \<Longrightarrow> work_ok key r \<Longrightarrow> work_ok key r'"
  by (rule work_ok_cong [where r = r]) (auto simp: renew_lease_Inr work_ok_def justified_attempt)

lemma give_verdict_ok: "give_verdict i owner now v r = Inr r' \<Longrightarrow> work_ok key r \<Longrightarrow> work_ok key r'"
  by (rule work_ok_cong [where r = r])
    (auto simp: give_verdict_def leased_Inr work_ok_def justified_def merges_def split: if_splits)

lemma move_to_ok: "move_to i owner now next' r = Inr r' \<Longrightarrow> work_ok key r \<Longrightarrow> work_ok key r'"
  by (rule work_ok_cong [where r = r])
    (auto simp: move_to_def leased_Inr work_ok_def justified_def may_follow_def posted_ex [simplified] merges_Nil split: if_splits)

lemma add_intent_Inr:
  "add_intent attempt owner now i effect r = Inr r' \<longleftrightarrow> leased r attempt owner now = Inr ()
    \<and> (case effect of VerdictEffect \<Rightarrow> wr_state r = Judged | MergeEffect \<Rightarrow> wr_state r = Landable) \<and> i \<noteq> []
    \<and> effect \<notin> wi_effect ` set (wr_intents r) \<and> i \<notin> wi_id ` set (all_intents r)
    \<and> r' = r\<lparr>wr_intents := wr_intents r @ [\<lparr> wi_id = i, wi_effect = effect, wi_receipt = None, wi_retryable = False, wi_generation = 0 \<rparr>],
             wr_state := (if effect = MergeEffect then Landing else wr_state r)\<rparr>"
proof -
  have "list_ex (\<lambda>x. wi_effect x = effect \<or> wi_id x = i) (wr_intents r)
      \<or> list_ex (\<lambda>x. wi_id x = i) (concat (map wh_intents (wr_history r)))
    \<longleftrightarrow> effect \<in> wi_effect ` set (wr_intents r) \<or> i \<in> wi_id ` set (all_intents r)"
    by (auto simp: list_ex_iff all_intents_def)
  then show ?thesis
    unfolding add_intent_def Let_def by (cases "leased r attempt owner now") auto
qed

lemma add_intent_ok: "add_intent attempt owner now i effect r = Inr r' \<Longrightarrow> work_ok key r \<Longrightarrow> work_ok key r'"
  by (cases effect)
    (auto simp: add_intent_Inr leased_Inr work_ok_def justified_def all_intents_def posted_def merges_def intent_ok_def
      filter_empty_conv image_iff)

text \<open>Replacing an intent by one with its identity.\<close>

lemma put_intent_map:
  "distinct (map wi_id xs) \<Longrightarrow> put_intent x xs = map (\<lambda>y. if wi_id y = wi_id x then x else y) xs"
  unfolding put_intent_def by (induction xs) (auto simp: image_iff intro!: map_idI [symmetric])

lemma has_intent_iff: "has_intent i xs \<longleftrightarrow> i \<in> wi_id ` set xs"
  by (auto simp: has_intent_def list_ex_iff)

lemma put_absent: "wi_id x \<notin> wi_id ` set ys \<Longrightarrow> map (\<lambda>y. if wi_id y = wi_id x then x else y) ys = ys"
  by (intro map_idI) (metis imageI)

lemma update_history:
  assumes "distinct (map wi_id (concat (map wh_intents hs)))"
  shows "concat (map wh_intents (update_first (\<lambda>h. has_intent (wi_id x) (wh_intents h))
      (\<lambda>h. h\<lparr>wh_intents := put_intent x (wh_intents h)\<rparr>) hs))
    = map (\<lambda>y. if wi_id y = wi_id x then x else y) (concat (map wh_intents hs))"
  using assms
proof (induction hs)
  case (Cons h hs)
  note keep = put_absent [of x]
  show ?case
  proof (cases "has_intent (wi_id x) (wh_intents h)")
    case True
    then have "wi_id x \<notin> wi_id ` set (concat (map wh_intents hs))"
      using Cons.prems by (auto simp: has_intent_iff)
    with True Cons.prems keep show ?thesis by (simp add: put_intent_map)
  next
    case False
    with Cons keep show ?thesis by (simp add: has_intent_iff)
  qed
qed simp

lemma all_intents_replace:
  assumes "distinct (map wi_id (all_intents r))"
  shows "all_intents (replace_intent x r) = map (\<lambda>y. if wi_id y = wi_id x then x else y) (all_intents r)"
    and "wr_intents (replace_intent x r) = map (\<lambda>y. if wi_id y = wi_id x then x else y) (wr_intents r)"
proof -
  note keep = put_absent [of x]
  have parts: "distinct (map wi_id (wr_intents r))" "distinct (map wi_id (concat (map wh_intents (wr_history r))))"
    "wi_id ` set (wr_intents r) \<inter> wi_id ` set (concat (map wh_intents (wr_history r))) = {}"
    using assms by (auto simp: all_intents_def)
  have "all_intents (replace_intent x r) = map (\<lambda>y. if wi_id y = wi_id x then x else y) (all_intents r)
    \<and> wr_intents (replace_intent x r) = map (\<lambda>y. if wi_id y = wi_id x then x else y) (wr_intents r)"
  proof (cases "has_intent (wi_id x) (wr_intents r)")
    case True
    then have "wi_id x \<notin> wi_id ` set (concat (map wh_intents (wr_history r)))"
      using parts(3) unfolding has_intent_iff by blast
    with True parts(1) keep show ?thesis by (simp add: replace_intent_def all_intents_def put_intent_map)
  next
    case False
    then have "wi_id x \<notin> wi_id ` set (wr_intents r)" by (simp add: has_intent_iff)
    with False keep update_history [OF parts(2), of x] show ?thesis by (simp add: replace_intent_def all_intents_def)
  qed
  then show "all_intents (replace_intent x r) = map (\<lambda>y. if wi_id y = wi_id x then x else y) (all_intents r)"
    "wr_intents (replace_intent x r) = map (\<lambda>y. if wi_id y = wi_id x then x else y) (wr_intents r)" by simp_all
qed

lemma replace_intent_simps [simp]:
  "wr_schema_version (replace_intent x r) = wr_schema_version r" "wr_key (replace_intent x r) = wr_key r"
  "wr_state (replace_intent x r) = wr_state r" "wr_cancelled (replace_intent x r) = wr_cancelled r"
  "wr_attempt (replace_intent x r) = wr_attempt r" "wr_verdict (replace_intent x r) = wr_verdict r"
  by (simp_all add: replace_intent_def)

lemma observe_intent_Inr:
  "observe_intent obs x = Inr x' \<Longrightarrow> wi_id x' = wi_id x \<and> wi_effect x' = wi_effect x \<and> wi_generation x' = wi_generation x
    \<and> (wi_receipt x \<noteq> None \<longrightarrow> x' = x) \<and> (wi_retryable x' \<longrightarrow> obs = Absent \<or> x' = x)
    \<and> (intent_ok x \<longrightarrow> intent_ok x')"
  by (auto simp: observe_intent_def intent_ok_def split: if_splits observation.splits)

lemma intent_by_id:
  assumes "distinct (map wi_id (all_intents r))" "x \<in> set (all_intents r)" "y \<in> set (wr_intents r)" "wi_id y = wi_id x"
  shows "y = x"
proof -
  have "inj_on wi_id (set (all_intents r))" using assms(1) by (simp add: distinct_map)
  moreover have "y \<in> set (all_intents r)" using assms(3) by (simp add: all_intents_def)
  ultimately show ?thesis using assms(2,4) by (simp add: inj_on_def)
qed

lemma merges_replace:
  assumes "distinct (map wi_id (all_intents r))" and "x \<in> set (all_intents r)" and "wi_id x' = wi_id x" and "wi_effect x' = wi_effect x"
  shows "merges (replace_intent x' r) = map (\<lambda>y. if wi_id y = wi_id x then x' else y) (merges r)"
proof -
  have eff: "wi_effect (if wi_id y = wi_id x then x' else y) = wi_effect y" if "y \<in> set (wr_intents r)" for y
    using intent_by_id [OF assms(1,2) that] assms(4) by auto
  show ?thesis
    unfolding merges_def all_intents_replace(2) [OF assms(1)] assms(3) filter_map o_def
    using eff by (intro arg_cong [where f = "map _"] filter_cong) auto
qed

lemma posted_replace:
  assumes "distinct (map wi_id (all_intents r))" and "x \<in> set (all_intents r)" and "wi_id x' = wi_id x" and "wi_effect x' = wi_effect x"
    and "wi_receipt x \<noteq> None \<longrightarrow> wi_receipt x' \<noteq> None" and "posted r"
  shows "posted (replace_intent x' r)"
proof -
  from assms(6) obtain y where y: "y \<in> set (wr_intents r)" "wi_effect y = VerdictEffect" "wi_receipt y \<noteq> None"
    by (auto simp: posted_def)
  have "y = x" if "wi_id y = wi_id x"
    by (rule intent_by_id [OF assms(1,2) y(1) that])
  with y assms(3-5) show ?thesis
    unfolding posted_def all_intents_replace(2) [OF assms(1)]
    by (intro bexI [of _ "if wi_id y = wi_id x then x' else y"]) auto
qed

text \<open>A replacement that keeps the identity and the effect, and does not lose or, for a merge, gain a receipt, keeps the record.\<close>

lemma replace_intents_ok:
  assumes "work_ok key r" and "x \<in> set (all_intents r)" and "wi_id x' = wi_id x" and "intent_ok x'"
  shows "distinct (map wi_id (all_intents (replace_intent x' r)))" "list_all intent_ok (all_intents (replace_intent x' r))"
proof -
  from assms(1) have ok: "distinct (map wi_id (all_intents r))" "list_all intent_ok (all_intents r)"
    by (simp_all add: work_ok_def)
  have "map wi_id (all_intents (replace_intent x' r)) = map wi_id (all_intents r)"
    unfolding all_intents_replace(1) [OF ok(1)] by (simp add: o_def if_distrib)
  with ok(1) show "distinct (map wi_id (all_intents (replace_intent x' r)))" by simp
  show "list_all intent_ok (all_intents (replace_intent x' r))"
    unfolding all_intents_replace(1) [OF ok(1)] using ok(2) assms(4) by (auto simp: list_all_iff)
qed

lemma replace_justified:
  assumes r: "work_ok key r" and x: "x \<in> set (all_intents r)" "wi_id x' = wi_id x" "wi_effect x' = wi_effect x"
    and receipt: "wi_receipt x \<noteq> None \<longrightarrow> wi_receipt x' = wi_receipt x"
    and merge: "x \<in> set (merges r) \<longrightarrow> wi_receipt x' = wi_receipt x"
  shows "justified (replace_intent x' r)"
proof -
  from r have d: "distinct (map wi_id (all_intents r))" and j: "justified r" by (simp_all add: work_ok_def)
  note M = merges_replace [OF d x]
  have P: "posted r \<Longrightarrow> posted (replace_intent x' r)"
    by (rule posted_replace [OF d x]) (use receipt in auto)
  have I: "wr_intents r = [] \<Longrightarrow> wr_intents (replace_intent x' r) = []"
    by (simp add: all_intents_replace(2) [OF d])
  have R: "wi_receipt (if wi_id m = wi_id x then x' else m) = wi_receipt m" if "merges r = [m]" for m
  proof (cases "wi_id m = wi_id x")
    case True
    have "set (merges r) \<subseteq> set (wr_intents r)" by (auto simp: merges_def)
    then have "m \<in> set (wr_intents r)" by (simp add: that)
    from intent_by_id [OF d x(1) this True] have "m = x" .
    with merge that show ?thesis by simp
  qed simp
  show ?thesis
    using j P I R by (cases "wr_state r") (auto simp: justified_def M)
qed

lemma find_intent: "List.find (\<lambda>x. wi_id x = i) xs = Some x \<Longrightarrow> x \<in> set xs \<and> wi_id x = i"
  by (auto dest: find_Some_in)

lemma merge_state:
  assumes "justified r" "x \<in> set (merges r)"
  shows "merges r = [x] \<and> posted r \<and> wr_verdict r \<noteq> None \<and> (wr_state r = Landing \<and> wi_receipt x = None \<or> wr_state r = Landed \<and> wi_receipt x \<noteq> None)"
  using assms by (cases "wr_state r") (auto simp: justified_def merges_Nil)

lemma reconcile_record_ok:
  assumes "reconcile_record i g obs r = Inr r'" and ok: "work_ok key r"
  shows "work_ok key r' \<and> (\<exists>x x'. x \<in> set (all_intents r) \<and> wi_id x = i \<and> wi_generation x = g \<and> observe_intent obs x = Inr x'
    \<and> all_intents r' = map (\<lambda>y. if wi_id y = i then x' else y) (all_intents r) \<and> wr_cancelled r' = wr_cancelled r)"
proof -
  from assms(1) obtain x x' where x: "List.find (\<lambda>x. wi_id x = i) (all_intents r) = Some x" "wi_generation x = g"
      "observe_intent obs x = Inr x'"
    and r': "r' = (if wi_receipt x = None \<and> wi_receipt x' \<noteq> None \<and> has_intent i (wr_intents r) \<and> wi_effect x = MergeEffect
                then (replace_intent x' r)\<lparr>wr_state := Landed\<rparr> else replace_intent x' r)"
    by (auto simp: reconcile_record_def Let_def split: option.splits if_splits)
  from find_intent [OF x(1)] have mem: "x \<in> set (all_intents r)" "wi_id x = i" by simp_all
  from observe_intent_Inr [OF x(3)] have x': "wi_id x' = wi_id x" "wi_effect x' = wi_effect x" "wi_generation x' = wi_generation x"
    "wi_receipt x \<noteq> None \<longrightarrow> x' = x" "intent_ok x \<longrightarrow> intent_ok x'" by simp_all
  from ok have d: "distinct (map wi_id (all_intents r))" and j: "justified r" and "intent_ok x"
    using mem by (auto simp: work_ok_def list_all_iff)
  then have "intent_ok x'" using x'(5) by simp
  note kept = replace_intents_ok [OF ok mem(1) x'(1) this]
  have all: "all_intents r' = map (\<lambda>y. if wi_id y = i then x' else y) (all_intents r)"
    using all_intents_replace(1) [OF d, of x'] x'(1) mem(2) by (simp add: r' all_intents_def)
  have "justified r'"
  proof (cases "wi_receipt x = None \<and> wi_receipt x' \<noteq> None \<and> has_intent i (wr_intents r) \<and> wi_effect x = MergeEffect")
    case True
    then obtain y where "y \<in> set (wr_intents r)" "wi_id y = wi_id x" using mem(2) by (auto simp: has_intent_iff)
    with intent_by_id [OF d mem(1)] True have "x \<in> set (merges r)" by (auto simp: merges_def)
    from merge_state [OF j this] True have "merges r = [x]" "posted r" "wr_verdict r \<noteq> None" by simp_all
    then have "merges (replace_intent x' r) = [x']" "posted (replace_intent x' r)"
      using merges_replace [OF d mem(1) x'(1,2)] posted_replace [OF d mem(1) x'(1,2)] x'(4) by auto
    with True \<open>wr_verdict r \<noteq> None\<close> show ?thesis by (simp add: r' justified_def)
  next
    case False
    have "justified (replace_intent x' r)"
    proof (rule replace_justified [OF ok mem(1) x'(1,2)])
      show "wi_receipt x \<noteq> None \<longrightarrow> wi_receipt x' = wi_receipt x" using x'(4) by auto
      show "x \<in> set (merges r) \<longrightarrow> wi_receipt x' = wi_receipt x"
        using False x'(4) mem(2) by (auto simp: merges_def has_intent_iff)
    qed
    moreover have "r' = replace_intent x' r" unfolding r' using False by (rule if_not_P)
    ultimately show ?thesis by simp
  qed
  moreover have "wr_schema_version r' = wr_schema_version r" "wr_key r' = wr_key r" "wr_cancelled r' = wr_cancelled r"
    "distinct (map wi_id (all_intents r'))" "list_all intent_ok (all_intents r')"
    using kept by (simp_all add: r' all_intents_def)
  ultimately have "work_ok key r'" "wr_cancelled r' = wr_cancelled r" using ok by (simp_all add: work_ok_def)
  with mem x all show ?thesis by blast
qed

lemma retry_intent_ok:
  assumes "retry_intent attempt owner now i r = Inr r'" and ok: "work_ok key r"
  shows "work_ok key r' \<and> leased r attempt owner now = Inr () \<and> (\<exists>x. x \<in> set (wr_intents r) \<and> wi_id x = i \<and> wi_retryable x
    \<and> all_intents r' = map (\<lambda>y. if wi_id y = i then x\<lparr>wi_generation := Suc (wi_generation x), wi_retryable := False\<rparr> else y) (all_intents r)
    \<and> wr_cancelled r' = wr_cancelled r)"
proof -
  from assms(1) obtain x where lease: "leased r attempt owner now = Inr ()"
    and x: "List.find (\<lambda>x. wi_id x = i) (wr_intents r) = Some x" "wi_retryable x" "wi_receipt x = None"
    and r': "r' = r\<lparr>wr_intents := put_intent (x\<lparr>wi_generation := Suc (wi_generation x), wi_retryable := False\<rparr>) (wr_intents r)\<rparr>"
    by (auto simp: retry_intent_def split: option.splits if_splits)
  let ?x' = "x\<lparr>wi_generation := Suc (wi_generation x), wi_retryable := False\<rparr>"
  from find_intent [OF x(1)] have mem: "x \<in> set (wr_intents r)" "wi_id x = i" by simp_all
  then have "has_intent (wi_id ?x') (wr_intents r)" by (auto simp: has_intent_iff)
  then have r'': "r' = replace_intent ?x' r" by (simp add: r' replace_intent_def)
  from mem(1) have all: "x \<in> set (all_intents r)" by (simp add: all_intents_def)
  from ok all have d: "distinct (map wi_id (all_intents r))" and "intent_ok x" by (auto simp: work_ok_def list_all_iff)
  then have "intent_ok ?x'" by (simp add: intent_ok_def)
  note kept = replace_intents_ok [OF ok all _ this, simplified]
  have "justified r'"
    unfolding r'' by (rule replace_justified [OF ok all]) simp_all
  with kept ok have "work_ok key r'" by (simp add: r'' work_ok_def)
  with lease mem x all_intents_replace(1) [OF d, of ?x'] show ?thesis by (auto simp: r'')
qed

lemma all_intents_archived: "set (all_intents (archived r)) = set (all_intents r)"
  by (auto simp: all_intents_def archived_def)

lemma distinct_archived: "distinct (map wi_id (all_intents r)) \<Longrightarrow> distinct (map wi_id (all_intents (archived r)))"
  by (auto simp: all_intents_def archived_def)

lemma distinct_concat_filter: "distinct (map f (concat (map g hs))) \<Longrightarrow> distinct (map f (concat (map g (filter p hs))))"
  by (induction hs) auto

lemma reopened_ok:
  assumes "work_ok key r"
  shows "work_ok key (reopened (archived r)) \<and> set (all_intents (reopened (archived r))) \<subseteq> set (all_intents r)"
proof -
  have sub: "set (all_intents (reopened (archived r))) \<subseteq> set (all_intents r)"
    by (auto simp: all_intents_def archived_def reopened_def)
  have "distinct (map wi_id (concat (map wh_intents (wr_history (archived r)))))"
    using distinct_archived [of r] assms by (simp add: work_ok_def all_intents_def archived_def)
  then have "distinct (map wi_id (concat (map wh_intents (wr_history (reopened (archived r))))))"
    unfolding reopened_def by (simp del: filter_append add: distinct_concat_filter)
  then have "distinct (map wi_id (all_intents (reopened (archived r))))"
    by (simp add: all_intents_def archived_def reopened_def)
  with sub assms show ?thesis
    by (auto simp: work_ok_def list_all_iff justified_def archived_def reopened_def)
qed

subsection \<open>Well-formed tables\<close>

definition lookup :: "work_db \<Rightarrow> work_key \<Rightarrow> work_record option" where
  "lookup db key = (case map_of (db_work db) key of Some (Body r) \<Rightarrow> Some r | _ \<Rightarrow> None)"

definition row_ok :: "work_key \<times> work_body \<Rightarrow> bool" where
  "row_ok row \<longleftrightarrow> (\<exists>r. snd row = Body r \<and> work_ok (fst row) r)"

definition db_ok :: "work_db \<Rightarrow> bool" where
  "db_ok db \<longleftrightarrow> distinct (map fst (db_work db)) \<and> list_all row_ok (db_work db)"

lemma lookup_iff:
  assumes "db_ok db"
  shows "lookup db key = Some r \<longleftrightarrow> (key, Body r) \<in> set (db_work db)"
proof -
  have "(key, Body r) \<in> set (db_work db) \<longleftrightarrow> map_of (db_work db) key = Some (Body r)"
    using assms by (simp add: db_ok_def)
  then show ?thesis
    unfolding lookup_def by (cases "map_of (db_work db) key") (simp_all split: work_body.splits)
qed

lemma lookup_ok: "db_ok db \<Longrightarrow> lookup db key = Some r \<Longrightarrow> work_ok key r"
  by (auto simp: lookup_iff db_ok_def list_all_iff row_ok_def)

lemma lookup_None: "db_ok db \<Longrightarrow> lookup db key = None \<longleftrightarrow> key \<notin> fst ` set (db_work db)"
  using map_of_eq_None_iff [of "db_work db" key]
  by (fastforce simp: lookup_def db_ok_def list_all_iff row_ok_def split: option.splits work_body.splits dest: map_of_SomeD)

lemma get_from_lookup:
  assumes "db_ok db"
  shows "get_from db key = (case lookup db key of None \<Rightarrow> Inl MissingError | Some r \<Rightarrow> Inr r)"
proof (cases "map_of (db_work db) key")
  case None
  then show ?thesis by (simp add: get_from_def lookup_def)
next
  case (Some b)
  then have "row_ok (key, b)" using assms map_of_SomeD by (fastforce simp: db_ok_def list_all_iff)
  then obtain r where "b = Body r" "wr_schema_version r = 1" by (auto simp: row_ok_def work_ok_def)
  with Some show ?thesis by (simp add: get_from_def lookup_def decode_body_def)
qed

lemma map_of_update: "map_of (map (\<lambda>(k, b). if k = key then (k, v) else (k, b)) xs) k
   = (if k = key \<and> map_of xs key \<noteq> None then Some v else map_of xs k)"
  by (induction xs) auto

lemma db_ok_save:
  assumes "db_ok db" and "work_ok (wr_key r) r"
  shows "db_ok (save r db)"
proof -
  have "map fst (db_work (save r db)) = map fst (db_work db)"
    by (auto simp: save_def)
  moreover have "list_all row_ok (db_work (save r db))"
    using assms by (auto simp: save_def db_ok_def list_all_iff row_ok_def)
  ultimately show ?thesis using assms(1) by (simp add: db_ok_def)
qed

lemma lookup_save: "lookup db (wr_key r) \<noteq> None \<Longrightarrow> lookup (save r db) key = (if key = wr_key r then Some r else lookup db key)"
  unfolding lookup_def save_def by (auto simp: map_of_update split: option.splits)

lemma save_ids [simp]: "db_ids (save r db) = db_ids db"
  by (simp add: save_def)

lemma lookup_key: "db_ok db \<Longrightarrow> lookup db key = Some r \<Longrightarrow> wr_key r = key"
  using lookup_ok by (auto simp: work_ok_def)

text \<open>An update of one record.\<close>

lemma save_effect:
  assumes "db_ok db" "lookup db key = Some r" "work_ok key r'"
  shows "db_ok (save r' db) \<and> lookup (save r' db) = (lookup db)(key \<mapsto> r')"
proof -
  from assms(3) have "wr_key r' = key" by (simp add: work_ok_def)
  with assms db_ok_save [of db r'] lookup_save [of db r'] show ?thesis by (auto simp: fun_eq_iff)
qed

lemma update_effect:
  assumes "db_ok db" and "update commits db key f = (Inr u, db')" and "\<And>r r'. f r = Inr r' \<Longrightarrow> work_ok key r \<Longrightarrow> work_ok key r'"
  shows "\<exists>r r'. lookup db key = Some r \<and> f r = Inr r' \<and> work_ok key r \<and> work_ok key r' \<and> db_ok db'
    \<and> lookup db' = (lookup db)(key \<mapsto> r') \<and> db_ids db' = db_ids db"
proof -
  from assms(2) obtain r r' where r: "lookup db key = Some r" "f r = Inr r'" "db' = save r' db"
    by (auto simp: update_def transact_def get_from_lookup [OF assms(1)] split: if_splits sum.splits option.splits)
  from lookup_ok [OF assms(1) r(1)] have ok: "work_ok key r" .
  from assms(3) [OF r(2) ok] have ok': "work_ok key r'" .
  from save_effect [OF assms(1) r(1) ok'] ok ok' r show ?thesis by auto
qed

lemma transact_failed: "transact commits db f = (Inl e, db') \<Longrightarrow> db' = db"
  by (auto simp: transact_def split: if_splits sum.splits)

text \<open>Cancelling the records of other heads.\<close>

lemma decode_all_ok:
  assumes "list_all (\<lambda>b. \<exists>r. b = Body r \<and> wr_schema_version r = 1) bs"
  shows "\<exists>rs. decode_all bs = Inr rs \<and> map Body rs = bs"
  using assms
proof (induction bs)
  case (Cons b bs)
  then obtain r rs where "b = Body r" "wr_schema_version r = 1" "decode_all bs = Inr rs" "map Body rs = bs" by auto
  then show ?case by (intro exI [of _ "r # rs"]) (simp add: decode_body_def)
qed simp

lemma bodies_decode:
  assumes "db_ok db"
  shows "\<exists>rs. decode_all (bodies_of p db) = Inr rs \<and> set rs = {r. \<exists>k. p k \<and> lookup db k = Some r}"
proof -
  have "list_all (\<lambda>b. \<exists>r. b = Body r \<and> wr_schema_version r = 1) (bodies_of p db)"
    using assms by (auto simp: bodies_of_def db_ok_def list_all_iff row_ok_def work_ok_def)
  from decode_all_ok [OF this] obtain rs where rs: "decode_all (bodies_of p db) = Inr rs" "map Body rs = bodies_of p db" by blast
  have "r \<in> set rs \<longleftrightarrow> Body r \<in> set (bodies_of p db)" for r
    by (auto simp: rs(2) [symmetric])
  then have "set rs = {r. \<exists>k. p k \<and> lookup db k = Some r}"
    by (auto simp: bodies_of_def lookup_iff [OF assms] image_iff)
  with rs(1) show ?thesis by blast
qed

lemma cancel_effect:
  assumes "db_ok db" "lookup db (wr_key r) = Some r'" "r = r' \<or> r'= r\<lparr>wr_cancelled := True\<rparr>"
  shows "db_ok (cancel r db) \<and> lookup (cancel r db) = (lookup db)(wr_key r \<mapsto> r\<lparr>wr_cancelled := True\<rparr>) \<and> db_ids (cancel r db) = db_ids db"
proof -
  from lookup_ok [OF assms(1,2)] assms(3) have ok: "work_ok (wr_key r) (r\<lparr>wr_cancelled := True\<rparr>)"
    by (auto simp: work_ok_def)
  show ?thesis
  proof (cases "wr_cancelled r")
    case True
    then have "r\<lparr>wr_cancelled := True\<rparr> = r" by simp
    with True assms show ?thesis by (auto simp: cancel_def fun_eq_iff)
  next
    case False
    with save_effect [OF assms(1,2) ok] show ?thesis by (simp add: cancel_def)
  qed
qed

definition cancelled :: "work_record \<Rightarrow> work_record" where
  "cancelled r = r\<lparr>wr_cancelled := True\<rparr>"

lemma cancelled_idem [simp]: "cancelled (cancelled r) = cancelled r"
  by (simp add: cancelled_def)

lemma fold_cancel:
  assumes "db_ok db" and "\<forall>r \<in> set rs. lookup db (wr_key r) \<in> {Some r, Some (cancelled r)}"
  shows "db_ok (fold cancel rs db) \<and> db_ids (fold cancel rs db) = db_ids db
    \<and> lookup (fold cancel rs db) = (\<lambda>k. if k \<in> wr_key ` set rs then map_option cancelled (lookup db k) else lookup db k)"
  using assms
proof (induction rs arbitrary: db)
  case (Cons r rs)
  from Cons.prems(2) obtain r' where r': "lookup db (wr_key r) = Some r'" "r = r' \<or> r' = r\<lparr>wr_cancelled := True\<rparr>"
    by (auto simp: cancelled_def)
  note step = cancel_effect [OF Cons.prems(1) r']
  then have look: "lookup (cancel r db) = (lookup db)(wr_key r \<mapsto> cancelled r)" by (simp add: cancelled_def)
  have "\<forall>x \<in> set rs. lookup (cancel r db) (wr_key x) \<in> {Some x, Some (cancelled x)}"
  proof
    fix x assume x: "x \<in> set rs"
    show "lookup (cancel r db) (wr_key x) \<in> {Some x, Some (cancelled x)}"
    proof (cases "wr_key x = wr_key r")
      case True
      have "lookup db (wr_key x) \<in> {Some x, Some (cancelled x)}" "lookup db (wr_key r) \<in> {Some r, Some (cancelled r)}"
        using Cons.prems(2) x by auto
      with True have "r = x \<or> r = cancelled x \<or> cancelled r = x \<or> cancelled r = cancelled x" by auto
      then have "cancelled r = cancelled x" by (elim disjE) (simp_all, metis cancelled_idem)
      with True show ?thesis by (simp add: look)
    next
      case False
      with Cons.prems(2) x show ?thesis by (simp add: look)
    qed
  qed
  from Cons.IH [OF _ this] step have IH: "db_ok (fold cancel rs (cancel r db))" "db_ids (fold cancel rs (cancel r db)) = db_ids db"
    "lookup (fold cancel rs (cancel r db)) =
      (\<lambda>k. if k \<in> wr_key ` set rs then map_option cancelled (lookup (cancel r db) k) else lookup (cancel r db) k)" by simp_all
  have here: "cancelled r' = cancelled r" using r'(2) by (auto simp: cancelled_def)
  have "lookup (fold cancel (r # rs) db) k
    = (if k \<in> wr_key ` set (r # rs) then map_option cancelled (lookup db k) else lookup db k)" for k
    using IH(3) r'(1) here by (cases "k = wr_key r") (simp_all add: look)
  with IH(1,2) show ?case by (simp add: fun_eq_iff)
qed simp

lemma insert_id_simps [simp]: "db_work (insert_id key kind i db) = db_work db"
  "set (db_ids (insert_id key kind i db)) = insert (key, kind, i) (set (db_ids db))"
  by (auto simp: insert_id_def)

lemma fold_insert_id [simp]: "db_work (fold (\<lambda>x. insert_id key kind (f x)) xs db) = db_work db"
  "set (db_ids (fold (\<lambda>x. insert_id key kind (f x)) xs db)) = (\<lambda>x. (key, kind, f x)) ` set xs \<union> set (db_ids db)"
  by (induction xs arbitrary: db) auto

lemma remember_history_simps [simp]: "db_work (remember_history key h db) = db_work db"
  "set (db_ids (remember_history key h db)) = (\<lambda>x. (key, IntentId, wi_id x)) ` set (wh_intents h)
     \<union> (case wh_attempt h of None \<Rightarrow> {} | Some a \<Rightarrow> {(key, AttemptId, wa_id a)}) \<union> set (db_ids db)"
  by (auto simp: remember_history_def split: option.splits)

lemma fold_remember: "db_work (fold (remember_history key) hs db) = db_work db
   \<and> set (db_ids db) \<subseteq> set (db_ids (fold (remember_history key) hs db))
   \<and> (\<forall>h \<in> set hs. \<forall>x \<in> set (wh_intents h). (key, IntentId, wi_id x) \<in> set (db_ids (fold (remember_history key) hs db)))"
proof (induction hs arbitrary: db)
  case (Cons h hs)
  from Cons [of "remember_history key h db"] show ?case by auto
qed simp

lemma lookup_cong: "db_work db' = db_work db \<Longrightarrow> lookup db' = lookup db" "db_work db' = db_work db \<Longrightarrow> db_ok db' = db_ok db"
  by (simp_all add: lookup_def fun_eq_iff db_ok_def)

lemma insert_or_ignore_effect:
  assumes "db_ok db" and "work_ok (wr_key r) r"
  shows "db_ok (insert_or_ignore r db) \<and> db_ids (insert_or_ignore r db) = db_ids db
    \<and> lookup (insert_or_ignore r db) = (lookup db)(wr_key r := (case lookup db (wr_key r) of None \<Rightarrow> Some r | Some x \<Rightarrow> Some x))"
proof (cases "wr_key r \<in> fst ` set (db_work db)")
  case True
  then obtain x where "lookup db (wr_key r) = Some x" using lookup_None [OF assms(1)] by auto
  with True assms show ?thesis by (auto simp: insert_or_ignore_def fun_eq_iff)
next
  case False
  then have none: "lookup db (wr_key r) = None" "map_of (db_work db) (wr_key r) = None"
    using lookup_None [OF assms(1)] by (auto simp: map_of_eq_None_iff)
  have "db_ok (db\<lparr>db_work := db_work db @ [(wr_key r, Body r)]\<rparr>)"
    using assms False by (auto simp: db_ok_def row_ok_def)
  moreover have "lookup (db\<lparr>db_work := db_work db @ [(wr_key r, Body r)]\<rparr>) k = (if k = wr_key r then Some r else lookup db k)" for k
    using none(2) by (auto simp: lookup_def map_add_def split: option.splits)
  ultimately show ?thesis using False none(1) by (auto simp: insert_or_ignore_def fun_eq_iff)
qed

definition reobserved :: "work_key \<Rightarrow> work_record option \<Rightarrow> work_record" where
  "reobserved key x = (case x of None \<Rightarrow> new_record key
     | Some r \<Rightarrow> if wr_cancelled r then reopened (archived r) else r)"

lemma observe_head_effect:
  assumes ok: "db_ok db" and run: "observe_head commits db key = (Inr r', db')"
  shows "db_ok db' \<and> r' = reobserved key (lookup db key)
    \<and> lookup db' = (\<lambda>k. if k = key then Some r'
         else if same_pr k key \<and> wk_head k \<noteq> wk_head key then map_option cancelled (lookup db k) else lookup db k)
    \<and> set (db_ids db) \<subseteq> set (db_ids db')
    \<and> (\<forall>r. lookup db key = Some r \<longrightarrow> wr_cancelled r \<longrightarrow> (\<forall>x \<in> set (all_intents r). used_id db' key IntentId (wi_id x)))"
proof -
  let ?p = "\<lambda>k. same_pr k key \<and> wk_head k \<noteq> wk_head key"
  obtain olds where olds: "decode_all (bodies_of ?p db) = Inr olds" "set olds = {r. \<exists>k. ?p k \<and> lookup db k = Some r}"
    using bodies_decode [OF ok, of ?p] by blast
  have keys: "k \<in> wr_key ` set olds \<longleftrightarrow> ?p k \<and> lookup db k \<noteq> None" for k
    using lookup_key [OF ok] by (auto simp: olds(2) image_iff)
  have "\<forall>r \<in> set olds. lookup db (wr_key r) \<in> {Some r, Some (cancelled r)}"
    using lookup_key [OF ok] by (auto simp: olds(2))
  from fold_cancel [OF ok this] have c: "db_ok (fold cancel olds db)" "db_ids (fold cancel olds db) = db_ids db"
    and look: "lookup (fold cancel olds db) = (\<lambda>k. if ?p k then map_option cancelled (lookup db k) else lookup db k)"
    by (auto simp: keys fun_eq_iff)
  define db1 where "db1 = insert_or_ignore (new_record key) (fold cancel olds db)"
  have new: "wr_key (new_record key) = key" by (simp add: new_record_def)
  note ins = insert_or_ignore_effect [OF c(1), of "new_record key", folded db1_def, unfolded new, OF work_ok_new]
  have look1: "lookup db1 = (\<lambda>k. if k = key then Some (case lookup db key of None \<Rightarrow> new_record key | Some x \<Rightarrow> x)
       else if ?p k then map_option cancelled (lookup db k) else lookup db k)"
    using ins by (auto simp: look fun_eq_iff split: option.splits)
  have ok1: "db_ok db1" and ids1: "db_ids db1 = db_ids db" using ins c(2) by simp_all
  define r where "r = (case lookup db key of None \<Rightarrow> new_record key | Some x \<Rightarrow> x)"
  have r: "lookup db1 key = Some r" by (simp add: look1 r_def)
  have okr: "work_ok key r" by (rule lookup_ok [OF ok1 r])
  have look2: "lookup db1 = (\<lambda>k. if k = key then Some r
       else if ?p k then map_option cancelled (lookup db k) else lookup db k)" unfolding look1 r_def ..
  show ?thesis
  proof (cases "wr_cancelled r")
    case False
    then have "r' = r" "db' = db1" using run ok olds(1) r ok1
      by (auto simp: observe_head_def transact_def Let_def get_from_lookup db1_def [symmetric] split: if_splits)
    moreover have "reobserved key (lookup db key) = r" using False by (auto simp: reobserved_def r_def split: option.splits)
    moreover have "\<not> wr_cancelled x" if "lookup db key = Some x" for x using that False by (simp add: r_def)
    ultimately show ?thesis using ok1 ids1 by (auto simp: look2)
  next
    case True
    then have some: "lookup db key = Some r" by (auto simp: r_def new_record_def split: option.splits)
    define db2 where "db2 = remember_ids (archived r) db1"
    have arch: "wr_key (archived r) = key" using okr by (simp add: archived_def work_ok_def)
    have db2: "db_work db2 = db_work db1" "set (db_ids db1) \<subseteq> set (db_ids db2)"
      "\<And>x. x \<in> set (all_intents r) \<Longrightarrow> (key, IntentId, wi_id x) \<in> set (db_ids db2)"
      using fold_remember [of key "wr_history (archived r)" db1]
      by (auto simp: db2_def remember_ids_def arch) (auto simp: all_intents_def archived_def)
    have r': "r' = reopened (archived r)" "db' = save r' db2" using run ok olds(1) r ok1 True
      by (auto simp: observe_head_def transact_def Let_def get_from_lookup db1_def [symmetric] db2_def split: if_splits)
    have "db_ok db2" "lookup db2 key = Some r" using lookup_cong [OF db2(1)] ok1 r by simp_all
    from save_effect [OF this, of r'] reopened_ok [OF okr] r' have eff: "db_ok db'" "lookup db' = (lookup db2)(key \<mapsto> r')" by auto
    moreover have "reobserved key (lookup db key) = r'" using True some r' by (simp add: reobserved_def)
    moreover have "lookup db2 = lookup db1" using lookup_cong [OF db2(1)] by simp
    ultimately show ?thesis using db2(2,3) r'(2) ids1 some by (auto simp: look2 used_id_def fun_eq_iff)
  qed
qed

subsection \<open>What an operation does\<close>

fun op_key :: "work_op \<Rightarrow> work_key" where
  "op_key (ObserveHead key) = key"
| "op_key (Start key _ _) = key"
| "op_key (Renew key _ _ _ _) = key"
| "op_key (Verdict key _ _ _ _) = key"
| "op_key (Transition key _ _ _ _) = key"
| "op_key (Intend key _ _ _ _ _) = key"
| "op_key (Reconcile key _ _ _) = key"
| "op_key (Retry key _ _ _ _) = key"

text \<open>The change of the record for the operations that update one.\<close>

fun record_op :: "work_op \<Rightarrow> work_record \<Rightarrow> work_error + work_record" where
  "record_op (ObserveHead _) r = Inl InvalidError"
| "record_op (Start _ attempt now) r = begin_review attempt now r"
| "record_op (Renew _ i owner now until') r = renew_lease i owner now until' r"
| "record_op (Verdict _ i owner now v) r = give_verdict i owner now v r"
| "record_op (Transition _ i owner now next') r = move_to i owner now next' r"
| "record_op (Intend _ attempt owner now i effect) r = add_intent attempt owner now i effect r"
| "record_op (Reconcile _ i generation obs) r = reconcile_record i generation obs r"
| "record_op (Retry _ attempt owner now i) r = retry_intent attempt owner now i r"

lemma record_op_ok: "record_op op r = Inr r' \<Longrightarrow> work_ok key r \<Longrightarrow> work_ok key r'"
  by (cases op) (auto dest: begin_review_ok renew_lease_ok give_verdict_ok move_to_ok add_intent_ok
    reconcile_record_ok retry_intent_ok)

lemma record_op_cancelled: "record_op op r = Inr r' \<Longrightarrow> work_ok key r \<Longrightarrow> wr_cancelled r' = wr_cancelled r"
  by (cases op) (auto simp: begin_review_Inr renew_lease_Inr give_verdict_def move_to_def add_intent_Inr
    dest: reconcile_record_ok retry_intent_ok split: if_splits)

text \<open>All but reconciliation need a record that is not cancelled.\<close>

lemma record_op_live:
  "record_op op r = Inr r' \<Longrightarrow> (\<forall>key i g obs. op \<noteq> Reconcile key i g obs) \<Longrightarrow> \<not> wr_cancelled r"
  by (cases op) (auto simp: begin_review_Inr renew_lease_Inr give_verdict_def move_to_def add_intent_Inr retry_intent_def leased_Inr)

lemma record_op_intents:
  assumes "record_op op r = Inr r'" and "\<forall>key a ow n i e. op \<noteq> Intend key a ow n i e"
    and "\<forall>key i g obs. op \<noteq> Reconcile key i g obs" and "\<forall>key a ow n i. op \<noteq> Retry key a ow n i"
  shows "all_intents r' = all_intents r"
  using assms by (cases op) (auto simp: begin_review_Inr renew_lease_Inr give_verdict_def move_to_def all_intents_def split: if_splits)

lemma update_record_op:
  assumes "db_ok db" and "update commits db key f = (Inr u, db')" and "f = record_op op"
  shows "\<exists>r r'. lookup db key = Some r \<and> record_op op r = Inr r' \<and> db_ok db'
    \<and> lookup db' = (lookup db)(key \<mapsto> r') \<and> db_ids db' = db_ids db"
  using update_effect [OF assms(1,2)] record_op_ok unfolding assms(3) by blast

lemma saved_effect:
  assumes "db_ok db" "lookup db key = Some r" "record_op op r = Inr r'" "db' = save r' db"
  shows "\<exists>r r'. lookup db key = Some r \<and> record_op op r = Inr r' \<and> db_ok db'
    \<and> lookup db' = (lookup db)(key \<mapsto> r') \<and> db_ids db' = db_ids db"
  using save_effect [OF assms(1,2) record_op_ok [OF assms(3) lookup_ok [OF assms(1,2)]]] assms by auto

lemma is_ok_prod: "map_prod is_ok id p = (True, db') \<longleftrightarrow> (\<exists>x. p = (Inr x, db'))"
  by (cases p) (auto simp: is_ok_iff)

lemma start_effect:
  assumes "db_ok db" and "start commits db key attempt now = (Inr u, db')"
  shows "settled_bodies (bodies_of (\<lambda>k. same_pr k key) db) = Inr () \<and> (\<exists>r. lookup db key = Some r
    \<and> (\<exists>r'. begin_review attempt now r = Inr r' \<and> db' = save r' db))"
  using assms(2)
  by (auto simp: start_def transact_def get_from_lookup [OF assms(1)] split: if_splits sum.splits option.splits)

lemma intent_effect:
  assumes "db_ok db" and "intent commits db key attempt owner now i effect = (Inr u, db')"
  shows "\<not> used_id db key IntentId i \<and> (\<exists>r. lookup db key = Some r
    \<and> (\<exists>r'. add_intent attempt owner now i effect r = Inr r' \<and> db' = save r' db))"
  using assms(2)
  by (auto simp: intent_def transact_def get_from_lookup [OF assms(1)] split: if_splits sum.splits option.splits)

lemma record_op_fun:
  "record_op (Renew key i owner now until') = renew_lease i owner now until'"
  "record_op (Verdict key i owner now v) = give_verdict i owner now v"
  "record_op (Transition key i owner now next') = move_to i owner now next'"
  "record_op (Reconcile key i g obs) = reconcile_record i g obs"
  "record_op (Retry key attempt owner now i) = retry_intent attempt owner now i"
  by (simp_all add: fun_eq_iff)

lemma run_op_effect:
  assumes ok: "db_ok db" and run: "run_op commits op db = (True, db')" and op: "\<forall>key. op \<noteq> ObserveHead key"
  shows "\<exists>r r'. lookup db (op_key op) = Some r \<and> record_op op r = Inr r' \<and> db_ok db'
    \<and> lookup db' = (lookup db)(op_key op \<mapsto> r') \<and> db_ids db' = db_ids db"
proof (cases op)
  case (ObserveHead key)
  with op show ?thesis by simp
next
  case (Start key attempt now)
  with run obtain u where "start commits db key attempt now = (Inr u, db')" by (auto simp: run_op_def is_ok_prod)
  from start_effect [OF ok this] obtain r r' where "lookup db key = Some r" "begin_review attempt now r = Inr r'" "db' = save r' db"
    by blast
  with saved_effect [OF ok, of key r op r' db'] Start show ?thesis by simp
next
  case (Intend key attempt owner now i effect)
  with run obtain u where "intent commits db key attempt owner now i effect = (Inr u, db')" by (auto simp: run_op_def is_ok_prod)
  from intent_effect [OF ok this] obtain r r' where "lookup db key = Some r" "add_intent attempt owner now i effect r = Inr r'" "db' = save r' db"
    by blast
  with saved_effect [OF ok, of key r op r' db'] Intend show ?thesis by simp
qed (use run update_record_op [OF ok, of commits "op_key op" "record_op op" _ db' op] in
    \<open>auto simp: record_op_fun run_op_def is_ok_prod renew_def verdict_def transition_def reconcile_def retry_def\<close>)

lemma run_op_failed: "run_op commits op db = (False, db') \<Longrightarrow> db' = db"
proof -
  assume run: "run_op commits op db = (False, db')"
  have *: "map_prod is_ok id p = (False, db') \<longleftrightarrow> (\<exists>e. p = (Inl e, db'))" for p :: "(work_error + 'x) \<times> work_db"
    by (cases p; cases "fst p") auto
  from run show ?thesis
    by (cases op) (auto simp: run_op_def * observe_head_def start_def renew_def verdict_def transition_def
      intent_def reconcile_def retry_def update_def dest: transact_failed)
qed

lemma run_op_ok: "db_ok db \<Longrightarrow> db_ok (snd (run_op commits op db))"
proof (cases "run_op commits op db")
  case (Pair b db')
  assume ok: "db_ok db"
  show ?thesis
  proof (cases b)
    case True
    show ?thesis
    proof (cases "\<exists>key. op = ObserveHead key")
      case True
      then obtain key where "op = ObserveHead key" by blast
      with Pair \<open>b\<close> obtain r where "observe_head commits db key = (Inr r, db')" by (auto simp: run_op_def is_ok_prod)
      from observe_head_effect [OF ok this] Pair show ?thesis by simp
    next
      case False
      with run_op_effect [OF ok, of commits op db'] Pair \<open>b\<close> show ?thesis by auto
    qed
  next
    case False
    with run_op_failed [of commits op db db'] Pair ok show ?thesis by simp
  qed
qed

interpretation work: invariant_machine work_step db_ok
  by unfold_locales (simp add: work_step_def run_op_ok case_prod_beta)

subsection \<open>Effects along a run\<close>

text \<open>
  An effect is issued when its intent is persisted and each time it is retried. \<open>concerns\<close> adds
  the observations of the effect.
\<close>

fun issues_op :: "work_key \<Rightarrow> string \<Rightarrow> work_op \<Rightarrow> bool" where
  "issues_op key i (Intend k _ _ _ j _) = (k = key \<and> j = i)"
| "issues_op key i (Retry k _ _ _ j) = (k = key \<and> j = i)"
| "issues_op key i _ = False"

fun concerns :: "work_key \<Rightarrow> string \<Rightarrow> work_op \<Rightarrow> bool" where
  "concerns key i (Reconcile k j _ _) = (k = key \<and> j = i)"
| "concerns key i op = issues_op key i op"

definition issues :: "work_op list \<Rightarrow> work_key \<Rightarrow> string \<Rightarrow> nat" where
  "issues tr key i = length (filter (issues_op key i) tr)"

text \<open>The last word on an effect is that it is absent, said of its latest issue.\<close>

definition found_absent :: "work_op list \<Rightarrow> work_key \<Rightarrow> string \<Rightarrow> bool" where
  "found_absent tr key i \<longleftrightarrow> (\<exists>before g after. tr = before @ Reconcile key i g Absent # after
     \<and> issues before key i = Suc g \<and> \<not> list_ex (concerns key i) after)"

fun observed_head :: "work_op list \<Rightarrow> work_key \<Rightarrow> string option" where
  "observed_head [] key = None"
| "observed_head (ObserveHead k # tr) key = (case observed_head tr key of
     Some h \<Rightarrow> Some h
   | None \<Rightarrow> if same_pr k key then Some (wk_head k) else None)"
| "observed_head (_ # tr) key = observed_head tr key"

lemma issues_snoc [simp]: "issues (tr @ [op]) key i = issues tr key i + (if issues_op key i op then 1 else 0)"
  by (simp add: issues_def)

lemma found_absent_snoc:
  assumes "found_absent tr key i" "\<not> concerns key i op"
  shows "found_absent (tr @ [op]) key i"
proof -
  from assms(1) obtain before g after where "tr = before @ Reconcile key i g Absent # after" "issues before key i = Suc g"
    "\<not> list_ex (concerns key i) after"
    unfolding found_absent_def by blast
  with assms(2) show ?thesis
    unfolding found_absent_def by (intro exI [of _ before] exI [of _ g] exI [of _ "after @ [op]"]) simp
qed

lemma found_absent_now: "issues tr key i = Suc g \<Longrightarrow> found_absent (tr @ [Reconcile key i g Absent]) key i"
  unfolding found_absent_def by (intro exI [of _ tr] exI [of _ g] exI [of _ "[]"]) simp

lemma observed_head_snoc:
  "observed_head (tr @ [op]) key = (case op of
     ObserveHead k \<Rightarrow> if same_pr k key then Some (wk_head k) else observed_head tr key
   | _ \<Rightarrow> observed_head tr key)"
proof (induction tr)
  case Nil
  then show ?case by (cases op) auto
next
  case (Cons a tr)
  then show ?case by (cases a; cases op) (auto split: option.splits)
qed

definition traced :: "work_op list \<Rightarrow> work_db \<Rightarrow> bool" where
  "traced tr db \<longleftrightarrow>
     (\<forall>key r x. lookup db key = Some r \<longrightarrow> x \<in> set (all_intents r) \<longrightarrow>
        issues tr key (wi_id x) = Suc (wi_generation x) \<and> (wi_retryable x \<longrightarrow> found_absent tr key (wi_id x)))
   \<and> (\<forall>key i. 0 < issues tr key i \<longrightarrow>
        (\<exists>r. lookup db key = Some r \<and> i \<in> wi_id ` set (all_intents r)) \<or> used_id db key IntentId i)
   \<and> (\<forall>key r. lookup db key = Some r \<longrightarrow> \<not> wr_cancelled r \<longrightarrow> observed_head tr key = Some (wk_head key))"

text \<open>What is true of the operations that take effect, given those before.\<close>

definition admissible :: "work_op list \<Rightarrow> work_op \<Rightarrow> bool" where
  "admissible tr op = (case op of
       ObserveHead key \<Rightarrow> True
     | Reconcile key i g obs \<Rightarrow> issues tr key i = Suc g
     | Intend key attempt owner now i effect \<Rightarrow> issues tr key i = 0 \<and> observed_head tr key = Some (wk_head key)
     | Retry key attempt owner now i \<Rightarrow> found_absent tr key i \<and> observed_head tr key = Some (wk_head key)
     | _ \<Rightarrow> observed_head tr (op_key op) = Some (wk_head (op_key op)))"

lemma tracedD:
  assumes "traced tr db" "lookup db key = Some r"
  shows "x \<in> set (all_intents r) \<Longrightarrow> issues tr key (wi_id x) = Suc (wi_generation x)"
    "x \<in> set (all_intents r) \<Longrightarrow> wi_retryable x \<Longrightarrow> found_absent tr key (wi_id x)"
    "\<not> wr_cancelled r \<Longrightarrow> observed_head tr key = Some (wk_head key)"
  using assms unfolding traced_def by blast+

lemma traced_fresh:
  assumes "traced tr db" "lookup db key = Some r" "i \<notin> wi_id ` set (all_intents r)" "\<not> used_id db key IntentId i"
  shows "issues tr key i = 0"
  using assms unfolding traced_def by (metis gr0I option.inject)

lemma observe_intent_absent:
  "observe_intent obs x = Inr x' \<Longrightarrow> intent_ok x \<Longrightarrow> wi_retryable x' \<Longrightarrow> obs = Absent"
  by (auto simp: observe_intent_def intent_ok_def split: if_splits observation.splits)

text \<open>The invariant for the changed record suffices.\<close>

lemma traced_update:
  assumes tr: "traced tr db" and look: "lookup db' = (lookup db)(key \<mapsto> r')" and ids: "db_ids db' = db_ids db"
    and r: "lookup db key = Some r" and cancelled: "wr_cancelled r' = wr_cancelled r"
    and op: "\<And>k i. k \<noteq> key \<Longrightarrow> \<not> concerns k i op" "\<And>k. op \<noteq> ObserveHead k"
    and intents: "\<And>x. x \<in> set (all_intents r') \<Longrightarrow> issues (tr @ [op]) key (wi_id x) = Suc (wi_generation x)
          \<and> (wi_retryable x \<longrightarrow> found_absent (tr @ [op]) key (wi_id x))"
    and issued: "\<And>i. i \<in> wi_id ` set (all_intents r) \<or> issues_op key i op \<Longrightarrow> i \<in> wi_id ` set (all_intents r')"
  shows "traced (tr @ [op]) db'"
proof -
  have same: "observed_head (tr @ [op]) k = observed_head tr k" for k
    using op(2) by (auto simp: observed_head_snoc split: work_op.splits)
  have quiet: "\<not> issues_op k i op" if "k \<noteq> key" for k i
    using op(1) [OF that, of i] by (cases op) auto
  have "issues (tr @ [op]) k (wi_id x) = Suc (wi_generation x) \<and> (wi_retryable x \<longrightarrow> found_absent (tr @ [op]) k (wi_id x))"
    if "lookup db' k = Some y" "x \<in> set (all_intents y)" for k x y
  proof (cases "k = key")
    case True
    with that intents look show ?thesis by simp
  next
    case False
    with that look have "lookup db k = Some y" by simp
    with tracedD [OF tr this] that(2) quiet [OF False] op(1) [OF False] show ?thesis
      by (simp add: found_absent_snoc)
  qed
  moreover have "(\<exists>y. lookup db' k = Some y \<and> i \<in> wi_id ` set (all_intents y)) \<or> used_id db' k IntentId i"
    if "0 < issues (tr @ [op]) k i" for k i
  proof (cases "issues_op k i op")
    case True
    with quiet have "k = key" by blast
    with True issued look show ?thesis by simp
  next
    case False
    with that have "0 < issues tr k i" by simp
    with tr have "(\<exists>y. lookup db k = Some y \<and> i \<in> wi_id ` set (all_intents y)) \<or> used_id db k IntentId i"
      unfolding traced_def by blast
    then show ?thesis
    proof
      assume "\<exists>y. lookup db k = Some y \<and> i \<in> wi_id ` set (all_intents y)"
      then show ?thesis using look r issued by (cases "k = key") auto
    next
      assume "used_id db k IntentId i"
      then show ?thesis by (simp add: used_id_def ids)
    qed
  qed
  moreover have "observed_head (tr @ [op]) k = Some (wk_head k)" if "lookup db' k = Some y" "\<not> wr_cancelled y" for k y
    using that look r cancelled tracedD(3) [OF tr] by (cases "k = key") (auto simp: same)
  ultimately show ?thesis unfolding traced_def by blast
qed

lemma observe_traced:
  assumes ok: "db_ok db" and tr: "traced tr db" and run: "observe_head commits db key = (Inr r', db')"
  shows "traced (tr @ [ObserveHead key]) db'"
proof -
  note eff = observe_head_effect [OF ok run]
  then have look: "lookup db' = (\<lambda>k. if k = key then Some r'
         else if same_pr k key \<and> wk_head k \<noteq> wk_head key then map_option cancelled (lookup db k) else lookup db k)"
    and r': "r' = reobserved key (lookup db key)" and ids: "set (db_ids db) \<subseteq> set (db_ids db')"
    and used: "\<And>r x. lookup db key = Some r \<Longrightarrow> wr_cancelled r \<Longrightarrow> x \<in> set (all_intents r) \<Longrightarrow> used_id db' key IntentId (wi_id x)"
    by blast+
  have quiet: "\<not> concerns k i (ObserveHead key)" "\<not> issues_op k i (ObserveHead key)" for k i by simp_all
  have old: "\<exists>r. lookup db k = Some r \<and> x \<in> set (all_intents r)" if "lookup db' k = Some y" "x \<in> set (all_intents y)" for k x y
  proof (cases "k = key")
    case True
    with that(1) look have y: "y = reobserved key (lookup db key)" by (simp add: r')
    with that(2) have "lookup db key \<noteq> None" by (auto simp: reobserved_def new_record_def all_intents_def split: option.splits)
    then obtain r where r: "lookup db key = Some r" by blast
    with y that(2) reopened_ok [OF lookup_ok [OF ok r]] have "x \<in> set (all_intents r)"
      by (auto simp: reobserved_def simp del: all_intents_def split: if_splits)
    with r True show ?thesis by blast
  next
    case False
    with that look show ?thesis by (auto simp: cancelled_def split: if_splits)
  qed
  have "issues (tr @ [ObserveHead key]) k (wi_id x) = Suc (wi_generation x)
      \<and> (wi_retryable x \<longrightarrow> found_absent (tr @ [ObserveHead key]) k (wi_id x))"
    if "lookup db' k = Some y" "x \<in> set (all_intents y)" for k x y
  proof -
    from old [OF that] obtain r where r: "lookup db k = Some r" "x \<in> set (all_intents r)" by blast
    from tracedD(1,2) [OF tr r(1) r(2)] show ?thesis using found_absent_snoc [OF _ quiet(1)] by simp
  qed
  moreover have "(\<exists>y. lookup db' k = Some y \<and> i \<in> wi_id ` set (all_intents y)) \<or> used_id db' k IntentId i"
    if "0 < issues (tr @ [ObserveHead key]) k i" for k i
  proof -
    from that have "0 < issues tr k i" by simp
    with tr consider r where "lookup db k = Some r" "i \<in> wi_id ` set (all_intents r)" | "used_id db k IntentId i"
      unfolding traced_def by blast
    then show ?thesis
    proof cases
      case (1 r)
      show ?thesis
      proof (cases "k = key")
        case True
        show ?thesis
        proof (cases "wr_cancelled r")
          case True
          with used 1 \<open>k = key\<close> show ?thesis by auto
        next
          case False
          with 1 \<open>k = key\<close> look show ?thesis by (simp add: r' reobserved_def)
        qed
      next
        case False
        with 1 look show ?thesis by (auto simp: cancelled_def)
      qed
    next
      case 2
      with ids show ?thesis by (auto simp: used_id_def)
    qed
  qed
  moreover have "observed_head (tr @ [ObserveHead key]) k = Some (wk_head k)" if y: "lookup db' k = Some y" "\<not> wr_cancelled y" for k y
  proof (cases "same_pr key k")
    case True
    have "wk_head k = wk_head key"
    proof (rule ccontr)
      assume *: "wk_head k \<noteq> wk_head key"
      with True have "k \<noteq> key" "same_pr k key" by (auto simp: same_pr_def)
      with * look y show False by (auto simp: cancelled_def)
    qed
    with True show ?thesis by (simp add: observed_head_snoc)
  next
    case False
    then have "k \<noteq> key" "\<not> same_pr k key" by (auto simp: same_pr_def)
    with look y have "lookup db k = Some y" by simp
    from tracedD(3) [OF tr this y(2)] False show ?thesis by (simp add: observed_head_snoc)
  qed
  ultimately show ?thesis unfolding traced_def by blast
qed

lemma intend_traced:
  assumes tr: "traced tr db" and r: "lookup db key = Some r" and f: "add_intent attempt owner now i effect r = Inr r'"
    and look: "lookup db' = (lookup db)(key \<mapsto> r')" and ids: "db_ids db' = db_ids db" and unused: "\<not> used_id db key IntentId i"
  shows "issues tr key i = 0 \<and> traced (tr @ [Intend key attempt owner now i effect]) db'"
proof -
  from f have new: "i \<notin> wi_id ` set (all_intents r)" and cancelled: "wr_cancelled r' = wr_cancelled r"
    and r': "set (all_intents r') = insert \<lparr> wi_id = i, wi_effect = effect, wi_receipt = None, wi_retryable = False, wi_generation = 0 \<rparr> (set (all_intents r))"
    by (auto simp: add_intent_Inr all_intents_def)
  have zero: "issues tr key i = 0" by (rule traced_fresh [OF tr r new unused])
  have "traced (tr @ [Intend key attempt owner now i effect]) db'"
  proof (rule traced_update [OF tr look ids r cancelled])
    fix x assume x: "x \<in> set (all_intents r')"
    show "issues (tr @ [Intend key attempt owner now i effect]) key (wi_id x) = Suc (wi_generation x)
        \<and> (wi_retryable x \<longrightarrow> found_absent (tr @ [Intend key attempt owner now i effect]) key (wi_id x))"
    proof (cases "wi_id x = i")
      case True
      with new have "x \<notin> set (all_intents r)" by auto
      with x r' zero show ?thesis by auto
    next
      case False
      with x r' have "x \<in> set (all_intents r)" by auto
      from tracedD(1,2) [OF tr r this] False show ?thesis by (auto intro: found_absent_snoc)
    qed
  qed (use r' in auto)
  with zero show ?thesis by blast
qed

lemma replaced_ids:
  assumes "all_intents r' = map (\<lambda>y. if wi_id y = i then x' else y) (all_intents r)" and "wi_id x' = i"
  shows "wi_id ` set (all_intents r') = wi_id ` set (all_intents r)"
proof -
  from assms have "map wi_id (all_intents r') = map wi_id (all_intents r)" by simp
  then show ?thesis by (metis list.set_map)
qed

lemma reconcile_traced:
  assumes tr: "traced tr db" and r: "lookup db key = Some r" and f: "reconcile_record i g obs r = Inr r'" and ok: "work_ok key r"
    and look: "lookup db' = (lookup db)(key \<mapsto> r')" and ids: "db_ids db' = db_ids db"
  shows "issues tr key i = Suc g \<and> traced (tr @ [Reconcile key i g obs]) db'"
proof -
  from reconcile_record_ok [OF f ok] obtain x x' where x: "x \<in> set (all_intents r)" "wi_id x = i" "wi_generation x = g"
    "observe_intent obs x = Inr x'" "all_intents r' = map (\<lambda>y. if wi_id y = i then x' else y) (all_intents r)"
    and cancelled: "wr_cancelled r' = wr_cancelled r" by blast
  note x' = observe_intent_Inr [OF x(4)]
  have xok: "intent_ok x" using ok x(1) by (auto simp: work_ok_def list_all_iff)
  have g: "issues tr key i = Suc g" using tracedD(1) [OF tr r x(1)] x by simp
  have "traced (tr @ [Reconcile key i g obs]) db'"
  proof (rule traced_update [OF tr look ids r cancelled])
    fix y assume "y \<in> set (all_intents r')"
    then consider "y = x'" | "y \<in> set (all_intents r)" "wi_id y \<noteq> i" by (auto simp: x(5) split: if_splits)
    then show "issues (tr @ [Reconcile key i g obs]) key (wi_id y) = Suc (wi_generation y)
        \<and> (wi_retryable y \<longrightarrow> found_absent (tr @ [Reconcile key i g obs]) key (wi_id y))"
    proof cases
      case 1
      with observe_intent_absent [OF x(4) xok] found_absent_now [OF g] x' x(2,3) g show ?thesis by auto
    next
      case 2
      with tracedD(1,2) [OF tr r 2(1)] show ?thesis by (auto intro: found_absent_snoc)
    qed
  qed (use replaced_ids [OF x(5)] x' x(2) in auto)
  with g show ?thesis by blast
qed

lemma retry_traced:
  assumes tr: "traced tr db" and r: "lookup db key = Some r" and f: "retry_intent attempt owner now i r = Inr r'" and ok: "work_ok key r"
    and look: "lookup db' = (lookup db)(key \<mapsto> r')" and ids: "db_ids db' = db_ids db"
  shows "found_absent tr key i \<and> traced (tr @ [Retry key attempt owner now i]) db'"
proof -
  from retry_intent_ok [OF f ok] obtain x where x: "x \<in> set (wr_intents r)" "wi_id x = i" "wi_retryable x"
    "all_intents r' = map (\<lambda>y. if wi_id y = i then x\<lparr>wi_generation := Suc (wi_generation x), wi_retryable := False\<rparr> else y) (all_intents r)"
    and cancelled: "wr_cancelled r' = wr_cancelled r" by blast
  then have mem: "x \<in> set (all_intents r)" by (simp add: all_intents_def)
  have g: "issues tr key i = Suc (wi_generation x)" and absent: "found_absent tr key i"
    using tracedD(1,2) [OF tr r mem] x by simp_all
  have same: "wi_id ` set (all_intents r') = wi_id ` set (all_intents r)" using replaced_ids [OF x(4)] x(2) by simp
  have "traced (tr @ [Retry key attempt owner now i]) db'"
  proof (rule traced_update [OF tr look ids r cancelled])
    fix y assume "y \<in> set (all_intents r')"
    then consider "y = x\<lparr>wi_generation := Suc (wi_generation x), wi_retryable := False\<rparr>" | "y \<in> set (all_intents r)" "wi_id y \<noteq> i"
      by (auto simp: x(4) split: if_splits)
    then show "issues (tr @ [Retry key attempt owner now i]) key (wi_id y) = Suc (wi_generation y)
        \<and> (wi_retryable y \<longrightarrow> found_absent (tr @ [Retry key attempt owner now i]) key (wi_id y))"
    proof cases
      case 1
      with g x(2) show ?thesis by simp
    next
      case 2
      with tracedD(1,2) [OF tr r 2(1)] show ?thesis by (auto intro: found_absent_snoc)
    qed
  qed (use same mem x(2) in auto)
  with absent show ?thesis by blast
qed

lemma other_traced:
  assumes tr: "traced tr db" and r: "lookup db (op_key op) = Some r" and f: "record_op op r = Inr r'" and ok: "work_ok (op_key op) r"
    and look: "lookup db' = (lookup db)(op_key op \<mapsto> r')" and ids: "db_ids db' = db_ids db"
    and op: "\<forall>key. op \<noteq> ObserveHead key" "\<forall>key a ow n i e. op \<noteq> Intend key a ow n i e"
    "\<forall>key i g obs. op \<noteq> Reconcile key i g obs" "\<forall>key a ow n i. op \<noteq> Retry key a ow n i"
  shows "traced (tr @ [op]) db'"
proof -
  have quiet: "\<not> concerns k i op" "\<not> issues_op k i op" for k i using op by (cases op; simp)+
  note intents = record_op_intents [OF f op(2-4)]
  show ?thesis
  proof (rule traced_update [OF tr look ids r record_op_cancelled [OF f ok]])
    fix x assume "x \<in> set (all_intents r')"
    then have "x \<in> set (all_intents r)" by (simp add: intents)
    from tracedD(1,2) [OF tr r this] show "issues (tr @ [op]) (op_key op) (wi_id x) = Suc (wi_generation x)
        \<and> (wi_retryable x \<longrightarrow> found_absent (tr @ [op]) (op_key op) (wi_id x))"
      using quiet by (auto intro: found_absent_snoc)
  qed (use op quiet intents in auto)
qed

lemma record_traced:
  assumes ok: "db_ok db" and tr: "traced tr db" and run: "run_op commits op db = (True, db')" and op: "\<forall>key. op \<noteq> ObserveHead key"
  shows "admissible tr op \<and> traced (tr @ [op]) db'"
proof -
  obtain r r' where r: "lookup db (op_key op) = Some r" and f: "record_op op r = Inr r'" and look: "lookup db' = (lookup db)(op_key op \<mapsto> r')"
    and ids: "db_ids db' = db_ids db"
    using run_op_effect [OF ok run op] by blast
  note rok = lookup_ok [OF ok r]
  have live: "observed_head tr (op_key op) = Some (wk_head (op_key op))" if "\<forall>key i g obs. op \<noteq> Reconcile key i g obs"
    using tracedD(3) [OF tr r] record_op_live [OF f that] by blast
  note here = r f look rok
  show ?thesis
  proof (cases op)
    case (Intend key attempt owner now i effect)
    with run obtain u where "intent commits db key attempt owner now i effect = (Inr u, db')" by (auto simp: run_op_def is_ok_prod)
    from intent_effect [OF ok this] have "\<not> used_id db key IntentId i" by blast
    from intend_traced [OF tr _ _ _ ids this, of r attempt owner now effect r'] here live Intend show ?thesis by (simp add: admissible_def)
  next
    case (Reconcile key i g obs)
    with reconcile_traced [OF tr _ _ _ _ ids, of key r i g obs r'] here show ?thesis by (simp add: admissible_def)
  next
    case (Retry key attempt owner now i)
    with retry_traced [OF tr _ _ _ _ ids, of key r attempt owner now i r'] here live show ?thesis by (simp add: admissible_def)
  qed (use op live other_traced [OF tr r f rok look ids] in \<open>auto simp: admissible_def\<close>)
qed

lemma step_traced:
  assumes ok: "db_ok db" and tr: "traced tr db" and run: "run_op commits op db = (True, db')"
  shows "admissible tr op \<and> traced (tr @ [op]) db'"
proof (cases "\<exists>key. op = ObserveHead key")
  case True
  then obtain key where key: "op = ObserveHead key" by blast
  with run obtain r' where "observe_head commits db key = (Inr r', db')" by (auto simp: run_op_def is_ok_prod)
  from observe_traced [OF ok tr this] key show ?thesis by (simp add: admissible_def)
next
  case False
  with record_traced [OF ok tr run] show ?thesis by blast
qed

lemma db_ok_empty: "db_ok empty_db"
  by (simp add: db_ok_def empty_db_def)

lemma reached_ok: "db_ok (fst (run_machine work_step empty_db evs))"
  by (rule work.run_inv [OF db_ok_empty])

interpretation work_trace: traced_machine work_step empty_db "\<lambda>_. True" "\<lambda>tr db. db_ok db \<and> traced tr db" admissible
proof
  show "db_ok empty_db \<and> traced [] empty_db"
    using db_ok_empty by (simp add: traced_def lookup_def empty_db_def issues_def)
next
  fix tr db and ev :: "bool \<times> work_op"
  assume ok: "db_ok db \<and> traced tr db"
  obtain b db' where run: "run_op (fst ev) (snd ev) db = (b, db')" by fastforce
  have same: "\<not> b \<Longrightarrow> db' = db" using run_op_failed [of "fst ev" "snd ev" db db'] run by simp
  have new: "b \<Longrightarrow> admissible tr (snd ev) \<and> traced (tr @ [snd ev]) db'"
    using step_traced [of db tr "fst ev" "snd ev" db'] ok run by simp
  show "db_ok (fst (work_step db ev)) \<and> traced (tr @ snd (work_step db ev)) (fst (work_step db ev))"
    using ok same new work.step_inv [of db ev] by (cases b) (simp_all add: work_step_def run)
  show "admissible (tr @ xs) x" if "snd (work_step db ev) = xs @ x # ys" for xs x ys
    using that new by (cases b; cases xs) (simp_all add: work_step_def run)
qed

lemma work_run_admissible: "snd (run_machine work_step empty_db evs) = before @ op # after \<Longrightarrow> admissible before op"
  by (rule work_trace.run_admissible [of evs]) (simp_all add: list_all_iff)

subsection \<open>An example\<close>

text \<open>A review whose verdict the remote first lost, and whose merge lands.\<close>

definition example_key :: "string \<Rightarrow> work_key" where
  "example_key head = \<lparr> wk_repository = ''r'', wk_pr = 7, wk_head = head, wk_policy_digest = ''p'', wk_lens = ''l'', wk_base_digest = ''b'' \<rparr>"

definition example_ops :: "work_op list" where
  "example_ops = [ObserveHead (example_key ''a''), ObserveHead (example_key ''h''),
     Start (example_key ''h'') \<lparr> wa_id = ''t'', wa_lease_owner = ''o'', wa_lease_until = 9 \<rparr> 1,
     Verdict (example_key ''h'') ''t'' ''o'' 2 ''v'', Intend (example_key ''h'') ''t'' ''o'' 2 ''i'' VerdictEffect,
     Reconcile (example_key ''h'') ''i'' 0 Absent, Retry (example_key ''h'') ''t'' ''o'' 3 ''i'',
     Reconcile (example_key ''h'') ''i'' 1 (Found ''c''), Transition (example_key ''h'') ''t'' ''o'' 4 AwaitingChecks,
     Transition (example_key ''h'') ''t'' ''o'' 5 Landable, Intend (example_key ''h'') ''t'' ''o'' 6 ''m'' MergeEffect,
     Reconcile (example_key ''h'') ''m'' 0 (Found ''s'')]"

lemmas op_defs = run_op_def observe_head_def start_def verdict_def intent_def reconcile_def retry_def transition_def update_def
  transact_def insert_or_ignore_def new_record_def bodies_of_def same_pr_def get_from_def decode_body_def cancel_def save_def
  begin_review_def used_id_def give_verdict_def leased_def add_intent_def reconcile_record_def observe_intent_def replace_intent_def
  put_intent_def has_intent_def retry_intent_def move_to_def may_follow_def all_intents_def uncertain_def

lemmas example_evaluation = example_ops_def example_key_def work_step_def empty_db_def op_defs u64_checked_add_def run_machine_Cons

lemma example_run: "snd (run_machine work_step empty_db (map (Pair True) example_ops)) = example_ops"
  by (simp add: example_evaluation del: run_machine.simps(2))

lemma example_lands:
  "\<exists>r. (example_key ''h'', Body r) \<in> set (db_work (fst (run_machine work_step empty_db (map (Pair True) example_ops)))) \<and> wr_state r = Landed"
  by (simp add: example_evaluation del: run_machine.simps(2))

subsection \<open>Properties\<close>

text \<open>
  C1: An external effect is not issued twice on a guess. Along every run of operations from
  empty tables, whichever of them commit, fail or come out of order: an intent is persisted
  only if its effect was never issued before; an observation is accepted only if it is of the
  latest issue; and an effect is retried only if the last thing accepted about it, after its
  latest issue, was that the remote definitely does not have it.
\<close>

theorem effects_are_not_repeated:
  assumes "snd (run_machine work_step empty_db evs) = before @ op # after"
  shows "case op of
      Intend key attempt owner now i effect \<Rightarrow> issues before key i = 0
    | Reconcile key i generation obs \<Rightarrow> issues before key i = Suc generation
    | Retry key attempt owner now i \<Rightarrow> (\<exists>before' g between. before = before' @ Reconcile key i g Absent # between
        \<and> issues before' key i = Suc g \<and> \<not> list_ex (concerns key i) between)
    | _ \<Rightarrow> True"
  using work_run_admissible [OF assms] by (cases op) (auto simp: admissible_def found_absent_def)

theorem effects_are_not_repeated_witness:
  "\<exists>before' g between. take 6 example_ops = before' @ Reconcile (example_key ''h'') ''i'' g Absent # between
    \<and> issues before' (example_key ''h'') ''i'' = Suc g \<and> \<not> list_ex (concerns (example_key ''h'') ''i'') between"
proof -
  have "snd (run_machine work_step empty_db (map (Pair True) example_ops))
      = take 6 example_ops @ Retry (example_key ''h'') ''t'' ''o'' 3 ''i'' # drop 7 example_ops"
    unfolding example_run by (simp add: example_ops_def)
  from effects_are_not_repeated [OF this] show ?thesis by simp
qed



text \<open>
  C18: A record's state is backed by its evidence. In every reachable table a row holds a record
  of its own key that decodes, whose intents have distinct identities; work that awaits checks
  or later has a verdict and a posted verdict's receipt; landing work has exactly one merge
  intent without a receipt; and landed work has exactly one merge intent, with a receipt that
  is not empty.
\<close>

theorem reachable_records_are_backed:
  assumes "(key, body) \<in> set (db_work (fst (run_machine work_step empty_db evs)))"
  shows "\<exists>r. body = Body r \<and> decode_body body = Inr r \<and> wr_key r = key \<and> distinct (map wi_id (all_intents r))
    \<and> (wr_state r \<in> {AwaitingChecks, Landable, Landing, Landed} \<longrightarrow> wr_verdict r \<noteq> None \<and> posted r)
    \<and> (wr_state r = Landing \<longrightarrow> (\<exists>i. merges r = [i] \<and> wi_receipt i = None))
    \<and> (wr_state r = Landed \<longrightarrow> (\<exists>i t. merges r = [i] \<and> wi_receipt i = Some t \<and> t \<noteq> []))
    \<and> (wr_state r = NeedsReview \<longrightarrow> wr_attempt r = None \<and> wr_verdict r = None \<and> wr_intents r = [])"
proof -
  from reached_ok [of evs] assms obtain r where r: "body = Body r" and ok: "work_ok key r"
    by (fastforce simp: db_ok_def list_all_iff row_ok_def)
  have nonempty: "t \<noteq> []" if "merges r = [i]" "wi_receipt i = Some t" for i t
  proof -
    from that(1) have "i \<in> set (merges r)" by simp
    then have "i \<in> set (all_intents r)" by (simp add: all_intents_def merges_def)
    with ok that(2) show ?thesis by (auto simp: work_ok_def list_all_iff intent_ok_def)
  qed
  show ?thesis using ok r nonempty
    by (cases "wr_state r") (auto simp: justified_def work_ok_def decode_body_def)
qed

theorem reachable_records_are_backed_witness:
  "\<exists>r i t. (example_key ''h'', Body r) \<in> set (db_work (fst (run_machine work_step empty_db (map (Pair True) example_ops))))
    \<and> wr_state r = Landed \<and> posted r \<and> merges r = [i] \<and> wi_receipt i = Some t \<and> t \<noteq> []"
proof -
  obtain r where r: "(example_key ''h'', Body r) \<in> set (db_work (fst (run_machine work_step empty_db (map (Pair True) example_ops))))"
    "wr_state r = Landed"
    using example_lands by blast
  with reachable_records_are_backed [OF r(1)] show ?thesis by auto
qed

end
