(* ===== verification/Core_Ids.thy ===== *)
theory Core_Ids
  imports Prov_Prelude
begin

section \<open>Identities and their text (crate core)\<close>

text \<open>
  \<open>core/src/ids.rs\<close> and \<open>core/src/bytes.rs\<close>: identities are fixed-width byte arrays, here byte
  lists whose width is \<open>id_ok\<close>, \<open>oid_ok\<close> or \<open>digest_ok\<close>, with one text each: lowercase
  hexadecimal. The array of an identity is ordered as its list of bytes is.
\<close>

subsection \<open>Hexadecimal\<close>

definition hex_digit :: "nat \<Rightarrow> char" where
  "hex_digit n = ''0123456789abcdef'' ! n"

definition hex :: "string \<Rightarrow> string" where
  "hex bytes = concat (map (\<lambda>b. [hex_digit (byte_of b div 16), hex_digit (byte_of b mod 16)]) bytes)"

definition nibble :: "char \<Rightarrow> nat option" where
  "nibble c =
     (if 48 \<le> byte_of c \<and> byte_of c \<le> 57 then Some (byte_of c - 48)
      else if 97 \<le> byte_of c \<and> byte_of c \<le> 102 then Some (byte_of c - 97 + 10)
      else None)"

fun unhex :: "string \<Rightarrow> string option" where
  "unhex [] = Some []"
| "unhex [c] = None"
| "unhex (high # low # rest) =
     Option.bind (nibble high) (\<lambda>h. Option.bind (nibble low) (\<lambda>l.
       map_option ((#) (char_of (h * 16 + l))) (unhex rest)))"

subsection \<open>Parsing and printing\<close>

definition decode_hex :: "nat \<Rightarrow> string \<Rightarrow> string option" where
  "decode_hex n t = Option.bind (unhex t) (\<lambda>bs. if length bs = n then Some bs else None)"

type_synonym id = string

definition parse_id :: "string \<Rightarrow> id option" where
  "parse_id t = decode_hex 16 t"

definition show_id :: "id \<Rightarrow> string" where
  "show_id i = hex i"

datatype git_oid = Sha1 string | Sha256 string

definition parse_oid :: "string \<Rightarrow> git_oid option" where
  "parse_oid t =
     (if length t = 40 then map_option Sha1 (decode_hex 20 t)
      else if length t = 64 then map_option Sha256 (decode_hex 32 t)
      else None)"

definition show_oid :: "git_oid \<Rightarrow> string" where
  "show_oid oid = (case oid of Sha1 bytes \<Rightarrow> hex bytes | Sha256 bytes \<Rightarrow> hex bytes)"

type_synonym digest = string

definition parse_digest :: "string \<Rightarrow> digest option" where
  "parse_digest t = Option.bind (strip_prefix ''sha256:'' t) (decode_hex 32)"

definition show_digest :: "digest \<Rightarrow> string" where
  "show_digest d = ''sha256:'' @ hex d"

definition parse_operation_id :: "string \<Rightarrow> string option" where
  "parse_operation_id t =
     (if \<not> (1 \<le> length t \<and> length t \<le> 128)
         \<or> \<not> (case t of [] \<Rightarrow> False | b # _ \<Rightarrow> is_ascii_alphanumeric b)
         \<or> \<not> list_all (\<lambda>b. is_ascii_alphanumeric b \<or> b \<in> set ''._-'') t
      then None else Some t)"

subsection \<open>The text determines the identity and conversely\<close>

lemma hex_digit_bytes: "n < 16 \<Longrightarrow> byte_of (hex_digit n) = (if n < 10 then 48 + n else 87 + n)"
proof -
  assume "n < 16"
  then have "n \<in> set [0..<16]" by simp
  moreover have "\<forall>n \<in> set [0..<16]. byte_of (hex_digit n) = (if n < 10 then 48 + n else 87 + n)"
    by (simp add: hex_digit_def upt_rec)
  ultimately show ?thesis by blast
qed

lemma nibble_digit [simp]: "n < 16 \<Longrightarrow> nibble (hex_digit n) = Some n"
  by (simp add: nibble_def hex_digit_bytes)

lemma nibble_Some: "nibble c = Some n \<longleftrightarrow> n < 16 \<and> c = hex_digit n"
proof
  assume n: "nibble c = Some n"
  then have lt: "n < 16" by (auto simp: nibble_def split: if_splits)
  with n have "byte_of c = byte_of (hex_digit n)"
    by (auto simp: nibble_def hex_digit_bytes split: if_splits)
  then show "n < 16 \<and> c = hex_digit n" using lt by (simp add: of_char_eq_iff)
qed simp

lemma hex_Cons: "hex (b # bs) = hex_digit (byte_of b div 16) # hex_digit (byte_of b mod 16) # hex bs"
  by (simp add: hex_def)

lemma unhex_hex [simp]: "unhex (hex bs) = Some bs"
proof (induction bs)
  case Nil
  then show ?case by (simp add: hex_def)
next
  case (Cons b bs)
  have "byte_of b div 16 < 16" by (rule less_mult_imp_div_less) simp
  then show ?case using Cons by (simp add: hex_Cons)
qed

lemma hex_unhex: "unhex t = Some bs \<Longrightarrow> t = hex bs"
proof (induction t arbitrary: bs rule: unhex.induct)
  case (3 high low rest)
  then obtain h l cs where n: "nibble high = Some h" "nibble low = Some l" "unhex rest = Some cs"
    and bs: "bs = char_of (h * 16 + l) # cs"
    by (auto simp: bind_eq_Some_conv)
  then have "h < 16" "l < 16" "high = hex_digit h" "low = hex_digit l" by (simp_all add: nibble_Some)
  moreover from this have "h * 16 + l < 256" by simp
  ultimately show ?case using 3(1) [OF n] by (simp add: bs hex_Cons of_char_of)
qed (auto simp: hex_def)

lemma unhex_iff: "unhex t = Some bs \<longleftrightarrow> t = hex bs"
  using hex_unhex by auto

lemma length_hex [simp]: "length (hex bs) = 2 * length bs"
  by (induction bs) (simp_all add: hex_Cons, simp add: hex_def)

lemma decode_hex_iff: "decode_hex n t = Some bs \<longleftrightarrow> length bs = n \<and> t = hex bs"
  by (auto simp: decode_hex_def bind_eq_Some_conv unhex_iff)

definition oid_ok :: "git_oid \<Rightarrow> bool" where
  "oid_ok oid = (case oid of Sha1 bytes \<Rightarrow> length bytes = 20 | Sha256 bytes \<Rightarrow> length bytes = 32)"

text \<open>
  C39: Text and identity determine each other. A text parses to an identity, a Git object
  identity or a digest exactly if it is the text that identity prints as and the identity has
  its width; uppercase digits, other widths and other prefixes are refused.
\<close>

theorem identity_text_roundtrip:
  "(parse_id t = Some i \<longleftrightarrow> length i = 16 \<and> t = show_id i)
   \<and> (parse_oid t = Some oid \<longleftrightarrow> oid_ok oid \<and> t = show_oid oid)
   \<and> (parse_digest t = Some d \<longleftrightarrow> length d = 32 \<and> t = show_digest d)"
proof (intro conjI)
  show "parse_id t = Some i \<longleftrightarrow> length i = 16 \<and> t = show_id i"
    by (simp add: parse_id_def show_id_def decode_hex_iff)
  show "parse_oid t = Some oid \<longleftrightarrow> oid_ok oid \<and> t = show_oid oid"
    by (cases oid) (auto simp: parse_oid_def show_oid_def oid_ok_def decode_hex_iff)
  show "parse_digest t = Some d \<longleftrightarrow> length d = 32 \<and> t = show_digest d"
    by (auto simp: parse_digest_def show_digest_def bind_eq_Some_conv decode_hex_iff)
qed

end
