(* ===== verification/Prov_Text.thy ===== *)
theory Prov_Text
  imports Prov_Prelude
begin

section \<open>Texts: trimming and decimal numbers\<close>

text \<open>
  What the records of the workflow crates use of \<open>str\<close>. A string is its UTF-8 bytes, so a
  white-space character of Unicode is one of the byte sequences of \<open>space_width\<close>.
\<close>

fun space_width :: "string \<Rightarrow> nat option" where
  "space_width (a # rest) =
     (if (9 \<le> byte_of a \<and> byte_of a \<le> 13) \<or> byte_of a = 32 then Some 1
      else (case rest of
          b # rest' \<Rightarrow>
            if byte_of a = 194 \<and> (byte_of b = 133 \<or> byte_of b = 160) then Some 2
            else (case rest' of
                c # _ \<Rightarrow>
                  if byte_of a = 225 \<and> byte_of b = 154 \<and> byte_of c = 128
                     \<or> byte_of a = 226 \<and> byte_of b = 128
                       \<and> (128 \<le> byte_of c \<and> byte_of c \<le> 138 \<or> byte_of c = 168 \<or> byte_of c = 169 \<or> byte_of c = 175)
                     \<or> byte_of a = 226 \<and> byte_of b = 129 \<and> byte_of c = 159
                     \<or> byte_of a = 227 \<and> byte_of b = 128 \<and> byte_of c = 128
                  then Some 3 else None
              | [] \<Rightarrow> None)
        | [] \<Rightarrow> None))"
| "space_width [] = None"

lemma space_width_pos: "space_width s = Some n \<Longrightarrow> 0 < n \<and> s \<noteq> []"
  by (cases s) (auto split: if_splits list.splits)

function trim_start :: "string \<Rightarrow> string" where
  "trim_start s = (case space_width s of None \<Rightarrow> s | Some n \<Rightarrow> trim_start (drop n s))"
  by auto
termination
  by (relation "measure length") (auto dest: space_width_pos)

declare trim_start.simps [simp del]

text \<open>\<open>s.trim().is_empty()\<close>\<close>

definition blank_text :: "string \<Rightarrow> bool" where
  "blank_text s \<longleftrightarrow> trim_start s = []"

text \<open>Trimming the end cuts at the first suffix of white space only; no character's tail is one.\<close>

fun trim_end :: "string \<Rightarrow> string" where
  "trim_end [] = []"
| "trim_end (c # cs) = (if blank_text (c # cs) then [] else c # trim_end cs)"

definition trim :: "string \<Rightarrow> string" where
  "trim s = trim_end (trim_start s)"

lemma trim_start_Nil [simp]: "trim_start [] = []"
  by (simp add: trim_start.simps)

lemma trim_start_idem: "trim_start (trim_start s) = trim_start s"
proof (induction s rule: trim_start.induct)
  case (1 s)
  show ?case
  proof (cases "space_width s")
    case None
    then have "trim_start s = s" by (simp add: trim_start.simps)
    then show ?thesis by simp
  next
    case (Some n)
    then have "trim_start s = trim_start (drop n s)" by (simp add: trim_start.simps [of s])
    with 1 [OF Some] show ?thesis by simp
  qed
qed

lemma trim_eq_Nil: "trim s = [] \<longleftrightarrow> blank_text s"
proof -
  have "trim_end t = [] \<longleftrightarrow> blank_text t" for t
    by (cases t) (auto simp: blank_text_def)
  then show ?thesis by (simp add: trim_def blank_text_def trim_start_idem)
qed

text \<open>The decimal text of a number.\<close>

fun decimal :: "nat \<Rightarrow> string" where
  "decimal n = (if n < 10 then [char_of (48 + n)] else decimal (n div 10) @ [char_of (48 + n mod 10)])"

declare decimal.simps [simp del]

end
