(* ===== verification/Workflow_Records.thy ===== *)
theory Workflow_Records
  imports Core_Time Core_Ids Prov_Text
begin

section \<open>Workflow records (crate records)\<close>

text \<open>
  \<open>records/src/workflow.rs\<close>: risk tiers and factors, subjects, routes and authors, decisions and
  the delivery receipt with the operations that build its next revision.
\<close>

subsection \<open>Risk\<close>

datatype risk_tier = RT_Routine | RT_Substantial | RT_Crucial | RT_Terminal

fun risk_rank :: "risk_tier \<Rightarrow> nat" where
  "risk_rank RT_Routine = 0"
| "risk_rank RT_Substantial = 1"
| "risk_rank RT_Crucial = 2"
| "risk_rank RT_Terminal = 3"

instantiation risk_tier :: linorder
begin

definition less_eq_risk_tier :: "risk_tier \<Rightarrow> risk_tier \<Rightarrow> bool" where
  "less_eq_risk_tier a b \<longleftrightarrow> risk_rank a \<le> risk_rank b"

definition less_risk_tier :: "risk_tier \<Rightarrow> risk_tier \<Rightarrow> bool" where
  "less_risk_tier a b \<longleftrightarrow> risk_rank a < risk_rank b"

instance
proof
  fix x y z :: risk_tier
  show "x < y \<longleftrightarrow> x \<le> y \<and> \<not> y \<le> x" by (auto simp: less_eq_risk_tier_def less_risk_tier_def)
  show "x \<le> x" by (simp add: less_eq_risk_tier_def)
  show "x \<le> y \<Longrightarrow> y \<le> z \<Longrightarrow> x \<le> z" by (simp add: less_eq_risk_tier_def)
  show "x \<le> y \<Longrightarrow> y \<le> x \<Longrightarrow> x = y" by (cases x; cases y) (simp_all add: less_eq_risk_tier_def)
  show "x \<le> y \<or> y \<le> x" by (auto simp: less_eq_risk_tier_def)
qed

end

datatype blast_radius = BR_Local | BR_MultiModule | BR_SharedSystem | BR_Production

fun blast_radius_minimum :: "blast_radius \<Rightarrow> risk_tier" where
  "blast_radius_minimum BR_Local = RT_Routine"
| "blast_radius_minimum BR_MultiModule = RT_Substantial"
| "blast_radius_minimum BR_SharedSystem = RT_Crucial"
| "blast_radius_minimum BR_Production = RT_Terminal"

datatype reversibility = RE_Easy | RE_Moderate | RE_Hard | RE_Irreversible

fun reversibility_minimum :: "reversibility \<Rightarrow> risk_tier" where
  "reversibility_minimum RE_Easy = RT_Routine"
| "reversibility_minimum RE_Moderate = RT_Substantial"
| "reversibility_minimum RE_Hard = RT_Crucial"
| "reversibility_minimum RE_Irreversible = RT_Terminal"

datatype data_sensitivity = DS_Public | DS_Internal | DS_Confidential | DS_Regulated

fun data_sensitivity_minimum :: "data_sensitivity \<Rightarrow> risk_tier" where
  "data_sensitivity_minimum DS_Public = RT_Routine"
| "data_sensitivity_minimum DS_Internal = RT_Routine"
| "data_sensitivity_minimum DS_Confidential = RT_Crucial"
| "data_sensitivity_minimum DS_Regulated = RT_Terminal"

datatype migration = MG_None | MG_Reversible | MG_Stateful | MG_Destructive

fun migration_minimum :: "migration \<Rightarrow> risk_tier" where
  "migration_minimum MG_None = RT_Routine"
| "migration_minimum MG_Reversible = RT_Substantial"
| "migration_minimum MG_Stateful = RT_Crucial"
| "migration_minimum MG_Destructive = RT_Terminal"

datatype oracle_quality = OQ_Strong | OQ_Mixed | OQ_Weak

fun oracle_quality_minimum :: "oracle_quality \<Rightarrow> risk_tier" where
  "oracle_quality_minimum OQ_Strong = RT_Routine"
| "oracle_quality_minimum OQ_Mixed = RT_Substantial"
| "oracle_quality_minimum OQ_Weak = RT_Crucial"

datatype external_effects = EE_None | EE_Reversible | EE_Irreversible

fun external_effects_minimum :: "external_effects \<Rightarrow> risk_tier" where
  "external_effects_minimum EE_None = RT_Routine"
| "external_effects_minimum EE_Reversible = RT_Crucial"
| "external_effects_minimum EE_Irreversible = RT_Terminal"

datatype critical_surface =
    CS_None | CS_PublicContract | CS_AuthSecurity | CS_Privacy | CS_Financial | CS_Legal
  | CS_BuildReleaseGate | CS_LifeSafety

fun critical_surface_minimum :: "critical_surface \<Rightarrow> risk_tier" where
  "critical_surface_minimum CS_None = RT_Routine"
| "critical_surface_minimum CS_PublicContract = RT_Substantial"
| "critical_surface_minimum CS_AuthSecurity = RT_Crucial"
| "critical_surface_minimum CS_Privacy = RT_Crucial"
| "critical_surface_minimum CS_Financial = RT_Crucial"
| "critical_surface_minimum CS_Legal = RT_Crucial"
| "critical_surface_minimum CS_BuildReleaseGate = RT_Crucial"
| "critical_surface_minimum CS_LifeSafety = RT_Terminal"

record risk_factors =
  fa_extra :: extra_fields
  fa_blast_radius :: blast_radius
  fa_reversibility :: reversibility
  fa_data_sensitivity :: data_sensitivity
  fa_migration :: migration
  fa_oracle_quality :: oracle_quality
  fa_external_effects :: external_effects
  fa_critical_surface :: critical_surface

record risk_policy =
  rp_minimum :: risk_tier

definition default_risk_policy :: risk_policy where
  "default_risk_policy = \<lparr>rp_minimum = RT_Routine\<rparr>"

datatype path_encoding = Utf8 | NativeBytes

record path_wire =
  pw_path :: string
  pw_encoding :: path_encoding
  pw_extra :: extra_fields

record evidence_ref =
  ev_extra :: extra_fields
  ev_path :: path_wire
  ev_digest :: digest

record approval_ref =
  ap_extra :: extra_fields
  ap_actor_id :: id
  ap_evidence :: evidence_ref

record user_approval =
  ua_actor_id :: id
  ua_evidence :: evidence_ref

definition approval_from :: "user_approval \<Rightarrow> approval_ref" where
  "approval_from a = \<lparr>ap_extra = [], ap_actor_id = ua_actor_id a, ap_evidence = ua_evidence a\<rparr>"

record risk_record =
  rk_extra :: extra_fields
  rk_factors :: risk_factors
  rk_derived :: risk_tier
  rk_tier :: risk_tier
  rk_downgrade_approval :: "approval_ref option"

datatype record_error = RiskApproval | DecisionApproval | DecisionBounds | BadReceipt | ReceiptRevisionOverflow

definition risk_validate_shape :: "risk_record \<Rightarrow> record_error + unit" where
  "risk_validate_shape r =
     (if (rk_tier r < rk_derived r) \<noteq> (rk_downgrade_approval r \<noteq> None) then Inl RiskApproval else Inr ())"

definition risk_record_new ::
  "risk_factors \<Rightarrow> risk_tier \<Rightarrow> risk_tier \<Rightarrow> approval_ref option \<Rightarrow> record_error + risk_record" where
  "risk_record_new factors derived tier approval =
     (let r = \<lparr>rk_extra = [], rk_factors = factors, rk_derived = derived, rk_tier = tier, rk_downgrade_approval = approval\<rparr>
      in res_bind (risk_validate_shape r) (\<lambda>_. Inr r))"

subsection \<open>Subjects, routes and authors\<close>

datatype subject =
    SubjectPr extra_fields id nat git_oid
  | SubjectDocument extra_fields path_wire digest

datatype model_tier = MT_Junior | MT_Senior | MT_Principal

fun model_rank :: "model_tier \<Rightarrow> nat" where
  "model_rank MT_Junior = 0"
| "model_rank MT_Senior = 1"
| "model_rank MT_Principal = 2"

instantiation model_tier :: linorder
begin

definition less_eq_model_tier :: "model_tier \<Rightarrow> model_tier \<Rightarrow> bool" where
  "less_eq_model_tier a b \<longleftrightarrow> model_rank a \<le> model_rank b"

definition less_model_tier :: "model_tier \<Rightarrow> model_tier \<Rightarrow> bool" where
  "less_model_tier a b \<longleftrightarrow> model_rank a < model_rank b"

instance
proof
  fix x y z :: model_tier
  show "x < y \<longleftrightarrow> x \<le> y \<and> \<not> y \<le> x" by (auto simp: less_eq_model_tier_def less_model_tier_def)
  show "x \<le> x" by (simp add: less_eq_model_tier_def)
  show "x \<le> y \<Longrightarrow> y \<le> z \<Longrightarrow> x \<le> z" by (simp add: less_eq_model_tier_def)
  show "x \<le> y \<Longrightarrow> y \<le> x \<Longrightarrow> x = y" by (cases x; cases y) (simp_all add: less_eq_model_tier_def)
  show "x \<le> y \<or> y \<le> x" by (auto simp: less_eq_model_tier_def)
qed

end

text \<open>
  \<open>RouteProvenance\<close>: an observed route with its name, tier, adapter, endpoint provider, model
  family and evidence; a route the chair attests with its name, tier, declared family and
  evidence; or an unknown one.
\<close>

datatype route_provenance =
    RouteObserved extra_fields string model_tier string "string option" "string option" evidence_ref
  | RouteChairAttested extra_fields string model_tier "string option" evidence_ref
  | RouteUnknown extra_fields

datatype author =
    AuthorUser extra_fields id
  | AuthorAgent extra_fields id route_provenance

fun author_actor_id :: "author \<Rightarrow> id" where
  "author_actor_id (AuthorUser _ actor) = actor"
| "author_actor_id (AuthorAgent _ actor _) = actor"

subsection \<open>Decisions\<close>

text \<open>A decision that is made has its actor, time, reason and user approval.\<close>

datatype decision =
    DecisionPending extra_fields
  | DecisionAccepted extra_fields id wall_time string "approval_ref option"
  | DecisionAbandoned extra_fields id wall_time string "approval_ref option"

datatype decision_status = Pending | Accepted | Abandoned

record decision_context =
  dc_tier :: risk_tier
  dc_created_at :: wall_time
  dc_updated_at :: wall_time

fun decision_status_of :: "decision \<Rightarrow> decision_status" where
  "decision_status_of (DecisionPending _) = Pending"
| "decision_status_of (DecisionAccepted _ _ _ _ _) = Accepted"
| "decision_status_of (DecisionAbandoned _ _ _ _ _) = Abandoned"

fun decision_at :: "decision \<Rightarrow> wall_time option" where
  "decision_at (DecisionPending _) = None"
| "decision_at (DecisionAccepted _ _ t _ _) = Some t"
| "decision_at (DecisionAbandoned _ _ t _ _) = Some t"

fun decision_reason :: "decision \<Rightarrow> string option" where
  "decision_reason (DecisionPending _) = None"
| "decision_reason (DecisionAccepted _ _ _ reason _) = Some reason"
| "decision_reason (DecisionAbandoned _ _ _ reason _) = Some reason"

fun decision_user_approval :: "decision \<Rightarrow> approval_ref option" where
  "decision_user_approval (DecisionPending _) = None"
| "decision_user_approval (DecisionAccepted _ _ _ _ approval) = approval"
| "decision_user_approval (DecisionAbandoned _ _ _ _ approval) = approval"

definition decision_pending :: decision where
  "decision_pending = DecisionPending []"

definition decision_validate :: "decision \<Rightarrow> decision_context \<Rightarrow> record_error + unit" where
  "decision_validate d context = (case decision_at d of
       None \<Rightarrow> Inr ()
     | Some t \<Rightarrow>
         if t < dc_created_at context \<or> dc_updated_at context < t \<or> is_none_or (decision_reason d) blank_text
         then Inl DecisionBounds
         else if dc_tier context = RT_Terminal \<and> decision_user_approval d = None then Inl DecisionApproval
         else Inr ())"

definition decision_accept ::
  "decision_context \<Rightarrow> id \<Rightarrow> wall_time \<Rightarrow> string \<Rightarrow> user_approval option \<Rightarrow> record_error + decision" where
  "decision_accept context actor t reason approval =
     (let d = DecisionAccepted [] actor t reason (map_option approval_from approval)
      in res_bind (decision_validate d context) (\<lambda>_. Inr d))"

definition decision_abandon ::
  "decision_context \<Rightarrow> id \<Rightarrow> wall_time \<Rightarrow> string \<Rightarrow> user_approval option \<Rightarrow> record_error + decision" where
  "decision_abandon context actor t reason approval =
     (let d = DecisionAbandoned [] actor t reason (map_option approval_from approval)
      in res_bind (decision_validate d context) (\<lambda>_. Inr d))"

subsection \<open>The delivery receipt\<close>

record workflow_receipt =
  rc_extra :: extra_fields
  rc_schema_version :: nat
  rc_delivery_id :: id
  rc_project_id :: id
  rc_revision :: nat
  rc_subject :: subject
  rc_authors :: "author list"
  rc_risk :: risk_record
  rc_review_attempts :: "id list"
  rc_decision :: decision
  rc_created_at :: wall_time
  rc_updated_at :: wall_time

definition decision_context_of :: "workflow_receipt \<Rightarrow> decision_context" where
  "decision_context_of r = \<lparr>dc_tier = rk_tier (rc_risk r), dc_created_at = rc_created_at r, dc_updated_at = rc_updated_at r\<rparr>"

text \<open>A set built from a list has the length of the list exactly if the list has no duplicates.\<close>

definition receipt_validate_shape :: "workflow_receipt \<Rightarrow> record_error + unit" where
  "receipt_validate_shape r =
     (if rc_authors r = [] \<or> rc_revision r = 0 \<or> rc_updated_at r < rc_created_at r
         \<or> (case rc_subject r of SubjectPr _ _ number _ \<Rightarrow> number = 0 | _ \<Rightarrow> False)
      then Inl BadReceipt
      else if card (set (map author_actor_id (rc_authors r))) \<noteq> length (rc_authors r)
         \<or> card (set (rc_review_attempts r)) \<noteq> length (rc_review_attempts r)
      then Inl BadReceipt
      else res_bind (risk_validate_shape (rc_risk r)) (\<lambda>_.
           decision_validate (rc_decision r) (decision_context_of r)))"

definition receipt_new ::
  "id \<Rightarrow> id \<Rightarrow> subject \<Rightarrow> author list \<Rightarrow> risk_record \<Rightarrow> wall_time \<Rightarrow> record_error + workflow_receipt" where
  "receipt_new delivery project subject authors risk now =
     (let r = \<lparr>rc_extra = [], rc_schema_version = 1, rc_delivery_id = delivery, rc_project_id = project, rc_revision = 1,
          rc_subject = subject, rc_authors = authors, rc_risk = risk, rc_review_attempts = [],
          rc_decision = decision_pending, rc_created_at = now, rc_updated_at = now\<rparr>
      in res_bind (receipt_validate_shape r) (\<lambda>_. Inr r))"

definition with_review_attempts :: "id list \<Rightarrow> workflow_receipt \<Rightarrow> record_error + workflow_receipt" where
  "with_review_attempts attempts r =
     (let r' = r\<lparr>rc_review_attempts := attempts\<rparr> in res_bind (receipt_validate_shape r') (\<lambda>_. Inr r'))"

definition with_decision ::
  "wall_time \<Rightarrow> (decision_context \<Rightarrow> record_error + decision) \<Rightarrow> workflow_receipt \<Rightarrow> record_error + workflow_receipt" where
  "with_decision t decide r =
     (let r1 = r\<lparr>rc_updated_at := max (rc_updated_at r) t\<rparr> in
      res_bind (decide (decision_context_of r1)) (\<lambda>d.
        let r2 = r1\<lparr>rc_decision := d\<rparr> in res_bind (receipt_validate_shape r2) (\<lambda>_. Inr r2)))"

definition with_commit_metadata ::
  "workflow_receipt option \<Rightarrow> wall_time \<Rightarrow> workflow_receipt \<Rightarrow> record_error + workflow_receipt" where
  "with_commit_metadata previous now r =
     res_bind (case previous of
         None \<Rightarrow> Inr r
       | Some p \<Rightarrow>
           if rc_delivery_id r \<noteq> rc_delivery_id p \<or> rc_project_id r \<noteq> rc_project_id p then Inl BadReceipt
           else if rc_subject r \<noteq> rc_subject p then Inr (r\<lparr>rc_decision := decision_pending, rc_review_attempts := []\<rparr>)
           else Inr r) (\<lambda>r1.
     res_bind (ok_or ReceiptRevisionOverflow
         (u64_checked_add (case previous of None \<Rightarrow> 0 | Some p \<Rightarrow> rc_revision p) 1)) (\<lambda>revision.
     let r2 = r1\<lparr>rc_revision := revision,
          rc_created_at := (case previous of None \<Rightarrow> now | Some p \<Rightarrow> rc_created_at p),
          rc_updated_at := max (case previous of None \<Rightarrow> now | Some p \<Rightarrow> rc_updated_at p) now\<rparr>
     in res_bind (receipt_validate_shape r2) (\<lambda>_. Inr r2)))"

subsection \<open>Reviews\<close>

record review_policy =
  pol_routine :: nat
  pol_substantial :: nat
  pol_crucial :: nat
  pol_terminal :: nat
  pol_adversarial_lens :: string

definition default_review_policy :: review_policy where
  "default_review_policy = \<lparr>pol_routine = 0, pol_substantial = 1, pol_crucial = 2, pol_terminal = 2,
     pol_adversarial_lens = ''adversarial''\<rparr>"

record review_eligibility =
  el_provenance :: route_provenance
  el_verified_model_family :: "string option"

datatype review_verdict = VApprove | VApproveWithNits | VRequestChanges | VInconclusive

definition verdict_from_token :: "string \<Rightarrow> review_verdict option" where
  "verdict_from_token token =
     (let t = unwrap_or token (strip_prefix ''VERDICT: '' token) in
      if t = ''APPROVE'' \<or> t = ''PASS'' then Some VApprove
      else if t = ''APPROVE_WITH_NITS'' then Some VApproveWithNits
      else if t = ''REQUEST_CHANGES'' \<or> t = ''FAIL'' then Some VRequestChanges
      else if t = ''INCONCLUSIVE'' then Some VInconclusive
      else None)"

fun verdict_as_token :: "review_verdict \<Rightarrow> string" where
  "verdict_as_token VApprove = ''APPROVE''"
| "verdict_as_token VApproveWithNits = ''APPROVE_WITH_NITS''"
| "verdict_as_token VRequestChanges = ''REQUEST_CHANGES''"
| "verdict_as_token VInconclusive = ''INCONCLUSIVE''"

record review_fact =
  ft_attempt_id :: id
  ft_reviewer_id :: id
  ft_subject :: subject
  ft_output :: evidence_ref
  ft_verdict :: review_verdict
  ft_blocking_findings :: "string list"
  ft_eligibility :: review_eligibility
  ft_lens :: string

end
