(* ===== verification/Workflow_Receipt.thy ===== *)
theory Workflow_Receipt
  imports Workflow_Records Records_Json
begin

section \<open>Delivery receipts and their store (crate workflow)\<close>

text \<open>
  \<open>workflow/src/risk.rs\<close>, \<open>review.rs\<close>, \<open>receipt.rs\<close> and \<open>store.rs\<close>: the risk a receipt may claim,
  the checks of review facts, and the replacement of a whole receipt at an expected revision.
  The file of a receipt holds a receipt or text that does not decode; the length of the
  canonical bytes of a receipt is an argument, as are the outcomes of the file operations and
  the readings of the clocks.
\<close>

subsection \<open>Risk\<close>

datatype risk_error = ApprovalRequired | RiskRecordError record_error | RiskMismatch

definition minimum_tier :: "risk_factors \<Rightarrow> risk_policy \<Rightarrow> risk_tier" where
  "minimum_tier factors policy =
     foldl max RT_Routine
       [rp_minimum policy,
        blast_radius_minimum (fa_blast_radius factors),
        reversibility_minimum (fa_reversibility factors),
        data_sensitivity_minimum (fa_data_sensitivity factors),
        migration_minimum (fa_migration factors),
        oracle_quality_minimum (fa_oracle_quality factors),
        external_effects_minimum (fa_external_effects factors),
        critical_surface_minimum (fa_critical_surface factors)]"

definition map_err :: "('e \<Rightarrow> 'f) \<Rightarrow> 'e + 'a \<Rightarrow> 'f + 'a" where
  "map_err f m = (case m of Inl e \<Rightarrow> Inl (f e) | Inr x \<Rightarrow> Inr x)"

definition assess_risk ::
  "risk_factors \<Rightarrow> risk_tier \<Rightarrow> risk_policy \<Rightarrow> user_approval option \<Rightarrow> risk_error + risk_record" where
  "assess_risk factors tier policy approval =
     (let derived = minimum_tier factors policy in
      res_bind (if tier < derived
                then res_bind (ok_or ApprovalRequired approval) (\<lambda>a. Inr (Some (approval_from a)))
                else Inr None) (\<lambda>downgrade.
      map_err RiskRecordError (risk_record_new factors derived tier downgrade)))"

definition validate_risk :: "risk_record \<Rightarrow> risk_policy \<Rightarrow> user_approval option \<Rightarrow> risk_error + unit" where
  "validate_risk r policy approval =
     res_bind (assess_risk (rk_factors r) (rk_tier r) policy approval) (\<lambda>r'.
     if r' \<noteq> r then Inl RiskMismatch else Inr ())"

subsection \<open>Review facts\<close>

datatype review_error = ReviewPolicyError | ReviewIncomplete | ReviewOutput | UnverifiedFamily

definition validate_policy :: "review_policy \<Rightarrow> review_error + unit" where
  "validate_policy p =
     (if pol_routine p \<noteq> 0 \<or> pol_substantial p < 1 \<or> pol_crucial p < 2 \<or> pol_terminal p < pol_crucial p
         \<or> pol_crucial p < pol_substantial p \<or> pol_substantial p < pol_routine p \<or> blank_text (pol_adversarial_lens p)
      then Inl ReviewPolicyError else Inr ())"

fun provenance_incomplete :: "route_provenance \<Rightarrow> bool" where
  "provenance_incomplete (RouteObserved _ route _ adapter endpoint family _) =
     (blank_text route \<or> blank_text adapter \<or> is_some_and endpoint blank_text \<or> is_some_and family blank_text)"
| "provenance_incomplete (RouteChairAttested _ route _ declared _) =
     (blank_text route \<or> is_some_and declared blank_text)"
| "provenance_incomplete (RouteUnknown _) = False"

definition validate_provenance :: "route_provenance \<Rightarrow> review_error + unit" where
  "validate_provenance route = (if provenance_incomplete route then Inl ReviewIncomplete else Inr ())"

fun verdict_contradicts :: "review_verdict \<Rightarrow> string list \<Rightarrow> bool" where
  "verdict_contradicts VApprove findings = (findings \<noteq> [])"
| "verdict_contradicts VApproveWithNits findings = (findings \<noteq> [])"
| "verdict_contradicts VRequestChanges findings = (findings = [])"
| "verdict_contradicts VInconclusive findings = False"

fun family_verified :: "route_provenance \<Rightarrow> string \<Rightarrow> bool" where
  "family_verified (RouteObserved _ _ _ _ _ (Some observed) _) family = (observed = family \<and> \<not> blank_text family)"
| "family_verified _ family = False"

definition checked_fact :: "review_fact \<Rightarrow> subject \<Rightarrow> review_policy \<Rightarrow> review_error + review_fact" where
  "checked_fact f output_subject policy =
     res_bind (validate_policy policy) (\<lambda>_.
     if ft_subject f \<noteq> output_subject \<or> verdict_contradicts (ft_verdict f) (ft_blocking_findings f) then Inl ReviewOutput
     else res_bind (validate_provenance (el_provenance (ft_eligibility f))) (\<lambda>_.
     if blank_text (ft_lens f) then Inl ReviewIncomplete
     else case el_verified_model_family (ft_eligibility f) of
         None \<Rightarrow> Inr f
       | Some family \<Rightarrow>
           if family_verified (el_provenance (ft_eligibility f)) family then Inr f else Inl UnverifiedFamily))"

subsection \<open>Receipts\<close>

datatype canonical_error = CanSerialize | CanFloat | CanIntegerOutOfRange | CanDuplicateKey | CanInvalidMap | CanTooDeep
  | CanInvalidKind

datatype receipt_error =
    RcDecode decode_error
  | RcCanonical canonical_error
  | RcRisk risk_error
  | RcReview review_error
  | RcRecord record_error
  | RcVersion
  | RcLimit

definition MAX_RECEIPT_BYTES :: nat where
  "MAX_RECEIPT_BYTES = 64 * 1024"

definition MAX_REVIEW_REFS :: nat where
  "MAX_REVIEW_REFS = 256"

fun validate_authors :: "author list \<Rightarrow> receipt_error + unit" where
  "validate_authors [] = Inr ()"
| "validate_authors (AuthorAgent _ _ route # rest) =
     res_bind (map_err RcReview (validate_provenance route)) (\<lambda>_. validate_authors rest)"
| "validate_authors (AuthorUser _ _ # rest) = validate_authors rest"

definition validate_shape :: "workflow_receipt \<Rightarrow> receipt_error + unit" where
  "validate_shape r =
     (if rc_schema_version r \<noteq> 1 then Inl RcVersion
      else if MAX_REVIEW_REFS < length (rc_review_attempts r) then Inl RcLimit
      else res_bind (map_err RcRecord (receipt_validate_shape r)) (\<lambda>_. validate_authors (rc_authors r)))"

type_synonym canonical_length = "workflow_receipt \<Rightarrow> canonical_error + nat"

definition canonical :: "canonical_length \<Rightarrow> workflow_receipt \<Rightarrow> receipt_error + nat" where
  "canonical bytes r =
     res_bind (validate_shape r) (\<lambda>_.
     res_bind (map_err RcCanonical (bytes r)) (\<lambda>n.
     if MAX_RECEIPT_BYTES < n then Inl RcLimit else Inr n))"

definition validate_receipt :: "canonical_length \<Rightarrow> workflow_receipt \<Rightarrow> receipt_error + unit" where
  "validate_receipt bytes r = res_bind (canonical bytes r) (\<lambda>_. Inr ())"

record receipt_input =
  in_delivery_id :: id
  in_project_id :: id
  in_subject :: subject
  in_authors :: "author list"
  in_risk :: risk_record

definition new_receipt ::
  "canonical_length \<Rightarrow> receipt_input \<Rightarrow> wall_time \<Rightarrow> risk_policy \<Rightarrow> review_policy \<Rightarrow> user_approval option
   \<Rightarrow> receipt_error + workflow_receipt" where
  "new_receipt bytes input now risk_policy review_policy downgrade =
     res_bind (map_err RcRisk (validate_risk (in_risk input) risk_policy downgrade)) (\<lambda>_.
     res_bind (map_err RcReview (validate_policy review_policy)) (\<lambda>_.
     res_bind (map_err RcRecord (receipt_new (in_delivery_id input) (in_project_id input) (in_subject input)
         (in_authors input) (in_risk input) now)) (\<lambda>r.
     res_bind (validate_receipt bytes r) (\<lambda>_. Inr r))))"

datatype receipt_file = FileReceipt workflow_receipt | FileBad decode_error

definition read_receipt :: "canonical_length \<Rightarrow> receipt_file \<Rightarrow> receipt_error + workflow_receipt" where
  "read_receipt bytes file = (case file of
       FileBad e \<Rightarrow> Inl (RcDecode e)
     | FileReceipt r \<Rightarrow> res_bind (validate_receipt bytes r) (\<lambda>_. Inr r))"

subsection \<open>The store\<close>

datatype io_kind = IoNotFound | IoCrossesDevices | IoInvalidInput | IoInvalidData | IoOther

record io_cause =
  io_kind_of :: io_kind
  io_os_code :: "int option"

text \<open>\<open>FsError\<close> of \<open>os/src/fs.rs\<close>, without the paths and names its messages show.\<close>

datatype fs_error =
    FsInvalidComponent
  | FsIo string io_cause
  | FsReadIo io_cause
  | FsRename io_cause
  | FsSymlink io_cause
  | FsCrossDevice
  | FsRaceRefused
  | FsNotRegular
  | FsLockTimeout
  | FsCancelled
  | FsLockRefused
  | FsLockDeadlineOverflow
  | FsInvalidLockName
  | FsReservedLockName
  | FsPayloadMismatch
  | FsNotPrivate
  | FsEntryLimit nat
  | FsTooLarge nat

fun fs_raw_os_error :: "fs_error \<Rightarrow> int option" where
  "fs_raw_os_error (FsIo _ source) = io_os_code source"
| "fs_raw_os_error (FsReadIo source) = io_os_code source"
| "fs_raw_os_error (FsSymlink source) = io_os_code source"
| "fs_raw_os_error (FsRename source) = io_os_code source"
| "fs_raw_os_error FsCrossDevice = Some 18"
| "fs_raw_os_error _ = None"

definition fs_is_not_found :: "fs_error \<Rightarrow> bool" where
  "fs_is_not_found e \<longleftrightarrow> fs_raw_os_error e = Some 2"

fun cause_of :: "fs_error \<Rightarrow> io_cause" where
  "cause_of (FsIo _ source) = source"
| "cause_of (FsReadIo source) = source"
| "cause_of (FsSymlink source) = source"
| "cause_of (FsRename source) = source"
| "cause_of FsCrossDevice = \<lparr>io_kind_of = IoCrossesDevices, io_os_code = Some 18\<rparr>"
| "cause_of FsInvalidComponent = \<lparr>io_kind_of = IoInvalidInput, io_os_code = None\<rparr>"
| "cause_of FsNotRegular = \<lparr>io_kind_of = IoInvalidData, io_os_code = None\<rparr>"
| "cause_of (FsTooLarge _) = \<lparr>io_kind_of = IoInvalidData, io_os_code = None\<rparr>"
| "cause_of _ = \<lparr>io_kind_of = IoOther, io_os_code = None\<rparr>"

datatype receipt_store_error =
    StMalformed receipt_error
  | StInvalidCandidate receipt_error
  | StVersion
  | StLimit
  | StIdentity
  | StStaleSubject
  | StExpired
  | StConflict nat nat
  | StRevisionOverflow
  | StContention
  | StCancelled
  | StDeadline
  | StRisk risk_error
  | StClock time_error
  | StIo string io_cause
  | StDurability io_cause

fun store_from_fs :: "fs_error \<Rightarrow> receipt_store_error" where
  "store_from_fs FsCancelled = StCancelled"
| "store_from_fs FsLockTimeout = StContention"
| "store_from_fs (FsTooLarge n) = StLimit"
| "store_from_fs (FsIo operation source) = StIo operation source"
| "store_from_fs (FsRename source) = StIo ''rename'' source"
| "store_from_fs (FsSymlink source) = StIo ''refuse symlink'' source"
| "store_from_fs e = StIo ''validate filesystem entry'' (cause_of e)"

fun store_from_receipt :: "receipt_error \<Rightarrow> receipt_store_error" where
  "store_from_receipt RcVersion = StVersion"
| "store_from_receipt (RcDecode (UnsupportedVersion _ _ _)) = StVersion"
| "store_from_receipt RcLimit = StLimit"
| "store_from_receipt (RcDecode (TooLarge _)) = StLimit"
| "store_from_receipt e = StMalformed e"

definition store_candidate :: "receipt_error \<Rightarrow> receipt_store_error" where
  "store_candidate e = (case store_from_receipt e of StMalformed e' \<Rightarrow> StInvalidCandidate e' | other \<Rightarrow> other)"

datatype wait_stop = WaitCancelled | WaitDeadline

fun store_from_stop :: "wait_stop \<Rightarrow> receipt_store_error" where
  "store_from_stop WaitCancelled = StCancelled"
| "store_from_stop WaitDeadline = StDeadline"

text \<open>A wait is checked against the cancellation flag and the monotonic time read there.\<close>

definition check_wait :: "mono_time \<Rightarrow> bool \<times> mono_time \<Rightarrow> wait_stop + unit" where
  "check_wait deadline reading =
     (if fst reading then Inl WaitCancelled
      else if is_expired deadline (snd reading) then Inl WaitDeadline
      else Inr ())"

datatype receipt_publication = PubDurable | PubUnconfirmed fs_error

record save_env =
  sv_before :: "bool \<times> mono_time"
  sv_directory :: "fs_error + unit"
  sv_lock :: "fs_error + unit"
  sv_timed_out :: "bool \<times> mono_time"
  sv_locked :: "bool \<times> mono_time"
  sv_read :: "fs_error option"
  sv_now :: "time_error + wall_time"
  sv_publish :: "bool \<times> mono_time"
  sv_write :: "fs_error + receipt_publication"

record save_context =
  cx_subject :: subject
  cx_valid_until :: wall_time
  cx_risk_policy :: risk_policy
  cx_downgrade_approval :: "user_approval option"

record clock_regression =
  cr_previous :: wall_time
  cr_observed :: wall_time

record saved_receipt =
  sr_receipt :: workflow_receipt
  sr_clock_regression :: "clock_regression option"

record receipt_store =
  rs_project :: id
  rs_delivery :: id

definition check_identity :: "receipt_store \<Rightarrow> workflow_receipt \<Rightarrow> receipt_store_error + unit" where
  "check_identity st r =
     (if rc_project_id r \<noteq> rs_project st \<or> rc_delivery_id r \<noteq> rs_delivery st then Inl StIdentity else Inr ())"

text \<open>Reading reports a missing file exactly when there is none.\<close>

definition read_bounded_file :: "fs_error option \<Rightarrow> 'f option \<Rightarrow> fs_error + 'f" where
  "read_bounded_file failure file = (case file of
       None \<Rightarrow> Inl (FsReadIo \<lparr>io_kind_of = IoNotFound, io_os_code = Some 2\<rparr>)
     | Some f \<Rightarrow> (case failure of
           None \<Rightarrow> Inr f
         | Some e \<Rightarrow> if fs_is_not_found e then Inr f else Inl e))"

definition read_in ::
  "canonical_length \<Rightarrow> receipt_store \<Rightarrow> fs_error option \<Rightarrow> receipt_file option \<Rightarrow> receipt_store_error + workflow_receipt option" where
  "read_in bytes st failure file = (case read_bounded_file failure file of
       Inl e \<Rightarrow> if fs_is_not_found e then Inr None else Inl (store_from_fs e)
     | Inr f \<Rightarrow>
         res_bind (map_err store_from_receipt (read_receipt bytes f)) (\<lambda>r.
         res_bind (check_identity st r) (\<lambda>_. Inr (Some r))))"

definition store_read ::
  "canonical_length \<Rightarrow> receipt_store \<Rightarrow> fs_error + unit \<Rightarrow> fs_error option \<Rightarrow> receipt_file option
   \<Rightarrow> receipt_store_error + workflow_receipt option" where
  "store_read bytes st directory failure file = (case map_err store_from_fs directory of
       Inr _ \<Rightarrow> read_in bytes st failure file
     | Inl (StIo operation cause) \<Rightarrow> if io_kind_of cause = IoNotFound then Inr None else Inl (StIo operation cause)
     | Inl e \<Rightarrow> Inl e)"

text \<open>What happens under the lock before anything is published.\<close>

definition commit_candidate ::
  "canonical_length \<Rightarrow> receipt_store \<Rightarrow> wall_time \<Rightarrow> save_context \<Rightarrow> workflow_receipt option \<Rightarrow> workflow_receipt
   \<Rightarrow> receipt_store_error + workflow_receipt" where
  "commit_candidate bytes st now context previous candidate =
     res_bind (map_err (\<lambda>e. case e of
           ReceiptRevisionOverflow \<Rightarrow> StRevisionOverflow
         | e \<Rightarrow> store_candidate (RcRecord e)) (with_commit_metadata previous now candidate)) (\<lambda>committed.
     res_bind (map_err store_candidate (canonical bytes committed)) (\<lambda>_. Inr committed))"

definition check_candidate ::
  "canonical_length \<Rightarrow> receipt_store \<Rightarrow> save_context \<Rightarrow> workflow_receipt option \<Rightarrow> nat \<Rightarrow> workflow_receipt
   \<Rightarrow> receipt_store_error + unit" where
  "check_candidate bytes st context previous expected candidate =
     (let observed = (case previous of None \<Rightarrow> 0 | Some p \<Rightarrow> rc_revision p) in
      if observed \<noteq> expected then Inl (StConflict expected observed)
      else res_bind (check_identity st candidate) (\<lambda>_.
      if rc_subject candidate \<noteq> cx_subject context then Inl StStaleSubject
      else res_bind (map_err store_candidate (validate_receipt bytes candidate)) (\<lambda>_.
      map_err StRisk (validate_risk (rc_risk candidate) (cx_risk_policy context) (cx_downgrade_approval context)))))"

definition prepare_save ::
  "canonical_length \<Rightarrow> receipt_store \<Rightarrow> save_env \<Rightarrow> mono_time \<Rightarrow> save_context \<Rightarrow> nat \<Rightarrow> workflow_receipt \<Rightarrow> receipt_file option
   \<Rightarrow> receipt_store_error + saved_receipt" where
  "prepare_save bytes st env deadline context expected candidate file =
     res_bind (map_err store_from_stop (check_wait deadline (sv_before env))) (\<lambda>_.
     res_bind (map_err store_from_fs (sv_directory env)) (\<lambda>_.
     res_bind (map_err (\<lambda>e. case (e, check_wait deadline (sv_timed_out env)) of
           (FsLockTimeout, Inl stop) \<Rightarrow> store_from_stop stop
         | _ \<Rightarrow> store_from_fs e) (sv_lock env)) (\<lambda>_.
     res_bind (map_err store_from_stop (check_wait deadline (sv_locked env))) (\<lambda>_.
     res_bind (read_in bytes st (sv_read env) file) (\<lambda>previous.
     res_bind (check_candidate bytes st context previous expected candidate) (\<lambda>_.
     res_bind (map_err StClock (sv_now env)) (\<lambda>now.
     if cx_valid_until context \<le> now then Inl StExpired
     else
       let prior_time = (case previous of None \<Rightarrow> now | Some p \<Rightarrow> rc_updated_at p);
           regression = (if now < prior_time then Some \<lparr>cr_previous = prior_time, cr_observed = now\<rparr> else None)
       in res_bind (commit_candidate bytes st now context previous candidate) (\<lambda>committed.
          res_bind (map_err store_from_stop (check_wait deadline (sv_publish env))) (\<lambda>_.
          Inr \<lparr>sr_receipt = committed, sr_clock_regression = regression\<rparr>)))))))))"

text \<open>An atomic write that fails leaves the old file; one whose sync fails has replaced it.\<close>

definition save_receipt ::
  "canonical_length \<Rightarrow> receipt_store \<Rightarrow> save_env \<Rightarrow> mono_time \<Rightarrow> save_context \<Rightarrow> nat \<Rightarrow> workflow_receipt \<Rightarrow> receipt_file option
   \<Rightarrow> (receipt_store_error + saved_receipt) \<times> receipt_file option" where
  "save_receipt bytes st env deadline context expected candidate file =
     (case prepare_save bytes st env deadline context expected candidate file of
        Inl e \<Rightarrow> (Inl e, file)
      | Inr saved \<Rightarrow> (case sv_write env of
            Inl e \<Rightarrow> (Inl (store_from_fs e), file)
          | Inr (PubUnconfirmed e) \<Rightarrow> (Inl (StDurability (cause_of e)), Some (FileReceipt (sr_receipt saved)))
          | Inr PubDurable \<Rightarrow> (Inr saved, Some (FileReceipt (sr_receipt saved)))))"

subsection \<open>Risk claims\<close>

lemma map_err_Inr [simp, ok_iff]: "map_err f m = Inr x \<longleftrightarrow> m = Inr x"
  by (cases m) (simp_all add: map_err_def)

lemma foldl_max_upper:
  fixes a :: "'a :: linorder"
  shows "a \<le> foldl max a xs" "x \<in> set xs \<Longrightarrow> x \<le> foldl max a xs"
proof (induction xs arbitrary: a)
  case (Cons y ys)
  { case 1 show ?case using Cons(1) [of "max a y"] by simp }
  { case 2 then show ?case using Cons(1,2) [of "max a y"] by auto }
qed simp_all

lemma minimum_tier_bounds:
  "rp_minimum policy \<le> minimum_tier factors policy"
  "blast_radius_minimum (fa_blast_radius factors) \<le> minimum_tier factors policy"
  "reversibility_minimum (fa_reversibility factors) \<le> minimum_tier factors policy"
  "data_sensitivity_minimum (fa_data_sensitivity factors) \<le> minimum_tier factors policy"
  "migration_minimum (fa_migration factors) \<le> minimum_tier factors policy"
  "oracle_quality_minimum (fa_oracle_quality factors) \<le> minimum_tier factors policy"
  "external_effects_minimum (fa_external_effects factors) \<le> minimum_tier factors policy"
  "critical_surface_minimum (fa_critical_surface factors) \<le> minimum_tier factors policy"
  unfolding minimum_tier_def by (rule foldl_max_upper(2), simp)+

lemma assess_risk_Inr:
  "assess_risk factors tier policy approval = Inr r \<longleftrightarrow>
     (tier < minimum_tier factors policy \<longrightarrow> approval \<noteq> None)
     \<and> r = \<lparr>rk_extra = [], rk_factors = factors, rk_derived = minimum_tier factors policy, rk_tier = tier,
            rk_downgrade_approval = (if tier < minimum_tier factors policy then map_option approval_from approval else None)\<rparr>"
  by (auto simp: assess_risk_def Let_def risk_record_new_def risk_validate_shape_def)

lemma validate_risk_Inr:
  "validate_risk r policy approval = Inr () \<longleftrightarrow> assess_risk (rk_factors r) (rk_tier r) policy approval = Inr r"
  by (auto simp: validate_risk_def split: if_splits)

subsection \<open>Committing a candidate\<close>

definition receipt_revision_of :: "workflow_receipt option \<Rightarrow> nat" where
  "receipt_revision_of previous = (case previous of None \<Rightarrow> 0 | Some p \<Rightarrow> rc_revision p)"

text \<open>How a receipt follows another in the same file.\<close>

definition receipt_follows :: "workflow_receipt \<Rightarrow> workflow_receipt \<Rightarrow> bool" where
  "receipt_follows p r \<longleftrightarrow> rc_delivery_id r = rc_delivery_id p \<and> rc_project_id r = rc_project_id p
     \<and> rc_created_at r = rc_created_at p \<and> rc_revision p < rc_revision r \<and> rc_updated_at p \<le> rc_updated_at r"

lemma receipt_follows_trans: "receipt_follows p q \<Longrightarrow> receipt_follows q r \<Longrightarrow> receipt_follows p r"
  by (simp add: receipt_follows_def)

lemma commit_metadata_Inr:
  assumes "with_commit_metadata previous now r = Inr c"
  shows "receipt_validate_shape c = Inr () \<and> rc_revision c = Suc (receipt_revision_of previous)
    \<and> rc_delivery_id c = rc_delivery_id r \<and> rc_project_id c = rc_project_id r
    \<and> rc_subject c = rc_subject r \<and> rc_authors c = rc_authors r \<and> rc_risk c = rc_risk r \<and> now \<le> rc_updated_at c
    \<and> (case previous of None \<Rightarrow> rc_created_at c = now | Some p \<Rightarrow> receipt_follows p c)
    \<and> (if \<exists>p. previous = Some p \<and> rc_subject p \<noteq> rc_subject r then rc_decision c = decision_pending \<and> rc_review_attempts c = []
       else rc_decision c = rc_decision r \<and> rc_review_attempts c = rc_review_attempts r)"
  using assms
  by (cases previous) (auto simp: with_commit_metadata_def Let_def receipt_revision_of_def receipt_follows_def split: if_splits)

lemma check_candidate_Inr:
  "check_candidate bytes st context previous expected candidate = Inr () \<longleftrightarrow>
     receipt_revision_of previous = expected \<and> check_identity st candidate = Inr () \<and> rc_subject candidate = cx_subject context
     \<and> validate_receipt bytes candidate = Inr ()
     \<and> validate_risk (rc_risk candidate) (cx_risk_policy context) (cx_downgrade_approval context) = Inr ()"
  by (auto simp: check_candidate_def Let_def receipt_revision_of_def)

lemma commit_candidate_Inr:
  "commit_candidate bytes st now context previous candidate = Inr c \<longleftrightarrow>
     with_commit_metadata previous now candidate = Inr c \<and> is_ok (canonical bytes c)"
  by (auto simp: commit_candidate_def is_ok_iff)

lemma prepare_save_Inr:
  assumes "prepare_save bytes st env deadline context expected candidate file = Inr saved"
  obtains previous now where "read_in bytes st (sv_read env) file = Inr previous"
    "check_candidate bytes st context previous expected candidate = Inr ()"
    "sv_now env = Inr now" "now < cx_valid_until context"
    "commit_candidate bytes st now context previous candidate = Inr (sr_receipt saved)"
  using assms by (auto simp: prepare_save_def Let_def split: if_splits)

lemma prepare_save_committed:
  assumes "prepare_save bytes st env deadline context expected candidate file = Inr saved"
  obtains previous now where "read_in bytes st (sv_read env) file = Inr previous"
    "check_candidate bytes st context previous expected candidate = Inr ()"
    "sv_now env = Inr now" "now < cx_valid_until context"
    "with_commit_metadata previous now candidate = Inr (sr_receipt saved)"
    "validate_receipt bytes (sr_receipt saved) = Inr ()" "check_identity st (sr_receipt saved) = Inr ()"
proof -
  from prepare_save_Inr [OF assms] obtain previous now where p: "read_in bytes st (sv_read env) file = Inr previous"
    "check_candidate bytes st context previous expected candidate = Inr ()"
    "sv_now env = Inr now" "now < cx_valid_until context"
    "commit_candidate bytes st now context previous candidate = Inr (sr_receipt saved)" by blast
  then have m: "with_commit_metadata previous now candidate = Inr (sr_receipt saved)" and "is_ok (canonical bytes (sr_receipt saved))"
    by (simp_all add: commit_candidate_Inr)
  then have "validate_receipt bytes (sr_receipt saved) = Inr ()" by (auto simp: validate_receipt_def is_ok_iff)
  moreover have "check_identity st (sr_receipt saved) = Inr ()"
    using commit_metadata_Inr [OF m] p(2) by (simp add: check_candidate_Inr check_identity_def)
  ultimately show thesis using that p(1-4) m by blast
qed

lemma read_in_Inr:
  "read_in bytes st failure file = Inr previous \<Longrightarrow>
     (case previous of None \<Rightarrow> file = None | Some r \<Rightarrow> file = Some (FileReceipt r) \<and> validate_receipt bytes r = Inr () \<and> check_identity st r = Inr ())"
  by (auto simp: read_in_def read_bounded_file_def read_receipt_def fs_is_not_found_def split: option.splits receipt_file.splits if_splits)

subsection \<open>Histories of saves\<close>

record save_request =
  rq_env :: save_env
  rq_deadline :: mono_time
  rq_context :: save_context
  rq_expected :: nat
  rq_candidate :: workflow_receipt

text \<open>A step is one save by some process, and emits the receipt if it reported success.\<close>

definition save_step ::
  "canonical_length \<Rightarrow> receipt_store \<Rightarrow> receipt_file option \<Rightarrow> save_request \<Rightarrow> receipt_file option \<times> workflow_receipt list" where
  "save_step bytes st file rq =
     (case save_receipt bytes st (rq_env rq) (rq_deadline rq) (rq_context rq) (rq_expected rq) (rq_candidate rq) file of
        (Inl e, file') \<Rightarrow> (file', [])
      | (Inr saved, file') \<Rightarrow> (file', [sr_receipt saved]))"

definition receipt_file_ok :: "canonical_length \<Rightarrow> receipt_store \<Rightarrow> receipt_file option \<Rightarrow> bool" where
  "receipt_file_ok bytes st file \<longleftrightarrow> is_ok (read_in bytes st None file)"

definition file_follows :: "receipt_file option \<Rightarrow> receipt_file option \<Rightarrow> bool" where
  "file_follows file file' \<longleftrightarrow> file' = file \<or> (\<exists>r'. file' = Some (FileReceipt r')
     \<and> (case file of None \<Rightarrow> True | Some (FileReceipt r) \<Rightarrow> receipt_follows r r' | Some (FileBad _) \<Rightarrow> False))"

lemma file_ok_receipt:
  "receipt_file_ok bytes st (Some (FileReceipt r)) \<longleftrightarrow> validate_receipt bytes r = Inr () \<and> check_identity st r = Inr ()"
  by (auto simp: receipt_file_ok_def is_ok_iff read_in_def read_bounded_file_def read_receipt_def)

text \<open>A step keeps the file, or replaces it by the receipt that was prepared.\<close>

lemma save_step_cases:
  obtains "save_step bytes st file rq = (file, [])"
  | saved out where "prepare_save bytes st (rq_env rq) (rq_deadline rq) (rq_context rq) (rq_expected rq) (rq_candidate rq) file = Inr saved"
      "save_step bytes st file rq = (Some (FileReceipt (sr_receipt saved)), out)" "out \<in> {[], [sr_receipt saved]}"
proof (cases "prepare_save bytes st (rq_env rq) (rq_deadline rq) (rq_context rq) (rq_expected rq) (rq_candidate rq) file")
  case (Inl e)
  then show thesis by (intro that(1)) (simp add: save_step_def save_receipt_def)
next
  case (Inr saved)
  show thesis
  proof (cases "sv_write (rq_env rq)")
    case (Inl e)
    with Inr show thesis by (intro that(1)) (simp add: save_step_def save_receipt_def)
  next
    case out: (Inr pub)
    show thesis
    proof (cases pub)
      case PubDurable
      with Inr out show thesis by (intro that(2) [of saved "[sr_receipt saved]"]) (simp_all add: save_step_def save_receipt_def)
    next
      case (PubUnconfirmed e)
      with Inr out show thesis by (intro that(2) [of saved "[]"]) (simp_all add: save_step_def save_receipt_def)
    qed
  qed
qed

lemma prepared_follows:
  assumes "prepare_save bytes st env deadline context expected candidate file = Inr saved"
  shows "receipt_file_ok bytes st (Some (FileReceipt (sr_receipt saved)))" "file_follows file (Some (FileReceipt (sr_receipt saved)))"
    "(case file of Some (FileReceipt r) \<Rightarrow> receipt_follows r (sr_receipt saved) | None \<Rightarrow> True | _ \<Rightarrow> False)"
proof -
  from prepare_save_committed [OF assms] obtain previous now where
    r: "read_in bytes st (sv_read env) file = Inr previous" and m: "with_commit_metadata previous now candidate = Inr (sr_receipt saved)"
    and ok: "validate_receipt bytes (sr_receipt saved) = Inr ()" "check_identity st (sr_receipt saved) = Inr ()" by blast
  show "receipt_file_ok bytes st (Some (FileReceipt (sr_receipt saved)))" using ok by (simp add: file_ok_receipt)
  show f: "(case file of Some (FileReceipt r) \<Rightarrow> receipt_follows r (sr_receipt saved) | None \<Rightarrow> True | _ \<Rightarrow> False)"
    using read_in_Inr [OF r] commit_metadata_Inr [OF m] by (auto split: option.splits)
  then show "file_follows file (Some (FileReceipt (sr_receipt saved)))"
    by (auto simp: file_follows_def split: option.splits receipt_file.splits)
qed

lemma file_follows_trans:
  assumes "file_follows s t" "file_follows t u"
  shows "file_follows s u"
proof (cases "t = s \<or> u = t")
  case True
  with assms show ?thesis by auto
next
  case False
  with assms(1) obtain r where t: "t = Some (FileReceipt r)" by (auto simp: file_follows_def)
  with assms(2) False obtain r' where "u = Some (FileReceipt r')" "receipt_follows r r'"
    by (auto simp: file_follows_def)
  with t assms(1) False show ?thesis
    by (auto simp: file_follows_def split: option.splits receipt_file.splits intro: receipt_follows_trans)
qed

interpretation receipt_saves: monotone_machine "save_step bytes st" "receipt_file_ok bytes st" file_follows
proof
  fix s t u :: "receipt_file option" and e
  show "file_follows s s" by (simp add: file_follows_def)
  show "file_follows s t \<Longrightarrow> file_follows t u \<Longrightarrow> file_follows s u"
    by (rule file_follows_trans)
  show "receipt_file_ok bytes st (fst (save_step bytes st s e))" if "receipt_file_ok bytes st s"
    using that prepared_follows(1) by (cases rule: save_step_cases [of bytes st s e]) (auto simp: file_follows_def)
  show "file_follows s (fst (save_step bytes st s e))" if "receipt_file_ok bytes st s"
    using prepared_follows(2) by (cases rule: save_step_cases [of bytes st s e]) (auto simp: file_follows_def)
qed

lemma run_follows:
  assumes "receipt_file_ok bytes st s"
  shows "sorted_wrt receipt_follows (snd (run_machine (save_step bytes st) s es))
    \<and> (\<forall>p r. s = Some (FileReceipt p) \<longrightarrow> r \<in> set (snd (run_machine (save_step bytes st) s es)) \<longrightarrow> receipt_follows p r)"
  using assms
proof (induction es arbitrary: s)
  case (Cons e es)
  have ok: "receipt_file_ok bytes st (fst (save_step bytes st s e))" by (rule receipt_saves.step_inv [OF Cons.prems])
  show ?case
  proof (cases rule: save_step_cases [of bytes st s e])
    case 1
    then have same: "run_machine (save_step bytes st) s (e # es) = run_machine (save_step bytes st) s es" by simp
    show ?thesis unfolding same by (rule Cons.IH [OF Cons.prems])
  next
    case (2 saved out)
    let ?c = "sr_receipt saved" and ?rest = "snd (run_machine (save_step bytes st) (Some (FileReceipt (sr_receipt saved))) es)"
    from Cons.IH [OF ok] 2(2) have rest: "sorted_wrt receipt_follows ?rest" "r \<in> set ?rest \<Longrightarrow> receipt_follows ?c r" for r
      by simp_all
    have first: "receipt_follows p ?c" if "s = Some (FileReceipt p)" for p
      using prepared_follows(3) [OF 2(1)] that by simp
    have run: "snd (run_machine (save_step bytes st) s (e # es)) = out @ ?rest" by (simp add: 2(2))
    show ?thesis unfolding run using rest first 2(3) by (auto intro: receipt_follows_trans)
  qed
qed simp

lemma assessed_downgrade:
  assumes "assess_risk (rk_factors r) (rk_tier r) policy approval = Inr r"
  shows "minimum_tier (rk_factors r) policy \<le> rk_tier r
    \<or> (\<exists>a. approval = Some a \<and> rk_downgrade_approval r = Some (approval_from a))"
proof (cases "rk_tier r < minimum_tier (rk_factors r) policy")
  case True
  with assms obtain a where "approval = Some a" and r: "r = \<lparr>rk_extra = [], rk_factors = rk_factors r, rk_derived = minimum_tier (rk_factors r) policy,
      rk_tier = rk_tier r, rk_downgrade_approval = map_option approval_from approval\<rparr>"
    unfolding assess_risk_Inr by auto
  moreover from r have "rk_downgrade_approval r = map_option approval_from approval"
    by (metis risk_record.select_convs(5))
  ultimately show ?thesis by simp
qed (simp add: not_less)

lemma save_receipt_Inr:
  assumes "save_receipt bytes st env deadline context expected candidate file = (Inr saved, file')"
  shows "prepare_save bytes st env deadline context expected candidate file = Inr saved \<and> file' = Some (FileReceipt (sr_receipt saved))"
  using assms by (auto simp: save_receipt_def split: sum.splits receipt_publication.splits)

lemma save_receipt_Inl:
  assumes "save_receipt bytes st env deadline context expected candidate file = (Inl e, file')"
  shows "file' = file \<or> (\<exists>saved cause. prepare_save bytes st env deadline context expected candidate file = Inr saved
    \<and> e = StDurability cause \<and> file' = Some (FileReceipt (sr_receipt saved)))"
  using assms by (auto simp: save_receipt_def split: sum.splits receipt_publication.splits)

lemma decision_validate_Inr:
  "decision_validate d context = Inr () \<longleftrightarrow> (\<forall>t. decision_at d = Some t \<longrightarrow>
     dc_created_at context \<le> t \<and> t \<le> dc_updated_at context \<and> \<not> is_none_or (decision_reason d) blank_text
     \<and> (dc_tier context = RT_Terminal \<longrightarrow> decision_user_approval d \<noteq> None))"
  by (auto simp: decision_validate_def split: option.splits)

lemma receipt_shape_Inr:
  assumes "receipt_validate_shape r = Inr ()"
  shows "rc_authors r \<noteq> [] \<and> distinct (map author_actor_id (rc_authors r)) \<and> distinct (rc_review_attempts r)
    \<and> risk_validate_shape (rc_risk r) = Inr () \<and> decision_validate (rc_decision r) (decision_context_of r) = Inr ()"
proof -
  from assms have "card (set (map author_actor_id (rc_authors r))) = length (map author_actor_id (rc_authors r))"
    and "card (set (rc_review_attempts r)) = length (rc_review_attempts r)"
    by (auto simp: receipt_validate_shape_def split: if_splits)
  then have "distinct (map author_actor_id (rc_authors r))" "distinct (rc_review_attempts r)"
    by (blast intro: card_distinct)+
  with assms show ?thesis by (auto simp: receipt_validate_shape_def split: if_splits)
qed

subsection \<open>An example\<close>

definition example_factors :: risk_factors where
  "example_factors = \<lparr>fa_extra = [], fa_blast_radius = BR_MultiModule, fa_reversibility = RE_Easy, fa_data_sensitivity = DS_Public,
     fa_migration = MG_None, fa_oracle_quality = OQ_Strong, fa_external_effects = EE_None, fa_critical_surface = CS_None\<rparr>"

definition example_receipt :: "nat \<Rightarrow> workflow_receipt" where
  "example_receipt number = \<lparr>rc_extra = [], rc_schema_version = 1, rc_delivery_id = ''d'', rc_project_id = ''p'', rc_revision = 1,
     rc_subject = SubjectPr [] ''r'' number (Sha1 ''h''), rc_authors = [AuthorUser [] ''a''],
     rc_risk = \<lparr>rk_extra = [], rk_factors = example_factors, rk_derived = RT_Substantial, rk_tier = RT_Substantial, rk_downgrade_approval = None\<rparr>,
     rc_review_attempts = [], rc_decision = decision_pending, rc_created_at = 5, rc_updated_at = 5\<rparr>"

definition example_store :: receipt_store where
  "example_store = \<lparr>rs_project = ''p'', rs_delivery = ''d''\<rparr>"

definition example_env :: "fs_error + receipt_publication \<Rightarrow> save_env" where
  "example_env write = \<lparr>sv_before = (False, 0), sv_directory = Inr (), sv_lock = Inr (), sv_timed_out = (False, 0), sv_locked = (False, 0),
     sv_read = None, sv_now = Inr 7, sv_publish = (False, 0), sv_write = write\<rparr>"

definition example_context :: "nat \<Rightarrow> save_context" where
  "example_context number = \<lparr>cx_subject = SubjectPr [] ''r'' number (Sha1 ''h''), cx_valid_until = 10,
     cx_risk_policy = default_risk_policy, cx_downgrade_approval = None\<rparr>"

lemmas example_save = example_factors_def example_receipt_def example_store_def example_env_def example_context_def
  save_receipt_def prepare_save_def check_wait_def is_expired_def read_in_def read_bounded_file_def read_receipt_def fs_is_not_found_def
  check_candidate_def check_identity_def validate_receipt_def canonical_def validate_shape_def receipt_validate_shape_def
  risk_validate_shape_def decision_validate_def decision_pending_def validate_risk_def assess_risk_def risk_record_new_def
  commit_candidate_def with_commit_metadata_def u64_checked_add_def MAX_REVIEW_REFS_def MAX_RECEIPT_BYTES_def map_err_def Let_def
  default_risk_policy_def minimum_tier_def less_risk_tier_def less_eq_risk_tier_def max_def decision_context_of_def

lemma example_first_save:
  "save_receipt (\<lambda>_. Inr 100) example_store (example_env (Inr PubDurable)) 1 (example_context 4) 0 (example_receipt 4) None
   = (Inr \<lparr>sr_receipt = (example_receipt 4)\<lparr>rc_created_at := 7, rc_updated_at := 7\<rparr>, sr_clock_regression = None\<rparr>,
      Some (FileReceipt ((example_receipt 4)\<lparr>rc_created_at := 7, rc_updated_at := 7\<rparr>)))"
  by (simp add: example_save)

lemma example_unconfirmed_save:
  "save_receipt (\<lambda>_. Inr 100) example_store (example_env (Inr (PubUnconfirmed (FsIo ''sync directory'' \<lparr>io_kind_of = IoOther, io_os_code = Some 5\<rparr>)))) 1 (example_context 4) 0 (example_receipt 4) None
   = (Inl (StDurability \<lparr>io_kind_of = IoOther, io_os_code = Some 5\<rparr>),
      Some (FileReceipt ((example_receipt 4)\<lparr>rc_created_at := 7, rc_updated_at := 7\<rparr>)))"
  by (simp add: example_save)

subsection \<open>Properties\<close>



text \<open>
  C23: A saved receipt has been checked. A save that reports success replaced the receipt of
  exactly the expected revision by one of the next revision, for the subject and identity the
  caller is authoritative for and before its facts expired. Its risk tier is at least every
  factor's and the policy's minimum, unless it carries the downgrade approval the caller
  supplied; a decision at terminal risk carries a user approval; and when the subject changed,
  the decision is pending again and no review is bound.
\<close>

theorem saved_receipt_is_checked:
  assumes "save_receipt bytes st env deadline context expected candidate file = (Inr saved, file')"
  shows "file' = Some (FileReceipt (sr_receipt saved))
    \<and> (case file of None \<Rightarrow> expected = 0 | Some (FileReceipt p) \<Rightarrow> expected = rc_revision p | Some (FileBad _) \<Rightarrow> False)
    \<and> rc_revision (sr_receipt saved) = Suc expected
    \<and> rc_subject (sr_receipt saved) = cx_subject context
    \<and> rc_project_id (sr_receipt saved) = rs_project st \<and> rc_delivery_id (sr_receipt saved) = rs_delivery st
    \<and> (\<exists>now. sv_now env = Inr now \<and> now < cx_valid_until context \<and> now \<le> rc_updated_at (sr_receipt saved))
    \<and> (minimum_tier (rk_factors (rc_risk (sr_receipt saved))) (cx_risk_policy context) \<le> rk_tier (rc_risk (sr_receipt saved))
       \<or> (\<exists>a. cx_downgrade_approval context = Some a
            \<and> rk_downgrade_approval (rc_risk (sr_receipt saved)) = Some (approval_from a)))
    \<and> (rk_tier (rc_risk (sr_receipt saved)) = RT_Terminal \<longrightarrow> decision_status_of (rc_decision (sr_receipt saved)) \<noteq> Pending
       \<longrightarrow> decision_user_approval (rc_decision (sr_receipt saved)) \<noteq> None)
    \<and> (\<forall>p. file = Some (FileReceipt p) \<longrightarrow> rc_subject p \<noteq> rc_subject (sr_receipt saved)
       \<longrightarrow> decision_status_of (rc_decision (sr_receipt saved)) = Pending \<and> rc_review_attempts (sr_receipt saved) = [])"
proof -
  let ?c = "sr_receipt saved"
  from save_receipt_Inr [OF assms] have prep: "prepare_save bytes st env deadline context expected candidate file = Inr saved"
    and file': "file' = Some (FileReceipt ?c)" by blast+
  from prepare_save_committed [OF prep] obtain previous now where p: "read_in bytes st (sv_read env) file = Inr previous"
    "check_candidate bytes st context previous expected candidate = Inr ()" "sv_now env = Inr now" "now < cx_valid_until context"
    "with_commit_metadata previous now candidate = Inr ?c" "check_identity st ?c = Inr ()" by blast
  note c = commit_metadata_Inr [OF p(5)]
  from p(2) have chk: "receipt_revision_of previous = expected" "rc_subject candidate = cx_subject context"
    "assess_risk (rk_factors (rc_risk candidate)) (rk_tier (rc_risk candidate)) (cx_risk_policy context) (cx_downgrade_approval context) = Inr (rc_risk candidate)"
    by (simp_all add: check_candidate_Inr validate_risk_Inr)
  have "minimum_tier (rk_factors (rc_risk ?c)) (cx_risk_policy context) \<le> rk_tier (rc_risk ?c)
      \<or> (\<exists>a. cx_downgrade_approval context = Some a \<and> rk_downgrade_approval (rc_risk ?c) = Some (approval_from a))"
    using assessed_downgrade [OF chk(3)] c by auto
  moreover have "decision_user_approval (rc_decision ?c) \<noteq> None"
    if "rk_tier (rc_risk ?c) = RT_Terminal" "decision_status_of (rc_decision ?c) \<noteq> Pending"
    using receipt_shape_Inr [of ?c] c that by (cases "rc_decision ?c") (auto simp: decision_validate_Inr decision_context_of_def)
  moreover have "decision_status_of (rc_decision ?c) = Pending \<and> rc_review_attempts ?c = []"
    if "file = Some (FileReceipt q)" "rc_subject q \<noteq> rc_subject ?c" for q
    using that read_in_Inr [OF p(1)] c by (cases previous) (auto simp: decision_pending_def split: if_splits)
  moreover have "case file of None \<Rightarrow> expected = 0 | Some (FileReceipt p) \<Rightarrow> expected = rc_revision p | Some (FileBad _) \<Rightarrow> False"
    using read_in_Inr [OF p(1)] chk(1) by (auto simp: receipt_revision_of_def split: option.splits)
  ultimately show ?thesis using file' c chk p(3,4,6) by (auto simp: check_identity_def split: if_splits)
qed

theorem saved_receipt_is_checked_witness:
  "rc_revision ((example_receipt 4)\<lparr>rc_created_at := 7, rc_updated_at := 7\<rparr>) = Suc 0
   \<and> minimum_tier example_factors default_risk_policy \<le> RT_Substantial"
proof -
  note ok = saved_receipt_is_checked [OF example_first_save]
  have "rk_downgrade_approval (rc_risk (example_receipt 4)) = None" "rk_factors (rc_risk (example_receipt 4)) = example_factors"
    "rk_tier (rc_risk (example_receipt 4)) = RT_Substantial" "cx_risk_policy (example_context 4) = default_risk_policy"
    by (simp_all add: example_receipt_def example_context_def)
  with ok show ?thesis by simp
qed



end
