(* ===== verification/Workflow_Coverage.thy ===== *)
theory Workflow_Coverage
  imports Workflow_Receipt "HOL-Library.Char_ord" "HOL-Library.List_Lexorder" "HOL-Library.Product_Lexorder" "HOL-Library.Multiset"
begin

section \<open>Review binding and coverage (crate workflow)\<close>

text \<open>
  \<open>workflow/src/bind.rs\<close> and \<open>coverage.rs\<close>: a review claim is bound to the attempt that produced
  it, and the bound facts are checked against what the risk of the subject requires: enough
  independent reviews through distinct lenses, from families other than the authors' or with
  evidence why not, and an adversarial one at terminal risk. The choice of the reviews that
  count is a search over all subsets of at most sixteen candidates, a loop over bit masks.
  \<open>str::to_lowercase\<close> is the table of Unicode, an argument here.
\<close>

subsection \<open>Attempt facts\<close>

datatype attempt_outcome =
    AO_Succeeded | AO_ReviewRequired | AO_Failed | AO_Rejected | AO_Cancelled | AO_TimedOut | AO_RateLimited
  | AO_QuotaLimited | AO_AuthRequired | AO_ModelUnavailable | AO_PermissionDenied | AO_Quarantined | AO_Lost
  | AO_Unsettled | AO_Uncommitted | AO_InputRequired

record route_fact =
  rf_provider :: "string option"
  rf_route_model :: "string option"
  rf_effort :: "string option"
  rf_account_label :: "string option"

datatype reviewer_provenance = RP_Observed | RP_ChairAttested | RP_Unknown

record reviewer_fact =
  rv_provenance :: reviewer_provenance
  rv_actor_id :: id
  rv_family :: "string option"
  rv_model :: "string option"

record output_ref =
  or_path :: path_wire
  or_digest :: digest

text \<open>The fields of \<open>AttemptFact\<close> that identify the attempt and that the binding reads.\<close>

record attempt_fact =
  at_attempt_id :: id
  at_task_id :: id
  at_attempt_number :: nat
  at_project_id :: id
  at_terminal_state :: attempt_outcome
  at_resolved_route :: "route_fact option"
  at_reviewer :: "reviewer_fact option"
  at_delivery_id :: "id option"
  at_head :: "git_oid option"
  at_output_refs :: "output_ref list"
  at_observed_route :: "route_fact option"

subsection \<open>Binding\<close>

record review_claim =
  cl_lens :: string
  cl_verdict :: review_verdict
  cl_blocking_findings :: "string list"
  cl_tier :: model_tier

datatype bind_error =
    BE_NotSucceeded | BE_NoReviewer | BE_NoOutput | BE_MultipleOutputs | BE_NoObservedRoute | BE_Delivery | BE_Head
  | BE_Review review_error

definition route_text :: "string \<Rightarrow> route_fact \<Rightarrow> string" where
  "route_text provider r = provider @ ''/'' @ unwrap_or ''unknown'' (rf_route_model r) @ ''@'' @ unwrap_or ''default'' (rf_effort r)"

definition attempt_route :: "attempt_fact \<Rightarrow> string" where
  "attempt_route a =
     (case (case at_observed_route a of Some r \<Rightarrow> Some r | None \<Rightarrow> at_resolved_route a) of
        Some r \<Rightarrow> route_text (unwrap_or ''unknown'' (rf_provider r)) r
      | None \<Rightarrow> ''unknown'')"

definition bound_provenance ::
  "attempt_fact \<Rightarrow> reviewer_fact \<Rightarrow> model_tier \<Rightarrow> evidence_ref \<Rightarrow> bind_error + route_provenance \<times> string option" where
  "bound_provenance a reviewer tier evidence = (case rv_provenance reviewer of
       RP_Observed \<Rightarrow>
         res_bind (ok_or BE_NoObservedRoute (at_observed_route a)) (\<lambda>observed.
         res_bind (ok_or BE_NoObservedRoute (case rf_provider observed of
             Some provider \<Rightarrow> if provider \<noteq> [] then Some provider else None | None \<Rightarrow> None)) (\<lambda>adapter.
         Inr (RouteObserved [] (route_text adapter observed) tier adapter None (rv_family reviewer) evidence, rv_family reviewer)))
     | RP_ChairAttested \<Rightarrow> Inr (RouteChairAttested [] (attempt_route a) tier (rv_family reviewer) evidence, None)
     | RP_Unknown \<Rightarrow> Inr (RouteUnknown [], None))"

definition bind_review_fact ::
  "attempt_fact \<Rightarrow> review_claim \<Rightarrow> subject \<Rightarrow> id \<Rightarrow> review_policy \<Rightarrow> bind_error + review_fact" where
  "bind_review_fact a claim subject delivery policy =
     (if at_terminal_state a \<noteq> AO_Succeeded then Inl BE_NotSucceeded
      else if at_delivery_id a \<noteq> Some delivery then Inl BE_Delivery
      else res_bind (ok_or BE_NoReviewer (at_reviewer a)) (\<lambda>reviewer.
      if 1 < length (at_output_refs a) then Inl BE_MultipleOutputs
      else res_bind (case at_output_refs a of [] \<Rightarrow> Inl BE_NoOutput | o' # _ \<Rightarrow> Inr o') (\<lambda>output.
      if (case subject of SubjectPr _ _ _ head \<Rightarrow> at_head a \<noteq> Some head | _ \<Rightarrow> False) then Inl BE_Head
      else
        let evidence = \<lparr>ev_extra = [], ev_path = or_path output, ev_digest = or_digest output\<rparr> in
        res_bind (bound_provenance a reviewer (cl_tier claim) evidence) (\<lambda>(provenance, family).
        map_err BE_Review (checked_fact
          \<lparr>ft_attempt_id = at_attempt_id a, ft_reviewer_id = rv_actor_id reviewer, ft_subject = subject, ft_output = evidence,
           ft_verdict = cl_verdict claim, ft_blocking_findings = cl_blocking_findings claim,
           ft_eligibility = \<lparr>el_provenance = provenance, el_verified_model_family = family\<rparr>, ft_lens = cl_lens claim\<rparr>
          subject policy)))))"

subsection \<open>Coverage\<close>

record leg_blocker =
  lb_reference :: evidence_ref
  lb_expires_at :: wall_time

record review_context =
  vc_subject :: subject
  vc_authors :: "author list"
  vc_decision_makers :: "id list"
  vc_risk :: risk_tier
  vc_now :: wall_time
  vc_policy :: review_policy
  vc_blockers :: "leg_blocker list"

datatype coverage_status = CovPassed | CovFailed | CovIncomplete

record coverage_diagnostic =
  dg_code :: string
  dg_field :: string
  dg_message :: string
  dg_remedy :: string

record validation_report =
  vr_status :: coverage_status
  vr_required :: nat
  vr_counted :: "id list"
  vr_diagnostics :: "coverage_diagnostic list"

fun required_reviews :: "review_policy \<Rightarrow> risk_tier \<Rightarrow> nat" where
  "required_reviews p RT_Routine = pol_routine p"
| "required_reviews p RT_Substantial = pol_substantial p"
| "required_reviews p RT_Crucial = pol_crucial p"
| "required_reviews p RT_Terminal = pol_terminal p"

fun route_tier :: "route_provenance \<Rightarrow> model_tier option" where
  "route_tier (RouteObserved _ _ tier _ _ _ _) = Some tier"
| "route_tier (RouteChairAttested _ _ tier _ _) = Some tier"
| "route_tier (RouteUnknown _) = None"

definition MAX_SEARCH :: nat where
  "MAX_SEARCH = 16"

fun declared_family :: "route_provenance \<Rightarrow> string option" where
  "declared_family (RouteObserved _ _ _ _ _ family _) = family"
| "declared_family (RouteChairAttested _ _ _ family _) = family"
| "declared_family (RouteUnknown _) = None"

definition lens_key :: "(string \<Rightarrow> string) \<Rightarrow> string \<Rightarrow> string" where
  "lens_key lower lens = lower (trim lens)"

record review_candidate =
  cn_fact :: review_fact
  cn_cross_family :: "string option"

definition author_agents :: "review_context \<Rightarrow> route_provenance list" where
  "author_agents ctx = concat (map (\<lambda>a. case a of AuthorAgent _ _ route \<Rightarrow> [route] | AuthorUser _ _ \<Rightarrow> []) (vc_authors ctx))"

text \<open>The greatest known tier, and the families if all are known.\<close>

definition author_tier :: "review_context \<Rightarrow> model_tier option" where
  "author_tier ctx = (case List.map_filter route_tier (author_agents ctx) of
       [] \<Rightarrow> None
     | t # ts \<Rightarrow> Some (foldl max t ts))"

definition author_families :: "review_context \<Rightarrow> string list option" where
  "author_families ctx = those (map declared_family (author_agents ctx))"

definition excluded_actors :: "review_context \<Rightarrow> id set" where
  "excluded_actors ctx = set (map author_actor_id (vc_authors ctx) @ vc_decision_makers ctx)"

text \<open>\<open>Option<ModelTier>\<close> is ordered with \<open>None\<close> below every tier.\<close>

definition tier_below :: "model_tier option \<Rightarrow> model_tier option \<Rightarrow> bool" where
  "tier_below a b = (case b of None \<Rightarrow> False | Some y \<Rightarrow> (case a of None \<Rightarrow> True | Some x \<Rightarrow> x < y))"

fun is_unknown_route :: "route_provenance \<Rightarrow> bool" where
  "is_unknown_route (RouteUnknown _) = True"
| "is_unknown_route _ = False"

fun is_observed_route :: "route_provenance \<Rightarrow> bool" where
  "is_observed_route (RouteObserved _ _ _ _ _ _ _) = True"
| "is_observed_route _ = False"

definition cross_family_of :: "review_context \<Rightarrow> review_fact \<Rightarrow> string option" where
  "cross_family_of ctx f =
     (case (el_verified_model_family (ft_eligibility f), author_families ctx) of
        (Some family, Some families) \<Rightarrow>
          if is_observed_route (el_provenance (ft_eligibility f)) \<and> family \<notin> set families then Some family else None
      | _ \<Rightarrow> None)"

record cover_state =
  cv_failed :: bool
  cv_notes :: "coverage_diagnostic list"
  cv_seen :: "id list"
  cv_candidates :: "review_candidate list"

definition add_note :: "string \<Rightarrow> string \<Rightarrow> string \<Rightarrow> string \<Rightarrow> cover_state \<Rightarrow> cover_state" where
  "add_note code field' message remedy s =
     s\<lparr>cv_notes := cv_notes s @ [\<lparr>dg_code = code, dg_field = field', dg_message = message, dg_remedy = remedy\<rparr>]\<rparr>"

definition cover_fact :: "review_context \<Rightarrow> cover_state \<Rightarrow> review_fact \<Rightarrow> cover_state" where
  "cover_fact ctx s f =
     (let field' = ''reviews/'' @ show_id (ft_attempt_id f); route = el_provenance (ft_eligibility f) in
      if ft_subject f \<noteq> vc_subject ctx then
        add_note ''stale_subject'' field' ''review is for a different subject than the receipt''
          ''re-run the review against the current subject'' s
      else if ft_verdict f = VRequestChanges then
        add_note ''blocking_review'' field' (decimal (length (ft_blocking_findings f)) @ '' blocking finding(s) outstanding'')
          ''repair the findings, then obtain a fresh review'' (s\<lparr>cv_failed := True\<rparr>)
      else if ft_verdict f = VInconclusive then
        add_note ''inconclusive_review'' field' ''review is inconclusive and supplies no coverage''
          ''obtain a fresh review with a passing verdict'' s
      else if ft_reviewer_id f \<in> excluded_actors ctx then
        add_note ''reviewer_not_independent'' field' ''reviewer is an author or decision maker''
          ''use a reviewer who did not author or decide this work'' s
      else if is_unknown_route route then
        add_note ''reviewer_route_unknown'' field' ''reviewer route is unknown, so the review is findings only''
          ''record the reviewer's route from the attempt or host record'' s
      else if tier_below (route_tier route) (author_tier ctx) then
        add_note ''reviewer_below_author_tier'' field' ''reviewer tier is below the highest author tier''
          ''review with a route at or above the author's tier'' s
      else if ft_reviewer_id f \<in> set (cv_seen s) then
        add_note ''repeated_reviewer'' field' ''this reviewer already supplies coverage''
          ''repeating a reviewer adds no coverage'' s
      else s\<lparr>cv_seen := ft_reviewer_id f # cv_seen s,
             cv_candidates := cv_candidates s @ [\<lparr>cn_fact = f, cn_cross_family = cross_family_of ctx f\<rparr>]\<rparr>)"

definition cover_start :: "review_context \<Rightarrow> cover_state" where
  "cover_start ctx =
     (let s = \<lparr>cv_failed = False, cv_notes = [], cv_seen = [], cv_candidates = []\<rparr> in
      if 0 < required_reviews (vc_policy ctx) (vc_risk ctx) \<and> list_ex (\<lambda>r. route_tier r = None) (author_agents ctx)
      then add_note ''author_tier_unknown'' ''authors'' ''an agent author has no recorded route tier''
        ''record the author's route and tier before relying on review coverage'' s
      else s)"

definition cover_facts :: "review_context \<Rightarrow> review_fact list \<Rightarrow> cover_state" where
  "cover_facts ctx facts = foldl (cover_fact ctx) (cover_start ctx) (sort_key ft_attempt_id facts)"

definition is_adversarial :: "(string \<Rightarrow> string) \<Rightarrow> review_context \<Rightarrow> review_candidate \<Rightarrow> bool" where
  "is_adversarial lower ctx c \<longleftrightarrow>
     lens_key lower (ft_lens (cn_fact c)) = lens_key lower (pol_adversarial_lens (vc_policy ctx))"

definition candidate_pool :: "(string \<Rightarrow> string) \<Rightarrow> review_context \<Rightarrow> review_candidate list \<Rightarrow> review_candidate list" where
  "candidate_pool lower ctx candidates =
     take MAX_SEARCH (sort_key (\<lambda>c. (\<not> (vc_risk ctx = RT_Terminal \<and> is_adversarial lower ctx c),
       cn_cross_family c = None, ft_attempt_id (cn_fact c))) candidates)"

definition has_bit :: "nat \<Rightarrow> nat \<Rightarrow> bool" where
  "has_bit bits idx \<longleftrightarrow> odd (bits div 2 ^ idx)"

definition count_ones :: "nat \<Rightarrow> nat" where
  "count_ones bits = length (filter (has_bit bits) [0..<32])"

text \<open>The loop over the candidates of one mask: \<open>None\<close> if a lens or a family repeats.\<close>

fun mask_legs ::
  "(string \<Rightarrow> string) \<Rightarrow> review_context \<Rightarrow> nat \<Rightarrow> nat \<Rightarrow> string list \<Rightarrow> string list \<Rightarrow> bool \<Rightarrow> nat \<Rightarrow> review_candidate list
   \<Rightarrow> (bool \<times> nat) option" where
  "mask_legs lower ctx bits idx lenses families adv cross [] = Some (adv, cross)"
| "mask_legs lower ctx bits idx lenses families adv cross (c # cs) =
     (if \<not> has_bit bits idx then mask_legs lower ctx bits (Suc idx) lenses families adv cross cs
      else
        let lens = lens_key lower (ft_lens (cn_fact c));
            adv' = (adv \<or> (vc_risk ctx = RT_Terminal \<and> is_adversarial lower ctx c)) in
        if lens \<in> set lenses \<or> is_some_and (cn_cross_family c) (\<lambda>f. f \<in> set families) then None
        else mask_legs lower ctx bits (Suc idx) (lens # lenses)
               (case cn_cross_family c of None \<Rightarrow> families | Some f \<Rightarrow> f # families) adv'
               (cross + (if cn_cross_family c \<noteq> None then 1 else 0)) cs)"

definition mask_score ::
  "(string \<Rightarrow> string) \<Rightarrow> review_context \<Rightarrow> nat \<Rightarrow> review_candidate list \<Rightarrow> nat \<Rightarrow> (bool \<times> nat \<times> nat) option" where
  "mask_score lower ctx need pool bits =
     (if need < count_ones bits then None
      else map_option (\<lambda>(adv, cross). (adv, count_ones bits, cross)) (mask_legs lower ctx bits 0 [] [] False 0 pool))"

definition better_mask ::
  "(nat \<Rightarrow> ('s :: linorder) option) \<Rightarrow> (nat \<times> 's) option \<Rightarrow> nat \<Rightarrow> (nat \<times> 's) option" where
  "better_mask score best bits = (case score bits of
       None \<Rightarrow> best
     | Some s \<Rightarrow> if is_none_or best (\<lambda>(_, b). b < s) then Some (bits, s) else best)"

definition best_mask :: "(nat \<Rightarrow> ('s :: linorder) option) \<Rightarrow> nat \<Rightarrow> nat" where
  "best_mask score n = (case foldl (better_mask score) None [0..<2 ^ n] of None \<Rightarrow> 0 | Some (bits, _) \<Rightarrow> bits)"

definition picked_by :: "nat \<Rightarrow> review_candidate list \<Rightarrow> review_candidate list" where
  "picked_by bits pool = map snd (filter (\<lambda>(idx, c). has_bit bits idx) (enumerate 0 pool))"

fun live_evidence :: "wall_time \<Rightarrow> leg_blocker list \<Rightarrow> evidence_ref list \<Rightarrow> evidence_ref list" where
  "live_evidence now [] acc = acc"
| "live_evidence now (b # bs) acc =
     live_evidence now bs (if now < lb_expires_at b \<and> lb_reference b \<notin> set acc then acc @ [lb_reference b] else acc)"

definition missing_notes ::
  "(string \<Rightarrow> string) \<Rightarrow> review_context \<Rightarrow> nat \<Rightarrow> review_candidate list \<Rightarrow> cover_state \<Rightarrow> cover_state" where
  "missing_notes lower ctx need picked s =
     (let cross = length (filter (\<lambda>c. cn_cross_family c \<noteq> None) picked);
          waived = min (need - cross) (length (live_evidence (vc_now ctx) (vc_blockers ctx) []));
          s1 = (if length picked < need then
                  add_note ''missing_reviews'' ''reviews''
                    (decimal need @ '' independent review(s) with distinct lenses are required; '' @ decimal (length picked) @ '' counted'')
                    ''add independent reviews through distinct lenses'' s
                else s);
          s2 = (if waived < need - cross then
                  add_note ''missing_cross_family_leg'' ''reviews''
                    (decimal (need - cross - waived) @ '' cross-family review leg(s) lack a verified reviewer or an unexpired blocker'')
                    ''obtain an observed other-family review or record the unavailability with its evidence'' s1
                else s1)
      in if vc_risk ctx = RT_Terminal \<and> \<not> list_ex (is_adversarial lower ctx) picked then
           add_note ''missing_adversarial_lens'' ''reviews'' ''terminal risk needs a counted adversarial review''
             ''request an adversarial review'' s2
         else s2)"

definition coverage_check :: "(string \<Rightarrow> string) \<Rightarrow> review_context \<Rightarrow> review_fact list \<Rightarrow> validation_report" where
  "coverage_check lower ctx facts =
     (let need = required_reviews (vc_policy ctx) (vc_risk ctx);
          s = cover_facts ctx facts;
          pool = candidate_pool lower ctx (cv_candidates s);
          picked = picked_by (best_mask (mask_score lower ctx need pool) (length pool)) pool;
          sorted = sort_key (\<lambda>d. (dg_code d, dg_field d)) (cv_notes (missing_notes lower ctx need picked s));
          diagnostics = (if need = 0
            then filter (\<lambda>d. dg_code d \<in> set [''blocking_review'', ''stale_subject'', ''inconclusive_review'']) sorted
            else sorted);
          incomplete = list_ex (\<lambda>d. dg_code d \<in> set [''missing_reviews'', ''missing_cross_family_leg'',
            ''missing_adversarial_lens'', ''author_tier_unknown'']) diagnostics
      in \<lparr>vr_status = (if cv_failed s then CovFailed else if 0 < need \<and> incomplete then CovIncomplete else CovPassed),
          vr_required = need,
          vr_counted = map (\<lambda>c. ft_attempt_id (cn_fact c)) picked,
          vr_diagnostics = diagnostics\<rparr>)"

subsection \<open>Masks and selections\<close>

text \<open>The candidates a mask selects, by recursion on the candidates.\<close>

fun pick :: "nat \<Rightarrow> 'a list \<Rightarrow> 'a list" where
  "pick m [] = []"
| "pick m (c # cs) = (if odd m then c # pick (m div 2) cs else pick (m div 2) cs)"

lemma has_bit_0 [simp]: "has_bit m 0 \<longleftrightarrow> odd m"
  by (simp add: has_bit_def)

lemma div_power_Suc: "(m :: nat) div 2 ^ i div 2 = m div 2 ^ Suc i"
  by (simp add: div_mult2_eq [symmetric] mult.commute)

lemma has_bit_Suc: "has_bit m (Suc i) \<longleftrightarrow> has_bit (m div 2) i"
  by (simp add: has_bit_def div_mult2_eq)

lemma picked_by_pick: "picked_by m pool = pick m pool"
proof -
  have "map snd (filter (\<lambda>(idx, c). has_bit m idx) (enumerate k pool)) = pick (m div 2 ^ k) pool" for k
  proof (induction pool arbitrary: k)
    case (Cons c pool)
    then show ?case using Cons [of "Suc k"] by (simp add: has_bit_def div_power_Suc)
  qed simp
  from this [of 0] show ?thesis by (simp add: picked_by_def)
qed

lemma filter_has_bit: "m < 2 ^ n \<Longrightarrow> n \<le> k \<Longrightarrow> filter (has_bit m) [0..<k] = filter (has_bit m) [0..<n]"
proof (induction k)
  case (Suc k)
  show ?case
  proof (cases "n = Suc k")
    case False
    with Suc.prems have "n \<le> k" by simp
    then have "(2 :: nat) ^ n \<le> 2 ^ k" by simp
    with Suc.prems(1) have "m < 2 ^ k" by linarith
    then have "m div 2 ^ k = 0" by simp
    with Suc \<open>n \<le> k\<close> show ?thesis by (simp add: has_bit_def)
  qed simp
qed simp

lemma length_pick: "length (pick m cs) = length (filter (has_bit m) [0..<length cs])"
proof (induction cs arbitrary: m)
  case (Cons c cs)
  have "filter (has_bit m) [0..<Suc (length cs)] = (if odd m then [0] else []) @ map Suc (filter (has_bit (m div 2)) [0..<length cs])"
    by (simp add: upt_conv_Cons map_Suc_upt [symmetric] filter_map o_def has_bit_Suc del: upt_Suc)
  then show ?case using Cons [of "m div 2"] by (simp del: upt_Suc)
qed simp

lemma count_ones_pick:
  assumes "m < 2 ^ length cs" "length cs \<le> 32"
  shows "count_ones m = length (pick m cs)"
  by (simp add: count_ones_def length_pick filter_has_bit [OF assms])

lemma subseq_pick: "subseq (pick m cs) cs"
  by (induction cs arbitrary: m) auto

lemma subseq_is_picked: "subseq ps cs \<Longrightarrow> \<exists>m < 2 ^ length cs. pick m cs = ps"
proof (induction rule: list_emb.induct)
  case (list_emb_Nil ys)
  have "pick 0 ys = []" by (induction ys) auto
  then show ?case by (intro exI [of _ 0]) simp
next
  case (list_emb_Cons xs ys y)
  then obtain m where "m < 2 ^ length ys" "pick m ys = xs" by blast
  then show ?case by (intro exI [of _ "2 * m"]) simp
next
  case (list_emb_Cons2 x y xs ys)
  then obtain m where "m < 2 ^ length ys" "pick m ys = xs" by blast
  with list_emb_Cons2(1) show ?case by (intro exI [of _ "Suc (2 * m)"]) simp
qed

subsection \<open>The legs of a selection\<close>

definition lenses_of :: "(string \<Rightarrow> string) \<Rightarrow> review_candidate list \<Rightarrow> string list" where
  "lenses_of lower ps = map (\<lambda>c. lens_key lower (ft_lens (cn_fact c))) ps"

definition families_of :: "review_candidate list \<Rightarrow> string list" where
  "families_of ps = map (\<lambda>c. the (cn_cross_family c)) (filter (\<lambda>c. cn_cross_family c \<noteq> None) ps)"

definition has_adversarial :: "(string \<Rightarrow> string) \<Rightarrow> review_context \<Rightarrow> review_candidate list \<Rightarrow> bool" where
  "has_adversarial lower ctx ps \<longleftrightarrow> vc_risk ctx = RT_Terminal \<and> list_ex (is_adversarial lower ctx) ps"

lemma legs_Nil [simp]: "lenses_of lower [] = []" "families_of [] = []" "\<not> has_adversarial lower ctx []"
  by (simp_all add: lenses_of_def families_of_def has_adversarial_def)

lemma legs_Cons [simp]:
  "lenses_of lower (c # ps) = lens_key lower (ft_lens (cn_fact c)) # lenses_of lower ps"
  "families_of (c # ps) = (case cn_cross_family c of None \<Rightarrow> families_of ps | Some f \<Rightarrow> f # families_of ps)"
  "has_adversarial lower ctx (c # ps) \<longleftrightarrow> vc_risk ctx = RT_Terminal \<and> is_adversarial lower ctx c \<or> has_adversarial lower ctx ps"
  by (auto simp: lenses_of_def families_of_def has_adversarial_def split: option.splits)

lemma mask_legs_pick:
  "mask_legs lower ctx m idx lenses families adv cross cs =
    (let ps = pick (m div 2 ^ idx) cs in
     if distinct (lenses_of lower ps) \<and> set (lenses_of lower ps) \<inter> set lenses = {}
        \<and> distinct (families_of ps) \<and> set (families_of ps) \<inter> set families = {}
     then Some (adv \<or> has_adversarial lower ctx ps, cross + length (families_of ps)) else None)"
proof (induction cs arbitrary: idx lenses families adv cross)
  case Nil
  then show ?case by simp
next
  case (Cons c cs)
  show ?case
  proof (cases "has_bit m idx")
    case False
    then show ?thesis using Cons.IH [of "Suc idx"] by (simp add: has_bit_def div_power_Suc)
  next
    case True
    then have bit: "odd (m div 2 ^ idx)" by (simp add: has_bit_def)
    note IH = Cons.IH [of "Suc idx"]
    show ?thesis
      using True bit by (auto simp: IH Let_def div_power_Suc split: option.splits)
  qed
qed

subsection \<open>The search finds a best selection\<close>

lemma foldl_better:
  fixes score :: "nat \<Rightarrow> ('s :: linorder) option"
  shows "(\<forall>m s. m \<in> set ms \<longrightarrow> score m = Some s \<longrightarrow> (\<exists>m' s'. foldl (better_mask score) b ms = Some (m', s') \<and> s \<le> s'))
    \<and> (\<forall>m s. b = Some (m, s) \<longrightarrow> (\<exists>m' s'. foldl (better_mask score) b ms = Some (m', s') \<and> s \<le> s'))
    \<and> (\<forall>m s. foldl (better_mask score) b ms = Some (m, s) \<longrightarrow> b = Some (m, s) \<or> m \<in> set ms \<and> score m = Some s)"
proof (induction ms arbitrary: b)
  case (Cons m ms)
  let ?b = "better_mask score b m"
  note IH = Cons.IH [of ?b]
  have new: "\<exists>m' s'. ?b = Some (m', s') \<and> s \<le> s'" if "score m = Some s" for s
    using that by (cases b) (auto simp: better_mask_def not_less)
  have old: "\<exists>m' s'. ?b = Some (m', s') \<and> s \<le> s'" if "b = Some (k, s)" for k s
    using that by (cases "score m") (auto simp: better_mask_def intro: less_imp_le)
  have origin: "b = Some (k, s) \<or> k = m \<and> score m = Some s" if "?b = Some (k, s)" for k s
    using that by (auto simp: better_mask_def split: option.splits if_splits)
  have keep: "\<exists>m' s'. foldl (better_mask score) ?b ms = Some (m', s') \<and> s \<le> s'" if "\<exists>m' s'. ?b = Some (m', s') \<and> s \<le> s'" for s
    using that IH order_trans by metis
  have "\<exists>m' s'. foldl (better_mask score) ?b ms = Some (m', s') \<and> s \<le> s'" if "k \<in> set (m # ms)" "score k = Some s" for k s
    using that IH keep [OF new] by auto
  moreover have "\<exists>m' s'. foldl (better_mask score) ?b ms = Some (m', s') \<and> s \<le> s'" if "b = Some (k, s)" for k s
    by (rule keep [OF old [OF that]])
  moreover have "b = Some (k, s) \<or> k \<in> set (m # ms) \<and> score k = Some s" if "foldl (better_mask score) ?b ms = Some (k, s)" for k s
    using IH origin [of k s] that by auto
  ultimately show ?case by simp
qed auto

lemma best_mask_is_best:
  assumes "score 0 = Some s0"
  shows "\<exists>s. best_mask score n < 2 ^ n \<and> score (best_mask score n) = Some s \<and> (\<forall>m s'. m < 2 ^ n \<longrightarrow> score m = Some s' \<longrightarrow> s' \<le> s)"
proof -
  note f = foldl_better [of "[0..<2 ^ n]" score None]
  have "0 \<in> set [0..<2 ^ n]" by simp
  with f assms obtain m s where r: "foldl (better_mask score) None [0..<2 ^ n] = Some (m, s)" by blast
  with f have "m < 2 ^ n" "score m = Some s" by auto
  moreover have "s' \<le> s" if "k < 2 ^ n" "score k = Some s'" for k s'
    using f r that by fastforce
  ultimately show ?thesis using r by (auto simp: best_mask_def)
qed

text \<open>A selection of candidates that may count, and how it is ranked.\<close>

definition may_count :: "(string \<Rightarrow> string) \<Rightarrow> nat \<Rightarrow> review_candidate list \<Rightarrow> bool" where
  "may_count lower need ps \<longleftrightarrow> length ps \<le> need \<and> distinct (lenses_of lower ps) \<and> distinct (families_of ps)"

definition selection_rank :: "(string \<Rightarrow> string) \<Rightarrow> review_context \<Rightarrow> review_candidate list \<Rightarrow> bool \<times> nat \<times> nat" where
  "selection_rank lower ctx ps = (has_adversarial lower ctx ps, length ps, length (families_of ps))"

definition picked_of :: "(string \<Rightarrow> string) \<Rightarrow> review_context \<Rightarrow> nat \<Rightarrow> review_candidate list \<Rightarrow> review_candidate list" where
  "picked_of lower ctx need pool = picked_by (best_mask (mask_score lower ctx need pool) (length pool)) pool"

lemma mask_score_pick:
  assumes "m < 2 ^ length pool" "length pool \<le> 32"
  shows "mask_score lower ctx need pool m =
    (if may_count lower need (pick m pool) then Some (selection_rank lower ctx (pick m pool)) else None)"
  by (auto simp: mask_score_def count_ones_pick [OF assms] mask_legs_pick Let_def may_count_def selection_rank_def)

lemma picked_is_best:
  assumes "length pool \<le> 32"
  shows "subseq (picked_of lower ctx need pool) pool \<and> may_count lower need (picked_of lower ctx need pool)
    \<and> (\<forall>ps. subseq ps pool \<longrightarrow> may_count lower need ps \<longrightarrow> selection_rank lower ctx ps \<le> selection_rank lower ctx (picked_of lower ctx need pool))"
proof -
  let ?score = "mask_score lower ctx need pool" and ?n = "length pool"
  have "pick 0 pool = []" by (induction pool) auto
  then have "?score 0 = Some (selection_rank lower ctx [])"
    by (simp add: mask_score_pick assms may_count_def)
  from best_mask_is_best [of ?score, OF this, of ?n] obtain s where s: "best_mask ?score ?n < 2 ^ ?n" "?score (best_mask ?score ?n) = Some s"
    "\<And>m s'. m < 2 ^ ?n \<Longrightarrow> ?score m = Some s' \<Longrightarrow> s' \<le> s" by blast
  have p: "picked_of lower ctx need pool = pick (best_mask ?score ?n) pool" by (simp add: picked_of_def picked_by_pick)
  with s(1,2) have "may_count lower need (picked_of lower ctx need pool)" "s = selection_rank lower ctx (picked_of lower ctx need pool)"
    by (auto simp: mask_score_pick assms split: if_splits)
  moreover have "selection_rank lower ctx ps \<le> s" if ps: "subseq ps pool" "may_count lower need ps" for ps
  proof -
    from subseq_is_picked [OF ps(1)] obtain m where "m < 2 ^ ?n" "pick m pool = ps" by blast
    with s(3) [of m] ps(2) show ?thesis by (simp add: mask_score_pick assms)
  qed
  ultimately show ?thesis using subseq_pick p by metis
qed

subsection \<open>Which reviews are candidates\<close>

definition blocks_subject :: "review_context \<Rightarrow> review_fact \<Rightarrow> bool" where
  "blocks_subject ctx f \<longleftrightarrow> ft_subject f = vc_subject ctx \<and> ft_verdict f = VRequestChanges"

definition eligible_review :: "review_context \<Rightarrow> review_fact \<Rightarrow> bool" where
  "eligible_review ctx f \<longleftrightarrow> ft_subject f = vc_subject ctx \<and> ft_verdict f \<in> {VApprove, VApproveWithNits}
     \<and> ft_reviewer_id f \<notin> excluded_actors ctx \<and> \<not> is_unknown_route (el_provenance (ft_eligibility f))
     \<and> \<not> tier_below (route_tier (el_provenance (ft_eligibility f))) (author_tier ctx)"

fun first_reviews :: "review_context \<Rightarrow> id list \<Rightarrow> review_fact list \<Rightarrow> review_fact list" where
  "first_reviews ctx seen [] = []"
| "first_reviews ctx seen (f # fs) =
     (if eligible_review ctx f \<and> ft_reviewer_id f \<notin> set seen then f # first_reviews ctx (ft_reviewer_id f # seen) fs
      else first_reviews ctx seen fs)"

definition as_candidate :: "review_context \<Rightarrow> review_fact \<Rightarrow> review_candidate" where
  "as_candidate ctx f = \<lparr>cn_fact = f, cn_cross_family = cross_family_of ctx f\<rparr>"

definition note_codes :: "cover_state \<Rightarrow> string set" where
  "note_codes s = dg_code ` set (cv_notes s)"

definition missing_codes :: "string set" where
  "missing_codes = {''missing_reviews'', ''missing_cross_family_leg'', ''missing_adversarial_lens'', ''author_tier_unknown''}"

lemma add_note_simps [simp]:
  "cv_failed (add_note code field' message remedy s) = cv_failed s"
  "cv_seen (add_note code field' message remedy s) = cv_seen s"
  "cv_candidates (add_note code field' message remedy s) = cv_candidates s"
  "note_codes (add_note code field' message remedy s) = insert code (note_codes s)"
  by (simp_all add: add_note_def note_codes_def)

lemma note_codes_update [simp]:
  "note_codes (s\<lparr>cv_failed := b\<rparr>) = note_codes s"
  "note_codes (s\<lparr>cv_seen := ids, cv_candidates := cs\<rparr>) = note_codes s"
  by (simp_all add: note_codes_def)

lemma cover_fact_effect:
  "cv_failed (cover_fact ctx s f) \<longleftrightarrow> cv_failed s \<or> blocks_subject ctx f"
  "cv_seen (cover_fact ctx s f) =
     (if eligible_review ctx f \<and> ft_reviewer_id f \<notin> set (cv_seen s) then ft_reviewer_id f # cv_seen s else cv_seen s)"
  "cv_candidates (cover_fact ctx s f) =
     (if eligible_review ctx f \<and> ft_reviewer_id f \<notin> set (cv_seen s) then cv_candidates s @ [as_candidate ctx f] else cv_candidates s)"
  "note_codes (cover_fact ctx s f) \<inter> missing_codes = note_codes s \<inter> missing_codes"
  by (cases "ft_verdict f"; auto simp: cover_fact_def Let_def blocks_subject_def eligible_review_def as_candidate_def missing_codes_def)+

lemma cover_facts_foldl:
  "cv_failed (foldl (cover_fact ctx) s fs) \<longleftrightarrow> cv_failed s \<or> list_ex (blocks_subject ctx) fs"
  "cv_candidates (foldl (cover_fact ctx) s fs) = cv_candidates s @ map (as_candidate ctx) (first_reviews ctx (cv_seen s) fs)"
  "note_codes (foldl (cover_fact ctx) s fs) \<inter> missing_codes = note_codes s \<inter> missing_codes"
  by (induction fs arbitrary: s) (auto simp: cover_fact_effect)

definition unknown_author_tier :: "review_context \<Rightarrow> bool" where
  "unknown_author_tier ctx \<longleftrightarrow> list_ex (\<lambda>r. route_tier r = None) (author_agents ctx)"

lemma cover_facts_effect:
  "cv_failed (cover_facts ctx facts) \<longleftrightarrow> (\<exists>f \<in> set facts. blocks_subject ctx f)"
  "cv_candidates (cover_facts ctx facts) = map (as_candidate ctx) (first_reviews ctx [] (sort_key ft_attempt_id facts))"
  "note_codes (cover_facts ctx facts) \<inter> missing_codes =
     (if 0 < required_reviews (vc_policy ctx) (vc_risk ctx) \<and> unknown_author_tier ctx then {''author_tier_unknown''} else {})"
proof -
  have s: "\<not> cv_failed (cover_start ctx)" "cv_seen (cover_start ctx) = []" "cv_candidates (cover_start ctx) = []"
    by (simp_all add: cover_start_def Let_def)
  have "note_codes (cover_start ctx) \<inter> missing_codes =
      (if 0 < required_reviews (vc_policy ctx) (vc_risk ctx) \<and> unknown_author_tier ctx then {''author_tier_unknown''} else {})"
    by (auto simp: cover_start_def Let_def unknown_author_tier_def missing_codes_def note_codes_def add_note_def)
  then show "note_codes (cover_facts ctx facts) \<inter> missing_codes =
     (if 0 < required_reviews (vc_policy ctx) (vc_risk ctx) \<and> unknown_author_tier ctx then {''author_tier_unknown''} else {})"
    unfolding cover_facts_def by (simp only: cover_facts_foldl(3))
  show "cv_failed (cover_facts ctx facts) \<longleftrightarrow> (\<exists>f \<in> set facts. blocks_subject ctx f)"
    by (simp add: cover_facts_def cover_facts_foldl s list_ex_iff)
  show "cv_candidates (cover_facts ctx facts) = map (as_candidate ctx) (first_reviews ctx [] (sort_key ft_attempt_id facts))"
    by (simp add: cover_facts_def cover_facts_foldl s)
qed

lemma first_reviews_sound:
  "f \<in> set (first_reviews ctx seen fs) \<Longrightarrow> f \<in> set fs \<and> eligible_review ctx f \<and> ft_reviewer_id f \<notin> set seen"
  by (induction fs arbitrary: seen) (fastforce split: if_splits)+

lemma first_reviews_distinct: "distinct (map ft_reviewer_id (first_reviews ctx seen fs))"
  by (induction fs arbitrary: seen) (auto dest: first_reviews_sound)

text \<open>The candidates are the first eligible review of each reviewer.\<close>

definition candidate_review :: "review_context \<Rightarrow> review_fact list \<Rightarrow> review_fact \<Rightarrow> bool" where
  "candidate_review ctx facts f \<longleftrightarrow> f \<in> set facts \<and> eligible_review ctx f
     \<and> (\<forall>g \<in> set facts. eligible_review ctx g \<longrightarrow> ft_reviewer_id g = ft_reviewer_id f \<longrightarrow> ft_attempt_id f \<le> ft_attempt_id g)"

lemma first_reviews_sorted:
  assumes "sorted_wrt (\<lambda>f g. ft_attempt_id f < ft_attempt_id g) fs"
  shows "set (first_reviews ctx seen fs) = {f. candidate_review ctx fs f \<and> ft_reviewer_id f \<notin> set seen}"
  using assms
proof (induction fs arbitrary: seen)
  case (Cons f fs)
  have later: "ft_attempt_id f < ft_attempt_id g" if "g \<in> set fs" for g using Cons.prems that by simp
  have head: "candidate_review ctx (f # fs) f \<longleftrightarrow> eligible_review ctx f"
    using later by (fastforce simp: candidate_review_def)
  have tail: "candidate_review ctx (f # fs) g \<longleftrightarrow> candidate_review ctx fs g \<and> \<not> (eligible_review ctx f \<and> ft_reviewer_id f = ft_reviewer_id g)"
    if "g \<noteq> f" for g
    using that later [of g] by (fastforce simp: candidate_review_def)
  have notin: "f \<notin> set fs" using later by auto
  have IH: "set (first_reviews ctx ids fs) = {g. candidate_review ctx fs g \<and> ft_reviewer_id g \<notin> set ids}" for ids
    using Cons by simp
  have "\<not> candidate_review ctx fs f" using notin by (simp add: candidate_review_def)
  then have "g \<in> set (first_reviews ctx seen (f # fs)) \<longleftrightarrow> candidate_review ctx (f # fs) g \<and> ft_reviewer_id g \<notin> set seen" for g
    using head tail [of g] by (cases "g = f") (auto simp: IH)
  then show ?case by blast
qed (simp add: candidate_review_def)

lemma sorted_attempts:
  assumes "distinct (map ft_attempt_id facts)"
  shows "sorted_wrt (\<lambda>f g. ft_attempt_id f < ft_attempt_id g) (sort_key ft_attempt_id facts)"
proof -
  have "distinct (map ft_attempt_id (sort_key ft_attempt_id facts))"
    using assms by (simp add: distinct_map)
  then have "sorted_wrt (<) (map ft_attempt_id (sort_key ft_attempt_id facts))"
    by (simp add: strict_sorted_iff)
  then show ?thesis by (simp add: sorted_wrt_map)
qed

lemma candidates_exact:
  assumes "distinct (map ft_attempt_id facts)"
  shows "set (first_reviews ctx [] (sort_key ft_attempt_id facts)) = {f. candidate_review ctx facts f}"
  using first_reviews_sorted [OF sorted_attempts [OF assms], of ctx "[]"] by (simp add: candidate_review_def)

subsection \<open>What the report says\<close>

definition live_blockers :: "review_context \<Rightarrow> nat" where
  "live_blockers ctx = card (lb_reference ` {b \<in> set (vc_blockers ctx). vc_now ctx < lb_expires_at b})"

lemma live_evidence_set:
  "set (live_evidence now bs acc) = set acc \<union> lb_reference ` {b \<in> set bs. now < lb_expires_at b}"
  "distinct acc \<Longrightarrow> distinct (live_evidence now bs acc)"
  by (induction bs arbitrary: acc) auto

lemma length_live_evidence: "length (live_evidence (vc_now ctx) (vc_blockers ctx) []) = live_blockers ctx"
  using distinct_card [OF live_evidence_set(2) [of "[]" "vc_now ctx" "vc_blockers ctx"]]
  by (simp add: live_blockers_def live_evidence_set)

lemma missing_notes_codes:
  "note_codes (missing_notes lower ctx need picked s) \<inter> missing_codes = note_codes s \<inter> missing_codes
     \<union> (if length picked < need then {''missing_reviews''} else {})
     \<union> (if length (families_of picked) + live_blockers ctx < need then {''missing_cross_family_leg''} else {})
     \<union> (if vc_risk ctx = RT_Terminal \<and> \<not> has_adversarial lower ctx picked then {''missing_adversarial_lens''} else {})"
proof -
  have cross: "length (filter (\<lambda>c. cn_cross_family c \<noteq> None) picked) = length (families_of picked)"
    by (simp add: families_of_def)
  have waived: "min (need - n) (live_blockers ctx) < need - n \<longleftrightarrow> n + live_blockers ctx < need" for n by auto
  show ?thesis
    unfolding missing_notes_def Let_def cross length_live_evidence waived has_adversarial_def
    by (auto simp: missing_codes_def)
qed

definition coverage_need :: "review_context \<Rightarrow> nat" where
  "coverage_need ctx = required_reviews (vc_policy ctx) (vc_risk ctx)"

definition candidates_of :: "review_context \<Rightarrow> review_fact list \<Rightarrow> review_candidate list" where
  "candidates_of ctx facts = map (as_candidate ctx) (first_reviews ctx [] (sort_key ft_attempt_id facts))"

definition counted_reviews :: "(string \<Rightarrow> string) \<Rightarrow> review_context \<Rightarrow> review_fact list \<Rightarrow> review_candidate list" where
  "counted_reviews lower ctx facts = picked_of lower ctx (coverage_need ctx) (candidate_pool lower ctx (candidates_of ctx facts))"

lemma coverage_report:
  "vr_counted (coverage_check lower ctx facts) = map (\<lambda>c. ft_attempt_id (cn_fact c)) (counted_reviews lower ctx facts)"
  "vr_status (coverage_check lower ctx facts) = CovPassed \<longleftrightarrow>
     \<not> (\<exists>f \<in> set facts. blocks_subject ctx f)
     \<and> (coverage_need ctx = 0 \<or>
        \<not> unknown_author_tier ctx
        \<and> coverage_need ctx \<le> length (counted_reviews lower ctx facts)
        \<and> coverage_need ctx \<le> length (families_of (counted_reviews lower ctx facts)) + live_blockers ctx
        \<and> (vc_risk ctx = RT_Terminal \<longrightarrow> has_adversarial lower ctx (counted_reviews lower ctx facts)))"
proof -
  let ?s = "cover_facts ctx facts" and ?p = "counted_reviews lower ctx facts" and ?n = "coverage_need ctx"
  have picked: "picked_by (best_mask (mask_score lower ctx ?n (candidate_pool lower ctx (cv_candidates ?s)))
      (length (candidate_pool lower ctx (cv_candidates ?s)))) (candidate_pool lower ctx (cv_candidates ?s)) = ?p"
    by (simp add: counted_reviews_def picked_of_def candidates_of_def cover_facts_effect)
  show "vr_counted (coverage_check lower ctx facts) = map (\<lambda>c. ft_attempt_id (cn_fact c)) ?p"
    unfolding coverage_check_def Let_def coverage_need_def [symmetric] picked by simp
  have codes: "list_ex (\<lambda>d. dg_code d \<in> set [''missing_reviews'', ''missing_cross_family_leg'', ''missing_adversarial_lens'', ''author_tier_unknown''])
      (sort_key (\<lambda>d. (dg_code d, dg_field d)) (cv_notes t)) \<longleftrightarrow> note_codes t \<inter> missing_codes \<noteq> {}" for t
  proof -
    have all: "set [''missing_reviews'', ''missing_cross_family_leg'', ''missing_adversarial_lens'', ''author_tier_unknown''] = missing_codes"
      by (simp add: missing_codes_def)
    show ?thesis unfolding all list_ex_iff note_codes_def by auto
  qed
  have incomplete: "note_codes (missing_notes lower ctx ?n ?p ?s) \<inter> missing_codes \<noteq> {} \<longleftrightarrow>
      unknown_author_tier ctx \<or> length ?p < ?n \<or> length (families_of ?p) + live_blockers ctx < ?n
      \<or> vc_risk ctx = RT_Terminal \<and> \<not> has_adversarial lower ctx ?p" if "0 < ?n"
    using that unfolding missing_notes_codes cover_facts_effect coverage_need_def [symmetric] by auto
  show "vr_status (coverage_check lower ctx facts) = CovPassed \<longleftrightarrow>
     \<not> (\<exists>f \<in> set facts. blocks_subject ctx f)
     \<and> (?n = 0 \<or> \<not> unknown_author_tier ctx \<and> ?n \<le> length ?p \<and> ?n \<le> length (families_of ?p) + live_blockers ctx
        \<and> (vc_risk ctx = RT_Terminal \<longrightarrow> has_adversarial lower ctx ?p))"
  proof (cases "?n = 0")
    case True
    then show ?thesis
      unfolding coverage_check_def Let_def coverage_need_def [symmetric] picked by (simp add: cover_facts_effect)
  next
    case False
    then show ?thesis
      unfolding coverage_check_def Let_def coverage_need_def [symmetric] picked
      by (simp add: cover_facts_effect codes incomplete del: set_simps)
  qed
qed

lemma pool_subset: "set (candidate_pool lower ctx cs) \<subseteq> set cs" "length (candidate_pool lower ctx cs) \<le> 32"
  by (auto simp: candidate_pool_def MAX_SEARCH_def dest: in_set_takeD)

lemma counted_sound:
  "set (counted_reviews lower ctx facts) \<subseteq> set (candidates_of ctx facts)"
  "may_count lower (coverage_need ctx) (counted_reviews lower ctx facts)"
proof -
  note best = picked_is_best [OF pool_subset(2), of lower ctx "coverage_need ctx" lower ctx "candidates_of ctx facts"]
  then show "may_count lower (coverage_need ctx) (counted_reviews lower ctx facts)" by (simp add: counted_reviews_def)
  have "subseq (counted_reviews lower ctx facts) (candidate_pool lower ctx (candidates_of ctx facts))"
    using best by (simp add: counted_reviews_def)
  then have "set (counted_reviews lower ctx facts) \<subseteq> set (candidate_pool lower ctx (candidates_of ctx facts))"
    by (auto dest: list_emb_set)
  then show "set (counted_reviews lower ctx facts) \<subseteq> set (candidates_of ctx facts)" using pool_subset(1) by blast
qed

subsection \<open>From lists of reviews to selections\<close>

lemma legs_candidates:
  "lenses_of lower (map (as_candidate ctx) fs) = map (\<lambda>f. lens_key lower (ft_lens f)) fs"
  "families_of (map (as_candidate ctx) fs) = List.map_filter (cross_family_of ctx) fs"
  by (induction fs) (simp_all add: as_candidate_def map_filter_simps split: option.splits)

lemma has_adversarial_candidates:
  "has_adversarial lower ctx (map (as_candidate ctx) fs) \<longleftrightarrow> vc_risk ctx = RT_Terminal
     \<and> (\<exists>f \<in> set fs. lens_key lower (ft_lens f) = lens_key lower (pol_adversarial_lens (vc_policy ctx)))"
  by (auto simp: has_adversarial_def list_ex_iff is_adversarial_def as_candidate_def)

lemma legs_mset:
  assumes "mset ps = mset qs"
  shows "may_count lower need ps = may_count lower need qs" "selection_rank lower ctx ps = selection_rank lower ctx qs"
proof -
  have "mset (lenses_of lower ps) = mset (lenses_of lower qs)" "mset (families_of ps) = mset (families_of qs)"
    using assms by (simp_all add: lenses_of_def families_of_def)
  moreover have "length ps = length qs" using assms by (rule mset_eq_length)
  moreover have "has_adversarial lower ctx ps = has_adversarial lower ctx qs"
    using mset_eq_setD [OF assms] by (simp add: has_adversarial_def list_ex_iff)
  ultimately show "may_count lower need ps = may_count lower need qs" "selection_rank lower ctx ps = selection_rank lower ctx qs"
    by (auto simp: may_count_def selection_rank_def dest: mset_eq_imp_distinct_iff mset_eq_length)
qed

lemma candidates_of_facts:
  assumes "distinct (map ft_attempt_id facts)"
  shows "set (candidates_of ctx facts) = as_candidate ctx ` {f. candidate_review ctx facts f}"
    "length (candidates_of ctx facts) = card {f. candidate_review ctx facts f}" "distinct (candidates_of ctx facts)"
proof -
  have "distinct (map ft_reviewer_id (first_reviews ctx [] (sort_key ft_attempt_id facts)))" by (rule first_reviews_distinct)
  then have d: "distinct (first_reviews ctx [] (sort_key ft_attempt_id facts))" by (simp add: distinct_map)
  show "set (candidates_of ctx facts) = as_candidate ctx ` {f. candidate_review ctx facts f}"
    by (simp add: candidates_of_def candidates_exact [OF assms])
  show "length (candidates_of ctx facts) = card {f. candidate_review ctx facts f}"
    using distinct_card [OF d] by (simp add: candidates_of_def candidates_exact [OF assms])
  show "distinct (candidates_of ctx facts)"
    using d by (simp add: candidates_of_def distinct_map inj_on_def as_candidate_def)
qed

text \<open>Up to sixteen candidates the pool is all of them, so any list of candidate reviews is a selection.\<close>

lemma selection_of_reviews:
  assumes ids: "distinct (map ft_attempt_id facts)" and few: "card {f. candidate_review ctx facts f} \<le> 16"
    and fs: "distinct fs" "\<forall>f \<in> set fs. candidate_review ctx facts f"
  obtains ps where "subseq ps (candidate_pool lower ctx (candidates_of ctx facts))" "mset ps = mset (map (as_candidate ctx) fs)"
proof -
  let ?pool = "candidate_pool lower ctx (candidates_of ctx facts)"
  have len: "length (candidates_of ctx facts) \<le> 16" using candidates_of_facts(2) [OF ids] few by simp
  then have set: "set ?pool = set (candidates_of ctx facts)" and d: "distinct ?pool"
    using candidates_of_facts(3) [OF ids] by (simp_all add: candidate_pool_def MAX_SEARCH_def)
  let ?ps = "filter (\<lambda>c. c \<in> as_candidate ctx ` set fs) ?pool"
  have "set ?ps = set (map (as_candidate ctx) fs)"
    using fs(2) by (auto simp: set candidates_of_facts(1) [OF ids])
  moreover have "distinct ?ps" "distinct (map (as_candidate ctx) fs)"
    using d fs(1) by (simp_all add: distinct_map inj_on_def as_candidate_def)
  ultimately have "mset ?ps = mset (map (as_candidate ctx) fs)" using set_eq_iff_mset_eq_distinct by blast
  then show thesis using that [of ?ps] by simp
qed

definition enough_reviews :: "(string \<Rightarrow> string) \<Rightarrow> review_context \<Rightarrow> review_fact list \<Rightarrow> review_fact list \<Rightarrow> bool" where
  "enough_reviews lower ctx facts fs \<longleftrightarrow> distinct fs \<and> (\<forall>f \<in> set fs. candidate_review ctx facts f)
     \<and> length fs = required_reviews (vc_policy ctx) (vc_risk ctx)
     \<and> distinct (map (\<lambda>f. lens_key lower (ft_lens f)) fs)
     \<and> distinct (List.map_filter (cross_family_of ctx) fs)
     \<and> length fs \<le> length (List.map_filter (cross_family_of ctx) fs)
                  + card (lb_reference ` {b \<in> set (vc_blockers ctx). vc_now ctx < lb_expires_at b})
     \<and> (vc_risk ctx = RT_Terminal \<longrightarrow>
          (\<exists>f \<in> set fs. lens_key lower (ft_lens f) = lens_key lower (pol_adversarial_lens (vc_policy ctx))))"

lemma counted_facts:
  assumes "distinct (map ft_attempt_id facts)"
  shows "map (as_candidate ctx) (map cn_fact (counted_reviews lower ctx facts)) = counted_reviews lower ctx facts"
    "f \<in> set (map cn_fact (counted_reviews lower ctx facts)) \<Longrightarrow> candidate_review ctx facts f"
    "distinct (map cn_fact (counted_reviews lower ctx facts))"
proof -
  have c: "\<exists>f. candidate_review ctx facts f \<and> c = as_candidate ctx f" if "c \<in> set (counted_reviews lower ctx facts)" for c
    using counted_sound(1) that candidates_of_facts(1) [OF assms] by blast
  have same: "as_candidate ctx (cn_fact x) = x" if "x \<in> set (counted_reviews lower ctx facts)" for x
    using c [OF that] by (auto simp: as_candidate_def)
  then show eq: "map (as_candidate ctx) (map cn_fact (counted_reviews lower ctx facts)) = counted_reviews lower ctx facts"
    by (simp add: map_idI)
  show "f \<in> set (map cn_fact (counted_reviews lower ctx facts)) \<Longrightarrow> candidate_review ctx facts f"
    using c by (fastforce simp: as_candidate_def)
  have "distinct (lenses_of lower (counted_reviews lower ctx facts))" using counted_sound(2) by (simp add: may_count_def)
  then have "distinct (map (\<lambda>f. lens_key lower (ft_lens f)) (map cn_fact (counted_reviews lower ctx facts)))"
    by (simp add: lenses_of_def comp_def)
  then show "distinct (map cn_fact (counted_reviews lower ctx facts))" using distinct_map by blast
qed

lemma passed_enough:
  assumes ids: "distinct (map ft_attempt_id facts)" and passed: "vr_status (coverage_check lower ctx facts) = CovPassed"
    and need: "0 < coverage_need ctx"
  shows "enough_reviews lower ctx facts (map cn_fact (counted_reviews lower ctx facts))"
proof -
  let ?p = "counted_reviews lower ctx facts"
  note legs = legs_candidates(1) [where ctx = ctx and fs = "map cn_fact ?p", unfolded counted_facts(1) [OF ids]]
    legs_candidates(2) [where ctx = ctx and fs = "map cn_fact ?p", unfolded counted_facts(1) [OF ids]]
    has_adversarial_candidates [where ctx = ctx and fs = "map cn_fact ?p", unfolded counted_facts(1) [OF ids]]
  from passed need have p: "coverage_need ctx \<le> length ?p" "coverage_need ctx \<le> length (families_of ?p) + live_blockers ctx"
    "vc_risk ctx = RT_Terminal \<longrightarrow> has_adversarial lower ctx ?p" by (auto simp: coverage_report)
  have m: "length ?p \<le> coverage_need ctx" "distinct (lenses_of lower ?p)" "distinct (families_of ?p)"
    using counted_sound(2) by (auto simp: may_count_def)
  have need_eq: "length (map cn_fact ?p) = required_reviews (vc_policy ctx) (vc_risk ctx)"
    using p(1) m(1) by (simp add: coverage_need_def)
  have "length (map cn_fact ?p) \<le> length (List.map_filter (cross_family_of ctx) (map cn_fact ?p))
      + card (lb_reference ` {b \<in> set (vc_blockers ctx). vc_now ctx < lb_expires_at b})"
    using p(2) unfolding need_eq legs(2) live_blockers_def coverage_need_def .
  moreover have "vc_risk ctx = RT_Terminal \<longrightarrow>
      (\<exists>f \<in> set (map cn_fact ?p). lens_key lower (ft_lens f) = lens_key lower (pol_adversarial_lens (vc_policy ctx)))"
    using p(3) unfolding legs(3) by blast
  ultimately show ?thesis
    unfolding enough_reviews_def using counted_facts(2,3) [OF ids] m(2,3) [unfolded legs(1,2)] need_eq by blast
qed

lemma enough_passed:
  assumes ids: "distinct (map ft_attempt_id facts)" and few: "card {f. candidate_review ctx facts f} \<le> 16"
    and enough: "enough_reviews lower ctx facts fs"
  shows "coverage_need ctx \<le> length (counted_reviews lower ctx facts)
    \<and> coverage_need ctx \<le> length (families_of (counted_reviews lower ctx facts)) + live_blockers ctx
    \<and> (vc_risk ctx = RT_Terminal \<longrightarrow> has_adversarial lower ctx (counted_reviews lower ctx facts))"
proof -
  let ?p = "counted_reviews lower ctx facts" and ?qs = "map (as_candidate ctx) fs"
  from enough have fs: "distinct fs" "\<forall>f \<in> set fs. candidate_review ctx facts f" by (simp_all add: enough_reviews_def)
  obtain ps where ps: "subseq ps (candidate_pool lower ctx (candidates_of ctx facts))" "mset ps = mset ?qs"
    by (rule selection_of_reviews [OF ids few fs])
  have "may_count lower (coverage_need ctx) ?qs" using enough
    by (simp add: enough_reviews_def may_count_def coverage_need_def legs_candidates)
  then have "may_count lower (coverage_need ctx) ps" by (simp add: legs_mset(1) [OF ps(2)])
  with picked_is_best [OF pool_subset(2), of lower ctx "coverage_need ctx" lower ctx "candidates_of ctx facts"] ps(1)
  have "selection_rank lower ctx ps \<le> selection_rank lower ctx ?p" by (simp add: counted_reviews_def)
  then have rank: "selection_rank lower ctx ?qs \<le> selection_rank lower ctx ?p" by (simp add: legs_mset(2) [OF ps(2)])
  have "length ?p \<le> coverage_need ctx" using counted_sound(2) by (simp add: may_count_def)
  moreover have "has_adversarial lower ctx ?p \<longrightarrow> vc_risk ctx = RT_Terminal" by (simp add: has_adversarial_def)
  ultimately show ?thesis
    using rank enough
    by (auto simp: selection_rank_def less_eq_prod_def enough_reviews_def coverage_need_def has_adversarial_candidates
        legs_candidates live_blockers_def)
qed

subsection \<open>What a bound fact rests on\<close>

lemma checked_fact_Inr:
  assumes "checked_fact f subject policy = Inr f'"
  shows "f' = f \<and> ft_subject f = subject \<and> \<not> verdict_contradicts (ft_verdict f) (ft_blocking_findings f)
    \<and> (\<forall>family. el_verified_model_family (ft_eligibility f) = Some family \<longrightarrow> family_verified (el_provenance (ft_eligibility f)) family)"
  using assms by (auto simp: checked_fact_def split: if_splits option.splits)

lemma bound_fact:
  assumes "bind_review_fact a claim subject delivery policy = Inr f"
  shows "at_terminal_state a = AO_Succeeded \<and> at_delivery_id a = Some delivery
    \<and> (\<exists>reviewer. at_reviewer a = Some reviewer \<and> ft_reviewer_id f = rv_actor_id reviewer
         \<and> (\<forall>family. el_verified_model_family (ft_eligibility f) = Some family \<longrightarrow>
              rv_provenance reviewer = RP_Observed \<and> rv_family reviewer = Some family \<and> at_observed_route a \<noteq> None))
    \<and> (\<exists>output. at_output_refs a = [output] \<and> ev_path (ft_output f) = or_path output \<and> ev_digest (ft_output f) = or_digest output)
    \<and> (\<forall>extra repo number head. subject = SubjectPr extra repo number head \<longrightarrow> at_head a = Some head)
    \<and> ft_attempt_id f = at_attempt_id a \<and> ft_subject f = subject \<and> ft_verdict f = cl_verdict claim \<and> ft_lens f = cl_lens claim
    \<and> (ft_verdict f \<in> {VApprove, VApproveWithNits} \<longrightarrow> cl_blocking_findings claim = [])"
proof -
  from assms obtain reviewer out provenance family where r: "at_terminal_state a = AO_Succeeded" "at_delivery_id a = Some delivery"
    "at_reviewer a = Some reviewer" "\<not> 1 < length (at_output_refs a)" "\<exists>rest. at_output_refs a = out # rest"
    and head: "\<not> (case subject of SubjectPr _ _ _ head \<Rightarrow> at_head a \<noteq> Some head | _ \<Rightarrow> False)"
    and prov: "bound_provenance a reviewer (cl_tier claim) \<lparr>ev_extra = [], ev_path = or_path out, ev_digest = or_digest out\<rparr> = Inr (provenance, family)"
    and chk: "checked_fact \<lparr>ft_attempt_id = at_attempt_id a, ft_reviewer_id = rv_actor_id reviewer, ft_subject = subject,
        ft_output = \<lparr>ev_extra = [], ev_path = or_path out, ev_digest = or_digest out\<rparr>,
        ft_verdict = cl_verdict claim, ft_blocking_findings = cl_blocking_findings claim,
        ft_eligibility = \<lparr>el_provenance = provenance, el_verified_model_family = family\<rparr>, ft_lens = cl_lens claim\<rparr> subject policy = Inr f"
    by (auto simp: bind_review_fact_def Let_def split: if_splits list.splits)
  note f = checked_fact_Inr [OF chk]
  have "at_output_refs a = [out]" using r(4,5) by (auto simp: not_less)
  moreover have "rv_provenance reviewer = RP_Observed \<and> rv_family reviewer = Some fam \<and> at_observed_route a \<noteq> None" if "family = Some fam" for fam
    using prov that by (cases "rv_provenance reviewer") (auto simp: bound_provenance_def)
  moreover have "at_head a = Some head" if "subject = SubjectPr extra repo number head" for extra repo number head
    using head that by simp
  ultimately show ?thesis using r f by auto
qed

definition binding_counts :: "review_context \<Rightarrow> id \<Rightarrow> attempt_fact \<Rightarrow> review_claim \<Rightarrow> bool" where
  "binding_counts ctx delivery a claim \<longleftrightarrow> at_terminal_state a = AO_Succeeded \<and> at_delivery_id a = Some delivery
     \<and> (\<exists>output. at_output_refs a = [output])
     \<and> (\<forall>extra repo number head. vc_subject ctx = SubjectPr extra repo number head \<longrightarrow> at_head a = Some head)
     \<and> (\<exists>reviewer. at_reviewer a = Some reviewer \<and> rv_actor_id reviewer \<notin> set (vc_decision_makers ctx)
          \<and> rv_actor_id reviewer \<notin> author_actor_id ` set (vc_authors ctx))
     \<and> cl_verdict claim \<in> {VApprove, VApproveWithNits} \<and> cl_blocking_findings claim = []"

lemma bound_candidate:
  assumes "bind_review_fact a claim (vc_subject ctx) delivery policy = Inr f" and "eligible_review ctx f"
  shows "binding_counts ctx delivery a claim"
proof -
  note b = bound_fact [OF assms(1)]
  from b obtain reviewer where "at_reviewer a = Some reviewer" "ft_reviewer_id f = rv_actor_id reviewer" by blast
  moreover from assms(2) have "ft_reviewer_id f \<notin> excluded_actors ctx" "ft_verdict f \<in> {VApprove, VApproveWithNits}"
    by (simp_all add: eligible_review_def)
  ultimately show ?thesis using b unfolding binding_counts_def by (auto simp: excluded_actors_def)
qed

lemma counted_reviewers:
  assumes "distinct (map ft_attempt_id facts)"
  shows "inj_on ft_reviewer_id (set (map cn_fact (counted_reviews lower ctx facts)))"
proof (rule inj_onI)
  fix x y assume xy: "x \<in> set (map cn_fact (counted_reviews lower ctx facts))" "y \<in> set (map cn_fact (counted_reviews lower ctx facts))"
    "ft_reviewer_id x = ft_reviewer_id y"
  note c = counted_facts(2) [OF assms xy(1)] counted_facts(2) [OF assms xy(2)]
  then have "ft_attempt_id x = ft_attempt_id y" using xy(3) by (auto simp: candidate_review_def intro: antisym)
  moreover have "x \<in> set facts" "y \<in> set facts" using c by (auto simp: candidate_review_def)
  ultimately show "x = y" using assms by (auto simp: distinct_map dest: inj_onD)
qed

text \<open>The bindings of the counted facts.\<close>

lemma counted_bindings:
  assumes bound: "list_all2 (\<lambda>(a, claim) f. bind_review_fact a claim (vc_subject ctx) delivery (vc_policy ctx) = Inr f) bindings facts"
    and d: "distinct (map ft_attempt_id facts)"
  obtains g where "\<And>f. f \<in> set (map cn_fact (counted_reviews lower ctx facts)) \<Longrightarrow> g f \<in> set bindings
    \<and> bind_review_fact (fst (g f)) (snd (g f)) (vc_subject ctx) delivery (vc_policy ctx) = Inr f"
proof -
  have "\<exists>b. b \<in> set bindings \<and> bind_review_fact (fst b) (snd b) (vc_subject ctx) delivery (vc_policy ctx) = Inr f"
    if "f \<in> set (map cn_fact (counted_reviews lower ctx facts))" for f
  proof -
    from counted_facts(2) [OF d that] have "f \<in> set facts" by (simp add: candidate_review_def)
    then obtain i where "i < length facts" "facts ! i = f" by (auto simp: in_set_conv_nth)
    with bound show ?thesis
      by (intro exI [of _ "bindings ! i"]) (auto simp: list_all2_conv_all_nth case_prod_beta)
  qed
  then show thesis using that by metis
qed

subsection \<open>An example\<close>

definition example_attempt :: attempt_fact where
  "example_attempt = \<lparr>at_attempt_id = ''1'', at_task_id = ''t'', at_attempt_number = 1, at_project_id = ''p'', at_terminal_state = AO_Succeeded,
     at_resolved_route = None, at_reviewer = Some \<lparr>rv_provenance = RP_Observed, rv_actor_id = ''r'', rv_family = Some ''f'', rv_model = None\<rparr>,
     at_delivery_id = Some ''d'', at_head = Some (Sha1 ''h''),
     at_output_refs = [\<lparr>or_path = \<lparr>pw_path = ''o'', pw_encoding = Utf8, pw_extra = []\<rparr>, or_digest = ''x''\<rparr>],
     at_observed_route = Some \<lparr>rf_provider = Some ''codex'', rf_route_model = Some ''m'', rf_effort = None, rf_account_label = None\<rparr>\<rparr>"

definition example_claim :: review_claim where
  "example_claim = \<lparr>cl_lens = ''tests'', cl_verdict = VApprove, cl_blocking_findings = [], cl_tier = MT_Senior\<rparr>"

definition example_review_context :: review_context where
  "example_review_context = \<lparr>vc_subject = SubjectPr [] ''repo'' 7 (Sha1 ''h''), vc_authors = [AuthorUser [] ''a''], vc_decision_makers = [''c''],
     vc_risk = RT_Substantial, vc_now = 5, vc_policy = default_review_policy, vc_blockers = []\<rparr>"

definition example_fact :: review_fact where
  "example_fact = \<lparr>ft_attempt_id = ''1'', ft_reviewer_id = ''r'', ft_subject = SubjectPr [] ''repo'' 7 (Sha1 ''h''),
     ft_output = \<lparr>ev_extra = [], ev_path = \<lparr>pw_path = ''o'', pw_encoding = Utf8, pw_extra = []\<rparr>, ev_digest = ''x''\<rparr>,
     ft_verdict = VApprove, ft_blocking_findings = [],
     ft_eligibility = \<lparr>el_provenance = RouteObserved [] ''codex/m@default'' MT_Senior ''codex'' None (Some ''f'')
         \<lparr>ev_extra = [], ev_path = \<lparr>pw_path = ''o'', pw_encoding = Utf8, pw_extra = []\<rparr>, ev_digest = ''x''\<rparr>,
       el_verified_model_family = Some ''f''\<rparr>,
     ft_lens = ''tests''\<rparr>"

lemma example_bound: "bind_review_fact example_attempt example_claim (vc_subject example_review_context) ''d'' (vc_policy example_review_context) = Inr example_fact"
  by code_simp

lemma example_enough: "enough_reviews (\<lambda>s. s) example_review_context [example_fact] [example_fact]"
  by (simp add: enough_reviews_def candidate_review_def eligible_review_def example_review_context_def example_fact_def excluded_actors_def
      tier_below_def author_tier_def author_agents_def author_families_def cross_family_of_def default_review_policy_def map_filter_simps)

lemma example_few: "card {f. candidate_review example_review_context [example_fact] f} \<le> 16"
proof -
  have "{f. candidate_review example_review_context [example_fact] f} \<subseteq> {example_fact}" by (auto simp: candidate_review_def)
  then have "card {f. candidate_review example_review_context [example_fact] f} \<le> card {example_fact}" by (intro card_mono) simp_all
  then show ?thesis by simp
qed

lemma example_passes: "vr_status (coverage_check (\<lambda>s. s) example_review_context [example_fact]) = CovPassed"
proof -
  have "\<not> blocks_subject example_review_context example_fact" "\<not> unknown_author_tier example_review_context"
    by (simp_all add: blocks_subject_def unknown_author_tier_def example_fact_def example_review_context_def author_agents_def)
  with enough_passed [OF _ example_few example_enough] show ?thesis by (simp add: coverage_report)
qed

subsection \<open>Properties\<close>

text \<open>
  C6: Coverage is decided exactly. With at most sixteen candidates, the first eligible review of
  each reviewer, a check passes if and only if no review of the subject requests changes and,
  unless no review is required, every agent author's tier is known and some choice of exactly
  the required number of candidates has distinct lenses, distinct verified families other than
  the authors', as many such legs as live blockers leave open, and an adversarial review at
  terminal risk. The search over bit masks, which prefers adversarial choices, then larger ones,
  then more families, misses no such choice and accepts no other.
\<close>

theorem coverage_exact:
  assumes "distinct (map ft_attempt_id facts)" and "card {f. candidate_review ctx facts f} \<le> 16"
  shows "vr_status (coverage_check lower ctx facts) = CovPassed \<longleftrightarrow>
    \<not> (\<exists>f \<in> set facts. ft_subject f = vc_subject ctx \<and> ft_verdict f = VRequestChanges)
    \<and> (required_reviews (vc_policy ctx) (vc_risk ctx) = 0
       \<or> \<not> list_ex (\<lambda>r. route_tier r = None) (author_agents ctx) \<and> (\<exists>fs. enough_reviews lower ctx facts fs))"
proof (cases "coverage_need ctx = 0")
  case True
  then show ?thesis by (simp add: coverage_report blocks_subject_def coverage_need_def)
next
  case False
  then have need: "0 < coverage_need ctx" by simp
  have "vr_status (coverage_check lower ctx facts) = CovPassed \<longleftrightarrow>
      \<not> (\<exists>f \<in> set facts. blocks_subject ctx f) \<and> \<not> unknown_author_tier ctx \<and> (\<exists>fs. enough_reviews lower ctx facts fs)"
    using passed_enough [OF assms(1) _ need] enough_passed [OF assms] False unfolding coverage_report by blast
  with False show ?thesis by (simp add: blocks_subject_def unknown_author_tier_def coverage_need_def)
qed

theorem coverage_exact_witness: "\<exists>fs. enough_reviews (\<lambda>s. s) example_review_context [example_fact] fs"
proof -
  have "required_reviews (vc_policy example_review_context) (vc_risk example_review_context) = 1"
    by (simp add: example_review_context_def default_review_policy_def)
  with coverage_exact [OF _ example_few, of "\<lambda>s. s"] example_passes show ?thesis by simp
qed

text \<open>
  C22: Passed coverage rests on attempts. When the facts were bound from attempts and their check
  passes where reviews are required, the counted identities are those of that many different
  attempts by different reviewers that succeeded in this delivery on the head under review,
  each with its one retained output, an approving verdict without blocking findings, its own
  lens, and a reviewer who neither wrote nor decides the work.
\<close>

theorem passed_coverage_rests_on_attempts:
  assumes bound: "list_all2 (\<lambda>(a, claim) f. bind_review_fact a claim (vc_subject ctx) delivery (vc_policy ctx) = Inr f) bindings facts"
    and ids: "distinct (map (at_attempt_id \<circ> fst) bindings)"
    and passed: "vr_status (coverage_check lower ctx facts) = CovPassed"
    and need: "0 < required_reviews (vc_policy ctx) (vc_risk ctx)"
  shows "\<exists>chosen. set chosen \<subseteq> set bindings
    \<and> vr_counted (coverage_check lower ctx facts) = map (at_attempt_id \<circ> fst) chosen
    \<and> length chosen = required_reviews (vc_policy ctx) (vc_risk ctx)
    \<and> distinct (map (at_reviewer \<circ> fst) chosen)
    \<and> distinct (map (lens_key lower \<circ> cl_lens \<circ> snd) chosen)
    \<and> (\<forall>(a, claim) \<in> set chosen. binding_counts ctx delivery a claim)"
proof -
  let ?fs = "map cn_fact (counted_reviews lower ctx facts)"
  have "map ft_attempt_id facts = map (at_attempt_id \<circ> fst) bindings"
    using bound by (induction rule: list_all2_induct) (auto dest: bound_fact)
  then have d: "distinct (map ft_attempt_id facts)" using ids by simp
  have enough: "enough_reviews lower ctx facts ?fs"
    by (rule passed_enough [OF d passed]) (use need in \<open>simp add: coverage_need_def\<close>)
  obtain g where g: "\<And>f. f \<in> set ?fs \<Longrightarrow> g f \<in> set bindings"
    and ok: "\<And>f. f \<in> set ?fs \<Longrightarrow> bind_review_fact (fst (g f)) (snd (g f)) (vc_subject ctx) delivery (vc_policy ctx) = Inr f"
    using counted_bindings [OF bound d, of lower] by metis
  have id: "at_attempt_id (fst (g f)) = ft_attempt_id f" and lens: "cl_lens (snd (g f)) = ft_lens f"
    and rv: "\<exists>r. at_reviewer (fst (g f)) = Some r \<and> ft_reviewer_id f = rv_actor_id r" if "f \<in> set ?fs" for f
    using bound_fact [OF ok [OF that]] by auto
  have "vr_counted (coverage_check lower ctx facts) = map (at_attempt_id \<circ> fst) (map g ?fs)"
    using id by (simp add: coverage_report)
  moreover have "inj_on (\<lambda>f. at_reviewer (fst (g f))) (set ?fs)"
    using rv counted_reviewers [OF d] unfolding inj_on_def by (metis option.inject)
  then have "distinct (map (at_reviewer \<circ> fst) (map g ?fs))"
    using counted_facts(3) [OF d] distinct_map [of "\<lambda>f. at_reviewer (fst (g f))" ?fs] by (simp add: comp_def)
  moreover have "map (lens_key lower \<circ> cl_lens \<circ> snd) (map g ?fs) = map (\<lambda>f. lens_key lower (ft_lens f)) ?fs"
    using lens by simp
  then have "distinct (map (lens_key lower \<circ> cl_lens \<circ> snd) (map g ?fs))"
    using enough by (simp only: enough_reviews_def)
  moreover have "binding_counts ctx delivery (fst (g f)) (snd (g f))" if "f \<in> set ?fs" for f
    using bound_candidate [OF ok [OF that]] counted_facts(2) [OF d that] by (simp add: candidate_review_def)
  then have "\<forall>(a, claim) \<in> set (map g ?fs). binding_counts ctx delivery a claim" by (simp add: case_prod_beta)
  moreover have "set (map g ?fs) \<subseteq> set bindings" "length (map g ?fs) = required_reviews (vc_policy ctx) (vc_risk ctx)"
    using g enough by (auto simp: enough_reviews_def)
  ultimately show ?thesis by blast
qed

theorem passed_coverage_rests_on_attempts_witness:
  "vr_counted (coverage_check (\<lambda>s. s) example_review_context [example_fact]) = [''1'']
   \<and> binding_counts example_review_context ''d'' example_attempt example_claim"
proof -
  have need: "required_reviews (vc_policy example_review_context) (vc_risk example_review_context) = 1"
    by (simp add: example_review_context_def default_review_policy_def)
  have "\<exists>chosen. set chosen \<subseteq> set [(example_attempt, example_claim)]
    \<and> vr_counted (coverage_check (\<lambda>s. s) example_review_context [example_fact]) = map (at_attempt_id \<circ> fst) chosen
    \<and> length chosen = 1 \<and> (\<forall>(a, claim) \<in> set chosen. binding_counts example_review_context ''d'' a claim)"
    using passed_coverage_rests_on_attempts [of example_review_context "''d''" "[(example_attempt, example_claim)]" "[example_fact]" "\<lambda>s. s"]
      example_bound example_passes need by auto
  then obtain b where "b = (example_attempt, example_claim)"
    "vr_counted (coverage_check (\<lambda>s. s) example_review_context [example_fact]) = [at_attempt_id (fst b)]"
    "binding_counts example_review_context ''d'' (fst b) (snd b)"
    by (auto simp: length_Suc_conv)
  then show ?thesis by (simp add: example_attempt_def)
qed

end
