(* ===== verification/Workflow_Handoff.thy ===== *)
theory Workflow_Handoff
  imports Workflow_Receipt
begin

section \<open>Account-switch handoffs (crate workflow)\<close>

text \<open>
  \<open>workflow/src/chair.rs\<close>: a session that must leave its account prepares a handoff, and the new
  session of the target account consumes it. The directory of a working directory maps file
  names to what they hold, a handoff or text that does not decode. Every read and write may
  fail; an atomic write that fails leaves the file, one whose sync fails has replaced it. Since
  \<open>save\<close> and \<open>consume\<close> hold the lock, a run is a sequence of them; within one of them a file
  that is read twice before any write reads the same.
\<close>

subsection \<open>Handoffs\<close>

record handoff =
  ho_session_id :: string
  ho_cwd :: string
  ho_transcript_path :: "string option"
  ho_state_handoff_file :: "string option"
  ho_created_unix :: i64
  ho_open_lanes :: "string list"
  ho_target_account :: "string option"
  ho_reason :: string
  ho_consumed :: bool

datatype handoff_error = HandoffFs fs_error | HandoffJson | HandoffInvalid string

definition HOST_SESSION_ID_LIMIT :: nat where
  "HOST_SESSION_ID_LIMIT = 128"

definition is_session_byte :: "char \<Rightarrow> bool" where
  "is_session_byte b \<longleftrightarrow> (97 \<le> byte_of b \<and> byte_of b \<le> 122) \<or> is_ascii_digit b"

definition parse_session_id :: "string \<Rightarrow> string option" where
  "parse_session_id t =
     (if t = [] \<or> HOST_SESSION_ID_LIMIT < length t \<or> sublist ''..'' t
         \<or> \<not> (case t of [] \<Rightarrow> False | b # _ \<Rightarrow> is_session_byte b)
         \<or> \<not> list_all (\<lambda>b. is_session_byte b \<or> b \<in> set ''._-'') t
      then None else Some t)"

definition handoff_live :: "handoff \<Rightarrow> i64 \<Rightarrow> bool" where
  "handoff_live h now \<longleftrightarrow> 0 \<le> i64_saturating_sub now (ho_created_unix h) \<and> i64_saturating_sub now (ho_created_unix h) \<le> 3600"

definition HANDOFF_LIMIT :: nat where
  "HANDOFF_LIMIT = 32 * 1024"

subsection \<open>The store\<close>

datatype handoff_file = HandoffFile handoff | HandoffGarbled

type_synonym handoff_files = "string \<rightharpoonup> handoff_file"

definition pending_name :: string where
  "pending_name = ''.pending.json''"

definition checkpoint_name :: "string \<Rightarrow> string" where
  "checkpoint_name session = session @ ''.json''"

definition prepared_name :: "string \<Rightarrow> string" where
  "prepared_name session = ''.prepared-'' @ session @ ''.json''"

text \<open>
  The outcomes of one operation: of opening the directory, of the lock, of reading a file that is
  there, and of its first, second and third write. \<open>io_length\<close> is the length of the JSON text.
\<close>

record handoff_io =
  hi_directory :: "handoff_error + unit"
  hi_lock :: "fs_error + unit"
  hi_read :: "string \<Rightarrow> fs_error option"
  hi_length :: "handoff \<Rightarrow> nat"
  hi_write :: "nat \<Rightarrow> fs_error + receipt_publication"

definition handoff_read :: "handoff_io \<Rightarrow> string \<Rightarrow> handoff_files \<Rightarrow> string \<Rightarrow> handoff_error + handoff option" where
  "handoff_read io cwd files name = (case read_bounded_file (hi_read io name) (files name) of
       Inl e \<Rightarrow> if fs_is_not_found e then Inr None else Inl (HandoffFs e)
     | Inr HandoffGarbled \<Rightarrow> Inl HandoffJson
     | Inr (HandoffFile h) \<Rightarrow>
         if ho_cwd h \<noteq> cwd then Inl (HandoffInvalid ''handoff working directory mismatch'') else Inr (Some h))"

definition handoff_write :: "handoff_io \<Rightarrow> nat \<Rightarrow> string \<Rightarrow> handoff \<Rightarrow> handoff_files \<Rightarrow> (handoff_error + unit) \<times> handoff_files" where
  "handoff_write io n name h files =
     (if HANDOFF_LIMIT < hi_length io h then (Inl (HandoffInvalid ''handoff exceeds 32 KiB''), files)
      else case hi_write io n of
          Inl e \<Rightarrow> (Inl (HandoffFs e), files)
        | Inr (PubUnconfirmed e) \<Rightarrow> (Inl (HandoffFs e), files(name \<mapsto> HandoffFile h))
        | Inr PubDurable \<Rightarrow> (Inr (), files(name \<mapsto> HandoffFile h)))"

text \<open>\<open>directory(false)\<close> that finds nothing makes the readers return nothing.\<close>

definition missing_directory :: "handoff_error \<Rightarrow> bool" where
  "missing_directory e = (case e of HandoffFs fe \<Rightarrow> fs_is_not_found fe | _ \<Rightarrow> False)"

definition handoff_pending :: "handoff_io \<Rightarrow> string \<Rightarrow> handoff_files \<Rightarrow> i64 \<Rightarrow> handoff_error + handoff option" where
  "handoff_pending io cwd files now = (case hi_directory io of
       Inl e \<Rightarrow> if missing_directory e then Inr None else Inl e
     | Inr _ \<Rightarrow> res_bind (handoff_read io cwd files pending_name) (\<lambda>found.
         Inr (case found of Some h \<Rightarrow> if \<not> ho_consumed h \<and> handoff_live h now then Some h else None | None \<Rightarrow> None)))"

definition recorded_refusal :: "handoff_io \<Rightarrow> string \<Rightarrow> handoff_files \<Rightarrow> string \<Rightarrow> handoff_error + bool" where
  "recorded_refusal io cwd files session = (case hi_directory io of
       Inl e \<Rightarrow> if missing_directory e then Inr False else Inl e
     | Inr _ \<Rightarrow> res_bind (handoff_read io cwd files (checkpoint_name session)) (\<lambda>found.
         Inr (is_some_and found (\<lambda>h. ho_target_account h = None))))"

definition prepared_handoff :: "handoff_io \<Rightarrow> string \<Rightarrow> handoff_files \<Rightarrow> string \<Rightarrow> handoff_error + handoff option" where
  "prepared_handoff io cwd files session = (case hi_directory io of
       Inl e \<Rightarrow> if missing_directory e then Inr None else Inl e
     | Inr _ \<Rightarrow> res_bind (handoff_read io cwd files (prepared_name session)) (\<lambda>found.
         Inr (case found of Some h \<Rightarrow> if ho_target_account h \<noteq> None then Some h else None | None \<Rightarrow> None)))"

text \<open>Writes in order, up to the first that fails.\<close>

fun handoff_writes :: "handoff_io \<Rightarrow> nat \<Rightarrow> (string \<times> handoff) list \<Rightarrow> handoff_files \<Rightarrow> (handoff_error + unit) \<times> handoff_files" where
  "handoff_writes io n [] files = (Inr (), files)"
| "handoff_writes io n ((name, h) # rest) files = (case handoff_write io n name h files of
       (Inl e, files') \<Rightarrow> (Inl e, files')
     | (Inr _, files') \<Rightarrow> handoff_writes io (Suc n) rest files')"

text \<open>
  What \<open>save\<close> decides under the lock: the files to write in order, and whether the handoff is
  fresh. Only the final write of the prepared file commits a preparation.
\<close>

definition save_writes :: "handoff_io \<Rightarrow> string \<Rightarrow> handoff_files \<Rightarrow> handoff \<Rightarrow> handoff_error + (string \<times> handoff) list \<times> bool" where
  "save_writes io cwd files h =
     (let name = checkpoint_name (ho_session_id h) in
      if ho_target_account h = None then
        res_bind (handoff_read io cwd files name) (\<lambda>old. Inr (if old \<noteq> None then ([], False) else ([(name, h)], True)))
      else Inr ([(name, h), (pending_name, h), (prepared_name (ho_session_id h), h)], True))"

definition save_decision :: "handoff_io \<Rightarrow> string \<Rightarrow> handoff_files \<Rightarrow> handoff \<Rightarrow> handoff_error + (string \<times> handoff) list \<times> bool" where
  "save_decision io cwd files h =
     res_bind (handoff_read io cwd files (prepared_name (ho_session_id h))) (\<lambda>old.
     if is_some_and old (\<lambda>h'. ho_target_account h' \<noteq> None) then Inr ([], False)
     else res_bind (handoff_read io cwd files pending_name) (\<lambda>pending.
     case pending of
       None \<Rightarrow> save_writes io cwd files h
     | Some p \<Rightarrow>
         if ho_session_id p = ho_session_id h \<and> ho_consumed p then Inr ([(prepared_name (ho_session_id h), p)], False)
         else if ho_target_account h \<noteq> None \<and> \<not> ho_consumed p \<and> handoff_live p (ho_created_unix h)
             \<and> ho_session_id p \<noteq> ho_session_id h
         then Inl (HandoffInvalid ''another source session has an unconsumed handoff for this cwd'')
         else save_writes io cwd files h))"

definition handoff_save :: "handoff_io \<Rightarrow> string \<Rightarrow> handoff \<Rightarrow> handoff_files \<Rightarrow> (handoff_error + bool) \<times> handoff_files" where
  "handoff_save io cwd h files =
     (if ho_cwd h \<noteq> cwd \<or> ho_consumed h then (Inl (HandoffInvalid ''invalid new handoff''), files)
      else case hi_directory io of
          Inl e \<Rightarrow> (Inl e, files)
        | Inr _ \<Rightarrow> (case hi_lock io of
              Inl e \<Rightarrow> (Inl (HandoffFs e), files)
            | Inr _ \<Rightarrow> (case save_decision io cwd files h of
                  Inl e \<Rightarrow> (Inl e, files)
                | Inr (writes, fresh) \<Rightarrow> (case handoff_writes io 0 writes files of
                      (Inl e, files') \<Rightarrow> (Inl e, files')
                    | (Inr _, files') \<Rightarrow> (Inr fresh, files')))))"

definition handoff_consume ::
  "handoff_io \<Rightarrow> string \<Rightarrow> string \<Rightarrow> string \<Rightarrow> i64 \<Rightarrow> handoff_files \<Rightarrow> (handoff_error + handoff option) \<times> handoff_files" where
  "handoff_consume io cwd target session now files = (case hi_directory io of
       Inl e \<Rightarrow> (if missing_directory e then Inr None else Inl e, files)
     | Inr _ \<Rightarrow> (case hi_lock io of
           Inl e \<Rightarrow> (Inl (HandoffFs e), files)
         | Inr _ \<Rightarrow> (case handoff_read io cwd files pending_name of
               Inl e \<Rightarrow> (Inl e, files)
             | Inr None \<Rightarrow> (Inr None, files)
             | Inr (Some h) \<Rightarrow>
                 if ho_consumed h \<or> \<not> handoff_live h now \<or> ho_target_account h \<noteq> Some target \<or> ho_session_id h = session
                 then (Inr None, files)
                 else (case handoff_write io 0 pending_name (h\<lparr>ho_consumed := True\<rparr>) files of
                     (Inl e, files') \<Rightarrow> (Inl e, files')
                   | (Inr _, files') \<Rightarrow> (Inr (Some (h\<lparr>ho_consumed := True\<rparr>)), files')))))"

subsection \<open>Runs\<close>

datatype handoff_op = Save handoff | Consume string string i64

text \<open>
  What a run shows: a handoff that became the pending one, a save that reported a fresh handoff
  with a target (its caller launches the target), and a handoff given to a session.
\<close>

datatype handoff_event = Offered handoff | Launched handoff | Taken handoff string string i64

definition handoff_step :: "string \<Rightarrow> handoff_files \<Rightarrow> handoff_io \<times> handoff_op \<Rightarrow> handoff_files \<times> handoff_event list" where
  "handoff_step cwd files ev = (case ev of
       (io, Save h) \<Rightarrow> (case handoff_save io cwd h files of (result, files') \<Rightarrow>
         (files', (if files' pending_name \<noteq> files pending_name then [Offered h] else [])
            @ (if result = Inr True \<and> ho_target_account h \<noteq> None then [Launched h] else [])))
     | (io, Consume target session now) \<Rightarrow> (case handoff_consume io cwd target session now files of (result, files') \<Rightarrow>
         (files', case result of Inr (Some h) \<Rightarrow> [Taken h target session now] | _ \<Rightarrow> [])))"

subsection \<open>File names\<close>

lemma names_differ [simp]:
  "prepared_name s \<noteq> pending_name" "pending_name \<noteq> prepared_name s"
  by (simp_all add: prepared_name_def pending_name_def)

lemma prepared_name_inject [simp]: "prepared_name s = prepared_name t \<longleftrightarrow> s = t"
  by (simp add: prepared_name_def)

text \<open>A session starts with a letter or digit, so its checkpoint is none of the other files.\<close>

definition session_ok :: "string \<Rightarrow> bool" where
  "session_ok s \<longleftrightarrow> parse_session_id s = Some s"

lemma checkpoint_differs [simp]:
  assumes "session_ok s"
  shows "checkpoint_name s \<noteq> pending_name" "checkpoint_name s \<noteq> prepared_name t"
    "pending_name \<noteq> checkpoint_name s" "prepared_name t \<noteq> checkpoint_name s"
proof -
  from assms obtain b r where s: "s = b # r" "is_session_byte b"
    by (cases s) (auto simp: session_ok_def parse_session_id_def split: if_splits)
  then have "b \<noteq> CHR ''.''" by (auto simp: is_session_byte_def is_ascii_digit_def)
  with s show "checkpoint_name s \<noteq> pending_name" "checkpoint_name s \<noteq> prepared_name t"
    "pending_name \<noteq> checkpoint_name s" "prepared_name t \<noteq> checkpoint_name s"
    by (simp_all add: checkpoint_name_def pending_name_def prepared_name_def)
qed

subsection \<open>What the operations change\<close>

lemma handoff_write_cases:
  assumes "handoff_write io n name h files = (res, files')"
  shows "files' = files \<and> (\<exists>e. res = Inl e) \<or> files' = files(name \<mapsto> HandoffFile h)"
  using assms by (auto simp: handoff_write_def split: if_splits sum.splits receipt_publication.splits)

lemma handoff_writes_other:
  "handoff_writes io n ws files = (res, files') \<Longrightarrow> name \<notin> fst ` set ws \<Longrightarrow> files' name = files name"
proof (induction ws arbitrary: n files)
  case (Cons w ws)
  obtain m h where w: "w = (m, h)" by fastforce
  obtain r f where f: "handoff_write io n m h files = (r, f)" by fastforce
  have same: "f name = files name" using handoff_write_cases [OF f] Cons.prems(2) w by auto
  show ?case
  proof (cases r)
    case (Inl e)
    with Cons.prems(1) w f same show ?thesis by simp
  next
    case (Inr u)
    with Cons.prems w f have "handoff_writes io (Suc n) ws f = (res, files')" by simp
    from Cons.IH [OF this] Cons.prems(2) same show ?thesis by simp
  qed
qed simp

lemma handoff_writes_at:
  assumes "handoff_writes io n ws files = (res, files')" and "distinct (map fst ws)" and "(name, h) \<in> set ws"
  shows "(files' name = files name \<and> (\<exists>e. res = Inl e)) \<or> files' name = Some (HandoffFile h)"
  using assms
proof (induction ws arbitrary: n files)
  case (Cons w ws)
  obtain m x where w: "w = (m, x)" by fastforce
  obtain r f where f: "handoff_write io n m x files = (r, f)" by fastforce
  note wr = handoff_write_cases [OF f]
  show ?case
  proof (cases r)
    case (Inl e)
    then have "files' = f" "res = Inl e" using Cons.prems(1) w f by simp_all
    with wr Cons.prems(2,3) w show ?thesis by force
  next
    case (Inr u)
    then have rest: "handoff_writes io (Suc n) ws f = (res, files')" and f': "f = files(m \<mapsto> HandoffFile x)"
      using Cons.prems(1) w f wr by auto
    show ?thesis
    proof (cases "name = m")
      case True
      with Cons.prems(2,3) w have "h = x" "name \<notin> fst ` set ws" by force+
      with handoff_writes_other [OF rest] f' True show ?thesis by simp
    next
      case False
      with Cons.prems w have "distinct (map fst ws)" "(name, h) \<in> set ws" by auto
      from Cons.IH [OF rest this] f' False show ?thesis by simp
    qed
  qed
qed simp

definition has_target :: "handoff_file option \<Rightarrow> bool" where
  "has_target f \<longleftrightarrow> (\<exists>h. f = Some (HandoffFile h) \<and> ho_target_account h \<noteq> None)"

lemma handoff_read_Inr:
  "handoff_read io cwd files name = Inr r \<Longrightarrow> files name = map_option HandoffFile r"
  by (auto simp: handoff_read_def read_bounded_file_def fs_is_not_found_def split: sum.splits option.splits handoff_file.splits if_splits)

text \<open>A save writes nothing, writes a consumed handoff as prepared, records a refusal, or prepares.\<close>

lemma save_decision_cases:
  assumes "save_decision io cwd files h = Inr (ws, fresh)"
  obtains "ws = []" "\<not> fresh"
  | p where "files pending_name = Some (HandoffFile p)" "ho_session_id p = ho_session_id h" "ws = [(prepared_name (ho_session_id h), p)]"
      "\<not> fresh" "\<not> has_target (files (prepared_name (ho_session_id h)))"
  | "ws = [(checkpoint_name (ho_session_id h), h)]" "ho_target_account h = None"
  | "ws = [(checkpoint_name (ho_session_id h), h), (pending_name, h), (prepared_name (ho_session_id h), h)]" "fresh"
      "ho_target_account h \<noteq> None" "\<not> has_target (files (prepared_name (ho_session_id h)))"
proof -
  note goal = that
  from assms obtain old where old: "handoff_read io cwd files (prepared_name (ho_session_id h)) = Inr old"
    by (auto simp: save_decision_def)
  show thesis
  proof (cases "is_some_and old (\<lambda>h'. ho_target_account h' \<noteq> None)")
    case True
    with assms old show thesis by (intro that(1)) (simp_all add: save_decision_def)
  next
    case False
    then have new: "\<not> has_target (files (prepared_name (ho_session_id h)))"
      using handoff_read_Inr [OF old] by (cases old) (auto simp: has_target_def)
    from assms old False obtain pending where p: "handoff_read io cwd files pending_name = Inr pending"
      by (auto simp: save_decision_def)
    have writes: thesis if "save_writes io cwd files h = Inr (ws, fresh)"
    proof (cases "ho_target_account h = None")
      case True
      with that show thesis using goal(1,3) by (auto simp: save_writes_def Let_def split: if_splits)
    next
      case False
      with that new show thesis by (intro goal(4)) (simp_all add: save_writes_def Let_def)
    qed
    show thesis
    proof (cases pending)
      case None
      with assms old False p show thesis by (intro writes) (simp add: save_decision_def)
    next
      case (Some q)
      with handoff_read_Inr [OF p] have q: "files pending_name = Some (HandoffFile q)" by simp
      show thesis
      proof (cases "ho_session_id q = ho_session_id h \<and> ho_consumed q")
        case True
        with assms old False p Some q new show thesis by (intro that(2) [of q]) (simp_all add: save_decision_def)
      next
        case other: False
        with assms old False p Some show thesis
          by (intro writes) (simp add: save_decision_def split: if_splits)
      qed
    qed
  qed
qed

lemma handoff_save_effect:
  assumes save: "handoff_save io cwd h files = (res, files')" and ok: "session_ok (ho_session_id h)"
  shows "files' pending_name = files pending_name
      \<or> files' pending_name = Some (HandoffFile h) \<and> ho_target_account h \<noteq> None \<and> \<not> ho_consumed h"
    "t \<noteq> ho_session_id h \<Longrightarrow> files' (prepared_name t) = files (prepared_name t)"
    "files' (prepared_name (ho_session_id h)) = files (prepared_name (ho_session_id h))
      \<or> \<not> has_target (files (prepared_name (ho_session_id h)))"
    "res = Inr True \<Longrightarrow> ho_target_account h \<noteq> None \<Longrightarrow>
      files' (prepared_name (ho_session_id h)) = Some (HandoffFile h) \<and> \<not> has_target (files (prepared_name (ho_session_id h)))"
proof -
  let ?s = "ho_session_id h"
  consider (none) "files' = files" "res \<noteq> Inr True"
    | (writes) ws fresh where "save_decision io cwd files h = Inr (ws, fresh)" "\<not> ho_consumed h"
        "fst (handoff_writes io 0 ws files) = Inr () \<Longrightarrow> res = Inr fresh" "\<exists>r. handoff_writes io 0 ws files = (r, files')"
        "\<And>e. fst (handoff_writes io 0 ws files) = Inl e \<Longrightarrow> res = Inl e"
    using save by (auto simp: handoff_save_def split: if_splits sum.splits prod.splits)
  then have all: "(files' pending_name = files pending_name
      \<or> files' pending_name = Some (HandoffFile h) \<and> ho_target_account h \<noteq> None \<and> \<not> ho_consumed h)
    \<and> (t \<noteq> ?s \<longrightarrow> files' (prepared_name t) = files (prepared_name t))
    \<and> (files' (prepared_name ?s) = files (prepared_name ?s) \<or> \<not> has_target (files (prepared_name ?s)))
    \<and> (res = Inr True \<longrightarrow> ho_target_account h \<noteq> None \<longrightarrow>
        files' (prepared_name ?s) = Some (HandoffFile h) \<and> \<not> has_target (files (prepared_name ?s)))"
  proof cases
    case none
    then show ?thesis by simp
  next
    case (writes ws fresh)
    then obtain r where w: "handoff_writes io 0 ws files = (r, files')" by blast
    have res: "r = Inr () \<Longrightarrow> res = Inr fresh" "\<And>e. r = Inl e \<Longrightarrow> res = Inl e" using writes(3,5) w by simp_all
    note other = handoff_writes_other [OF w] and at = handoff_writes_at [OF w]
    from writes(1) show ?thesis
    proof (cases rule: save_decision_cases)
      case 1
      with w res show ?thesis by auto
    next
      case (2 p)
      with res(1) res(2) other [of pending_name] other [of "prepared_name t"] show ?thesis by (cases r) auto
    next
      case 3
      with ok other [of pending_name] other [of "prepared_name t"] other [of "prepared_name ?s"] show ?thesis by auto
    next
      case 4
      with ok other [of "prepared_name t"] at [of pending_name h] at [of "prepared_name ?s" h] res(2) writes(2) show ?thesis
        by (cases r) auto
    qed
  qed
  then show "files' pending_name = files pending_name
      \<or> files' pending_name = Some (HandoffFile h) \<and> ho_target_account h \<noteq> None \<and> \<not> ho_consumed h"
    "t \<noteq> ?s \<Longrightarrow> files' (prepared_name t) = files (prepared_name t)"
    "files' (prepared_name ?s) = files (prepared_name ?s) \<or> \<not> has_target (files (prepared_name ?s))"
    "res = Inr True \<Longrightarrow> ho_target_account h \<noteq> None \<Longrightarrow>
      files' (prepared_name ?s) = Some (HandoffFile h) \<and> \<not> has_target (files (prepared_name ?s))"
    by blast+
qed

lemma handoff_consume_effect:
  assumes "handoff_consume io cwd target session now files = (res, files')"
  shows "files' (prepared_name t) = files (prepared_name t)"
    "files' pending_name = files pending_name \<or> (\<exists>p. files' pending_name = Some (HandoffFile p) \<and> ho_consumed p)"
    "res = Inr (Some h) \<Longrightarrow> \<exists>p. files pending_name = Some (HandoffFile p) \<and> \<not> ho_consumed p \<and> h = p\<lparr>ho_consumed := True\<rparr>
       \<and> ho_target_account p = Some target \<and> ho_session_id p \<noteq> session \<and> handoff_live p now \<and> files' pending_name = Some (HandoffFile h)"
proof -
  consider (none) "files' = files" "\<And>h. res \<noteq> Inr (Some h)"
    | (took) p r where "handoff_read io cwd files pending_name = Inr (Some p)" "\<not> ho_consumed p" "ho_target_account p = Some target"
        "ho_session_id p \<noteq> session" "handoff_live p now" "handoff_write io 0 pending_name (p\<lparr>ho_consumed := True\<rparr>) files = (r, files')"
        "res = (case r of Inl e \<Rightarrow> Inl e | Inr _ \<Rightarrow> Inr (Some (p\<lparr>ho_consumed := True\<rparr>)))"
  proof (cases "handoff_read io cwd files pending_name")
    case (Inl e)
    with assms show thesis by (intro none) (auto simp: handoff_consume_def split: sum.splits if_splits)
  next
    case (Inr found)
    show thesis
    proof (cases found)
      case None
      with Inr assms show thesis by (intro none) (auto simp: handoff_consume_def split: sum.splits if_splits)
    next
      case (Some p)
      with Inr assms show thesis
        by (auto simp: handoff_consume_def split: sum.splits if_splits prod.splits intro: none took [of p])
    qed
  qed
  then have "files' (prepared_name t) = files (prepared_name t)
    \<and> (files' pending_name = files pending_name \<or> (\<exists>p. files' pending_name = Some (HandoffFile p) \<and> ho_consumed p))
    \<and> (res = Inr (Some h) \<longrightarrow> (\<exists>p. files pending_name = Some (HandoffFile p) \<and> \<not> ho_consumed p \<and> h = p\<lparr>ho_consumed := True\<rparr>
       \<and> ho_target_account p = Some target \<and> ho_session_id p \<noteq> session \<and> handoff_live p now \<and> files' pending_name = Some (HandoffFile h)))"
  proof cases
    case none
    then show ?thesis by simp
  next
    case (took p r)
    have "files pending_name = Some (HandoffFile p)" using handoff_read_Inr [OF took(1)] by simp
    with handoff_write_cases [OF took(6)] took show ?thesis by (cases r) auto
  qed
  then show "files' (prepared_name t) = files (prepared_name t)"
    "files' pending_name = files pending_name \<or> (\<exists>p. files' pending_name = Some (HandoffFile p) \<and> ho_consumed p)"
    "res = Inr (Some h) \<Longrightarrow> \<exists>p. files pending_name = Some (HandoffFile p) \<and> \<not> ho_consumed p \<and> h = p\<lparr>ho_consumed := True\<rparr>
       \<and> ho_target_account p = Some target \<and> ho_session_id p \<noteq> session \<and> handoff_live p now \<and> files' pending_name = Some (HandoffFile h)"
    by blast+
qed

subsection \<open>Handoffs along a run\<close>

text \<open>The handoff on offer after a run: the last one offered, if no session has taken it.\<close>

definition offer_after :: "handoff option \<Rightarrow> handoff_event \<Rightarrow> handoff option" where
  "offer_after offer ev = (case ev of Offered h \<Rightarrow> Some h | Launched h \<Rightarrow> offer | Taken h target session now \<Rightarrow> None)"

definition on_offer :: "handoff_event list \<Rightarrow> handoff option" where
  "on_offer tr = foldl offer_after None tr"

lemma on_offer_snoc [simp]: "on_offer (tr @ [ev]) = offer_after (on_offer tr) ev" "on_offer [] = None"
  by (simp_all add: on_offer_def)

lemma on_offer_append: "on_offer (tr @ evs) = foldl offer_after (on_offer tr) evs"
  by (simp add: on_offer_def)

definition launched_by :: "string \<Rightarrow> handoff_event \<Rightarrow> bool" where
  "launched_by session ev = (case ev of Launched h \<Rightarrow> ho_session_id h = session | _ \<Rightarrow> False)"

definition handoff_traced :: "handoff_event list \<Rightarrow> handoff_files \<Rightarrow> bool" where
  "handoff_traced tr files \<longleftrightarrow>
     (\<forall>p. files pending_name = Some (HandoffFile p) \<longrightarrow> \<not> ho_consumed p \<longrightarrow> on_offer tr = Some p)
   \<and> (\<forall>session. list_ex (launched_by session) tr \<longrightarrow> has_target (files (prepared_name session)))"

definition handoff_admissible :: "handoff_event list \<Rightarrow> handoff_event \<Rightarrow> bool" where
  "handoff_admissible tr ev = (case ev of
       Offered h \<Rightarrow> ho_target_account h \<noteq> None
     | Launched h \<Rightarrow> \<not> list_ex (launched_by (ho_session_id h)) tr
     | Taken h target session now \<Rightarrow> (\<exists>p. on_offer tr = Some p \<and> h = p\<lparr>ho_consumed := True\<rparr> \<and> ho_target_account p = Some target
         \<and> ho_session_id p \<noteq> session \<and> handoff_live p now))"

fun handoff_event_ok :: "handoff_io \<times> handoff_op \<Rightarrow> bool" where
  "handoff_event_ok (io, Save h) = session_ok (ho_session_id h)"
| "handoff_event_ok (io, Consume target session now) = True"

lemma save_traced:
  assumes tr: "handoff_traced tr files" and ok: "session_ok (ho_session_id h)"
  shows "handoff_traced (tr @ snd (handoff_step cwd files (io, Save h))) (fst (handoff_step cwd files (io, Save h)))"
    "snd (handoff_step cwd files (io, Save h)) = xs @ x # ys \<Longrightarrow> handoff_admissible (tr @ xs) x"
proof -
  obtain res files' where save: "handoff_save io cwd h files = (res, files')" by fastforce
  note eff = handoff_save_effect [OF save ok]
  let ?new = "files' pending_name \<noteq> files pending_name" and ?go = "res = Inr True \<and> ho_target_account h \<noteq> None"
  let ?evs = "(if ?new then [Offered h] else []) @ (if ?go then [Launched h] else [])"
  have step: "handoff_step cwd files (io, Save h) = (files', ?evs)" by (simp add: handoff_step_def save)
  have launched: "list_ex (launched_by s) ?evs \<longleftrightarrow> ?go \<and> s = ho_session_id h" for s by (auto simp: launched_by_def)
  have keep: "has_target (files' (prepared_name s))" if "has_target (files (prepared_name s))" for s
    using eff(2) [of s] eff(3) that by (cases "s = ho_session_id h") auto
  have "has_target (files' (prepared_name s))" if "list_ex (launched_by s) (tr @ ?evs)" for s
  proof (cases "list_ex (launched_by s) tr")
    case True
    with tr keep show ?thesis by (simp add: handoff_traced_def)
  next
    case False
    with that launched [of s] have "?go" "s = ho_session_id h" by auto
    with eff(4) show ?thesis by (auto simp: has_target_def)
  qed
  moreover have "on_offer (tr @ ?evs) = Some p" if "files' pending_name = Some (HandoffFile p)" "\<not> ho_consumed p" for p
    using tr eff(1) that by (cases ?new) (auto simp: on_offer_append offer_after_def handoff_traced_def)
  ultimately show "handoff_traced (tr @ snd (handoff_step cwd files (io, Save h))) (fst (handoff_step cwd files (io, Save h)))"
    unfolding step by (simp add: handoff_traced_def del: list_ex_append)
  assume "snd (handoff_step cwd files (io, Save h)) = xs @ x # ys"
  then have evs: "?evs = xs @ x # ys" by (simp add: step)
  have "\<not> list_ex (launched_by (ho_session_id h)) tr" if ?go
    using tr eff(4) that by (auto simp: handoff_traced_def)
  then show "handoff_admissible (tr @ xs) x"
    using evs eff(1)
    by (cases xs) (auto simp: handoff_admissible_def launched_by_def Cons_eq_append_conv split: if_splits)
qed

lemma consume_traced:
  assumes tr: "handoff_traced tr files"
  shows "handoff_traced (tr @ snd (handoff_step cwd files (io, Consume target session now))) (fst (handoff_step cwd files (io, Consume target session now)))"
    "snd (handoff_step cwd files (io, Consume target session now)) = xs @ x # ys \<Longrightarrow> handoff_admissible (tr @ xs) x"
proof -
  obtain res files' where consume: "handoff_consume io cwd target session now files = (res, files')" by fastforce
  note eff = handoff_consume_effect [OF consume]
  let ?evs = "case res of Inr (Some h) \<Rightarrow> [Taken h target session now] | _ \<Rightarrow> []"
  have step: "handoff_step cwd files (io, Consume target session now) = (files', ?evs)" by (simp add: handoff_step_def consume)
  have quiet: "\<not> list_ex (launched_by s) ?evs" for s by (auto simp: launched_by_def split: sum.splits option.splits)
  have "on_offer (tr @ ?evs) = Some p" if p: "files' pending_name = Some (HandoffFile p)" "\<not> ho_consumed p" for p
  proof -
    from eff(2) p have "files pending_name = Some (HandoffFile p)" by auto
    with tr p(2) have "on_offer tr = Some p" by (simp add: handoff_traced_def)
    moreover have "?evs = []" using eff(3) p by (auto split: sum.splits option.splits)
    ultimately show ?thesis by simp
  qed
  then show "handoff_traced (tr @ snd (handoff_step cwd files (io, Consume target session now))) (fst (handoff_step cwd files (io, Consume target session now)))"
    unfolding step using tr quiet by (simp add: handoff_traced_def eff(1))
  assume "snd (handoff_step cwd files (io, Consume target session now)) = xs @ x # ys"
  then obtain h where h: "res = Inr (Some h)" and x: "xs = []" "x = Taken h target session now"
    by (auto simp: step Cons_eq_append_conv split: sum.splits option.splits)
  from eff(3) [OF h] tr show "handoff_admissible (tr @ xs) x" by (auto simp: x handoff_admissible_def handoff_traced_def)
qed

interpretation handoffs: traced_machine "handoff_step cwd" Map.empty handoff_event_ok handoff_traced handoff_admissible
proof
  show "handoff_traced [] Map.empty" by (simp add: handoff_traced_def)
next
  fix tr files and ev :: "handoff_io \<times> handoff_op"
  assume tr: "handoff_traced tr files" and ok: "handoff_event_ok ev"
  obtain io op where ev: "ev = (io, op)" by fastforce
  show "handoff_traced (tr @ snd (handoff_step cwd files ev)) (fst (handoff_step cwd files ev))"
    using tr ok ev save_traced(1) consume_traced(1) by (cases op) simp_all
  show "handoff_admissible (tr @ xs) x" if "snd (handoff_step cwd files ev) = xs @ x # ys" for xs x ys
    using tr ok ev that save_traced(2) consume_traced(2) by (cases op) simp_all
qed

subsection \<open>An example\<close>

definition example_handoff :: handoff where
  "example_handoff = \<lparr>ho_session_id = ''old'', ho_cwd = ''/w'', ho_transcript_path = None, ho_state_handoff_file = None, ho_created_unix = 1000,
     ho_open_lanes = [], ho_target_account = Some ''target'', ho_reason = ''quota'', ho_consumed = False\<rparr>"

definition example_io :: handoff_io where
  "example_io = \<lparr>hi_directory = Inr (), hi_lock = Inr (), hi_read = (\<lambda>_. None), hi_length = (\<lambda>_. 100), hi_write = (\<lambda>_. Inr PubDurable)\<rparr>"

definition example_handoff_run :: "(handoff_io \<times> handoff_op) list" where
  "example_handoff_run = [(example_io, Save example_handoff), (example_io, Save example_handoff),
     (example_io, Consume ''wrong'' ''new'' 1001), (example_io, Consume ''target'' ''new'' 1001), (example_io, Consume ''target'' ''other'' 1002)]"

lemma example_handoff_trace:
  "snd (run_machine (handoff_step ''/w'') Map.empty example_handoff_run)
   = [Offered example_handoff, Launched example_handoff, Taken (example_handoff\<lparr>ho_consumed := True\<rparr>) ''target'' ''new'' 1001]"
  by (simp add: example_handoff_run_def handoff_step_def handoff_save_def example_io_def example_handoff_def save_decision_def save_writes_def
      handoff_read_def read_bounded_file_def fs_is_not_found_def handoff_write_def HANDOFF_LIMIT_def handoff_consume_def handoff_live_def
      i64_saturating_sub_def pending_name_def prepared_name_def checkpoint_name_def run_machine_Cons del: run_machine.simps(2))

lemma example_handoff_ok: "list_all handoff_event_ok example_handoff_run"
  by (simp add: example_handoff_run_def example_handoff_def session_ok_def parse_session_id_def HOST_SESSION_ID_LIMIT_def
      is_session_byte_def is_ascii_digit_def sublist_Cons_right)

subsection \<open>Properties\<close>



text \<open>
  C25: A session launches its successor at most once. However often the prompts of a session ask
  to save a handoff, and whatever fails in between, at most one save of that session reports a
  fresh handoff with a target account.
\<close>

theorem session_launches_once:
  assumes "list_all handoff_event_ok evs"
  shows "length (filter (launched_by session) (snd (run_machine (handoff_step cwd) Map.empty evs))) \<le> 1"
proof (rule ccontr)
  let ?tr = "snd (run_machine (handoff_step cwd) Map.empty evs)"
  assume "\<not> length (filter (launched_by session) ?tr) \<le> 1"
  then obtain x y rest where "filter (launched_by session) ?tr = x # y # rest"
    by (auto simp: not_le Suc_less_eq2 length_Suc_conv numeral_2_eq_2 less_eq_Suc_le Suc_le_length_iff)
  from filter_eq_ConsD [OF this] obtain us vs where tr: "?tr = us @ x # vs" and x: "launched_by session x"
    and rest: "filter (launched_by session) vs = y # rest" by auto
  from filter_eq_ConsD [OF rest] obtain vs1 vs2 where vs: "vs = vs1 @ y # vs2" and y: "launched_by session y" by auto
  have "?tr = (us @ x # vs1) @ y # vs2" by (simp add: tr vs)
  from handoffs.run_admissible [OF assms this] y have "\<not> list_ex (launched_by session) (us @ x # vs1)"
    by (auto simp: handoff_admissible_def launched_by_def split: handoff_event.splits)
  with x show False by simp
qed

theorem session_launches_once_witness:
  "length (filter (launched_by ''old'') (snd (run_machine (handoff_step ''/w'') Map.empty example_handoff_run))) \<le> 1
   \<and> list_ex (launched_by ''old'') (snd (run_machine (handoff_step ''/w'') Map.empty example_handoff_run))"
  using session_launches_once [OF example_handoff_ok, of "''old''" "''/w''"]
  by (simp add: example_handoff_trace launched_by_def) (simp add: example_handoff_def)

end
