(* ===== verification/Quota_State.thy ===== *)
theory Quota_State
  imports Core_Time Records_Adapters
begin

section \<open>Quota observations and account records (crate quota)\<close>

text \<open>
  \<open>quota/src/source.rs\<close>, \<open>quota/src/state.rs\<close> and the data of \<open>quota/src/admission.rs\<close>: the
  snapshot a provider probe yields, the durable record of one account, its validation, and
  the compare-and-swap intent through which every update of a record goes.
\<close>

subsection \<open>Errors and closed enumerations\<close>

datatype quota_error =
    QE_Disabled
  | QE_NumberOutOfRange
  | QE_Record
  | QE_Invalid string
  | QE_TimeRange
  | QE_InvalidTimestamp
  | QE_Conflict
  | QE_Refused string

datatype quota_status =
    QS_Available
  | QS_CreditOnly
  | QS_Exhausted
  | QS_Stale
  | QS_Unknown
  | QS_AuthRequired
  | QS_KeychainUnavailable
  | QS_Unsupported

datatype probe_failure =
    PF_Network
  | PF_RateLimited
  | PF_Auth
  | PF_LoginExpired
  | PF_AccountMismatch
  | PF_IsolatedKeychainUnavailable
  | PF_MissingCli
  | PF_ProbeDirectory
  | PF_Disabled
  | PF_Malformed

datatype readiness_reason =
    RR_NotProbed
  | RR_Stale
  | RR_ProbeTimeout
  | RR_CommandFailure
  | RR_MissingExecutable
  | RR_SignedOut
  | RR_LoginExpired
  | RR_AccountMismatch
  | RR_Exhausted
  | RR_ProviderRefusal
  | RR_UncalibratedPartialCoverage
  | RR_InvalidEvidence
  | RR_UnreachablePeer
  | RR_UnsupportedPeerVersion

fun probe_readiness_reason :: "probe_failure \<Rightarrow> readiness_reason" where
  "probe_readiness_reason PF_MissingCli = RR_MissingExecutable"
| "probe_readiness_reason PF_Disabled = RR_MissingExecutable"
| "probe_readiness_reason PF_Auth = RR_SignedOut"
| "probe_readiness_reason PF_LoginExpired = RR_LoginExpired"
| "probe_readiness_reason PF_AccountMismatch = RR_AccountMismatch"
| "probe_readiness_reason _ = RR_CommandFailure"

definition needs_login :: "probe_failure \<Rightarrow> bool" where
  "needs_login f \<longleftrightarrow> f \<in> {PF_Auth, PF_LoginExpired, PF_AccountMismatch}"

subsection \<open>Snapshots\<close>

record quota_policy =
  qp_adapter :: string
  qp_timer_seconds :: u64
  qp_panel_seconds :: u64
  qp_probe_seconds :: u64
  qp_low_power :: bool
  qp_solo :: bool

record account_scope =
  acc_adapter :: string
  acc_key :: string
  acc_label :: string

record quota_details =
  qd_source :: "string option"
  qd_coverage :: "string option"
  qd_calibration_expires :: "i64 option"
  qd_calibrated_windows :: "string list"
  qd_plan :: "string option"
  qd_tier :: "string option"
  qd_billing_anchor :: "string option"
  qd_fingerprint :: "string option"
  qd_priority :: "u64 option"
  qd_credit_balance :: "string option"
  qd_reset_credits :: "u64 option"
  qd_reset_expiries :: "i64 list"
  qd_note :: "string option"

definition details_default :: quota_details where
  "details_default = \<lparr>qd_source = None, qd_coverage = None, qd_calibration_expires = None,
     qd_calibrated_windows = [], qd_plan = None, qd_tier = None, qd_billing_anchor = None,
     qd_fingerprint = None, qd_priority = None, qd_credit_balance = None,
     qd_reset_credits = None, qd_reset_expiries = [], qd_note = None\<rparr>"

definition calibration_active :: "quota_details \<Rightarrow> string \<Rightarrow> i64 \<Rightarrow> bool" where
  "calibration_active d pool now \<longleftrightarrow>
     is_some_and (qd_calibration_expires d) (\<lambda>expiry. now < expiry)
     \<and> list_ex (\<lambda>window. window = pool) (qd_calibrated_windows d)"

record quota_window =
  qw_pool :: string
  qw_window_seconds :: "u64 option"
  qw_used :: u64
  qw_resets :: "i64 option"

record quota_snapshot =
  qs_schema_version :: u64
  qs_account :: account_scope
  qs_revision :: u64
  qs_status :: quota_status
  qs_observed :: i64
  qs_source_ref :: string
  qs_authority_ref :: "string option"
  qs_windows :: "quota_window list"
  qs_details :: "quota_details option"

subsection \<open>Bounded texts\<close>

abbreviation MAX_ACCOUNTS :: nat where "MAX_ACCOUNTS \<equiv> 128"
abbreviation MAX_WINDOWS :: nat where "MAX_WINDOWS \<equiv> 64"

definition component :: "string \<Rightarrow> bool" where
  "component txt \<longleftrightarrow> txt \<noteq> [] \<and> length txt \<le> 128 \<and> txt \<noteq> ''.'' \<and> txt \<noteq> ''..''
     \<and> list_all (\<lambda>b. is_ascii_alphanumeric b \<or> b = CHR ''-'' \<or> b = CHR ''_'') txt"

definition reference :: "string \<Rightarrow> bool" where
  "reference txt \<longleftrightarrow> txt \<noteq> [] \<and> length txt \<le> 256
     \<and> list_all (\<lambda>b. is_ascii_alphanumeric b \<or> b \<in> set ''-_.:'') txt"

text \<open>\<open>text.contains(['@', '/', '\'])\<close>, with the backslash by its code.\<close>

definition has_separator :: "string \<Rightarrow> bool" where
  "has_separator txt \<longleftrightarrow> list_ex (\<lambda>b. b = CHR ''@'' \<or> b = CHR ''/'' \<or> byte_of b = 92) txt"

definition detail_text :: "string \<Rightarrow> nat \<Rightarrow> bool" where
  "detail_text txt maximum \<longleftrightarrow> txt \<noteq> [] \<and> length txt \<le> maximum \<and> \<not> has_control txt
     \<and> \<not> has_separator txt"

definition fingerprint :: "string \<Rightarrow> bool" where
  "fingerprint txt =
     (let (hex, len) = (case strip_prefix ''google-'' txt of
                          Some hex \<Rightarrow> (hex, 12) | None \<Rightarrow> (txt, 16))
      in length hex = len
         \<and> list_all (\<lambda>b. is_ascii_digit b \<or> (97 \<le> byte_of b \<and> byte_of b \<le> 102)) hex)"

definition scope_validate :: "account_scope \<Rightarrow> quota_error + unit" where
  "scope_validate a =
     (if \<not> component (acc_adapter a) \<or> \<not> component (acc_key a) \<or> acc_label a = []
         \<or> 128 < length (acc_label a) \<or> has_control (acc_label a) \<or> has_separator (acc_label a)
      then Inl (QE_Invalid ''account identity'') else Inr ())"

definition details_invalid :: "quota_details \<Rightarrow> bool" where
  "details_invalid d \<longleftrightarrow>
     is_some_and (qd_source d) (\<lambda>s. \<not> detail_text s 128)
   \<or> is_some_and (qd_coverage d) (\<lambda>s. \<not> detail_text s 128)
   \<or> MAX_WINDOWS < length (qd_calibrated_windows d)
   \<or> list_ex (\<lambda>s. \<not> detail_text s 128) (qd_calibrated_windows d)
   \<or> is_some_and (qd_plan d) (\<lambda>v. \<not> detail_text v 128)
   \<or> is_some_and (qd_tier d) (\<lambda>v. \<not> detail_text v 128)
   \<or> is_some_and (qd_fingerprint d) (\<lambda>v. \<not> fingerprint v)
   \<or> is_some_and (qd_credit_balance d) (\<lambda>v. \<not> detail_text v 128)
   \<or> is_some_and (qd_note d) (\<lambda>v. \<not> detail_text v 256)
   \<or> MAX_WINDOWS < length (qd_reset_expiries d)"

text \<open>The loop over the windows; \<open>pools\<close> is the set of names already seen.\<close>

fun windows_validate :: "string list \<Rightarrow> quota_window list \<Rightarrow> quota_error + unit" where
  "windows_validate pools [] = Inr ()"
| "windows_validate pools (w # ws) =
     (if qw_pool w = [] \<or> 256 < length (qw_pool w) \<or> qw_pool w \<in> set pools
      then Inl (QE_Invalid ''allowance pool'')
      else if 1000000 < qw_used w then Inl QE_NumberOutOfRange
      else windows_validate (qw_pool w # pools) ws)"

definition snapshot_validate :: "quota_snapshot \<Rightarrow> quota_error + unit" where
  "snapshot_validate s =
     res_bind (scope_validate (qs_account s)) (\<lambda>_.
       if qs_schema_version s \<noteq> 1 \<or> MAX_WINDOWS < length (qs_windows s)
          \<or> \<not> reference (qs_source_ref s)
          \<or> is_some_and (qs_authority_ref s) (\<lambda>r. \<not> reference r)
          \<or> is_some_and (qs_details s) details_invalid
       then Inl (QE_Invalid ''snapshot header or bounds'')
       else windows_validate [] (qs_windows s))"

subsection \<open>Account records\<close>

record refusal =
  rf_extra :: extra_fields
  rf_account :: account_scope
  rf_model :: string
  rf_pool :: "string option"
  rf_observed :: i64
  rf_resets :: "i64 option"

record capacity_cooldown =
  cd_extra :: extra_fields
  cd_account :: account_scope
  cd_model :: string
  cd_observed :: i64
  cd_expires :: i64

record refresh_claim =
  rc_token :: string
  rc_deadline :: i64

record credential_stat =
  cs_device :: u64
  cs_inode :: u64
  cs_mode :: nat
  cs_uid :: nat
  cs_size :: u64
  cs_modified_ns :: int

record credential_metadata =
  cm_path :: string
  cm_stat :: "credential_stat option"

record account_record =
  ar_schema_version :: u64
  ar_account :: account_scope
  ar_revision :: u64
  ar_snapshot :: "quota_snapshot option"
  ar_claim :: "refresh_claim option"
  ar_last_attempt :: "i64 option"
  ar_backoff_until :: "i64 option"
  ar_failures :: u64
  ar_last_error :: "probe_failure option"
  ar_auth_verified :: "i64 option"
  ar_credential_metadata :: "credential_metadata list"
  ar_auth_retry_pending :: bool
  ar_refusals :: "refusal list"
  ar_capacity_cooldowns :: "capacity_cooldown list"

definition empty_record :: "account_scope \<Rightarrow> account_record" where
  "empty_record account = \<lparr>ar_schema_version = 1, ar_account = account, ar_revision = 0,
     ar_snapshot = None, ar_claim = None, ar_last_attempt = None, ar_backoff_until = None,
     ar_failures = 0, ar_last_error = None, ar_auth_verified = None,
     ar_credential_metadata = [], ar_auth_retry_pending = False, ar_refusals = [],
     ar_capacity_cooldowns = []\<rparr>"

abbreviation TICK_BUDGET_SECONDS :: int where "TICK_BUDGET_SECONDS \<equiv> 55"

definition claim_validate :: "account_record \<Rightarrow> quota_error + unit" where
  "claim_validate r =
     (case ar_claim r of
        None \<Rightarrow> Inr ()
      | Some claim \<Rightarrow>
          res_bind (ok_or (QE_Invalid ''claim without attempt'') (ar_last_attempt r)) (\<lambda>started.
          res_bind (ok_or QE_TimeRange (i64_checked_add started TICK_BUDGET_SECONDS)) (\<lambda>maximum.
            ensure (\<not> (rc_deadline claim \<le> started \<or> maximum < rc_deadline claim))
              (QE_Invalid ''claim deadline''))))"

definition backoff_validate :: "account_record \<Rightarrow> quota_error + unit" where
  "backoff_validate r =
     (case ar_backoff_until r of
        None \<Rightarrow> Inr ()
      | Some backoff \<Rightarrow>
          res_bind (ok_or (QE_Invalid ''backoff without attempt'') (ar_last_attempt r)) (\<lambda>started.
          res_bind (ok_or QE_TimeRange
                     (Option.bind (i64_checked_add started TICK_BUDGET_SECONDS)
                        (\<lambda>s. i64_checked_add s 86400))) (\<lambda>maximum.
            ensure (\<not> (backoff \<le> started \<or> maximum < backoff))
              (QE_Invalid ''backoff deadline''))))"

definition refusal_invalid :: "account_scope \<Rightarrow> refusal \<Rightarrow> bool" where
  "refusal_invalid account r \<longleftrightarrow> rf_account r \<noteq> account \<or> rf_model r = []
     \<or> 256 < length (rf_model r) \<or> is_some_and (rf_pool r) (\<lambda>p. p = [] \<or> 256 < length p)"

definition cooldown_invalid :: "account_scope \<Rightarrow> capacity_cooldown \<Rightarrow> bool" where
  "cooldown_invalid account c \<longleftrightarrow> cd_account c \<noteq> account \<or> cd_model c = []
     \<or> 256 < length (cd_model c) \<or> has_control (cd_model c) \<or> cd_expires c \<le> cd_observed c"

definition record_validate :: "account_record \<Rightarrow> quota_error + unit" where
  "record_validate r =
     res_bind (scope_validate (ar_account r)) (\<lambda>_.
     res_bind (ensure (\<not> (ar_schema_version r \<noteq> 1
                 \<or> is_some_and (ar_claim r) (\<lambda>c. \<not> component (rc_token c))))
        (QE_Invalid ''record header or claim'')) (\<lambda>_.
     res_bind (claim_validate r) (\<lambda>_.
     res_bind (backoff_validate r) (\<lambda>_.
     res_bind (ensure (\<not> (8 < length (ar_credential_metadata r)
                 \<or> list_ex (\<lambda>m. \<not> prefix ''/'' (cm_path m)) (ar_credential_metadata r)))
        (QE_Invalid ''credential metadata bounds'')) (\<lambda>_.
     res_bind (ensure (\<not> (MAX_WINDOWS < length (ar_refusals r)
                 \<or> list_ex (refusal_invalid (ar_account r)) (ar_refusals r)))
        (QE_Invalid ''refusal scope or bounds'')) (\<lambda>_.
     res_bind (ensure (\<not> (MAX_WINDOWS < length (ar_capacity_cooldowns r)
                 \<or> list_ex (cooldown_invalid (ar_account r)) (ar_capacity_cooldowns r)))
        (QE_Invalid ''capacity cooldown scope or bounds'')) (\<lambda>_.
     (case ar_snapshot r of
        None \<Rightarrow> Inr ()
      | Some snapshot \<Rightarrow>
          res_bind (snapshot_validate snapshot) (\<lambda>_.
            ensure (\<not> (qs_account snapshot \<noteq> ar_account r \<or> ar_revision r < qs_revision snapshot))
              (QE_Invalid ''snapshot identity or revision''))))))))))"

subsection \<open>Update intents\<close>

record update_intent =
  ui_account :: account_scope
  ui_expected :: "account_record option"
  ui_replacement :: "account_record option"
  ui_readiness_probe_result :: "readiness_reason option option"
  ui_login_probe_expiry :: "(i64 option \<times> u64) option"

definition intent_check :: "update_intent \<Rightarrow> account_record option \<Rightarrow> quota_error + unit" where
  "intent_check ui current =
     res_bind (scope_validate (ui_account ui)) (\<lambda>_.
       if current \<noteq> ui_expected ui \<or> is_some_and current (\<lambda>r. ar_account r \<noteq> ui_account ui)
       then Inl QE_Conflict
       else (case ui_replacement ui of
               None \<Rightarrow> Inr ()
             | Some next \<Rightarrow>
                 res_bind (record_validate next) (\<lambda>_.
                   if acc_adapter (ar_account next) \<noteq> acc_adapter (ui_account ui)
                      \<or> acc_key (ar_account next) \<noteq> acc_key (ui_account ui)
                   then Inl (QE_Invalid ''update revision'')
                   else res_bind (ok_or QE_NumberOutOfRange
                          (u64_checked_add
                             (case ui_expected ui of None \<Rightarrow> 0 | Some r \<Rightarrow> ar_revision r) 1)) (\<lambda>revision.
                     ensure (\<not> ar_revision next \<noteq> revision) (QE_Invalid ''update revision'')))))"

subsection \<open>When a record is valid\<close>

definition valid_scope :: "account_scope \<Rightarrow> bool" where
  "valid_scope a \<longleftrightarrow> is_ok (scope_validate a)"

definition valid_snapshot :: "quota_snapshot \<Rightarrow> bool" where
  "valid_snapshot s \<longleftrightarrow> is_ok (snapshot_validate s)"

definition valid_record :: "account_record \<Rightarrow> bool" where
  "valid_record r \<longleftrightarrow> is_ok (record_validate r)"

text \<open>A deadline is in force after an attempt and at most \<open>d\<close> seconds after it.\<close>

definition within :: "i64 option \<Rightarrow> i64 \<Rightarrow> i64 \<Rightarrow> bool" where
  "within attempt d deadline \<longleftrightarrow>
     (\<exists>started. attempt = Some started \<and> is_i64 (started + d)
        \<and> started < deadline \<and> deadline \<le> started + d)"

lemma claim_validate_ok:
  "claim_validate r = Inr u \<longleftrightarrow>
   is_none_or (ar_claim r) (\<lambda>c. within (ar_last_attempt r) TICK_BUDGET_SECONDS (rc_deadline c))"
  by (cases "ar_claim r") (auto simp: claim_validate_def within_def not_le not_less)

lemma backoff_validate_ok:
  "backoff_validate r = Inr u \<longleftrightarrow>
   is_none_or (ar_backoff_until r) (\<lambda>b. within (ar_last_attempt r) (TICK_BUDGET_SECONDS + 86400) b
      \<and> is_some_and (ar_last_attempt r) (\<lambda>started. is_i64 (started + TICK_BUDGET_SECONDS)))"
  by (cases "ar_backoff_until r"; cases "ar_last_attempt r")
    (auto simp: backoff_validate_def within_def not_le not_less bind_eq_Some_conv add.assoc)

lemma scope_validate_Inr [ok_iff]: "scope_validate a = Inr u \<longleftrightarrow> valid_scope a"
  by (simp add: valid_scope_def is_ok_iff)

lemma snapshot_validate_Inr [ok_iff]: "snapshot_validate s = Inr u \<longleftrightarrow> valid_snapshot s"
  by (simp add: valid_snapshot_def is_ok_iff)

lemma record_validate_Inr [ok_iff]: "record_validate r = Inr u \<longleftrightarrow> valid_record r"
  by (simp add: valid_record_def is_ok_iff)

lemma valid_record_iff:
  "valid_record r \<longleftrightarrow>
     valid_scope (ar_account r)
   \<and> ar_schema_version r = 1
   \<and> is_none_or (ar_claim r) (\<lambda>c. component (rc_token c)
        \<and> within (ar_last_attempt r) TICK_BUDGET_SECONDS (rc_deadline c))
   \<and> is_none_or (ar_backoff_until r) (\<lambda>b. within (ar_last_attempt r) (TICK_BUDGET_SECONDS + 86400) b
      \<and> is_some_and (ar_last_attempt r) (\<lambda>started. is_i64 (started + TICK_BUDGET_SECONDS)))
   \<and> length (ar_credential_metadata r) \<le> 8
   \<and> list_all (\<lambda>m. prefix ''/'' (cm_path m)) (ar_credential_metadata r)
   \<and> length (ar_refusals r) \<le> MAX_WINDOWS
   \<and> list_all (\<lambda>f. \<not> refusal_invalid (ar_account r) f) (ar_refusals r)
   \<and> length (ar_capacity_cooldowns r) \<le> MAX_WINDOWS
   \<and> list_all (\<lambda>c. \<not> cooldown_invalid (ar_account r) c) (ar_capacity_cooldowns r)
   \<and> is_none_or (ar_snapshot r) (\<lambda>s. valid_snapshot s \<and> qs_account s = ar_account r
        \<and> qs_revision s \<le> ar_revision r)"
proof -
  have snap: "(case ar_snapshot r of None \<Rightarrow> Inr ()
      | Some s \<Rightarrow> res_bind (snapshot_validate s) (\<lambda>_.
          ensure (\<not> (qs_account s \<noteq> ar_account r \<or> ar_revision r < qs_revision s))
            (QE_Invalid ''snapshot identity or revision''))) = Inr () \<longleftrightarrow>
      is_none_or (ar_snapshot r) (\<lambda>s. valid_snapshot s \<and> qs_account s = ar_account r
        \<and> qs_revision s \<le> ar_revision r)"
    by (cases "ar_snapshot r") (simp_all add: snapshot_validate_Inr not_less)
  have "valid_record r \<longleftrightarrow> record_validate r = Inr ()"
    by (simp add: record_validate_Inr)
  also have "\<dots> \<longleftrightarrow> valid_scope (ar_account r) \<and> ar_schema_version r = 1
      \<and> is_none_or (ar_claim r) (\<lambda>c. component (rc_token c))
      \<and> claim_validate r = Inr () \<and> backoff_validate r = Inr ()
      \<and> length (ar_credential_metadata r) \<le> 8
      \<and> list_all (\<lambda>m. prefix ''/'' (cm_path m)) (ar_credential_metadata r)
      \<and> length (ar_refusals r) \<le> MAX_WINDOWS
      \<and> list_all (\<lambda>f. \<not> refusal_invalid (ar_account r) f) (ar_refusals r)
      \<and> length (ar_capacity_cooldowns r) \<le> MAX_WINDOWS
      \<and> list_all (\<lambda>c. \<not> cooldown_invalid (ar_account r) c) (ar_capacity_cooldowns r)
      \<and> is_none_or (ar_snapshot r) (\<lambda>s. valid_snapshot s \<and> qs_account s = ar_account r
        \<and> qs_revision s \<le> ar_revision r)"
    unfolding record_validate_def res_bind_Inr_iff ensure_Inr_iff snap scope_validate_Inr
    by (auto simp: is_some_and_iff is_none_or_iff list_ex_iff list_all_iff not_less)
  finally show ?thesis
    unfolding claim_validate_ok backoff_validate_ok
    by (cases "ar_claim r") (simp_all)
qed

lemma valid_empty_record: "valid_scope a \<Longrightarrow> valid_record (empty_record a)"
  by (simp add: valid_record_iff empty_record_def)

subsection \<open>Operations that propose an update\<close>

text \<open>
  The contract between an operation that proposes an update of an account and the edge that
  applies it: the intent names the record it was computed from, its replacement is valid, has
  the same identity and the next revision.
\<close>

definition revision_of :: "account_record option \<Rightarrow> nat" where
  "revision_of cur = (case cur of None \<Rightarrow> 0 | Some r \<Rightarrow> ar_revision r)"

definition proposes :: "account_record option \<Rightarrow> update_intent \<Rightarrow> account_record \<Rightarrow> bool" where
  "proposes cur ui next \<longleftrightarrow>
     ui_expected ui = cur \<and> ui_replacement ui = Some next
   \<and> valid_scope (ui_account ui) \<and> is_none_or cur (\<lambda>r. ar_account r = ui_account ui)
   \<and> valid_record next
   \<and> acc_adapter (ar_account next) = acc_adapter (ui_account ui)
   \<and> acc_key (ar_account next) = acc_key (ui_account ui)
   \<and> ar_revision next = revision_of cur + 1 \<and> ar_revision next \<le> U64_MAX"

locale account_operation =
  fixes operation :: "account_record option \<Rightarrow> 'x \<Rightarrow> quota_error + update_intent"
  assumes proposal: "operation cur x = Inr ui \<Longrightarrow> \<exists>next. proposes cur ui next"
begin

lemma accepted: "operation cur x = Inr ui \<Longrightarrow> intent_check ui cur = Inr ()"
proof -
  assume "operation cur x = Inr ui"
  then obtain r where "proposes cur ui r" using proposal by blast
  then show ?thesis
    by (cases cur) (auto simp: proposes_def intent_check_def scope_validate_Inr record_validate_Inr
        revision_of_def split: option.splits)
qed

lemma stale_conflicts:
  "operation cur x = Inr ui \<Longrightarrow> cur' \<noteq> cur \<Longrightarrow> intent_check ui cur' = Inl QE_Conflict"
proof -
  assume "operation cur x = Inr ui" and ne: "cur' \<noteq> cur"
  then obtain r where p: "proposes cur ui r" using proposal by blast
  then have "scope_validate (ui_account ui) = Inr ()"
    by (simp add: proposes_def scope_validate_Inr)
  with p ne show ?thesis
    by (simp add: proposes_def intent_check_def)
qed

lemma next_revision:
  "operation cur x = Inr ui \<Longrightarrow>
   \<exists>r. ui_replacement ui = Some r \<and> valid_record r \<and> ar_revision r = revision_of cur + 1"
  using proposal by (fastforce simp: proposes_def)

end

subsection \<open>A sample account for the witnesses\<close>

definition sample_account :: account_scope where
  "sample_account = \<lparr>acc_adapter = ''claude'', acc_key = ''work'', acc_label = ''work''\<rparr>"

definition sample_policy :: quota_policy where
  "sample_policy = \<lparr>qp_adapter = ''claude'', qp_timer_seconds = 300, qp_panel_seconds = 120,
     qp_probe_seconds = 14, qp_low_power = True, qp_solo = False\<rparr>"

lemma sample_account_valid [simp]: "valid_scope sample_account"
  by (simp add: valid_scope_def scope_validate_def sample_account_def component_def
      is_ascii_alphanumeric_def is_ascii_digit_def has_separator_def)

lemma sample_account_adapter [simp]: "acc_adapter sample_account = ''claude''"
  by (simp add: sample_account_def)

end
