(* ===== verification/Quota_Settings.thy ===== *)
theory Quota_Settings
  imports Quota_State
begin

section \<open>Quota settings and calibration (crate quota)\<close>

text \<open>
  \<open>quota/src/settings.rs\<close> and \<open>quota/src/calibration.rs\<close>: the host's probe bounds and their
  validation, and the expiring floors a user may put under a partial local ledger. A
  \<open>BTreeMap\<close> is the list of its entries in key order.
\<close>

subsection \<open>Settings\<close>

record polling_intervals =
  pi_timer_seconds :: "u64 option"
  pi_panel_seconds :: "u64 option"

datatype headline = HL_Auto | HL_FiveHour | HL_Weekly

record display =
  di_headline :: headline
  di_icon :: string

record calibration =
  ca_five_hour :: "u64 option"
  ca_seven_day :: "u64 option"
  ca_thirty_day :: "u64 option"
  ca_expires :: wall_time

record settings =
  se_max_parallel :: u64
  se_wall_budget_seconds :: u64
  se_polling_intervals :: "(string \<times> polling_intervals) list"
  se_display :: display
  se_calibration :: "(string \<times> calibration) list"
  se_history_max_bytes :: u64
  se_login_expiry_warning_seconds :: u64

abbreviation MAX_PARALLEL :: nat where "MAX_PARALLEL \<equiv> 16"
abbreviation MAX_WALL_BUDGET_SECONDS :: nat where "MAX_WALL_BUDGET_SECONDS \<equiv> 600"
abbreviation DEFAULT_HISTORY_MAX_BYTES :: nat where "DEFAULT_HISTORY_MAX_BYTES \<equiv> 4194304"
abbreviation MIN_HISTORY_MAX_BYTES :: nat where "MIN_HISTORY_MAX_BYTES \<equiv> 65536"
abbreviation MAX_HISTORY_MAX_BYTES :: nat where "MAX_HISTORY_MAX_BYTES \<equiv> 134217728"
abbreviation MOST_CONSTRAINED :: string where "MOST_CONSTRAINED \<equiv> ''most_constrained''"

definition settings_default :: settings where
  "settings_default = \<lparr>se_max_parallel = 3, se_wall_budget_seconds = 55, se_polling_intervals = [],
     se_display = \<lparr>di_headline = HL_Auto, di_icon = MOST_CONSTRAINED\<rparr>, se_calibration = [],
     se_history_max_bytes = DEFAULT_HISTORY_MAX_BYTES, se_login_expiry_warning_seconds = 3600\<rparr>"

definition apply_polling_intervals :: "settings \<Rightarrow> quota_policy list \<Rightarrow> quota_policy list" where
  "apply_polling_intervals st policies =
     map (\<lambda>policy.
        case map_of (se_polling_intervals st) (qp_adapter policy) of
          None \<Rightarrow> policy
        | Some intervals \<Rightarrow>
            let p1 = (case pi_timer_seconds intervals of
                        Some s \<Rightarrow> policy\<lparr>qp_timer_seconds := s\<rparr> | None \<Rightarrow> policy)
            in (case pi_panel_seconds intervals of
                  Some s \<Rightarrow> p1\<lparr>qp_panel_seconds := s\<rparr> | None \<Rightarrow> p1)) policies"

definition valid_icon :: "string \<Rightarrow> bool" where
  "valid_icon icon \<longleftrightarrow> icon = MOST_CONSTRAINED
     \<or> (icon \<noteq> [] \<and> length icon \<le> 128
        \<and> list_all (\<lambda>b. is_ascii_alphanumeric b \<or> b \<in> set ''._-'') icon)"

definition calibration_valid :: "calibration \<Rightarrow> bool" where
  "calibration_valid c =
     (let values = [ca_five_hour c, ca_seven_day c, ca_thirty_day c]
      in list_ex (\<lambda>v. v \<noteq> None) values
         \<and> list_all (\<lambda>percent. percent \<le> 100) (List.map_filter id values))"

record section_error =
  er_field :: string
  er_code :: string
  er_detail :: "string option"

definition interval_errors :: "string \<Rightarrow> polling_intervals \<Rightarrow> section_error list" where
  "interval_errors adapter intervals =
     (if \<not> component adapter
      then [\<lparr>er_field = ''polling_intervals.'' @ adapter, er_code = ''adapter'', er_detail = None\<rparr>] else [])
     @ concat (map (\<lambda>(field, seconds).
         if is_some_and seconds (\<lambda>n. n = 0 \<or> nat I64_MAX div 4 < n)
         then [\<lparr>er_field = ''polling_intervals.'' @ adapter @ ''.'' @ field, er_code = ''interval'', er_detail = None\<rparr>]
         else [])
       [(''timer_seconds'', pi_timer_seconds intervals),
        (''panel_seconds'', pi_panel_seconds intervals)])"

definition settings_validate :: "settings \<Rightarrow> section_error list" where
  "settings_validate st =
     map (\<lambda>(field, _). \<lparr>er_field = field, er_code = ''ceiling'', er_detail = None\<rparr>)
       (filter (\<lambda>(_, ok). \<not> ok)
         [(''max_parallel'', 1 \<le> se_max_parallel st \<and> se_max_parallel st \<le> MAX_PARALLEL),
          (''wall_budget_seconds'',
             1 \<le> se_wall_budget_seconds st \<and> se_wall_budget_seconds st \<le> MAX_WALL_BUDGET_SECONDS)])
     @ concat (map (\<lambda>(adapter, intervals). interval_errors adapter intervals) (se_polling_intervals st))
     @ (if \<not> (MIN_HISTORY_MAX_BYTES \<le> se_history_max_bytes st
              \<and> se_history_max_bytes st \<le> MAX_HISTORY_MAX_BYTES)
        then [\<lparr>er_field = ''history_max_bytes'', er_code = ''ceiling'', er_detail = None\<rparr>] else [])
     @ (if \<not> valid_icon (di_icon (se_display st))
        then [\<lparr>er_field = ''display.icon'', er_code = ''icon'', er_detail = None\<rparr>] else [])
     @ concat (map (\<lambda>(account, calibration).
         if \<not> component account \<or> \<not> calibration_valid calibration
         then [\<lparr>er_field = ''calibration.'' @ account, er_code = ''calibration'', er_detail = None\<rparr>] else [])
       (se_calibration st))"

subsection \<open>Calibration floors\<close>

definition calibration_expiry :: "calibration \<Rightarrow> i64" where
  "calibration_expiry c = unix_seconds (ca_expires c)"

definition local_ledger :: "account_record \<Rightarrow> bool" where
  "local_ledger r \<longleftrightarrow> is_some_and (get_spec (acc_adapter (ar_account r)))
     (\<lambda>spec. ad_quota_probe spec = QP_LocalLedger)"

text \<open>The labels with their number of ledger accounts, and the ledger keys, before any change.\<close>

definition ledger_labels :: "account_record list \<Rightarrow> string \<Rightarrow> nat" where
  "ledger_labels records label =
     length (filter (\<lambda>r. acc_label (ar_account r) = label) (filter local_ledger records))"

definition ledger_keys :: "account_record list \<Rightarrow> string list" where
  "ledger_keys records = map (\<lambda>r. acc_key (ar_account r)) (filter local_ledger records)"

definition calibration_for ::
  "settings \<Rightarrow> account_record list \<Rightarrow> account_scope \<Rightarrow> calibration option"
where
  "calibration_for st records account =
     (case map_of (se_calibration st) (acc_key account) of
        Some c \<Rightarrow> Some c
      | None \<Rightarrow>
          if ledger_labels records (acc_label account) = 1
             \<and> acc_label account \<notin> set (ledger_keys records)
          then map_of (se_calibration st) (acc_label account) else None)"

definition calibration_floors :: "calibration \<Rightarrow> (string \<times> u64 option \<times> u64) list" where
  "calibration_floors c =
     [(''five_hour'', ca_five_hour c, 18000), (''seven_day'', ca_seven_day c, 604800),
      (''thirty_day'', ca_thirty_day c, 2592000)]"

text \<open>One turn of the loop over the floors: the calibrated pools and the windows.\<close>

definition add_floor ::
  "string \<times> u64 option \<times> u64 \<Rightarrow> string list \<times> quota_window list \<Rightarrow> string list \<times> quota_window list"
where
  "add_floor f acc =
     (let (pool, percent, seconds) = f; (calibrated, windows) = acc
      in (case percent of
            None \<Rightarrow> acc
          | Some p \<Rightarrow>
              (calibrated @ [pool],
               if List.find (\<lambda>w. qw_pool w = pool) windows \<noteq> None
               then update_first (\<lambda>w. qw_pool w = pool)
                      (\<lambda>w. w\<lparr>qw_used := max (qw_used w) (p * 100)\<rparr>) windows
               else windows @ [\<lparr>qw_pool = pool, qw_window_seconds = Some seconds, qw_used = p * 100,
                                 qw_resets = None\<rparr>])))"

definition calibrate_snapshot :: "calibration \<Rightarrow> quota_snapshot \<Rightarrow> quota_details \<Rightarrow> quota_snapshot" where
  "calibrate_snapshot c s d =
     (let (calibrated, windows) = fold add_floor (calibration_floors c) ([], qs_windows s);
          status = (if qs_status s \<in> {QS_Available, QS_Unknown}
                       \<and> list_ex (\<lambda>w. 10000 \<le> qw_used w) windows
                    then QS_Exhausted else qs_status s)
      in s\<lparr>qs_windows := windows, qs_status := status,
           qs_details := Some (d\<lparr>qd_calibration_expires := Some (calibration_expiry c),
                                  qd_calibrated_windows := calibrated\<rparr>)\<rparr>)"

text \<open>The details every ledger reading gets before a floor is considered.\<close>

definition ledger_details :: "quota_snapshot \<Rightarrow> quota_details" where
  "ledger_details s = (unwrap_or details_default (qs_details s))
     \<lparr>qd_source := Some ''local-ledger'', qd_coverage := Some ''partial'',
      qd_calibrated_windows := [], qd_calibration_expires := None\<rparr>"

definition calibrate_with :: "calibration option \<Rightarrow> i64 \<Rightarrow> quota_snapshot \<Rightarrow> quota_snapshot" where
  "calibrate_with calibration now s =
     (let d = ledger_details s; plain = s\<lparr>qs_details := Some d\<rparr>
      in (case calibration of
            None \<Rightarrow> plain
          | Some c \<Rightarrow>
              if calibration_expiry c \<le> now then plain
              else if \<not> calibration_valid c then plain
              else calibrate_snapshot c s d))"

definition calibrate_record ::
  "settings \<Rightarrow> account_record list \<Rightarrow> i64 \<Rightarrow> account_record \<Rightarrow> account_record"
where
  "calibrate_record st records now r =
     (if \<not> local_ledger r \<or> acc_key (ar_account r) = ''zen'' then r
      else (case ar_snapshot r of
              None \<Rightarrow> r
            | Some s \<Rightarrow> r\<lparr>ar_snapshot :=
                Some (calibrate_with (calibration_for st records (ar_account r)) now s)\<rparr>))"

definition apply_calibration :: "settings \<Rightarrow> account_record list \<Rightarrow> i64 \<Rightarrow> account_record list" where
  "apply_calibration st records now = map (calibrate_record st records now) records"

subsection \<open>Valid settings\<close>

lemma settings_bounds:
  assumes "settings_validate st = []"
  shows "1 \<le> se_max_parallel st" "se_max_parallel st \<le> MAX_PARALLEL"
    "1 \<le> se_wall_budget_seconds st" "se_wall_budget_seconds st \<le> MAX_WALL_BUDGET_SECONDS"
  using assms by (auto simp: settings_validate_def split: if_splits)

lemma settings_intervals:
  assumes "settings_validate st = []" and "(a, pi) \<in> set (se_polling_intervals st)"
  shows "component a \<and> is_none_or (pi_timer_seconds pi) (\<lambda>n. 0 < n \<and> 4 * n \<le> nat I64_MAX)
    \<and> is_none_or (pi_panel_seconds pi) (\<lambda>n. 0 < n \<and> 4 * n \<le> nat I64_MAX)"
proof -
  have "interval_errors a pi = []"
    using assms by (auto simp: settings_validate_def)
  then show ?thesis
    by (auto simp: interval_errors_def is_none_or_iff is_some_and_iff split: if_splits)
qed

subsection \<open>Floors only raise use\<close>

definition raised :: "quota_window \<Rightarrow> quota_window \<Rightarrow> bool" where
  "raised w w' \<longleftrightarrow> w\<lparr>qw_used := qw_used w'\<rparr> = w' \<and> qw_used w \<le> qw_used w'"

definition raises :: "quota_window list \<Rightarrow> quota_window list \<Rightarrow> bool" where
  "raises ws ws' \<longleftrightarrow> (\<exists>us vs. ws' = us @ vs \<and> list_all2 raised ws us)"

lemma raised_refl [simp]: "raised w w"
  by (simp add: raised_def)

lemma raised_trans: "raised u v \<Longrightarrow> raised v w \<Longrightarrow> raised u w"
proof -
  assume "raised u v" and "raised v w"
  then have "v = u\<lparr>qw_used := qw_used v\<rparr>" and "w = v\<lparr>qw_used := qw_used w\<rparr>"
    and "qw_used u \<le> qw_used w"
    by (simp_all add: raised_def)
  from this(1,2) have "w = u\<lparr>qw_used := qw_used w\<rparr>"
    by (metis quota_window.update_convs(3) quota_window.surjective)
  with \<open>qw_used u \<le> qw_used w\<close> show ?thesis by (simp add: raised_def)
qed

lemma raises_refl [simp]: "raises ws ws"
  unfolding raises_def by (rule exI [of _ ws], rule exI [of _ "[]"]) (simp add: list_all2_refl)

lemma raises_trans: "raises us vs \<Longrightarrow> raises vs ws \<Longrightarrow> raises us ws"
proof -
  assume "raises us vs" and "raises vs ws"
  then obtain a b c d where "vs = a @ b" "list_all2 raised us a"
    "ws = c @ d" "list_all2 raised (a @ b) c"
    by (auto simp: raises_def)
  moreover from this obtain c1 c2 where "c = c1 @ c2" "list_all2 raised a c1"
    by (auto simp: list_all2_append1)
  ultimately show ?thesis
    unfolding raises_def
    by (intro exI [of _ c1] exI [of _ "c2 @ d"]) (auto intro: list_all2_trans [OF raised_trans])
qed

lemma raises_append: "raises ws (ws @ vs)"
  unfolding raises_def by (rule exI [of _ ws], rule exI [of _ vs]) (simp add: list_all2_refl)

lemma raises_update_first:
  "raises ws (update_first p (\<lambda>w. w\<lparr>qw_used := max (qw_used w) n\<rparr>) ws)"
proof -
  have "list_all2 raised ws (update_first p (\<lambda>w. w\<lparr>qw_used := max (qw_used w) n\<rparr>) ws)"
    by (induction ws) (auto simp: list_all2_refl raised_def)
  then show ?thesis
    unfolding raises_def by (intro exI) (rule conjI, rule append_Nil2 [symmetric])
qed

lemma raises_add_floor: "raises (snd acc) (snd (add_floor f acc))"
  by (cases acc; cases f)
    (auto simp: add_floor_def raises_append raises_update_first split: option.split)

lemma raises_floors: "raises (snd acc) (snd (fold add_floor fs acc))"
proof (induction fs arbitrary: acc)
  case (Cons f fs)
  show ?case
    using raises_trans [OF raises_add_floor Cons.IH [of "add_floor f acc"]] by simp
qed simp

lemma raises_find:
  assumes "raises ws ws'" and "List.find (\<lambda>w. qw_pool w = pool) ws = Some w"
  shows "\<exists>w'. List.find (\<lambda>w. qw_pool w = pool) ws' = Some w' \<and> qw_used w \<le> qw_used w'"
proof -
  obtain us vs where ws': "ws' = us @ vs" and "list_all2 raised ws us"
    using assms(1) by (auto simp: raises_def)
  from this(2) assms(2)
  have "\<exists>w'. List.find (\<lambda>w. qw_pool w = pool) us = Some w' \<and> qw_used w \<le> qw_used w'"
  proof (induction rule: list_all2_induct)
    case (Cons x xs y ys)
    then have "qw_pool y = qw_pool x \<and> qw_used x \<le> qw_used y"
      by (cases x; cases y) (auto simp: raised_def)
    with Cons show ?case by (auto split: if_splits)
  qed simp
  then show ?thesis by (auto simp: ws' find_append)
qed

subsection \<open>Floors applied twice\<close>

text \<open>A floor holds when the first window of its pool already uses at least that much.\<close>

definition floor_holds :: "string \<times> u64 option \<times> u64 \<Rightarrow> quota_window list \<Rightarrow> bool" where
  "floor_holds f ws = (case f of (pool, percent, _) \<Rightarrow>
     is_none_or percent (\<lambda>p. is_some_and (List.find (\<lambda>w. qw_pool w = pool) ws)
       (\<lambda>w. p * 100 \<le> qw_used w)))"

lemma floor_holds_raises: "floor_holds f ws \<Longrightarrow> raises ws ws' \<Longrightarrow> floor_holds f ws'"
  using raises_find [of ws ws' "fst f"]
  by (cases f) (fastforce simp: floor_holds_def is_none_or_iff is_some_and_iff)

lemma find_update_first_pool:
  "List.find (\<lambda>w. qw_pool w = pool) ws = Some w \<Longrightarrow>
   List.find (\<lambda>w. qw_pool w = pool) (update_first (\<lambda>w. qw_pool w = pool)
     (\<lambda>w. w\<lparr>qw_used := max (qw_used w) n\<rparr>) ws) = Some (w\<lparr>qw_used := max (qw_used w) n\<rparr>)"
  by (induction ws) (auto split: if_splits)

lemma add_floor_holds: "floor_holds f (snd (add_floor f acc))"
proof -
  obtain pool percent secs calibrated ws where eq: "f = (pool, percent, secs)" "acc = (calibrated, ws)"
    by (cases f; cases acc)
  show ?thesis
    by (cases "List.find (\<lambda>w. qw_pool w = pool) ws"; cases percent)
      (auto simp: eq add_floor_def floor_holds_def find_update_first_pool find_append)
qed

lemma floors_hold: "g \<in> set fs \<Longrightarrow> floor_holds g (snd (fold add_floor fs acc))"
proof (induction fs arbitrary: acc)
  case (Cons f fs)
  show ?case
  proof (cases "g \<in> set fs")
    case True
    then show ?thesis using Cons.IH by simp
  next
    case False
    with Cons.prems have "floor_holds g (snd (add_floor f acc))"
      by (simp add: add_floor_holds)
    then show ?thesis
      by (simp add: floor_holds_raises [OF _ raises_floors])
  qed
qed simp

lemma update_first_same:
  "List.find p ws = Some w \<Longrightarrow> h w = w \<Longrightarrow> update_first p h ws = ws"
  by (induction ws) (auto split: if_splits)

lemma add_floor_fixed: "floor_holds f ws \<Longrightarrow> snd (add_floor f (c, ws)) = ws"
  by (cases f) (auto simp: add_floor_def floor_holds_def is_some_and_iff update_first_same max_def
      split: option.splits)

lemma fst_add_floor: "fst (add_floor f (c, ws)) = fst (add_floor f (c, vs))"
  by (cases f) (simp add: add_floor_def split: option.split)

lemma floors_fixed:
  "(\<And>g. g \<in> set fs \<Longrightarrow> floor_holds g ws) \<Longrightarrow> snd (fold add_floor fs (c, ws)) = ws"
proof (induction fs arbitrary: c)
  case (Cons f fs)
  obtain c' where "add_floor f (c, ws) = (c', ws)"
    using add_floor_fixed [of f ws c] Cons.prems by (metis list.set_intros(1) prod.collapse)
  then show ?case using Cons by simp
qed simp

lemma fst_floors: "fst (fold add_floor fs (c, ws)) = fst (fold add_floor fs (c, vs))"
proof (induction fs arbitrary: c ws vs)
  case (Cons f fs)
  show ?case
    using Cons.IH fst_add_floor [of f c ws vs]
    by (simp) (metis prod.collapse)
qed simp

lemma calibrate_snapshot_again:
  "calibrate_snapshot c (calibrate_snapshot c s d) d = calibrate_snapshot c s d"
proof -
  obtain cal ws where eq: "fold add_floor (calibration_floors c) ([], qs_windows s) = (cal, ws)"
    by fastforce
  have "snd (fold add_floor (calibration_floors c) ([], ws)) = ws"
    using floors_hold [of _ "calibration_floors c" "([], qs_windows s)"] eq
    by (intro floors_fixed) simp
  moreover have "fst (fold add_floor (calibration_floors c) ([], ws)) = cal"
    using fst_floors [of "calibration_floors c" "[]" ws "qs_windows s"] eq by simp
  ultimately have "fold add_floor (calibration_floors c) ([], ws) = (cal, ws)"
    by (metis prod.collapse)
  then show ?thesis
    by (auto simp: calibrate_snapshot_def eq Let_def)
qed

lemma calibrate_snapshot_raises:
  "qs_account (calibrate_snapshot c s d) = qs_account s
   \<and> qs_observed (calibrate_snapshot c s d) = qs_observed s
   \<and> raises (qs_windows s) (qs_windows (calibrate_snapshot c s d))
   \<and> (qs_status (calibrate_snapshot c s d) = qs_status s
      \<or> qs_status s \<in> {QS_Available, QS_Unknown}
        \<and> qs_status (calibrate_snapshot c s d) = QS_Exhausted)"
  using raises_floors [of "([], qs_windows s)" "calibration_floors c"]
  by (auto simp: calibrate_snapshot_def Let_def split_beta)

text \<open>What calibration may change of a record: the snapshot's details, more use in its
  windows, further windows, and an exhausted status.\<close>

definition calibrated_from :: "account_record \<Rightarrow> account_record \<Rightarrow> bool" where
  "calibrated_from r r' \<longleftrightarrow> r'\<lparr>ar_snapshot := ar_snapshot r\<rparr> = r
     \<and> (case (ar_snapshot r, ar_snapshot r') of
          (None, None) \<Rightarrow> True
        | (Some s, Some s') \<Rightarrow>
            qs_account s' = qs_account s \<and> qs_observed s' = qs_observed s
            \<and> raises (qs_windows s) (qs_windows s')
            \<and> (qs_status s' = qs_status s
               \<or> qs_status s \<in> {QS_Available, QS_Unknown} \<and> qs_status s' = QS_Exhausted)
        | _ \<Rightarrow> False)"

lemma calibrated_from_calibrate: "calibrated_from r (calibrate_record st records now r)"
proof (cases "ar_snapshot r")
  case None
  then show ?thesis
    by (simp add: calibrate_record_def calibrated_from_def)
next
  case (Some s)
  then show ?thesis
    using calibrate_snapshot_raises
    by (auto simp: calibrate_record_def calibrate_with_def calibrated_from_def Let_def
        split: option.split)
qed

text \<open>The selection of a calibration looks only at the accounts, which calibration keeps.\<close>

lemma calibrate_record_account [simp]:
  "ar_account (calibrate_record st records now r) = ar_account r"
  by (simp add: calibrate_record_def Let_def split: option.split)

lemma local_ledger_calibrate [simp]:
  "local_ledger (calibrate_record st records now r) = local_ledger r"
  by (simp add: local_ledger_def)

lemma ledger_view_calibrate:
  "ledger_labels (map (calibrate_record st rs now) records) = ledger_labels records"
  "ledger_keys (map (calibrate_record st rs now) records) = ledger_keys records"
proof -
  have "length (filter (\<lambda>r. acc_label (ar_account r) = l)
          (filter local_ledger (map (calibrate_record st rs now) records))) =
        length (filter (\<lambda>r. acc_label (ar_account r) = l) (filter local_ledger records))" for l
    by (induction records) auto
  then show "ledger_labels (map (calibrate_record st rs now) records) = ledger_labels records"
    by (intro ext) (simp add: ledger_labels_def)
  show "ledger_keys (map (calibrate_record st rs now) records) = ledger_keys records"
    by (induction records) (auto simp: ledger_keys_def)
qed

lemma calibrate_with_again: "calibrate_with c now (calibrate_with c now s) = calibrate_with c now s"
proof -
  have plain: "ledger_details (s\<lparr>qs_details := Some (ledger_details s)\<rparr>) = ledger_details s"
    by (simp add: ledger_details_def)
  have "ledger_details (calibrate_snapshot k s (ledger_details s)) = ledger_details s" for k
    by (simp add: ledger_details_def calibrate_snapshot_def Let_def split_beta)
  with plain show ?thesis
    by (cases c) (simp_all add: calibrate_with_def Let_def calibrate_snapshot_again)
qed

lemma calibrate_record_again:
  "calibrate_record st (map (calibrate_record st records now) records) now
     (calibrate_record st records now r) = calibrate_record st records now r"
proof -
  have "calibration_for st (map (calibrate_record st records now) records) =
      calibration_for st records"
    by (intro ext) (simp only: calibration_for_def ledger_view_calibrate)
  then show ?thesis
    by (cases "ar_snapshot r")
      (simp_all add: calibrate_record_def calibrate_with_again local_ledger_def)
qed

text \<open>
  calibration never hides use. Every record keeps everything but its snapshot, the
  snapshot keeps its account and time, every window of the ledger stays in place with at
  least the use the ledger showed, and a status changes only from available or unknown to
  exhausted.
\<close>

theorem calibration_only_raises:
  "list_all2 calibrated_from records (apply_calibration st records now)"
  by (simp add: apply_calibration_def list_all2_map2 list_all2_same calibrated_from_calibrate)

text \<open>
  applying the same calibration again changes nothing, so reading records that were
  already adjusted gives the same result as reading the ledger.
\<close>

theorem calibration_idempotent:
  "apply_calibration st (apply_calibration st records now) now = apply_calibration st records now"
  by (simp add: apply_calibration_def calibrate_record_again)

text \<open>
  at the expiry of every configured calibration the raw ledger shows again: windows and
  status are exactly the ledger's.
\<close>

theorem calibration_expires:
  assumes "\<forall>(key, c) \<in> set (se_calibration st). calibration_expiry c \<le> now"
  shows "map (\<lambda>r. map_option (\<lambda>s. (qs_windows s, qs_status s)) (ar_snapshot r))
           (apply_calibration st records now) =
         map (\<lambda>r. map_option (\<lambda>s. (qs_windows s, qs_status s)) (ar_snapshot r)) records"
proof -
  have "calibration_expiry c \<le> now" if "calibration_for st records a = Some c" for a c
    using that assms
    by (auto simp: calibration_for_def split: option.splits if_splits dest!: map_of_SomeD)
  then show ?thesis
    by (auto simp: apply_calibration_def calibrate_record_def calibrate_with_def Let_def
        split: option.split)
qed

theorem calibration_expires_witness:
  "map (\<lambda>r. map_option (\<lambda>s. (qs_windows s, qs_status s)) (ar_snapshot r))
     (apply_calibration
        (settings_default\<lparr>se_calibration := [(''go'', \<lparr>ca_five_hour = Some 43, ca_seven_day = None,
           ca_thirty_day = None, ca_expires = 5000000\<rparr>)]\<rparr>)
        [empty_record \<lparr>acc_adapter = ''opencode'', acc_key = ''go'', acc_label = ''go''\<rparr>] 5) = [None]"
  by (subst calibration_expires)
    (simp_all add: empty_record_def calibration_expiry_def unix_seconds_def trunc_div_def)

end
