(* ===== verification/Quota_Schedule.thy ===== *)
theory Quota_Schedule
  imports Quota_Settings
begin

section \<open>Scheduling of quota probes (crate quota)\<close>

text \<open>
  \<open>quota/src/schedule.rs\<close>: when an account is due, the reservation of a probe, its
  completion, the batches of one tick and the report. Times are Unix seconds.
\<close>

subsection \<open>Intervals and due times\<close>

datatype trigger = TG_Timer | TG_Panel | TG_Manual | TG_Wake | TG_Power
datatype power = PW_Ac | PW_Battery | PW_Low

definition sched_add :: "i64 \<Rightarrow> u64 \<Rightarrow> quota_error + i64" where
  "sched_add now seconds =
     res_bind (ok_or QE_TimeRange (i64_try_from seconds)) (\<lambda>s.
       ok_or QE_TimeRange (i64_checked_add now s))"

definition probe_deadline :: "i64 \<Rightarrow> i64 \<Rightarrow> quota_error + i64" where
  "probe_deadline tick_deadline started =
     res_bind (sched_add started 55) (\<lambda>claim_expiry. Inr (min tick_deadline (claim_expiry - 1)))"

fun power_factor :: "power \<Rightarrow> nat" where
  "power_factor PW_Ac = 1"
| "power_factor PW_Battery = 2"
| "power_factor PW_Low = 4"

text \<open>The product of two \<open>u64\<close> wraps around in the release build.\<close>

definition interval :: "quota_policy list \<Rightarrow> string \<Rightarrow> trigger \<Rightarrow> power \<Rightarrow> u64 option" where
  "interval policies adapter trigger pw =
     (case List.find (\<lambda>p. qp_adapter p = adapter) policies of
        None \<Rightarrow> None
      | Some policy \<Rightarrow>
          if \<not> qp_low_power policy \<and> pw = PW_Low then None
          else let base = (case trigger of
                             TG_Manual \<Rightarrow> 30
                           | TG_Panel \<Rightarrow> qp_panel_seconds policy
                           | _ \<Rightarrow> qp_timer_seconds policy)
               in Some ((base * power_factor pw) mod 2 ^ 64))"

definition event_auth_retry :: "account_record \<Rightarrow> trigger \<Rightarrow> bool" where
  "event_auth_retry r trigger \<longleftrightarrow> ar_auth_retry_pending r
     \<or> (trigger = TG_Manual \<and> is_some_and (ar_last_error r) needs_login)"

definition next_due ::
  "quota_policy list \<Rightarrow> account_record \<Rightarrow> trigger \<Rightarrow> power \<Rightarrow> quota_error + i64 option"
where
  "next_due policies r trigger pw =
     (case interval policies (acc_adapter (ar_account r)) trigger pw of
        None \<Rightarrow> Inr None
      | Some ttl \<Rightarrow>
          let retry = event_auth_retry r trigger
          in res_bind (case ar_last_attempt r of
                         Some at \<Rightarrow> if \<not> retry \<and> ar_last_error r \<noteq> Some PF_Network
                                    then sched_add at ttl else Inr I64_MIN
                       | None \<Rightarrow> Inr I64_MIN) (\<lambda>due0.
               let due1 = (case ar_backoff_until r of
                             Some backoff \<Rightarrow> if \<not> retry then max due0 backoff else due0
                           | None \<Rightarrow> due0);
                   due2 = (case ar_claim r of
                             Some claim \<Rightarrow> max due1 (rc_deadline claim)
                           | None \<Rightarrow> due1)
               in Inr (Some due2)))"

definition trigger_for_readiness ::
  "quota_policy list \<Rightarrow> account_record option \<Rightarrow> trigger \<Rightarrow> power \<Rightarrow> bool \<Rightarrow> quota_error + trigger"
where
  "trigger_for_readiness policies record trigger pw missing =
     (case (if missing then record else None) of
        None \<Rightarrow> Inr trigger
      | Some r \<Rightarrow>
          res_bind (next_due policies r trigger pw) (\<lambda>normal.
          res_bind (next_due policies r TG_Panel pw) (\<lambda>readiness.
            Inr (case (normal, readiness) of
                   (Some n, Some d) \<Rightarrow> if d < n then TG_Panel else trigger
                 | _ \<Rightarrow> trigger))))"

abbreviation NANOS :: nat where "NANOS \<equiv> 1000000000"

definition backoff :: "probe_failure \<Rightarrow> u64 \<Rightarrow> u64 option \<Rightarrow> u64" where
  "backoff failure failures retry_after_seconds =
     (let base =
        (case failure of
           PF_Network \<Rightarrow> delay \<lparr>bo_first = 15 * NANOS, bo_factor = 2, bo_cap = 300 * NANOS\<rparr>
                          (failures - 1) div NANOS
         | PF_RateLimited \<Rightarrow> delay \<lparr>bo_first = 120 * NANOS, bo_factor = 2, bo_cap = 3600 * NANOS\<rparr>
                          (failures - 1) div NANOS
         | PF_Auth \<Rightarrow> 900
         | PF_LoginExpired \<Rightarrow> 900
         | PF_AccountMismatch \<Rightarrow> 900
         | PF_IsolatedKeychainUnavailable \<Rightarrow> 3600
         | PF_MissingCli \<Rightarrow> 86400
         | PF_Disabled \<Rightarrow> 86400
         | PF_Malformed \<Rightarrow> 120
         | PF_ProbeDirectory \<Rightarrow> 120)
      in max base (min (unwrap_or 0 retry_after_seconds) 3600))"

subsection \<open>Reserving and completing a probe\<close>

definition rescoped :: "account_scope \<Rightarrow> account_record \<Rightarrow> account_record" where
  "rescoped account r =
     r\<lparr>ar_account := account,
       ar_snapshot := map_option (\<lambda>s. s\<lparr>qs_account := account\<rparr>) (ar_snapshot r),
       ar_refusals := map (\<lambda>f. f\<lparr>rf_account := account\<rparr>) (ar_refusals r),
       ar_capacity_cooldowns := map (\<lambda>c. c\<lparr>cd_account := account\<rparr>) (ar_capacity_cooldowns r)\<rparr>"

definition reserve ::
  "quota_policy list \<Rightarrow> account_record option \<Rightarrow> account_scope \<Rightarrow> i64 \<Rightarrow> string \<Rightarrow> trigger \<Rightarrow> power
   \<Rightarrow> quota_error + update_intent"
where
  "reserve policies current account now token trigger pw =
     res_bind (scope_validate account) (\<lambda>_.
     res_bind (ensure (component token) (QE_Invalid ''claim token'')) (\<lambda>_.
     let record = unwrap_or (empty_record account) current
     in res_bind (record_validate record) (\<lambda>_.
        if acc_adapter (ar_account record) \<noteq> acc_adapter account
           \<or> acc_key (ar_account record) \<noteq> acc_key account
        then Inl QE_Conflict
        else res_bind (next_due policies record trigger pw) (\<lambda>due.
          if is_none_or due (\<lambda>d. now < d) then Inl QE_Conflict
          else
            let stored_account = ar_account record; r1 = rescoped account record
            in res_bind (ok_or QE_NumberOutOfRange (u64_checked_add (ar_revision r1) 1)) (\<lambda>revision.
               res_bind (sched_add now 55) (\<lambda>deadline.
               let r2 = r1\<lparr>ar_revision := revision,
                           ar_claim := Some \<lparr>rc_token = token, rc_deadline = deadline\<rparr>,
                           ar_backoff_until := None, ar_auth_retry_pending := False,
                           ar_last_attempt := Some now\<rparr>
               in res_bind (record_validate r2) (\<lambda>_.
                 Inr \<lparr>ui_account = stored_account, ui_expected = current,
                      ui_replacement = Some r2, ui_readiness_probe_result = None,
                      ui_login_probe_expiry = None\<rparr>)))))))"

text \<open>The two outcomes of a probe; \<open>next\<close> already has its revision and no claim.\<close>

definition complete_success ::
  "account_record \<Rightarrow> account_record \<Rightarrow> i64 \<Rightarrow> quota_snapshot \<Rightarrow> quota_error + account_record"
where
  "complete_success current next now snapshot =
     res_bind (snapshot_validate snapshot) (\<lambda>_.
       if qs_account snapshot \<noteq> ar_account current \<or> now < qs_observed snapshot
          \<or> is_some_and (ar_last_attempt current) (\<lambda>at. qs_observed snapshot < at)
       then Inl (QE_Invalid ''probe observation'')
       else Inr (next\<lparr>ar_snapshot := Some (snapshot\<lparr>qs_revision := ar_revision next\<rparr>),
                      ar_failures := 0, ar_last_error := None, ar_backoff_until := None\<rparr>))"

definition complete_failure ::
  "account_record \<Rightarrow> account_record \<Rightarrow> i64 \<Rightarrow> probe_failure \<Rightarrow> u64 option \<Rightarrow> quota_error + account_record"
where
  "complete_failure current next now failure retry_after_seconds =
     (let n1 = (if needs_login failure then next\<lparr>ar_auth_verified := None\<rparr> else next);
          n2 = n1\<lparr>ar_failures := u64_saturating_add (ar_failures n1) 1\<rparr>;
          n3 = (if ar_last_error current \<noteq> Some PF_AccountMismatch
                then n2\<lparr>ar_last_error := Some failure\<rparr> else n2)
      in res_bind (sched_add now (backoff failure (ar_failures n3) retry_after_seconds)) (\<lambda>until.
           Inr (n3\<lparr>ar_backoff_until := Some until\<rparr>)))"

definition complete ::
  "account_record \<Rightarrow> string \<Rightarrow> i64 \<Rightarrow> probe_failure + quota_snapshot \<Rightarrow> u64 option
   \<Rightarrow> quota_error + update_intent"
where
  "complete current token now outcome retry_after_seconds =
     res_bind (record_validate current) (\<lambda>_.
       if is_none_or (ar_last_attempt current) (\<lambda>t. now < t)
          \<or> is_none_or (ar_claim current) (\<lambda>c. rc_token c \<noteq> token \<or> rc_deadline c \<le> now)
       then Inl QE_Conflict
       else res_bind (ok_or QE_NumberOutOfRange (u64_checked_add (ar_revision current) 1)) (\<lambda>revision.
         let next = current\<lparr>ar_revision := revision, ar_claim := None\<rparr>
         in res_bind (case outcome of
                        Inr snapshot \<Rightarrow> complete_success current next now snapshot
                      | Inl failure \<Rightarrow> complete_failure current next now failure retry_after_seconds) (\<lambda>next'.
            res_bind (record_validate next') (\<lambda>_.
              Inr \<lparr>ui_account = ar_account current, ui_expected = Some current,
                   ui_replacement = Some next', ui_readiness_probe_result = None,
                   ui_login_probe_expiry = None\<rparr>))))"

subsection \<open>Planning a tick\<close>

record quota_tick =
  qt_adapter :: "string option"
  qt_trigger :: trigger
  qt_power :: power

record detection =
  de_adapter :: string
  de_accounts :: "account_scope list option"
  de_status :: quota_status

record tick_plan =
  tp_drops :: "update_intent list"
  tp_batches :: "account_scope list list"
  tp_deadline :: i64

definition same_account :: "account_scope \<Rightarrow> account_scope \<Rightarrow> bool" where
  "same_account a b \<longleftrightarrow> acc_adapter a = acc_adapter b \<and> acc_key a = acc_key b"

definition account_id :: "account_scope \<Rightarrow> string \<times> string" where
  "account_id a = (acc_adapter a, acc_key a)"

fun validate_records :: "(string \<times> string) list \<Rightarrow> account_record list \<Rightarrow> quota_error + unit" where
  "validate_records seen [] = Inr ()"
| "validate_records seen (r # rs) =
     res_bind (record_validate r) (\<lambda>_.
       if account_id (ar_account r) \<in> set seen then Inl (QE_Invalid ''duplicate account'')
       else validate_records (account_id (ar_account r) # seen) rs)"

text \<open>The accounts of one detection; the state is the count and the accounts seen so far.\<close>

fun validate_detected ::
  "string \<Rightarrow> nat \<times> (string \<times> string) list \<Rightarrow> account_scope list
   \<Rightarrow> quota_error + nat \<times> (string \<times> string) list"
where
  "validate_detected adapter acc [] = Inr acc"
| "validate_detected adapter (count, seen) (a # as) =
     res_bind (scope_validate a) (\<lambda>_.
       if MAX_ACCOUNTS < count + 1 \<or> acc_adapter a \<noteq> adapter \<or> account_id a \<in> set seen
       then Inl (QE_Invalid ''detected account'')
       else validate_detected adapter (count + 1, account_id a # seen) as)"

fun validate_detections ::
  "string list \<Rightarrow> nat \<times> (string \<times> string) list \<Rightarrow> detection list \<Rightarrow> quota_error + unit"
where
  "validate_detections adapters acc [] = Inr ()"
| "validate_detections adapters acc (d # ds) =
     (if de_accounts d \<noteq> None \<and> de_status d \<in> {QS_Unknown, QS_Unsupported, QS_Stale}
      then Inl (QE_Invalid ''failed detection cannot assert accounts'')
      else if \<not> component (de_adapter d) \<or> de_adapter d \<in> set adapters
      then Inl (QE_Invalid ''duplicate adapter'')
      else res_bind (validate_detected (de_adapter d) acc (unwrap_or [] (de_accounts d))) (\<lambda>acc'.
        validate_detections (de_adapter d # adapters) acc' ds))"

definition validate_inputs :: "account_record list \<Rightarrow> detection list \<Rightarrow> quota_error + unit" where
  "validate_inputs records detections =
     (if MAX_ACCOUNTS < length records \<or> MAX_ACCOUNTS < length detections
      then Inl (QE_Invalid ''account bound'')
      else res_bind (validate_records [] records) (\<lambda>_. validate_detections [] (0, []) detections))"

definition selected :: "string option \<Rightarrow> string \<Rightarrow> bool" where
  "selected filter_adapter adapter \<longleftrightarrow> is_none_or filter_adapter (\<lambda>s. s = adapter)"

definition absent_from_detection :: "detection list \<Rightarrow> account_record \<Rightarrow> bool" where
  "absent_from_detection detections r \<longleftrightarrow>
     list_ex (\<lambda>d. de_adapter d = acc_adapter (ar_account r)
        \<and> (case de_accounts d of
             None \<Rightarrow> de_status d = QS_Unsupported
           | Some accounts \<Rightarrow> \<not> list_ex (\<lambda>a. same_account a (ar_account r)) accounts)) detections"

definition dropped :: "quota_tick \<Rightarrow> detection list \<Rightarrow> account_record \<Rightarrow> bool" where
  "dropped tick detections r \<longleftrightarrow> selected (qt_adapter tick) (acc_adapter (ar_account r))
     \<and> \<not> is_some_and (get_spec (acc_adapter (ar_account r))) ad_retain_quota_accounts
     \<and> absent_from_detection detections r"

definition drop_intent :: "account_record \<Rightarrow> update_intent" where
  "drop_intent r = \<lparr>ui_account = ar_account r, ui_expected = Some r, ui_replacement = None,
     ui_readiness_probe_result = None, ui_login_probe_expiry = None\<rparr>"

text \<open>A detection is probed unless it reports an ambient auth failure nothing recorded contradicts.\<close>

definition probed_detection :: "account_record list \<Rightarrow> quota_tick \<Rightarrow> detection \<Rightarrow> bool" where
  "probed_detection records tick d \<longleftrightarrow> selected (qt_adapter tick) (de_adapter d)
     \<and> \<not> (de_status d = QS_AuthRequired
          \<and> is_some_and (de_accounts d) (\<lambda>a. length a = 1)
          \<and> \<not> list_ex (\<lambda>r.
               (ar_auth_retry_pending r \<or> is_some_and (ar_last_error r) needs_login
                \<or> ar_auth_verified r \<noteq> None)
               \<and> is_some_and (de_accounts d)
                   (\<lambda>accounts. list_ex (\<lambda>a. same_account a (ar_account r)) accounts)) records)"

definition candidates :: "account_record list \<Rightarrow> detection list \<Rightarrow> quota_tick \<Rightarrow> account_scope list" where
  "candidates records detections tick =
     concat (List.map_filter de_accounts (filter (probed_detection records tick) detections))"

definition due_of ::
  "quota_policy list \<Rightarrow> account_record list \<Rightarrow> quota_tick \<Rightarrow> (string \<times> string) list \<Rightarrow> account_scope
   \<Rightarrow> quota_error + i64 option"
where
  "due_of policies records tick missing_readiness account =
     (let current = List.find (\<lambda>r. same_account (ar_account r) account) records;
          missing = list_ex (\<lambda>(adapter, key). adapter = acc_adapter account \<and> key = acc_key account)
                      missing_readiness
      in res_bind (trigger_for_readiness policies current (qt_trigger tick) (qt_power tick) missing) (\<lambda>trigger.
           (case current of
              Some r \<Rightarrow> next_due policies r trigger (qt_power tick)
            | None \<Rightarrow> Inr (map_option (\<lambda>_. I64_MIN)
                       (interval policies (acc_adapter account) trigger (qt_power tick))))))"

definition solo_account :: "quota_policy list \<Rightarrow> account_scope \<Rightarrow> bool" where
  "solo_account policies a \<longleftrightarrow>
     list_ex (\<lambda>p. qp_adapter p = acc_adapter a \<and> qp_solo p) policies"

fun plan_accounts ::
  "quota_policy list \<Rightarrow> (account_scope \<Rightarrow> quota_error + i64 option) \<Rightarrow> i64
   \<Rightarrow> account_scope list \<times> account_scope list list \<Rightarrow> account_scope list
   \<Rightarrow> quota_error + account_scope list \<times> account_scope list list"
where
  "plan_accounts policies due now acc [] = Inr acc"
| "plan_accounts policies due now (cheap, solo) (a # as) =
     res_bind (due a) (\<lambda>d.
       plan_accounts policies due now
         (if is_some_and d (\<lambda>d. d \<le> now)
          then (if solo_account policies a then (cheap, solo @ [[a]]) else (cheap @ [a], solo))
          else (cheap, solo)) as)"

definition plan_tick_with_settings ::
  "quota_policy list \<Rightarrow> account_record list \<Rightarrow> detection list \<Rightarrow> quota_tick \<Rightarrow> i64 \<Rightarrow> settings
   \<Rightarrow> (string \<times> string) list \<Rightarrow> quota_error + tick_plan"
where
  "plan_tick_with_settings policies records detections tick now st missing_readiness =
     (if settings_validate st \<noteq> [] then Inl (QE_Invalid ''scheduling settings'')
      else res_bind (validate_inputs records detections) (\<lambda>_.
        let drops = map drop_intent (filter (dropped tick detections) records)
        in res_bind (plan_accounts policies (due_of policies records tick missing_readiness) now
                       ([], []) (candidates records detections tick)) (\<lambda>(cheap, solo).
           res_bind (sched_add now (se_wall_budget_seconds st)) (\<lambda>deadline.
             Inr \<lparr>tp_drops = drops, tp_batches = chunks (se_max_parallel st) cheap @ solo,
                  tp_deadline = deadline\<rparr>))))"

definition plan_tick ::
  "quota_policy list \<Rightarrow> account_record list \<Rightarrow> detection list \<Rightarrow> quota_tick \<Rightarrow> i64
   \<Rightarrow> quota_error + tick_plan"
where
  "plan_tick policies records detections tick now =
     plan_tick_with_settings policies records detections tick now settings_default []"

subsection \<open>Due times\<close>

lemma sched_add_Inr [simp]:
  "sched_add now n = Inr t \<longleftrightarrow> t = now + int n \<and> int n \<le> I64_MAX \<and> is_i64 (now + int n)"
  by (auto simp: sched_add_def)

lemma next_due_claim:
  assumes "next_due policies r trigger pw = Inr (Some d)"
  shows "is_none_or (ar_claim r) (\<lambda>c. rc_deadline c \<le> d)"
  using assms by (auto simp: next_due_def Let_def is_none_or_iff split: option.splits)

lemma next_due_backoff:
  assumes "next_due policies r trigger pw = Inr (Some d)" and "\<not> event_auth_retry r trigger"
  shows "is_none_or (ar_backoff_until r) (\<lambda>b. b \<le> d)"
  using assms by (auto simp: next_due_def Let_def is_none_or_iff split: option.splits)

lemma next_due_unblocked:
  assumes "interval policies (acc_adapter (ar_account r)) trigger pw = Some ttl"
    and "ar_backoff_until r = None" and "is_none_or (ar_claim r) (\<lambda>c. rc_deadline c \<le> t)"
    and "is_none_or (ar_last_attempt r) (\<lambda>at. at + int ttl \<le> t \<and> I64_MIN \<le> at)"
    and "is_i64 t" and "int ttl \<le> I64_MAX"
  shows "\<exists>d. next_due policies r trigger pw = Inr (Some d) \<and> d \<le> t"
proof -
  have "sched_add at ttl = Inr (at + int ttl)" if "ar_last_attempt r = Some at" for at
    using assms(4,5,6) that by (auto simp: is_i64_def)
  with assms show ?thesis
    by (cases "ar_claim r"; cases "ar_last_attempt r") (auto simp: next_due_def Let_def is_i64_def)
qed

lemma event_auth_retry_panel: "event_auth_retry r TG_Panel \<Longrightarrow> event_auth_retry r trigger"
  by (simp add: event_auth_retry_def)

lemma trigger_for_readiness_cases:
  assumes "trigger_for_readiness policies (Some r) trigger pw missing = Inr trigger'"
  shows "trigger' = trigger \<or> (\<exists>n d. trigger' = TG_Panel \<and> next_due policies r trigger pw = Inr (Some n)
      \<and> next_due policies r TG_Panel pw = Inr (Some d) \<and> d < n)"
  using assms
  by (auto simp: trigger_for_readiness_def split: option.splits if_splits)

text \<open>
  a missing readiness file only brings a probe forward. The trigger it selects gives a due
  time no later than the tick's own trigger, and never one before the deadline of an
  outstanding claim, nor before a backoff the tick's own trigger had to respect.
\<close>

theorem readiness_trigger_respects_backoff:
  assumes "trigger_for_readiness policies (Some r) trigger pw missing = Inr trigger'"
    and "next_due policies r trigger pw = Inr (Some n)"
    and "next_due policies r trigger' pw = Inr (Some d)"
  shows "d \<le> n \<and> is_none_or (ar_claim r) (\<lambda>c. rc_deadline c \<le> d)
    \<and> (event_auth_retry r trigger \<or> is_none_or (ar_backoff_until r) (\<lambda>b. b \<le> d))"
  using trigger_for_readiness_cases [OF assms(1)] next_due_claim [OF assms(3)]
    next_due_backoff [OF assms(3)] assms(2,3) event_auth_retry_panel [of r trigger] by auto

theorem readiness_trigger_respects_backoff_witness:
  "let p = [\<lparr>qp_adapter = ''claude'', qp_timer_seconds = 300, qp_panel_seconds = 120,
             qp_probe_seconds = 14, qp_low_power = True, qp_solo = False\<rparr>];
       r = (empty_record \<lparr>acc_adapter = ''claude'', acc_key = ''k'', acc_label = ''w''\<rparr>)
             \<lparr>ar_last_attempt := Some 1000, ar_backoff_until := Some 1200\<rparr>
   in trigger_for_readiness p (Some r) TG_Timer PW_Ac True = Inr TG_Panel
      \<and> next_due p r TG_Panel PW_Ac = Inr (Some 1200) \<and> (1200::int) \<le> 1300"
  using readiness_trigger_respects_backoff [of
      "[\<lparr>qp_adapter = ''claude'', qp_timer_seconds = 300, qp_panel_seconds = 120,
         qp_probe_seconds = 14, qp_low_power = True, qp_solo = False\<rparr>]"
      "(empty_record \<lparr>acc_adapter = ''claude'', acc_key = ''k'', acc_label = ''w''\<rparr>)
             \<lparr>ar_last_attempt := Some 1000, ar_backoff_until := Some 1200\<rparr>"
      TG_Timer PW_Ac True TG_Panel 1300 1200]
  by (simp add: trigger_for_readiness_def next_due_def interval_def empty_record_def sched_add_def
      i64_try_from_def i64_checked_add_def is_i64_def event_auth_retry_def)

subsection \<open>Backoff\<close>

lemma backoff_delay_div:
  assumes "1 \<le> first" and "first \<le> cap" and "cap \<le> 18446744073"
  shows "delay \<lparr>bo_first = first * NANOS, bo_factor = 2, bo_cap = cap * NANOS\<rparr> n div NANOS =
         min cap (first * 2 ^ n)"
proof -
  have "delay \<lparr>bo_first = first * NANOS, bo_factor = 2, bo_cap = cap * NANOS\<rparr> n =
      min (cap * NANOS) (first * NANOS * 2 ^ n)"
    using assms by (subst delay_eq) simp_all
  also have "\<dots> = min cap (first * 2 ^ n) * NANOS"
    by (simp add: min_def mult.commute mult.left_commute)
  finally show ?thesis by simp
qed

lemma backoff_eq:
  "backoff failure failures retry_after =
   max (case failure of
          PF_Network \<Rightarrow> min 300 (15 * 2 ^ (failures - 1))
        | PF_RateLimited \<Rightarrow> min 3600 (120 * 2 ^ (failures - 1))
        | PF_IsolatedKeychainUnavailable \<Rightarrow> 3600
        | PF_MissingCli \<Rightarrow> 86400 | PF_Disabled \<Rightarrow> 86400
        | PF_Malformed \<Rightarrow> 120 | PF_ProbeDirectory \<Rightarrow> 120
        | _ \<Rightarrow> 900) (min (unwrap_or 0 retry_after) 3600)"
proof -
  have "delay \<lparr>bo_first = 15 * NANOS, bo_factor = 2, bo_cap = 300 * NANOS\<rparr> (failures - 1) div NANOS =
      min 300 (15 * 2 ^ (failures - 1))"
    "delay \<lparr>bo_first = 120 * NANOS, bo_factor = 2, bo_cap = 3600 * NANOS\<rparr> (failures - 1) div NANOS =
      min 3600 (120 * 2 ^ (failures - 1))"
    by (rule backoff_delay_div; simp)+
  then show ?thesis
    by (cases failure) (simp_all only: backoff_def Let_def probe_failure.case)
qed

lemma backoff_bounds: "15 \<le> backoff failure failures retry_after"
  "backoff failure failures retry_after \<le> 86400"
proof -
  have "(15::nat) \<le> 15 * 2 ^ n" "(15::nat) \<le> 120 * 2 ^ n" for n
    by simp_all
  then show "15 \<le> backoff failure failures retry_after"
    unfolding backoff_eq by (cases failure) (simp_all add: le_max_iff_disj)
  show "backoff failure failures retry_after \<le> 86400"
    unfolding backoff_eq by (cases failure) (simp_all add: min_le_iff_disj)
qed

subsection \<open>Reservations\<close>

lemma rescoped_simps [simp]:
  "ar_account (rescoped a r) = a"
  "ar_revision (rescoped a r) = ar_revision r"
  "ar_schema_version (rescoped a r) = ar_schema_version r"
  "ar_credential_metadata (rescoped a r) = ar_credential_metadata r"
  "ar_last_error (rescoped a r) = ar_last_error r"
  by (simp_all add: rescoped_def)

lemma valid_snapshot_rescope:
  "valid_snapshot s \<Longrightarrow> valid_scope a \<Longrightarrow> valid_snapshot (s\<lparr>qs_account := a\<rparr>)"
  by (auto simp: valid_snapshot_def is_ok_iff snapshot_validate_def scope_validate_Inr split: if_splits)

text \<open>The replacement of a reservation, and that it is valid.\<close>

definition reserved ::
  "account_scope \<Rightarrow> account_record \<Rightarrow> i64 \<Rightarrow> string \<Rightarrow> account_record"
where
  "reserved account r now token =
     (rescoped account r)\<lparr>ar_revision := ar_revision r + 1,
        ar_claim := Some \<lparr>rc_token = token, rc_deadline = now + 55\<rparr>,
        ar_backoff_until := None, ar_auth_retry_pending := False, ar_last_attempt := Some now\<rparr>"

lemma valid_reserved:
  assumes "valid_record r" and "valid_scope account" and "component token" and "is_i64 (now + 55)"
  shows "valid_record (reserved account r now token)"
  using assms valid_snapshot_rescope
  by (cases "ar_snapshot r")
    (auto simp: valid_record_iff reserved_def rescoped_def within_def list_all_iff
      refusal_invalid_def cooldown_invalid_def)

lemma reserve_ok_iff:
  "reserve policies current account now token trigger pw = Inr ui \<longleftrightarrow>
   (let r = unwrap_or (empty_record account) current in
      valid_scope account \<and> component token \<and> valid_record r
    \<and> same_account (ar_account r) account
    \<and> (\<exists>d. next_due policies r trigger pw = Inr (Some d) \<and> d \<le> now)
    \<and> ar_revision r + 1 \<le> U64_MAX \<and> is_i64 (now + 55)
    \<and> ui = \<lparr>ui_account = ar_account r, ui_expected = current,
            ui_replacement = Some (reserved account r now token),
            ui_readiness_probe_result = None, ui_login_probe_expiry = None\<rparr>)"
  (is "?L \<longleftrightarrow> ?R")
proof -
  define r where "r = unwrap_or (empty_record account) current"
  have due: "(\<exists>x. next_due policies r trigger pw = Inr x \<and> \<not> is_none_or x (\<lambda>d. now < d) \<and> P) \<longleftrightarrow>
      (\<exists>d. next_due policies r trigger pw = Inr (Some d) \<and> d \<le> now) \<and> P" for P
  proof -
    have "\<not> is_none_or x (\<lambda>d. now < d) \<longleftrightarrow> (\<exists>d. x = Some d \<and> d \<le> now)" for x
      by (cases x) auto
    then show ?thesis by auto
  qed
  have if_Inr: "(if c then Inl e else x) = Inr y \<longleftrightarrow> \<not> c \<and> x = Inr y" for c e x y
    by simp
  show ?thesis
    using valid_reserved [of r account token now]
    unfolding reserve_def Let_def r_def [symmetric] reserved_def
    by (auto simp: scope_validate_Inr record_validate_Inr same_account_def if_Inr due)
qed

lemma reserve_proposes:
  assumes "reserve policies current account now token trigger pw = Inr ui"
  shows "\<exists>next. proposes current ui next"
proof -
  let ?r = "unwrap_or (empty_record account) current"
  have ok: "valid_scope account" "component token" "valid_record ?r"
    "same_account (ar_account ?r) account" "ar_revision ?r + 1 \<le> U64_MAX" "is_i64 (now + 55)"
    and ui: "ui = \<lparr>ui_account = ar_account ?r, ui_expected = current,
            ui_replacement = Some (reserved account ?r now token),
            ui_readiness_probe_result = None, ui_login_probe_expiry = None\<rparr>"
    using assms unfolding reserve_ok_iff Let_def by blast+
  have "valid_scope (ar_account ?r)"
    using ok(3) by (simp add: valid_record_iff)
  moreover have "ar_revision ?r = revision_of current"
    by (cases current) (simp_all add: revision_of_def empty_record_def)
  moreover have "is_none_or current (\<lambda>r. ar_account r = ar_account ?r)"
    by (cases current) simp_all
  ultimately have "proposes current ui (reserved account ?r now token)"
    using ok valid_reserved [OF ok(3,1,2,6)]
    by (simp add: proposes_def ui same_account_def reserved_def)
  then show ?thesis by blast
qed

interpretation reservation: account_operation
  "\<lambda>current (policies, account, now, token, trigger, pw).
     reserve policies current account now token trigger pw"
  by unfold_locales (auto intro: reserve_proposes)

text \<open>
  C26: a reserved probe is exclusive. Once a reservation is stored, every further reservation
  of that account fails before the claim's deadline 55 seconds later, whatever the trigger,
  the power state, the policies and the token.
\<close>

theorem reservation_exclusive:
  assumes "reserve policies current account now token trigger pw = Inr ui"
    and "ui_replacement ui = Some r" and "t < now + 55"
  shows "\<not> is_ok (reserve policies' (Some r) account' t token' trigger' pw')"
proof
  assume "is_ok (reserve policies' (Some r) account' t token' trigger' pw')"
  then obtain d where "next_due policies' r trigger' pw' = Inr (Some d)" "d \<le> t"
    by (auto simp: is_ok_iff reserve_ok_iff Let_def)
  moreover have "ar_claim r = Some \<lparr>rc_token = token, rc_deadline = now + 55\<rparr>"
    using assms(1,2) by (auto simp: reserve_ok_iff Let_def reserved_def)
  ultimately show False
    using next_due_claim [of policies' r trigger' pw' d] assms(3) by simp
qed

lemma component_token [simp]: "component ''t1''" "component ''t2''"
  by (simp_all add: component_def is_ascii_alphanumeric_def is_ascii_digit_def)

lemma sample_interval [simp]:
  "interval [sample_policy] ''claude'' TG_Timer PW_Ac = Some 300"
  by (simp add: interval_def sample_policy_def)

lemma sample_reservation:
  "reserve [sample_policy] None sample_account 1000 ''t1'' TG_Timer PW_Ac =
   Inr \<lparr>ui_account = sample_account, ui_expected = None,
        ui_replacement = Some (reserved sample_account (empty_record sample_account) 1000 ''t1''),
        ui_readiness_probe_result = None, ui_login_probe_expiry = None\<rparr>"
  by (simp add: reserve_ok_iff valid_empty_record same_account_def next_due_def is_i64_def
      empty_record_def [of sample_account, THEN arg_cong, of ar_account]
      empty_record_def [of sample_account, THEN arg_cong, of ar_claim]
      empty_record_def [of sample_account, THEN arg_cong, of ar_last_attempt]
      empty_record_def [of sample_account, THEN arg_cong, of ar_backoff_until]
      empty_record_def [of sample_account, THEN arg_cong, of ar_revision])

theorem reservation_exclusive_witness:
  "\<not> is_ok (reserve [sample_policy]
      (Some (reserved sample_account (empty_record sample_account) 1000 ''t1''))
      sample_account 1054 ''t2'' TG_Manual PW_Ac)"
  by (rule reservation_exclusive [OF sample_reservation]) simp_all

text \<open>
  C34: a claim that is never completed does not block its account for good. When the claim's
  deadline and the polling interval have passed, the account can be reserved again.
\<close>

theorem reservation_lapses:
  assumes "reserve policies current account now token trigger pw = Inr ui"
    and "ui_replacement ui = Some r"
    and "interval policies' (acc_adapter account) trigger' pw' = Some ttl" and "int ttl \<le> I64_MAX"
    and "now + 55 \<le> t" and "now + int ttl \<le> t" and "is_i64 now" and "is_i64 (t + 55)"
    and "component token'" and "ar_revision r < U64_MAX"
  shows "is_ok (reserve policies' (Some r) account t token' trigger' pw')"
proof -
  let ?r0 = "unwrap_or (empty_record account) current"
  have ok: "valid_scope account" "valid_record ?r0" "component token" "is_i64 (now + 55)"
    and r: "r = reserved account ?r0 now token"
    using assms(1,2) by (auto simp: reserve_ok_iff Let_def)
  have "valid_record r"
    unfolding r by (rule valid_reserved) (use ok in auto)
  moreover have "\<exists>d. next_due policies' r trigger' pw' = Inr (Some d) \<and> d \<le> t"
    by (rule next_due_unblocked [of _ _ _ _ ttl])
      (use assms in \<open>auto simp: r reserved_def is_i64_def\<close>)
  ultimately show ?thesis
    using ok assms(8-10) by (auto simp: is_ok_iff reserve_ok_iff Let_def r same_account_def reserved_def)
qed

theorem reservation_lapses_witness:
  "is_ok (reserve [sample_policy]
      (Some (reserved sample_account (empty_record sample_account) 1000 ''t1''))
      sample_account 1300 ''t2'' TG_Timer PW_Ac)"
  by (rule reservation_lapses [OF sample_reservation, where ttl = 300])
    (simp_all add: is_i64_def reserved_def empty_record_def)

subsection \<open>Completions\<close>

lemma complete_proposes:
  assumes "complete r token now outcome retry_after = Inr ui"
  shows "\<exists>next. proposes (Some r) ui next"
proof -
  obtain n where n: "valid_record r" "ar_revision r + 1 \<le> U64_MAX" "valid_record n"
    "(case outcome of
        Inr snapshot \<Rightarrow> complete_success r (r\<lparr>ar_revision := Suc (ar_revision r), ar_claim := None\<rparr>) now snapshot
      | Inl failure \<Rightarrow> complete_failure r (r\<lparr>ar_revision := Suc (ar_revision r), ar_claim := None\<rparr>) now
          failure retry_after) = Inr n"
    "ui = \<lparr>ui_account = ar_account r, ui_expected = Some r, ui_replacement = Some n,
       ui_readiness_probe_result = None, ui_login_probe_expiry = None\<rparr>"
    using assms unfolding complete_def Let_def
    by (auto simp: record_validate_Inr split: if_splits)
  then have "ar_account n = ar_account r \<and> ar_revision n = ar_revision r + 1"
    by (auto simp: complete_success_def complete_failure_def Let_def split: sum.splits if_splits)
  with n show ?thesis
    by (intro exI [of _ n]) (simp add: proposes_def revision_of_def valid_record_iff)
qed

interpretation completion: account_operation
  "\<lambda>current (token, now, outcome, retry_after).
     case current of None \<Rightarrow> Inl QE_Conflict | Some r \<Rightarrow> complete r token now outcome retry_after"
  by unfold_locales (auto intro: complete_proposes split: option.splits)

text \<open>
  C27: only the holder of a live claim can store a result, and it can store it once. A
  successful completion proves that the record's claim has the given token and has not
  expired, and the record it proposes has no claim left, so a second completion fails.
\<close>

theorem completion_needs_live_claim:
  assumes "complete r token now outcome retry_after = Inr ui" and "ui_replacement ui = Some n"
  shows "(\<exists>c. ar_claim r = Some c \<and> rc_token c = token \<and> now < rc_deadline c)
    \<and> ar_claim n = None \<and> ar_revision n = ar_revision r + 1
    \<and> \<not> is_ok (complete n token' now' outcome' retry_after')"
proof -
  have claim: "\<exists>c. ar_claim r = Some c \<and> rc_token c = token \<and> now < rc_deadline c"
    if "complete r token now outcome retry_after = Inr ui"
    for r token now outcome retry_after ui
    using that by (cases "ar_claim r") (auto simp: complete_def split: if_splits)
  have n: "ar_claim n = None"
    using assms
    by (auto simp: complete_def complete_success_def complete_failure_def Let_def
        split: sum.splits if_splits)
  moreover have "ar_revision n = ar_revision r + 1"
    using complete_proposes [OF assms(1)] assms(2) by (auto simp: proposes_def revision_of_def)
  ultimately show ?thesis
    using claim [OF assms(1)] claim [of n] by (auto simp: is_ok_iff)
qed

definition failed :: "account_record \<Rightarrow> i64 \<Rightarrow> probe_failure \<Rightarrow> u64 option \<Rightarrow> account_record" where
  "failed r now failure retry_after =
     r\<lparr>ar_revision := ar_revision r + 1, ar_claim := None,
       ar_auth_verified := (if needs_login failure then None else ar_auth_verified r),
       ar_failures := u64_saturating_add (ar_failures r) 1,
       ar_last_error := (if ar_last_error r = Some PF_AccountMismatch then ar_last_error r
                         else Some failure),
       ar_backoff_until := Some (now + int (backoff failure
          (u64_saturating_add (ar_failures r) 1) retry_after))\<rparr>"

definition holds_claim :: "account_record \<Rightarrow> string \<Rightarrow> i64 \<Rightarrow> bool" where
  "holds_claim r token now \<longleftrightarrow> valid_record r \<and> ar_revision r < U64_MAX
     \<and> is_some_and (ar_last_attempt r) (\<lambda>at. at \<le> now)
     \<and> is_some_and (ar_claim r) (\<lambda>c. rc_token c = token \<and> now < rc_deadline c)"

lemma valid_failed:
  assumes "holds_claim r token now" and "is_i64 (now + 86455)"
  shows "valid_record (failed r now failure retry_after)"
proof -
  let ?b = "int (backoff failure (u64_saturating_add (ar_failures r) 1) retry_after)"
  have b: "15 \<le> ?b" "?b \<le> 86400"
    using backoff_bounds [of failure "u64_saturating_add (ar_failures r) 1" retry_after] by simp_all
  obtain at c where at: "ar_last_attempt r = Some at" "at \<le> now" "ar_claim r = Some c"
    "now < rc_deadline c" and valid: "valid_record r"
    using assms(1) by (auto simp: holds_claim_def is_some_and_iff)
  then have "is_i64 (at + 55)" "rc_deadline c \<le> at + 55"
    by (auto simp: valid_record_iff within_def)
  with at b assms(2) have "within (Some at) (55 + 86400) (now + ?b) \<and> is_i64 (at + 55)"
    by (auto simp: within_def is_i64_def)
  moreover have "is_none_or (ar_snapshot r) (\<lambda>s. valid_snapshot s \<and> qs_account s = ar_account r
        \<and> qs_revision s \<le> Suc (ar_revision r))"
    using valid by (cases "ar_snapshot r") (auto simp: valid_record_iff)
  ultimately show ?thesis
    using valid at(1) by (simp add: valid_record_iff failed_def)
qed

lemma complete_fails_to:
  assumes "holds_claim r token now" and "is_i64 (now + 86455)" and "is_i64 now"
  shows "complete r token now (Inl failure) retry_after =
    Inr \<lparr>ui_account = ar_account r, ui_expected = Some r,
         ui_replacement = Some (failed r now failure retry_after),
         ui_readiness_probe_result = None, ui_login_probe_expiry = None\<rparr>"
proof -
  let ?b = "int (backoff failure (u64_saturating_add (ar_failures r) 1) retry_after)"
  have b: "15 \<le> ?b" "?b \<le> 86400"
    using backoff_bounds [of failure "u64_saturating_add (ar_failures r) 1" retry_after] by simp_all
  have add: "int (backoff failure (u64_saturating_add (ar_failures r) 1) retry_after) \<le> I64_MAX"
    "is_i64 (now + ?b)"
    using b assms(2,3) by (auto simp: is_i64_def)
  have "complete_failure r (r\<lparr>ar_revision := Suc (ar_revision r), ar_claim := None\<rparr>) now failure retry_after
      = Inr (failed r now failure retry_after)"
    using add by (simp add: complete_failure_def failed_def Let_def)
  moreover have "record_validate r = Inr ()" "record_validate (failed r now failure retry_after) = Inr ()"
    using valid_failed [OF assms(1,2)] assms(1) by (simp_all add: record_validate_Inr holds_claim_def)
  ultimately show ?thesis
    using assms(1)
    by (auto simp: complete_def holds_claim_def is_some_and_iff u64_checked_add_def)
qed

theorem completion_needs_live_claim_witness:
  "\<exists>ui n. complete (reserved sample_account (empty_record sample_account) 1000 ''t1'') ''t1'' 1010
       (Inl PF_Auth) None = Inr ui \<and> ui_replacement ui = Some n
     \<and> \<not> is_ok (complete n ''t1'' 1011 (Inl PF_Auth) None)"
proof -
  let ?r = "reserved sample_account (empty_record sample_account) 1000 ''t1''"
  have "holds_claim ?r ''t1'' 1010"
    using valid_reserved [of "empty_record sample_account" sample_account "''t1''" 1000]
    by (simp add: holds_claim_def valid_empty_record is_i64_def)
      (simp add: reserved_def empty_record_def)
  then obtain ui n where ui: "complete ?r ''t1'' 1010 (Inl PF_Auth) None = Inr ui"
    "ui_replacement ui = Some n"
    using complete_fails_to [of ?r "''t1''" 1010] by (simp add: is_i64_def)
  from completion_needs_live_claim [OF this] show ?thesis
    using ui by blast
qed


lemma sample_holds_claim:
  "holds_claim (reserved sample_account (empty_record sample_account) 1000 ''t1'') ''t1'' 1010"
  using valid_reserved [of "empty_record sample_account" sample_account "''t1''" 1000]
  by (simp add: holds_claim_def valid_empty_record is_i64_def)
    (simp add: reserved_def empty_record_def)


subsection \<open>Successful probes\<close>

lemma valid_snapshot_revision:
  "valid_snapshot (s\<lparr>qs_revision := n\<rparr>) = valid_snapshot s"
  by (simp add: valid_snapshot_def snapshot_validate_def)

text \<open>
  a successful probe of the account, observed between the attempt and now, is stored. The
  record then has that snapshot under the new revision, no failure, no backoff and no claim.
\<close>

theorem success_is_stored:
  assumes "holds_claim r token now" and "valid_snapshot s" and "qs_account s = ar_account r"
    and "qs_observed s \<le> now" and "is_some_and (ar_last_attempt r) (\<lambda>at. at \<le> qs_observed s)"
  shows "\<exists>ui n. complete r token now (Inr s) retry_after = Inr ui \<and> ui_replacement ui = Some n
    \<and> valid_record n \<and> ar_snapshot n = Some (s\<lparr>qs_revision := ar_revision r + 1\<rparr>)
    \<and> ar_failures n = 0 \<and> ar_last_error n = None \<and> ar_backoff_until n = None \<and> ar_claim n = None"
proof -
  let ?n = "r\<lparr>ar_revision := Suc (ar_revision r), ar_claim := None,
      ar_snapshot := Some (s\<lparr>qs_revision := Suc (ar_revision r)\<rparr>), ar_failures := 0,
      ar_last_error := None, ar_backoff_until := None\<rparr>"
  have r: "valid_record r" "ar_revision r < U64_MAX"
    using assms(1) by (simp_all add: holds_claim_def)
  have n: "valid_record ?n"
    using r(1) assms(2,3) by (simp add: valid_record_iff valid_snapshot_revision)
  have "complete_success r (r\<lparr>ar_revision := Suc (ar_revision r), ar_claim := None\<rparr>) now s = Inr ?n"
    using assms(2-5) by (auto simp: complete_success_def snapshot_validate_Inr is_some_and_iff)
  moreover have "record_validate r = Inr ()" "record_validate ?n = Inr ()"
    using r(1) n by (simp_all only: record_validate_Inr)
  ultimately have "complete r token now (Inr s) retry_after =
      Inr \<lparr>ui_account = ar_account r, ui_expected = Some r, ui_replacement = Some ?n,
           ui_readiness_probe_result = None, ui_login_probe_expiry = None\<rparr>"
    using assms(1) r(2)
    by (auto simp: complete_def holds_claim_def is_some_and_iff u64_checked_add_def)
  with n show ?thesis by auto
qed

definition sample_snapshot :: quota_snapshot where
  "sample_snapshot = \<lparr>qs_schema_version = 1, qs_account = sample_account, qs_revision = 0,
     qs_status = QS_Available, qs_observed = 1005, qs_source_ref = ''probe'', qs_authority_ref = None,
     qs_windows = [\<lparr>qw_pool = ''five_hour'', qw_window_seconds = None, qw_used = 1200,
       qw_resets = Some 9000\<rparr>], qs_details = None\<rparr>"

lemma sample_snapshot_valid [simp]: "valid_snapshot sample_snapshot"
  using sample_account_valid
  by (simp add: valid_snapshot_def snapshot_validate_def valid_scope_def is_ok_iff res_bind_def
      sample_snapshot_def reference_def is_ascii_alphanumeric_def is_ascii_digit_def
      split: sum.splits)

theorem success_is_stored_witness:
  "\<exists>ui. complete (reserved sample_account (empty_record sample_account) 1000 ''t1'') ''t1'' 1010
     (Inr sample_snapshot) None = Inr ui"
  using success_is_stored [OF sample_holds_claim sample_snapshot_valid, of None]
  by (auto simp: sample_snapshot_def reserved_def)

subsection \<open>Tick plans\<close>

lemma validate_records_ok:
  "validate_records seen rs = Inr u \<Longrightarrow>
   distinct (map (\<lambda>r. account_id (ar_account r)) rs) \<and> (\<forall>r \<in> set rs. valid_record r)
   \<and> (\<forall>r \<in> set rs. account_id (ar_account r) \<notin> set seen)"
proof (induction rs arbitrary: seen)
  case (Cons r rs)
  then have "validate_records (account_id (ar_account r) # seen) rs = Inr u"
    and "valid_record r" "account_id (ar_account r) \<notin> set seen"
    by (auto simp: record_validate_Inr split: if_splits)
  with Cons.IH [OF this(1)] show ?case by auto
qed simp

lemma validate_detected_ok:
  "validate_detected adapter acc as = Inr acc' \<Longrightarrow>
   distinct (map account_id as) \<and> set (map account_id as) \<inter> set (snd acc) = {}
   \<and> set (snd acc') = set (map account_id as) \<union> set (snd acc)
   \<and> (\<forall>a \<in> set as. acc_adapter a = adapter)"
proof (induction as arbitrary: acc)
  case (Cons a as)
  obtain n seen where acc: "acc = (n, seen)" by (cases acc)
  from Cons.prems have rec: "validate_detected adapter (n + 1, account_id a # seen) as = Inr acc'"
    and a: "acc_adapter a = adapter" "account_id a \<notin> set seen"
    by (auto simp: acc split: if_splits)
  from Cons.IH [OF rec] a show ?case
    by (auto simp: acc)
qed auto

definition detected :: "detection \<Rightarrow> account_scope list" where
  "detected d = unwrap_or [] (de_accounts d)"

lemma validate_detections_ok:
  "validate_detections adapters acc ds = Inr u \<Longrightarrow>
   distinct (map account_id (concat (map detected ds)))
   \<and> (\<forall>d \<in> set ds. \<forall>a \<in> set (detected d). account_id a \<notin> set (snd acc))
   \<and> (\<forall>d \<in> set ds. \<forall>a \<in> set (detected d). acc_adapter a = de_adapter d)
   \<and> distinct (map de_adapter ds) \<and> (\<forall>d \<in> set ds. de_adapter d \<notin> set adapters)
   \<and> (\<forall>d \<in> set ds. de_accounts d \<noteq> None \<longrightarrow> de_status d \<noteq> QS_Unsupported)"
proof (induction ds arbitrary: adapters acc)
  case (Cons d ds)
  then obtain acc' where det: "validate_detected (de_adapter d) acc (detected d) = Inr acc'"
    and rec: "validate_detections (de_adapter d # adapters) acc' ds = Inr u"
    and d: "de_adapter d \<notin> set adapters" "de_accounts d \<noteq> None \<longrightarrow> de_status d \<noteq> QS_Unsupported"
    by (auto simp: detected_def split: if_splits)
  have ids: "distinct (map account_id (concat (map detected ds)))"
    and fresh: "\<forall>e \<in> set ds. \<forall>a \<in> set (detected e). account_id a \<notin> set (snd acc')"
    and rest: "\<forall>e \<in> set ds. \<forall>a \<in> set (detected e). acc_adapter a = de_adapter e"
      "distinct (map de_adapter ds)" "\<forall>e \<in> set ds. de_adapter e \<notin> set (de_adapter d # adapters)"
      "\<forall>e \<in> set ds. de_accounts e \<noteq> None \<longrightarrow> de_status e \<noteq> QS_Unsupported"
    using Cons.IH [OF rec] by blast+
  have seen: "set (snd acc') = account_id ` set (detected d) \<union> set (snd acc)"
    and own: "distinct (map account_id (detected d))"
      "account_id ` set (detected d) \<inter> set (snd acc) = {}"
      "\<forall>a \<in> set (detected d). acc_adapter a = de_adapter d"
    using validate_detected_ok [OF det] by auto
  have "account_id ` set (detected d) \<inter> account_id ` set (concat (map detected ds)) = {}"
    using fresh seen by fastforce
  then have "distinct (map account_id (concat (map detected (d # ds))))"
    using ids own(1) by simp
  moreover have "\<forall>e \<in> set (d # ds). \<forall>a \<in> set (detected e). account_id a \<notin> set (snd acc)"
    using own(2) fresh seen by auto
  ultimately show ?case
    using own(3) rest d by auto
qed simp

lemma absentD:
  assumes "absent_from_detection ds r"
  shows "\<exists>d \<in> set ds. de_adapter d = acc_adapter (ar_account r)
    \<and> \<not> (\<exists>b \<in> set (detected d). same_account b (ar_account r))"
proof -
  obtain d where "d \<in> set ds" "de_adapter d = acc_adapter (ar_account r)"
    "case de_accounts d of None \<Rightarrow> de_status d = QS_Unsupported
       | Some accounts \<Rightarrow> \<not> list_ex (\<lambda>a. same_account a (ar_account r)) accounts"
    using assms by (auto simp: absent_from_detection_def list_ex_iff)
  then show ?thesis
    by (intro bexI [of _ d]) (cases "de_accounts d"; simp add: detected_def list_ex_iff)+
qed

lemma plan_accounts_result:
  "plan_accounts policies due now (cheap, solo) as = Inr (cheap', solo') \<Longrightarrow>
   cheap' = cheap @ filter (\<lambda>a. (\<exists>d. due a = Inr (Some d) \<and> d \<le> now) \<and> \<not> solo_account policies a) as
   \<and> solo' = solo @ map (\<lambda>a. [a])
        (filter (\<lambda>a. (\<exists>d. due a = Inr (Some d) \<and> d \<le> now) \<and> solo_account policies a) as)"
proof (induction as arbitrary: cheap solo)
  case (Cons a as)
  then obtain d where "due a = Inr d" by auto
  with Cons.prems Cons.IH [of cheap solo] Cons.IH [of "cheap @ [a]" solo]
    Cons.IH [of cheap "solo @ [[a]]"] show ?case
    by (cases d) (auto split: if_splits)
qed simp

lemma set_candidates:
  "set (candidates records ds tick) =
   {a. \<exists>d \<in> set ds. probed_detection records tick d \<and> a \<in> set (detected d)}"
proof (induction ds)
  case (Cons d ds)
  then show ?case
    by (cases "de_accounts d")
      (auto simp: candidates_def detected_def List.map_filter_simps)
qed (simp add: candidates_def List.map_filter_simps)

lemma distinct_candidates:
  "distinct (map account_id (concat (map detected ds))) \<Longrightarrow>
   distinct (map account_id (candidates records ds tick))"
proof (induction ds)
  case (Cons d ds)
  then have IH: "distinct (map account_id (candidates records ds tick))" by simp
  have "set (candidates records ds tick) \<subseteq> set (concat (map detected ds))"
    by (auto simp: set_candidates)
  moreover have "account_id ` set (detected d) \<inter> account_id ` set (concat (map detected ds)) = {}"
    using Cons.prems by simp
  ultimately have "account_id ` set (detected d) \<inter> account_id ` set (candidates records ds tick) = {}"
    by blast
  with IH Cons.prems show ?case
    by (cases "de_accounts d")
      (auto simp: candidates_def detected_def List.map_filter_simps)
qed (simp add: candidates_def List.map_filter_simps)

definition due_now ::
  "quota_policy list \<Rightarrow> account_record list \<Rightarrow> quota_tick \<Rightarrow> (string \<times> string) list \<Rightarrow> i64
   \<Rightarrow> account_scope \<Rightarrow> bool"
where
  "due_now policies records tick missing now a \<longleftrightarrow>
     (\<exists>d. due_of policies records tick missing a = Inr (Some d) \<and> d \<le> now)"

lemma plan_tick_parts:
  assumes "plan_tick_with_settings policies records ds tick now st missing = Inr p"
  shows "settings_validate st = []" "validate_records [] records = Inr ()"
    "validate_detections [] (0, []) ds = Inr ()"
    "tp_drops p = map drop_intent (filter (dropped tick ds) records)"
    "tp_batches p =
       chunks (se_max_parallel st) (filter (\<lambda>a. due_now policies records tick missing now a
         \<and> \<not> solo_account policies a) (candidates records ds tick))
       @ map (\<lambda>a. [a]) (filter (\<lambda>a. due_now policies records tick missing now a
         \<and> solo_account policies a) (candidates records ds tick))"
    "tp_deadline p = now + int (se_wall_budget_seconds st)"
proof -
  have st: "settings_validate st = []"
    using assms by (auto simp: plan_tick_with_settings_def split: if_splits)
  with assms obtain cheap solo where
    inputs: "validate_inputs records ds = Inr ()" and
    plan: "plan_accounts policies (due_of policies records tick missing) now ([], [])
        (candidates records ds tick) = Inr (cheap, solo)" and
    p: "p = \<lparr>tp_drops = map drop_intent (filter (dropped tick ds) records),
          tp_batches = chunks (se_max_parallel st) cheap @ solo,
          tp_deadline = now + int (se_wall_budget_seconds st)\<rparr>"
    by (auto simp: plan_tick_with_settings_def Let_def)
  note batches = plan_accounts_result [OF plan]
  show "settings_validate st = []" by (fact st)
  show "validate_records [] records = Inr ()" "validate_detections [] (0, []) ds = Inr ()"
    using inputs by (auto simp: validate_inputs_def split: if_splits)
  show "tp_drops p = map drop_intent (filter (dropped tick ds) records)"
    "tp_deadline p = now + int (se_wall_budget_seconds st)"
    by (simp_all add: p)
  show "tp_batches p =
       chunks (se_max_parallel st) (filter (\<lambda>a. due_now policies records tick missing now a
         \<and> \<not> solo_account policies a) (candidates records ds tick))
       @ map (\<lambda>a. [a]) (filter (\<lambda>a. due_now policies records tick missing now a
         \<and> solo_account policies a) (candidates records ds tick))"
    using batches by (simp add: p due_now_def)
qed

lemma chunks_filter_set:
  "0 < n \<Longrightarrow> set (concat (chunks n (filter P xs) @ map (\<lambda>a. [a]) (filter Q xs))) =
     {a \<in> set xs. P a \<or> Q a}"
proof -
  assume "0 < n"
  have "concat (map (\<lambda>a. [a]) ys) = ys" for ys :: "'a list"
    by (induction ys) simp_all
  with \<open>0 < n\<close> show ?thesis
    by (simp only: concat_append concat_chunks set_append set_filter) blast
qed

lemma plan_batches_set:
  assumes "plan_tick_with_settings policies records ds tick now st missing = Inr p"
  shows "set (concat (tp_batches p)) =
      {a \<in> set (candidates records ds tick). due_now policies records tick missing now a}"
proof -
  have "0 < se_max_parallel st"
    using settings_bounds [OF plan_tick_parts(1) [OF assms]] by simp
  then show ?thesis
    unfolding plan_tick_parts(5) [OF assms] by (subst chunks_filter_set) blast+
qed

text \<open>
  a tick probes exactly the due accounts, each once. The batches hold exactly the detected
  accounts the tick selects that are due; no account appears twice; no batch is empty or larger
  than the configured parallelism; an account whose provider must be probed alone is a batch of
  its own; and the tick's deadline is at most ten minutes ahead.
\<close>

theorem plan_tick_batches:
  assumes "plan_tick_with_settings policies records ds tick now st missing = Inr p"
  shows "set (concat (tp_batches p)) =
      {a \<in> set (candidates records ds tick). due_now policies records tick missing now a}
    \<and> distinct (map account_id (concat (tp_batches p)))
    \<and> (\<forall>b \<in> set (tp_batches p). b \<noteq> [] \<and> length b \<le> se_max_parallel st
        \<and> (list_ex (solo_account policies) b \<longrightarrow> length b = 1))
    \<and> now < tp_deadline p \<and> tp_deadline p \<le> now + 600"
proof -
  note parts = plan_tick_parts [OF assms]
  note bounds = settings_bounds [OF parts(1)]
  let ?c = "candidates records ds tick"
  let ?due = "due_now policies records tick missing now"
  let ?solo = "solo_account policies"
  have pos: "0 < se_max_parallel st" using bounds(1) by simp
  have single: "concat (map (\<lambda>a. [a]) ys) = ys" for ys :: "account_scope list"
    by (induction ys) simp_all
  have "distinct (map account_id ?c)"
    using validate_detections_ok [OF parts(3)] by (intro distinct_candidates) blast
  then have inj: "inj_on account_id (set ?c)" and "distinct ?c"
    by (simp_all add: distinct_map)
  then have "distinct (filter (\<lambda>a. ?due a \<and> \<not> ?solo a) ?c @ filter (\<lambda>a. ?due a \<and> ?solo a) ?c)"
    by auto
  moreover have "inj_on account_id
      (set (filter (\<lambda>a. ?due a \<and> \<not> ?solo a) ?c @ filter (\<lambda>a. ?due a \<and> ?solo a) ?c))"
    using inj by (rule inj_on_subset) auto
  ultimately have "distinct (map account_id (concat (tp_batches p)))"
    by (simp only: parts(5) concat_append concat_chunks [OF pos] single distinct_map simp_thms)
  moreover note plan_batches_set [OF assms]
  moreover have "b \<noteq> [] \<and> length b \<le> se_max_parallel st \<and> (list_ex ?solo b \<longrightarrow> length b = 1)"
    if "b \<in> set (tp_batches p)" for b
  proof -
    from that consider
      (cheap) "b \<in> set (chunks (se_max_parallel st) (filter (\<lambda>a. ?due a \<and> \<not> ?solo a) ?c))"
      | (solo) a where "b = [a]"
      unfolding parts(5) by auto
    then show ?thesis
    proof cases
      case cheap
      have "set b \<subseteq> set (filter (\<lambda>a. ?due a \<and> \<not> ?solo a) ?c)"
        using cheap concat_chunks [OF pos, of "filter (\<lambda>a. ?due a \<and> \<not> ?solo a) ?c"]
        by (metis (no_types, lifting) UN_upper set_concat)
      then show ?thesis
        using chunks_bounds [OF cheap] by (auto simp: list_ex_iff)
    next
      case solo
      then show ?thesis using pos by simp
    qed
  qed
  ultimately show ?thesis
    using parts(6) bounds by auto
qed

lemma settings_default_valid [simp]: "settings_validate settings_default = []"
  by (simp add: settings_validate_def settings_default_def valid_icon_def)

definition sample_tick :: quota_tick where
  "sample_tick = \<lparr>qt_adapter = None, qt_trigger = TG_Timer, qt_power = PW_Ac\<rparr>"

lemma component_claude [simp]: "component ''claude''"
  by (simp add: component_def is_ascii_alphanumeric_def is_ascii_digit_def)

lemma sample_plan:
  "plan_tick_with_settings [sample_policy] []
     [\<lparr>de_adapter = ''claude'', de_accounts = Some [sample_account], de_status = QS_Available\<rparr>]
     sample_tick 1000 settings_default [] =
   Inr \<lparr>tp_drops = [], tp_batches = [[sample_account]], tp_deadline = 1055\<rparr>"
proof -
  have "scope_validate sample_account = Inr ()"
    by (simp add: scope_validate_Inr)
  then show ?thesis
    by (simp add: plan_tick_with_settings_def validate_inputs_def candidates_def sample_tick_def
        probed_detection_def selected_def List.map_filter_simps due_of_def
        trigger_for_readiness_def solo_account_def sample_policy_def [THEN arg_cong, of qp_solo]
        chunks_step settings_default_def [THEN arg_cong, of se_max_parallel]
        settings_default_def [THEN arg_cong, of se_wall_budget_seconds] sched_add_def
        i64_try_from_def i64_checked_add_def is_i64_def)
qed

theorem plan_tick_batches_witness:
  "set (concat (tp_batches \<lparr>tp_drops = [], tp_batches = [[sample_account]], tp_deadline = 1055\<rparr>)) =
     {sample_account}
   \<and> (1055::int) \<le> 1000 + 600"
  using plan_tick_batches [OF sample_plan] by simp

text \<open>
  a tick drops only records of accounts that vanished, and never one it probes. Each drop
  names a stored record its own check accepts, the adapter is not one that retains past
  accounts, and no batch holds the dropped account.
\<close>

theorem plan_tick_drops:
  assumes "plan_tick_with_settings policies records ds tick now st missing = Inr p"
    and "ui \<in> set (tp_drops p)"
  shows "\<exists>r \<in> set records. ui_expected ui = Some r \<and> ui_replacement ui = None
    \<and> intent_check ui (Some r) = Inr ()
    \<and> \<not> is_some_and (get_spec (acc_adapter (ar_account r))) ad_retain_quota_accounts
    \<and> (\<forall>a \<in> set (concat (tp_batches p)). account_id a \<noteq> account_id (ar_account r))"
proof -
  note parts = plan_tick_parts [OF assms(1)]
  obtain r where r: "r \<in> set records" "dropped tick ds r" "ui = drop_intent r"
    using assms(2) by (auto simp: parts(4))
  have valid: "valid_record r"
    using validate_records_ok [OF parts(2)] r(1) by blast
  then have check: "intent_check ui (Some r) = Inr ()"
    by (simp add: r(3) drop_intent_def intent_check_def scope_validate_Inr valid_record_iff)
  have "account_id a \<noteq> account_id (ar_account r)" if a: "a \<in> set (concat (tp_batches p))" for a
  proof
    assume same: "account_id a = account_id (ar_account r)"
    obtain d where d: "d \<in> set ds" "a \<in> set (detected d)"
      using a [unfolded plan_batches_set [OF assms(1)]] by (auto simp: set_candidates)
    then have "de_adapter d = acc_adapter (ar_account r)"
      using validate_detections_ok [OF parts(3)] same by (auto simp: account_id_def)
    moreover obtain e where e: "e \<in> set ds" "de_adapter e = acc_adapter (ar_account r)"
      "\<not> (\<exists>b \<in> set (detected e). same_account b (ar_account r))"
      using absentD [of ds r] r(2) unfolding dropped_def by blast
    moreover have "distinct (map de_adapter ds)"
      using validate_detections_ok [OF parts(3)] by blast
    ultimately have "e = d"
      using d(1) by (metis distinct_map inj_onD)
    with d(2) e(3) same show False
      by (auto simp: same_account_def account_id_def)
  qed
  with r valid check show ?thesis
    by (auto simp: dropped_def drop_intent_def intro!: bexI [of _ r])
qed

lemma sample_drop_plan:
  "plan_tick_with_settings [sample_policy] [empty_record sample_account]
     [\<lparr>de_adapter = ''claude'', de_accounts = Some [], de_status = QS_Available\<rparr>]
     sample_tick 1000 settings_default [] =
   Inr \<lparr>tp_drops = [drop_intent (empty_record sample_account)], tp_batches = [], tp_deadline = 1055\<rparr>"
proof -
  have "record_validate (empty_record sample_account) = Inr ()"
    by (simp add: record_validate_Inr valid_empty_record)
  moreover have "ad_retain_quota_accounts spec_claude = False"
    by (simp add: spec_claude_def)
  ultimately show ?thesis
    by (simp add: plan_tick_with_settings_def validate_inputs_def candidates_def sample_tick_def
        probed_detection_def selected_def List.map_filter_simps dropped_def absent_from_detection_def
        get_spec_def ADAPTER_SPECS_def empty_record_def [THEN arg_cong, of ar_account]
        settings_default_def [THEN arg_cong, of se_wall_budget_seconds] sched_add_def
        i64_try_from_def i64_checked_add_def is_i64_def)
qed

theorem plan_tick_drops_witness:
  "\<exists>r \<in> set [empty_record sample_account].
     intent_check (drop_intent (empty_record sample_account)) (Some r) = Inr ()"
  using plan_tick_drops [OF sample_drop_plan, of "drop_intent (empty_record sample_account)"] by simp

end
