(* ===== verification/Records_Route.thy ===== *)
theory Records_Route
  imports Prov_Prelude
begin

section \<open>Resolved routes and exclusion reasons (crate records)\<close>

text \<open>
  \<open>records/src/resolved_route.rs\<close>: the routing decision that providers and runs share, the
  readiness it was taken on, and the closed reasons a route is excluded for.
\<close>

subsection \<open>Exclusion reasons\<close>

datatype route_exclusion_reason =
    EX_Disabled
  | EX_MissingExecutable
  | EX_UnknownAvailability
  | EX_StaleAvailability
  | EX_UnknownAccount
  | EX_DisclosureDenied
  | EX_ConfinementUnavailable
  | EX_UnsupportedEffort
  | EX_Exhausted
  | EX_PacingReserve
  | EX_UnknownPartialHeadroom
  | EX_AuthRequired
  | EX_LoginExpired
  | EX_UnverifiedModel
  | EX_AccountMismatch
  | EX_FreeTierRefused
  | EX_ProviderRefused
  | EX_InvalidAccountEvidence

text \<open>The reason text of \<open>ProviderFailureFact::AuthRequired\<close> in \<open>records/src/diagnostic.rs\<close>.\<close>

abbreviation AUTH_REQUIRED_REASON :: string where
  "AUTH_REQUIRED_REASON \<equiv>
     ''provider requires login; sign in to the selected account and run `provenant quota tick`''"

fun diagnostic_parts :: "route_exclusion_reason \<Rightarrow> string \<times> string" where
  "diagnostic_parts EX_Disabled =
     (''the selected route is disabled'',
      ''enable an eligible route in the host configuration'')"
| "diagnostic_parts EX_MissingExecutable =
     (''the selected adapter executable is unavailable'',
      ''install the adapter or select an available route'')"
| "diagnostic_parts EX_UnknownAvailability =
     (''the selected account's readiness has not been verified'',
      ''run `provenant quota tick` or check the account login'')"
| "diagnostic_parts EX_StaleAvailability =
     (''the selected account's provider availability observation is stale'',
      ''re-probe the selected account; if it remains unavailable, run `provenant quota tick` or check its login'')"
| "diagnostic_parts EX_UnknownAccount =
     (''the selected account is not registered'',
      ''run `provenant accounts list` and select a registered account'')"
| "diagnostic_parts EX_DisclosureDenied =
     (''the route cannot receive the requested data'',
      ''select a route permitted by the disclosure policy'')"
| "diagnostic_parts EX_ConfinementUnavailable =
     (''the requested confinement is unavailable'',
      ''repair the host confinement setup before retrying'')"
| "diagnostic_parts EX_UnsupportedEffort =
     (''the selected route does not support the requested effort'',
      ''choose a supported effort or another route'')"
| "diagnostic_parts EX_Exhausted =
     (''the selected account's allowance is exhausted'',
      ''wait for the allowance to reset or select an eligible route'')"
| "diagnostic_parts EX_PacingReserve =
     (''the selected account is held by its pacing reserve'',
      ''wait for the pacing window or adjust the configured reserve'')"
| "diagnostic_parts EX_UnknownPartialHeadroom =
     (''partial usage does not establish available headroom'',
      ''refresh quota evidence or wait for the allowance to reset'')"
| "diagnostic_parts EX_AuthRequired =
     (''the selected account requires login'',
      AUTH_REQUIRED_REASON)"
| "diagnostic_parts EX_LoginExpired =
     (''the selected account's login expired'',
      AUTH_REQUIRED_REASON)"
| "diagnostic_parts EX_UnverifiedModel =
     (''the selected model is not verified for this route'',
      ''select a verified model or refresh the catalogue'')"
| "diagnostic_parts EX_AccountMismatch =
     (''the signed-in account differs from registration'',
      ''account mismatch; re-register the selected account'')"
| "diagnostic_parts EX_FreeTierRefused =
     (''the provider refused the free tier'',
      ''free tier exhausted; use a paid route or wait for its allowance reset'')"
| "diagnostic_parts EX_ProviderRefused =
     (''the provider refused this route or pool'',
      ''scoped provider refusal; wait or select an eligible route'')"
| "diagnostic_parts EX_InvalidAccountEvidence =
     (''persisted account evidence is invalid'',
      ''repair or re-register the account before retrying'')"

definition is_account_block :: "route_exclusion_reason \<Rightarrow> bool" where
  "is_account_block r \<longleftrightarrow>
     r \<in> {EX_AccountMismatch, EX_FreeTierRefused, EX_ProviderRefused, EX_InvalidAccountEvidence}"

subsection \<open>Routes\<close>

datatype route_eligibility = Eligible | EligibleUnverifiedModel

datatype receipt_readiness =
    ReceiptReady extra_fields string i64
  | ReceiptUnavailable extra_fields route_exclusion_reason

definition receipt_unknown :: receipt_readiness where
  "receipt_unknown = ReceiptUnavailable [] EX_UnknownAvailability"

definition receipt_stale :: receipt_readiness where
  "receipt_stale = ReceiptUnavailable [] EX_StaleAvailability"

definition receipt_is_unknown :: "receipt_readiness \<Rightarrow> bool" where
  "receipt_is_unknown r = (case r of
      ReceiptUnavailable _ reason \<Rightarrow> reason \<in> {EX_UnknownAvailability, EX_StaleAvailability}
    | _ \<Rightarrow> False)"

record route_confidentiality =
  cf_extra :: extra_fields
  cf_evidence_ref :: string

record route_exclusion =
  xe_extra :: extra_fields
  xe_adapter :: string
  xe_model :: string
  xe_reason :: route_exclusion_reason

record route_alternative =
  al_extra :: extra_fields
  al_adapter :: string
  al_model :: string
  al_effort :: "string option"
  al_account_key :: "string option"
  al_host :: string
  al_eligibility :: route_eligibility
  al_readiness :: receipt_readiness
  al_confidentiality :: route_confidentiality

record route_selection_candidate =
  sc_extra :: extra_fields
  sc_model :: string
  sc_weight :: nat
  sc_factor_basis_points :: nat
  sc_pacing_detail :: "string option"
  sc_effort :: "string option"
  sc_readiness :: "receipt_readiness option"
  sc_exclusion :: "string option"

record route_selection_redraw =
  rd_extra :: extra_fields
  rd_rejected_pick :: string
  rd_roll :: u64
  rd_total_weight :: u64
  rd_reason :: string

record route_selection_receipt =
  sr_extra :: extra_fields
  sr_pool :: string
  sr_candidates :: "route_selection_candidate list"
  sr_roll :: u64
  sr_total_weight :: u64
  sr_pick :: string
  sr_reason :: "string option"
  sr_redraws :: "route_selection_redraw list"

record resolved_route =
  ro_extra :: extra_fields
  ro_adapter :: string
  ro_model :: string
  ro_effort :: "string option"
  ro_catalogue_revision :: string
  ro_account_key :: "string option"
  ro_host :: string
  ro_alternatives :: "route_alternative list"
  ro_exclusions :: "route_exclusion list"
  ro_eligibility :: route_eligibility
  ro_readiness :: receipt_readiness
  ro_confidentiality :: route_confidentiality
  ro_pool_selection :: "route_selection_receipt option"

text \<open>A resolved route permits at most two alternatives; more is an error.\<close>

definition alternatives_new :: "route_alternative list \<Rightarrow> unit + route_alternative list" where
  "alternatives_new values = (if 2 < length values then Inl () else Inr values)"

definition user_skills :: "resolved_route \<Rightarrow> bool" where
  "user_skills r = (case map_of (ro_extra r) ''user_skills'' of Some (JBool b) \<Rightarrow> b | _ \<Rightarrow> True)"

definition set_user_skills :: "resolved_route \<Rightarrow> bool \<Rightarrow> resolved_route" where
  "set_user_skills r enabled = r\<lparr>ro_extra :=
     (''user_skills'', JBool enabled) # filter (\<lambda>(k, _). k \<noteq> ''user_skills'') (ro_extra r)\<rparr>"

text \<open>The route of a launch record (\<open>records/src/run.rs\<close>).\<close>

record route_record =
  rt_extra :: extra_fields
  rt_provider :: "string option"
  rt_model :: "string option"
  rt_effort :: "string option"
  rt_account_label :: "string option"
  rt_account_key :: "string option"
  rt_source :: "string option"
  rt_pool_selection :: "route_selection_receipt option"

definition from_resolved :: "resolved_route \<Rightarrow> string option \<Rightarrow> string \<Rightarrow> route_record" where
  "from_resolved route account_label source = \<lparr>rt_extra = [], rt_provider = Some (ro_adapter route),
     rt_model = Some (ro_adapter route @ ''/'' @ ro_model route), rt_effort = ro_effort route,
     rt_account_label = account_label, rt_account_key = ro_account_key route,
     rt_source = Some source, rt_pool_selection = ro_pool_selection route\<rparr>"

lemma user_skills_set [simp]: "user_skills (set_user_skills r b) = b"
  by (simp add: user_skills_def set_user_skills_def)

lemma receipt_unknown_cases [simp]:
  "receipt_is_unknown receipt_unknown" "receipt_is_unknown receipt_stale"
  "\<not> receipt_is_unknown (ReceiptReady x ref expires)"
  by (simp_all add: receipt_is_unknown_def receipt_unknown_def receipt_stale_def)

end
