(* ===== verification/Quota_Admission.thy ===== *)
theory Quota_Admission
  imports Quota_Schedule Records_Route
begin

section \<open>Admission by quota evidence (crate quota)\<close>

text \<open>
  \<open>quota/src/admission.rs\<close>: recording provider refusals and capacity cooldowns, the blocks
  they put on an account, and the check every launch passes.
\<close>

subsection \<open>Refusals and cooldowns\<close>

abbreviation CLEAR_HEADROOM_BASIS_POINTS :: nat where "CLEAR_HEADROOM_BASIS_POINTS \<equiv> 9500"

definition refusal_expires :: "refusal \<Rightarrow> quota_error + i64" where
  "refusal_expires r = (case rf_resets r of
      Some resets \<Rightarrow> Inr resets
    | None \<Rightarrow> ok_or QE_TimeRange (i64_checked_add (rf_observed r) 3600))"

text \<open>\<open>retain\<close> of the other keys followed by \<open>push\<close>, for the two kinds of evidence.\<close>

definition push_cooldown :: "i64 \<Rightarrow> capacity_cooldown \<Rightarrow> capacity_cooldown list \<Rightarrow> capacity_cooldown list" where
  "push_cooldown now c cs = filter (\<lambda>x. cd_model x \<noteq> cd_model c \<and> now < cd_expires x) cs @ [c]"

definition push_refusal :: "refusal \<Rightarrow> refusal list \<Rightarrow> refusal list" where
  "push_refusal f fs = filter (\<lambda>x. rf_model x \<noteq> rf_model f \<or> rf_pool x \<noteq> rf_pool f) fs @ [f]"

definition record_capacity_cooldown ::
  "account_record option \<Rightarrow> account_scope \<Rightarrow> string \<Rightarrow> i64 \<Rightarrow> u64 \<Rightarrow> quota_error + update_intent option"
where
  "record_capacity_cooldown current account full_model now duration_seconds =
     (if duration_seconds = 0 then Inr None
      else res_bind (scope_validate account) (\<lambda>_.
        res_bind (ok_or (QE_Invalid ''capacity model'')
                   (strip_prefix (acc_adapter account @ ''/'') full_model)) (\<lambda>model.
        if model = [] \<or> 256 < length model \<or> has_control model
        then Inl (QE_Invalid ''capacity model'')
        else if is_some_and current (\<lambda>r. ar_account r \<noteq> account) then Inl QE_Conflict
        else res_bind (ok_or QE_TimeRange (i64_try_from duration_seconds)) (\<lambda>d.
          res_bind (ok_or QE_TimeRange (i64_checked_add now d)) (\<lambda>expires.
          if expires \<le> now then Inl (QE_Invalid ''capacity duration'')
          else
            let record = unwrap_or (empty_record account) current
            in res_bind (record_validate record) (\<lambda>_.
               res_bind (ok_or QE_NumberOutOfRange (u64_checked_add (ar_revision record) 1)) (\<lambda>revision.
               let extra = (case List.find (\<lambda>c. cd_model c = model) (ar_capacity_cooldowns record) of
                              Some c \<Rightarrow> cd_extra c | None \<Rightarrow> []);
                   kept = filter (\<lambda>c. cd_model c \<noteq> model \<and> now < cd_expires c)
                            (ar_capacity_cooldowns record)
               in if MAX_WINDOWS \<le> length kept then Inl (QE_Invalid ''capacity bound'')
                  else
                    let r2 = record\<lparr>ar_revision := revision,
                               ar_capacity_cooldowns := kept @ [\<lparr>cd_extra = extra, cd_account = account,
                                 cd_model = model, cd_observed = now, cd_expires = expires\<rparr>]\<rparr>
                    in res_bind (record_validate r2) (\<lambda>_.
                      Inr (Some \<lparr>ui_account = account, ui_expected = current,
                        ui_replacement = Some r2, ui_readiness_probe_result = None,
                        ui_login_probe_expiry = None\<rparr>)))))))))"

definition record_refusal ::
  "account_record option \<Rightarrow> account_scope \<Rightarrow> string \<Rightarrow> string option \<Rightarrow> i64 \<Rightarrow> i64 option
   \<Rightarrow> quota_error + update_intent"
where
  "record_refusal current account full_model pool now resets =
     res_bind (scope_validate account) (\<lambda>_.
       if \<not> prefix (acc_adapter account @ ''/'') full_model \<or> 512 < length full_model
          \<or> has_control full_model
          \<or> is_some_and pool (\<lambda>p. p = [] \<or> 256 < length p \<or> has_control p)
          \<or> is_some_and resets (\<lambda>r. r \<le> now)
       then Inl (QE_Invalid ''provider refusal'')
       else res_bind (ok_or (QE_Invalid ''provider refusal model'')
                       (strip_prefix (acc_adapter account @ ''/'') full_model)) (\<lambda>model.
         if is_some_and current (\<lambda>r. ar_account r \<noteq> account) then Inl QE_Conflict
         else
           let record = unwrap_or (empty_record account) current
           in res_bind (record_validate record) (\<lambda>_.
              res_bind (ok_or QE_NumberOutOfRange (u64_checked_add (ar_revision record) 1)) (\<lambda>revision.
              let extra = (case List.find (\<lambda>f. rf_model f = model \<and> rf_pool f = pool) (ar_refusals record) of
                             Some f \<Rightarrow> rf_extra f | None \<Rightarrow> []);
                  kept = filter (\<lambda>f. rf_model f \<noteq> model \<or> rf_pool f \<noteq> pool) (ar_refusals record)
              in if MAX_WINDOWS \<le> length kept then Inl (QE_Invalid ''provider refusal bound'')
                 else
                   let r2 = record\<lparr>ar_revision := revision,
                              ar_refusals := kept @ [\<lparr>rf_extra = extra, rf_account = account,
                                rf_model = model, rf_pool = pool, rf_observed = now,
                                rf_resets = resets\<rparr>]\<rparr>
                   in res_bind (record_validate r2) (\<lambda>_.
                     Inr \<lparr>ui_account = account, ui_expected = current, ui_replacement = Some r2,
                          ui_readiness_probe_result = None, ui_login_probe_expiry = None\<rparr>)))))"

subsection \<open>Blocks\<close>

definition free_pool :: "string \<Rightarrow> string option" where
  "free_pool adapter = Option.bind (get_spec adapter) ad_free_pool"

definition matches_pool :: "string \<Rightarrow> string \<Rightarrow> string \<Rightarrow> bool" where
  "matches_pool adapter window pool \<longleftrightarrow> window = pool
     \<or> is_some_and (get_spec adapter)
         (\<lambda>spec. ad_grouped_quota_pools spec \<and> window_serves_pool spec window (Some pool))"

record admission =
  adm_policies :: "quota_policy list"
  adm_now :: i64
  adm_records :: "account_record list"
  adm_pools :: "string list"

datatype account_block_kind = Mismatch | FreeTierRefusal | ScopedRefusal

fun exclusion_reason :: "account_block_kind \<Rightarrow> route_exclusion_reason" where
  "exclusion_reason Mismatch = EX_AccountMismatch"
| "exclusion_reason FreeTierRefusal = EX_FreeTierRefused"
| "exclusion_reason ScopedRefusal = EX_ProviderRefused"

definition block_repair :: "account_block_kind \<Rightarrow> string" where
  "block_repair b = snd (diagnostic_parts (exclusion_reason b))"

definition from_exclusion_reason :: "route_exclusion_reason \<Rightarrow> account_block_kind option" where
  "from_exclusion_reason reason =
     List.find (\<lambda>b. exclusion_reason b = reason) [Mismatch, FreeTierRefusal, ScopedRefusal]"

definition fresh_snapshot :: "admission \<Rightarrow> string \<Rightarrow> account_record option \<Rightarrow> quota_snapshot option" where
  "fresh_snapshot adm adapter r =
     (case Option.bind r ar_snapshot of
        None \<Rightarrow> None
      | Some s \<Rightarrow>
          if qs_observed s \<le> adm_now adm
             \<and> i64_saturating_sub (adm_now adm) (qs_observed s)
                 < u64_as_i64 (unwrap_or 0 (interval (adm_policies adm) adapter TG_Timer PW_Ac))
          then Some s else None)"

text \<open>A window of a fresh reading that proves headroom in its pool.\<close>

definition clearing_window :: "admission \<Rightarrow> quota_snapshot \<Rightarrow> quota_window \<Rightarrow> bool" where
  "clearing_window adm s w \<longleftrightarrow> qw_used w < CLEAR_HEADROOM_BASIS_POINTS
     \<and> is_none_or (qs_details s) (\<lambda>d. qd_coverage d \<noteq> Some ''partial''
          \<or> calibration_active d (qw_pool w) (adm_now adm))"

definition comparable_newer ::
  "admission \<Rightarrow> string \<Rightarrow> account_record option \<Rightarrow> refusal \<Rightarrow> bool"
where
  "comparable_newer adm adapter r refusal \<longleftrightarrow>
     is_some_and r (\<lambda>r. ar_last_error r = None)
     \<and> is_some_and (fresh_snapshot adm adapter r) (\<lambda>s.
          rf_observed refusal < qs_observed s
        \<and> qs_status s \<in> {QS_Available, QS_CreditOnly, QS_Exhausted}
        \<and> is_some_and (rf_pool refusal) (\<lambda>pool.
            let windows = filter (\<lambda>w. matches_pool adapter (qw_pool w) pool) (qs_windows s)
            in windows \<noteq> [] \<and> list_all (clearing_window adm s) windows))"

definition refusal_holds ::
  "admission \<Rightarrow> string \<Rightarrow> account_record option \<Rightarrow> refusal \<Rightarrow> quota_error + bool"
where
  "refusal_holds adm adapter r refusal =
     res_bind (refusal_expires refusal) (\<lambda>expires.
       Inr (adm_now adm < expires \<and> \<not> comparable_newer adm adapter r refusal))"

definition in_free :: "string \<Rightarrow> string option \<Rightarrow> bool" where
  "in_free adapter pool \<longleftrightarrow> free_pool adapter \<noteq> None \<and> pool = free_pool adapter"

definition refusal_in_scope ::
  "admission \<Rightarrow> string \<Rightarrow> string \<Rightarrow> string \<Rightarrow> refusal \<Rightarrow> bool"
where
  "refusal_in_scope adm adapter key model f \<longleftrightarrow>
     acc_adapter (rf_account f) = adapter \<and> acc_key (rf_account f) = key
     \<and> (rf_model f = model
        \<or> (in_free adapter (rf_pool f) \<and> list_ex (\<lambda>pool. Some pool = free_pool adapter) (adm_pools adm)))"

definition refusal_binds :: "admission \<Rightarrow> string \<Rightarrow> string \<Rightarrow> refusal \<Rightarrow> bool" where
  "refusal_binds adm adapter model f \<longleftrightarrow>
     (in_free adapter (rf_pool f) \<and> rf_model f = model)
     \<or> is_none_or (rf_pool f) (\<lambda>p. p \<in> set (adm_pools adm))"

fun scan_refusals ::
  "admission \<Rightarrow> string \<Rightarrow> string \<Rightarrow> account_record option \<Rightarrow> refusal list
   \<Rightarrow> quota_error + account_block_kind option"
where
  "scan_refusals adm adapter model r [] = Inr None"
| "scan_refusals adm adapter model r (f # fs) =
     res_bind (refusal_holds adm adapter r f) (\<lambda>holds.
       if holds \<and> refusal_binds adm adapter model f
       then Inr (Some (if in_free adapter (rf_pool f) then FreeTierRefusal else ScopedRefusal))
       else scan_refusals adm adapter model r fs)"

definition find_record :: "account_record list \<Rightarrow> string \<Rightarrow> string \<Rightarrow> account_record option" where
  "find_record records adapter key =
     List.find (\<lambda>r. acc_adapter (ar_account r) = adapter \<and> acc_key (ar_account r) = key) records"

definition account_block ::
  "admission \<Rightarrow> string \<Rightarrow> string \<Rightarrow> string \<Rightarrow> quota_error + account_block_kind option"
where
  "account_block adm adapter key model =
     (case find_record (adm_records adm) adapter key of
        None \<Rightarrow> Inr None
      | Some r \<Rightarrow>
          res_bind (record_validate r) (\<lambda>_.
            if ar_last_error r = Some PF_AccountMismatch then Inr (Some Mismatch)
            else scan_refusals adm adapter model (Some r)
                   (filter (refusal_in_scope adm adapter key model) (ar_refusals r))))"

subsection \<open>Headroom and the admission check\<close>

datatype partial_headroom_state = HeadroomKnown | HeadroomUnknown | HeadroomExhausted

definition allowance_windows_for :: "string \<Rightarrow> string \<Rightarrow> string list" where
  "allowance_windows_for adapter model =
     (case get_spec adapter of
        Some spec \<Rightarrow>
          if is_some_and (ad_allowance_prefix spec) (\<lambda>p. prefix p model)
          then ad_allowance_windows spec else []
      | None \<Rightarrow> [])"

definition window_relevant :: "string \<Rightarrow> string \<Rightarrow> string list \<Rightarrow> quota_window \<Rightarrow> bool" where
  "window_relevant adapter model pools w \<longleftrightarrow>
     list_ex (\<lambda>pool. matches_pool adapter (qw_pool w) pool) pools
     \<or> qw_pool w \<in> set (allowance_windows_for adapter model)"

definition is_partial :: "quota_snapshot \<Rightarrow> bool" where
  "is_partial s \<longleftrightarrow> is_some_and (qs_details s) (\<lambda>d. qd_coverage d = Some ''partial'')"

definition window_calibrated :: "quota_snapshot \<Rightarrow> i64 \<Rightarrow> quota_window \<Rightarrow> bool" where
  "window_calibrated s now w \<longleftrightarrow>
     is_some_and (qs_details s) (\<lambda>d. calibration_active d (qw_pool w) now)"

definition partial_headroom ::
  "quota_snapshot \<Rightarrow> string \<Rightarrow> string \<Rightarrow> string list \<Rightarrow> i64 \<Rightarrow> partial_headroom_state"
where
  "partial_headroom s adapter model pools now =
     (let relevant = filter (window_relevant adapter model pools) (qs_windows s);
          partial = is_partial s
      in if (qs_status s \<in> {QS_Available, QS_CreditOnly, QS_Exhausted}
             \<or> (qs_status s = QS_Unknown \<and> partial))
            \<and> list_ex (\<lambda>w. 10000 \<le> qw_used w
                 \<and> (partial \<or> is_none_or (qw_resets w) (\<lambda>r. now < r) \<or> window_calibrated s now w)) relevant
         then HeadroomExhausted
         else if partial \<and> list_ex (\<lambda>w. \<not> window_calibrated s now w) relevant
         then HeadroomUnknown
         else HeadroomKnown)"

definition readiness_live :: "admission \<Rightarrow> receipt_readiness \<Rightarrow> bool" where
  "readiness_live adm r = (case r of
      ReceiptReady _ _ expires \<Rightarrow> adm_now adm < expires | _ \<Rightarrow> False)"

definition check_with_partial_headroom ::
  "admission \<Rightarrow> resolved_route \<Rightarrow> bool \<Rightarrow> quota_error + unit"
where
  "check_with_partial_headroom adm route allow_unknown =
     (if \<not> readiness_live adm (ro_readiness route) then Inl (QE_Refused ''provider readiness'')
      else res_bind (ok_or (QE_Refused ''account identity unknown'') (ro_account_key route)) (\<lambda>key.
        res_bind (account_block adm (ro_adapter route) key (ro_model route)) (\<lambda>block.
        (case block of
           Some b \<Rightarrow> Inl (QE_Refused (block_repair b))
         | None \<Rightarrow>
            (case fresh_snapshot adm (ro_adapter route)
                    (find_record (adm_records adm) (ro_adapter route) key) of
               None \<Rightarrow> Inr ()
             | Some s \<Rightarrow>
                 if qs_status s = QS_AuthRequired
                 then Inl (QE_Refused ''authentication required; sign in to the selected account'')
                 else (case partial_headroom s (ro_adapter route) (ro_model route) (adm_pools adm)
                              (adm_now adm) of
                         HeadroomExhausted \<Rightarrow> Inl (QE_Refused ''allowance exhausted'')
                       | HeadroomUnknown \<Rightarrow>
                           if \<not> allow_unknown then Inl (QE_Refused ''uncalibrated partial coverage'')
                           else Inr ()
                       | HeadroomKnown \<Rightarrow> Inr ()))))))"

definition admission_check :: "admission \<Rightarrow> resolved_route \<Rightarrow> quota_error + unit" where
  "admission_check adm route = check_with_partial_headroom adm route False"

subsection \<open>Recorded evidence\<close>

interpretation refusals: keyed_upsert
  "\<lambda>f. (rf_model f, rf_pool f)" "\<lambda>_. True" push_refusal
  by unfold_locales (simp add: push_refusal_def)

interpretation cooldowns: keyed_upsert cd_model "\<lambda>c. now < cd_expires c" "push_cooldown now"
  for now :: i64
  by unfold_locales (simp add: push_cooldown_def)

definition new_refusal ::
  "account_scope \<Rightarrow> refusal list \<Rightarrow> string \<Rightarrow> string option \<Rightarrow> i64 \<Rightarrow> i64 option \<Rightarrow> refusal"
where
  "new_refusal account fs model pool now resets =
     \<lparr>rf_extra = (case List.find (\<lambda>f. rf_model f = model \<and> rf_pool f = pool) fs of
                    Some f \<Rightarrow> rf_extra f | None \<Rightarrow> []),
      rf_account = account, rf_model = model, rf_pool = pool, rf_observed = now, rf_resets = resets\<rparr>"

lemma new_refusal_simps [simp]:
  "rf_model (new_refusal account fs model pool now resets) = model"
  "rf_pool (new_refusal account fs model pool now resets) = pool"
  "rf_account (new_refusal account fs model pool now resets) = account"
  "rf_observed (new_refusal account fs model pool now resets) = now"
  "rf_resets (new_refusal account fs model pool now resets) = resets"
  by (simp_all add: new_refusal_def)

definition refused_record ::
  "account_scope \<Rightarrow> account_record \<Rightarrow> string \<Rightarrow> string option \<Rightarrow> i64 \<Rightarrow> i64 option \<Rightarrow> account_record"
where
  "refused_record account r model pool now resets =
     r\<lparr>ar_revision := ar_revision r + 1,
       ar_refusals := push_refusal (new_refusal account (ar_refusals r) model pool now resets)
                        (ar_refusals r)\<rparr>"

lemma record_refusal_ok:
  assumes "record_refusal current account full_model pool now resets = Inr ui"
  shows "\<exists>model. full_model = acc_adapter account @ ''/'' @ model
    \<and> valid_scope account \<and> \<not> has_control full_model
    \<and> is_none_or resets (\<lambda>r. now < r) \<and> is_none_or current (\<lambda>r. ar_account r = account)
    \<and> (let r = unwrap_or (empty_record account) current;
           n = refused_record account r model pool now resets
       in valid_record r \<and> valid_record n \<and> ar_revision n \<le> U64_MAX
        \<and> ui = \<lparr>ui_account = account, ui_expected = current, ui_replacement = Some n,
                ui_readiness_probe_result = None, ui_login_probe_expiry = None\<rparr>)"
proof -
  obtain model where model: "full_model = acc_adapter account @ ''/'' @ model"
    and scope: "valid_scope account" "\<not> has_control full_model"
      "\<not> is_some_and resets (\<lambda>r. r \<le> now)" "\<not> is_some_and current (\<lambda>r. ar_account r \<noteq> account)"
    and r: "valid_record (unwrap_or (empty_record account) current)"
      "valid_record (refused_record account (unwrap_or (empty_record account) current) model pool now resets)"
      "ar_revision (unwrap_or (empty_record account) current) + 1 \<le> U64_MAX"
    and ui: "ui = \<lparr>ui_account = account, ui_expected = current,
        ui_replacement = Some (refused_record account (unwrap_or (empty_record account) current) model pool now resets),
        ui_readiness_probe_result = None, ui_login_probe_expiry = None\<rparr>"
    using assms
    unfolding record_refusal_def Let_def if_Inl_eq_Inr res_bind_Inr_iff scope_validate_Inr
      record_validate_Inr ok_or_Inr_iff u64_checked_add_Some strip_prefix_Some
    by (auto simp: refused_record_def push_refusal_def new_refusal_def)
  then show ?thesis
    by (intro exI [of _ model])
      (auto simp: Let_def refused_record_def is_none_or_iff is_some_and_iff)
qed

lemma record_refusal_proposes:
  assumes "record_refusal current account full_model pool now resets = Inr ui"
  shows "\<exists>next. proposes current ui next"
proof -
  let ?r = "unwrap_or (empty_record account) current"
  obtain model where
    m: "valid_scope account" "is_none_or current (\<lambda>r. ar_account r = account)" "valid_record ?r"
      "valid_record (refused_record account ?r model pool now resets)"
      "ar_revision (refused_record account ?r model pool now resets) \<le> U64_MAX"
    and ui: "ui = \<lparr>ui_account = account, ui_expected = current,
        ui_replacement = Some (refused_record account ?r model pool now resets),
        ui_readiness_probe_result = None, ui_login_probe_expiry = None\<rparr>"
    using record_refusal_ok [OF assms] unfolding Let_def by blast
  have "ar_account ?r = account" "ar_revision ?r = revision_of current"
    using m(2) by (cases current; simp add: empty_record_def revision_of_def)+
  with m show ?thesis
    unfolding ui by (intro exI) (auto simp: proposes_def refused_record_def)
qed

interpretation refusal_recording: account_operation
  "\<lambda>current (account, model, pool, now, resets). record_refusal current account model pool now resets"
  by unfold_locales (auto intro: record_refusal_proposes)

definition cooled_record ::
  "account_scope \<Rightarrow> account_record \<Rightarrow> string \<Rightarrow> i64 \<Rightarrow> i64 \<Rightarrow> account_record"
where
  "cooled_record account r model now expires =
     r\<lparr>ar_revision := ar_revision r + 1,
       ar_capacity_cooldowns := push_cooldown now
         \<lparr>cd_extra = (case List.find (\<lambda>c. cd_model c = model) (ar_capacity_cooldowns r) of
                        Some c \<Rightarrow> cd_extra c | None \<Rightarrow> []),
          cd_account = account, cd_model = model, cd_observed = now, cd_expires = expires\<rparr>
         (ar_capacity_cooldowns r)\<rparr>"

lemma record_cooldown_ok:
  assumes "record_capacity_cooldown current account full_model now duration = Inr (Some ui)"
  shows "\<exists>model. full_model = acc_adapter account @ ''/'' @ model
    \<and> 0 < duration \<and> valid_scope account \<and> is_none_or current (\<lambda>r. ar_account r = account)
    \<and> (let r = unwrap_or (empty_record account) current;
           n = cooled_record account r model now (now + int duration)
       in valid_record r \<and> valid_record n \<and> ar_revision n \<le> U64_MAX
        \<and> ui = \<lparr>ui_account = account, ui_expected = current, ui_replacement = Some n,
                ui_readiness_probe_result = None, ui_login_probe_expiry = None\<rparr>)"
proof -
  have "0 < duration"
    using assms by (auto simp: record_capacity_cooldown_def split: if_splits)
  moreover obtain model where model: "full_model = acc_adapter account @ ''/'' @ model"
    and scope: "valid_scope account" "\<not> is_some_and current (\<lambda>r. ar_account r \<noteq> account)"
    and r: "valid_record (unwrap_or (empty_record account) current)"
      "valid_record (cooled_record account (unwrap_or (empty_record account) current) model now (now + int duration))"
      "ar_revision (unwrap_or (empty_record account) current) + 1 \<le> U64_MAX"
    and ui: "ui = \<lparr>ui_account = account, ui_expected = current,
        ui_replacement = Some (cooled_record account (unwrap_or (empty_record account) current) model now (now + int duration)),
        ui_readiness_probe_result = None, ui_login_probe_expiry = None\<rparr>"
    using assms
    unfolding record_capacity_cooldown_def Let_def if_not_P [OF gr_implies_not0 [OF \<open>0 < duration\<close>]]
      if_Inl_eq_Inr res_bind_Inr_iff scope_validate_Inr
      record_validate_Inr ok_or_Inr_iff u64_checked_add_Some strip_prefix_Some
      i64_checked_add_Some i64_try_from_Some
    by (auto simp: cooled_record_def push_cooldown_def record_validate_Inr if_Inl_eq_Inr)
  ultimately show ?thesis
    by (intro exI [of _ model])
      (auto simp: Let_def cooled_record_def is_none_or_iff is_some_and_iff)
qed

lemma record_cooldown_proposes:
  assumes "record_capacity_cooldown current account full_model now duration = Inr (Some ui)"
  shows "\<exists>next. proposes current ui next"
proof -
  let ?r = "unwrap_or (empty_record account) current"
  obtain model where
    m: "valid_scope account" "is_none_or current (\<lambda>r. ar_account r = account)" "valid_record ?r"
      "valid_record (cooled_record account ?r model now (now + int duration))"
      "ar_revision (cooled_record account ?r model now (now + int duration)) \<le> U64_MAX"
    and ui: "ui = \<lparr>ui_account = account, ui_expected = current,
        ui_replacement = Some (cooled_record account ?r model now (now + int duration)),
        ui_readiness_probe_result = None, ui_login_probe_expiry = None\<rparr>"
    using record_cooldown_ok [OF assms] unfolding Let_def by blast
  have "ar_account ?r = account" "ar_revision ?r = revision_of current"
    using m(2) by (cases current; simp add: empty_record_def revision_of_def)+
  with m show ?thesis
    unfolding ui by (intro exI) (auto simp: proposes_def cooled_record_def)
qed

text \<open>An operation that may propose nothing: the absent proposal is no intent to check.\<close>

interpretation cooldown_recording: account_operation
  "\<lambda>current (account, model, now, duration).
     res_bind (record_capacity_cooldown current account model now duration)
       (ok_or (QE_Invalid ''no cooldown''))"
  by unfold_locales (auto intro: record_cooldown_proposes)



text \<open>
  an account keeps one refusal per model and pool. Recording a refusal keeps the keys
  distinct, stores the new refusal under its key with the unknown fields of the entry it
  replaces, and leaves the refusals of every other key as they were.
\<close>

theorem refusals_stay_keyed:
  assumes "record_refusal (Some r) account (acc_adapter account @ ''/'' @ model) pool now resets = Inr ui"
    and "ui_replacement ui = Some n"
    and "distinct (map (\<lambda>f. (rf_model f, rf_pool f)) (ar_refusals r))"
  shows "distinct (map (\<lambda>f. (rf_model f, rf_pool f)) (ar_refusals n))
    \<and> List.find (\<lambda>f. (rf_model f, rf_pool f) = (model, pool)) (ar_refusals n) =
        Some \<lparr>rf_extra = (case List.find (\<lambda>f. rf_model f = model \<and> rf_pool f = pool) (ar_refusals r) of
                Some f \<Rightarrow> rf_extra f | None \<Rightarrow> []), rf_account = account, rf_model = model,
              rf_pool = pool, rf_observed = now, rf_resets = resets\<rparr>
    \<and> (\<forall>k. k \<noteq> (model, pool) \<longrightarrow>
         List.find (\<lambda>f. (rf_model f, rf_pool f) = k) (ar_refusals n) =
         List.find (\<lambda>f. (rf_model f, rf_pool f) = k) (ar_refusals r))"
proof -
  let ?f = "new_refusal account (ar_refusals r) model pool now resets"
  have n: "ar_refusals n = push_refusal ?f (ar_refusals r)"
    using record_refusal_ok [OF assms(1)] assms(2) by (auto simp: Let_def refused_record_def)
  have "List.find (\<lambda>f. (rf_model f, rf_pool f) = (model, pool)) (ar_refusals n) = Some ?f"
    using refusals.upsert_find [of ?f "ar_refusals r"] by (simp add: n)
  moreover have "List.find (\<lambda>f. (rf_model f, rf_pool f) = k) (ar_refusals n) =
      List.find (\<lambda>f. (rf_model f, rf_pool f) = k) (ar_refusals r)" if "k \<noteq> (model, pool)" for k
    unfolding n by (rule refusals.upsert_find_other) (use that in simp_all)
  moreover have "distinct (map (\<lambda>f. (rf_model f, rf_pool f)) (ar_refusals n))"
    unfolding n by (rule refusals.upsert_distinct) (fact assms(3))
  ultimately show ?thesis
    by (simp add: new_refusal_def)
qed

lemma sample_refusal:
  "record_refusal (Some (empty_record sample_account)) sample_account ''claude/opus'' None 1000 None =
   Inr \<lparr>ui_account = sample_account, ui_expected = Some (empty_record sample_account),
        ui_replacement = Some (refused_record sample_account (empty_record sample_account) ''opus'' None 1000 None),
        ui_readiness_probe_result = None, ui_login_probe_expiry = None\<rparr>"
proof -
  have "record_validate (empty_record sample_account) = Inr ()" "scope_validate sample_account = Inr ()"
    by (simp_all add: record_validate_Inr scope_validate_Inr valid_empty_record)
  moreover have "record_validate (refused_record sample_account (empty_record sample_account) ''opus'' None 1000 None)
      = Inr ()"
    by (simp add: record_validate_Inr valid_record_iff refused_record_def push_refusal_def
        new_refusal_def empty_record_def refusal_invalid_def)
  moreover have "strip_prefix ''claude/'' ''claude/opus'' = Some ''opus''"
    by (simp add: strip_prefix_def)
  ultimately show ?thesis
    by (simp add: record_refusal_def refused_record_def push_refusal_def new_refusal_def
        empty_record_def u64_checked_add_def del: strip_prefix_Some)
qed

theorem refusals_stay_keyed_witness:
  "distinct (map (\<lambda>f. (rf_model f, rf_pool f))
     (ar_refusals (refused_record sample_account (empty_record sample_account) ''opus'' None 1000 None)))"
proof -
  have "record_refusal (Some (empty_record sample_account)) sample_account
      (acc_adapter sample_account @ ''/'' @ ''opus'') None 1000 None =
    Inr \<lparr>ui_account = sample_account, ui_expected = Some (empty_record sample_account),
        ui_replacement = Some (refused_record sample_account (empty_record sample_account) ''opus'' None 1000 None),
        ui_readiness_probe_result = None, ui_login_probe_expiry = None\<rparr>"
    using sample_refusal by simp
  from refusals_stay_keyed [OF this, of "refused_record sample_account (empty_record sample_account) ''opus'' None 1000 None"]
  show ?thesis
    by (simp add: empty_record_def [of sample_account, THEN arg_cong, of ar_refusals])
qed

text \<open>
  C40: Expired refusals use up the bound. Once a valid account holds 64 refusals of other models
  or pools, recording a refusal of one more model is an error, whatever the time and even when
  every one of those entries has long expired; the account's evidence then stays as it is.
\<close>

theorem record_refusal_full:
  assumes "valid_record r" and "ar_revision r < U64_MAX" and "\<not> has_control (acc_adapter (ar_account r) @ ''/'' @ model)"
    and "length (acc_adapter (ar_account r) @ ''/'' @ model) \<le> 512"
    and "length (filter (\<lambda>f. rf_model f \<noteq> model \<or> rf_pool f \<noteq> None) (ar_refusals r)) = 64"
  shows "record_refusal (Some r) (ar_account r) (acc_adapter (ar_account r) @ ''/'' @ model) None now None =
    Inl (QE_Invalid ''provider refusal bound'')"
proof -
  have "record_validate r = Inr ()" "scope_validate (ar_account r) = Inr ()"
    using assms(1) by (simp_all add: record_validate_Inr scope_validate_Inr valid_record_iff)
  moreover have "strip_prefix (acc_adapter (ar_account r) @ ''/'')
      (acc_adapter (ar_account r) @ ''/'' @ model) = Some model"
    by simp
  moreover have "prefix (acc_adapter (ar_account r) @ ''/'') (acc_adapter (ar_account r) @ ''/'' @ model)"
    by simp
  ultimately show ?thesis
    using assms(2-5) by (simp add: record_refusal_def Let_def u64_checked_add_def del: strip_prefix_Some)
qed

definition full_account :: account_record where
  "full_account = (empty_record sample_account)\<lparr>ar_refusals := map (\<lambda>i. \<lparr>rf_extra = [], rf_account = sample_account,
     rf_model = replicate (Suc i) CHR ''a'', rf_pool = None, rf_observed = 0, rf_resets = Some 1\<rparr>) [0..<64]\<rparr>"

theorem record_refusal_full_witness:
  "record_refusal (Some full_account) sample_account ''claude/opus'' None 1000000 None = Inl (QE_Invalid ''provider refusal bound'')"
proof -
  have account: "ar_account full_account = sample_account" by (simp add: full_account_def empty_record_def)
  have "valid_record full_account"
    by (auto simp: full_account_def valid_record_iff empty_record_def list_ex_iff list_all_iff refusal_invalid_def)
  moreover have "filter (\<lambda>f. rf_model f \<noteq> ''opus'' \<or> rf_pool f \<noteq> None) (ar_refusals full_account) = ar_refusals full_account"
    by (rule filter_True) (auto simp: full_account_def)
  moreover have "length (ar_refusals full_account) = 64" "ar_revision full_account < U64_MAX"
    by (simp_all add: full_account_def empty_record_def)
  ultimately show ?thesis
    using record_refusal_full [of full_account "''opus''" 1000000] by (simp add: account)
qed

text \<open>
  recording a capacity cooldown prunes. The account then has exactly the cooldowns of other
  models that still run, and the new one, which ends after its duration.
\<close>

theorem cooldowns_are_pruned:
  assumes "record_capacity_cooldown (Some r) account (acc_adapter account @ ''/'' @ model) now duration =
      Inr (Some ui)" and "ui_replacement ui = Some n"
  shows "\<exists>c. cd_model c = model \<and> cd_account c = account \<and> cd_observed c = now
    \<and> cd_expires c = now + int duration \<and> now < cd_expires c
    \<and> set (ar_capacity_cooldowns n) =
        insert c {x \<in> set (ar_capacity_cooldowns r). cd_model x \<noteq> model \<and> now < cd_expires x}
    \<and> (\<forall>x \<in> set (ar_capacity_cooldowns n). now < cd_expires x)
    \<and> length (ar_capacity_cooldowns n) \<le> MAX_WINDOWS"
proof -
  define c where "c = \<lparr>cd_extra = (case List.find (\<lambda>c. cd_model c = model) (ar_capacity_cooldowns r) of
          Some c \<Rightarrow> cd_extra c | None \<Rightarrow> []),
      cd_account = account, cd_model = model, cd_observed = now, cd_expires = now + int duration\<rparr>"
  have n: "ar_capacity_cooldowns n = push_cooldown now c (ar_capacity_cooldowns r)" "valid_record n"
    and d: "0 < duration"
    using record_cooldown_ok [OF assms(1)] assms(2)
    by (auto simp: Let_def cooled_record_def c_def)
  have "set (ar_capacity_cooldowns n) =
      insert c {x \<in> set (ar_capacity_cooldowns r). cd_model x \<noteq> cd_model c \<and> now < cd_expires x}"
    unfolding n(1) by (rule cooldowns.upsert_set)
  moreover have "length (ar_capacity_cooldowns n) \<le> MAX_WINDOWS"
    using n(2) by (simp add: valid_record_iff)
  ultimately show ?thesis
    using d by (intro exI [of _ c]) (auto simp: c_def)
qed

lemma sample_cooldown:
  "record_capacity_cooldown (Some (empty_record sample_account)) sample_account ''claude/opus'' 1000 60 =
   Inr (Some \<lparr>ui_account = sample_account, ui_expected = Some (empty_record sample_account),
        ui_replacement = Some (cooled_record sample_account (empty_record sample_account) ''opus'' 1000 1060),
        ui_readiness_probe_result = None, ui_login_probe_expiry = None\<rparr>)"
proof -
  have "record_validate (empty_record sample_account) = Inr ()" "scope_validate sample_account = Inr ()"
    by (simp_all add: record_validate_Inr scope_validate_Inr valid_empty_record)
  moreover have "record_validate (cooled_record sample_account (empty_record sample_account) ''opus'' 1000 1060)
      = Inr ()"
    by (simp add: record_validate_Inr valid_record_iff cooled_record_def push_cooldown_def
        empty_record_def cooldown_invalid_def c1_continuation_def)
  moreover have "strip_prefix ''claude/'' ''claude/opus'' = Some ''opus''"
    by (simp add: strip_prefix_def)
  ultimately show ?thesis
    by (simp add: record_capacity_cooldown_def cooled_record_def push_cooldown_def empty_record_def
        u64_checked_add_def i64_try_from_def i64_checked_add_def is_i64_def c1_continuation_def
        del: strip_prefix_Some)
qed

theorem cooldowns_are_pruned_witness:
  "\<exists>c \<in> set (ar_capacity_cooldowns
      (cooled_record sample_account (empty_record sample_account) ''opus'' 1000 1060)).
     cd_model c = ''opus'' \<and> cd_expires c = 1060"
proof -
  have "record_capacity_cooldown (Some (empty_record sample_account)) sample_account
      (acc_adapter sample_account @ ''/'' @ ''opus'') 1000 60 =
    Inr (Some \<lparr>ui_account = sample_account, ui_expected = Some (empty_record sample_account),
        ui_replacement = Some (cooled_record sample_account (empty_record sample_account) ''opus'' 1000 1060),
        ui_readiness_probe_result = None, ui_login_probe_expiry = None\<rparr>)"
    using sample_cooldown by simp
  from cooldowns_are_pruned [OF this, of "cooled_record sample_account (empty_record sample_account) ''opus'' 1000 1060"]
  show ?thesis by (auto intro!: bexI)
qed

subsection \<open>Blocks\<close>

lemma scan_refusals_None:
  "scan_refusals adm adapter model r fs = Inr None \<longleftrightarrow>
   (\<forall>f \<in> set fs. \<exists>h. refusal_holds adm adapter r f = Inr h \<and> \<not> (h \<and> refusal_binds adm adapter model f))"
proof (induction fs)
  case (Cons f fs)
  then show ?case
    by (cases "refusal_holds adm adapter r f") auto
qed simp

lemma find_record_scope:
  "find_record rs adapter key = Some r \<Longrightarrow>
   acc_adapter (ar_account r) = adapter \<and> acc_key (ar_account r) = key"
  by (auto simp: find_record_def dest: find_Some_in)

lemma valid_refusal_account:
  "valid_record r \<Longrightarrow> f \<in> set (ar_refusals r) \<Longrightarrow> rf_account f = ar_account r"
  by (auto simp: valid_record_iff list_all_iff refusal_invalid_def)

lemma account_block_None:
  "account_block adm adapter key model = Inr None \<longleftrightarrow>
   (\<forall>r. find_record (adm_records adm) adapter key = Some r \<longrightarrow>
      valid_record r \<and> ar_last_error r \<noteq> Some PF_AccountMismatch
      \<and> (\<forall>f \<in> set (ar_refusals r). refusal_in_scope adm adapter key model f \<longrightarrow>
           (\<exists>h. refusal_holds adm adapter (Some r) f = Inr h
              \<and> \<not> (h \<and> refusal_binds adm adapter model f))))"
  by (cases "find_record (adm_records adm) adapter key")
    (auto simp: account_block_def record_validate_Inr scan_refusals_None)

lemma admission_check_ok:
  "check_with_partial_headroom adm route allow = Inr () \<longleftrightarrow>
   readiness_live adm (ro_readiness route)
   \<and> (\<exists>key. ro_account_key route = Some key
      \<and> account_block adm (ro_adapter route) key (ro_model route) = Inr None
      \<and> (\<forall>s. fresh_snapshot adm (ro_adapter route)
             (find_record (adm_records adm) (ro_adapter route) key) = Some s \<longrightarrow>
           qs_status s \<noteq> QS_AuthRequired
           \<and> (let h = partial_headroom s (ro_adapter route) (ro_model route) (adm_pools adm) (adm_now adm)
              in h = HeadroomKnown \<or> (allow \<and> h = HeadroomUnknown))))"
  by (cases "ro_account_key route")
    (auto simp: check_with_partial_headroom_def Let_def
      split: option.splits partial_headroom_state.splits if_splits)

lemma stored_refusal_blocks:
  assumes "record_refusal cur account (acc_adapter account @ ''/'' @ model) pool now resets = Inr ui"
    and "ui_replacement ui = Some n"
    and "find_record (adm_records adm) (acc_adapter account) (acc_key account) = Some n"
    and "is_none_or pool (\<lambda>p. p \<in> set (adm_pools adm))"
    and "adm_now adm < (case resets of Some t \<Rightarrow> t | None \<Rightarrow> now + 3600)"
    and "is_none_or (ar_snapshot n) (\<lambda>s. qs_observed s \<le> now)"
    and "ro_adapter route = acc_adapter account" and "ro_account_key route = Some (acc_key account)"
    and "ro_model route = model"
  shows "account_block adm (acc_adapter account) (acc_key account) model \<noteq> Inr None
    \<and> \<not> is_ok (check_with_partial_headroom adm route allow)"
proof -
  let ?r = "unwrap_or (empty_record account) cur"
  let ?f = "new_refusal account (ar_refusals ?r) model pool now resets"
  have n: "ar_refusals n = push_refusal ?f (ar_refusals ?r)"
    using record_refusal_ok [OF assms(1)] assms(2) by (auto simp: Let_def refused_record_def)
  then have f: "?f \<in> set (ar_refusals n)"
    by (simp add: refusals.upsert_member)
  have older: "\<not> comparable_newer adm (acc_adapter account) (Some n) ?f"
    using assms(6) by (auto simp: comparable_newer_def is_some_and_iff fresh_snapshot_def
        split: option.splits if_splits)
  have "refusal_holds adm (acc_adapter account) (Some n) ?f \<noteq> Inr False"
    using assms(5) older by (cases resets) (auto simp: refusal_holds_def refusal_expires_def)
  moreover have "refusal_in_scope adm (acc_adapter account) (acc_key account) model ?f"
    by (simp add: refusal_in_scope_def)
  moreover have "refusal_binds adm (acc_adapter account) model ?f"
    using assms(4) by (simp add: refusal_binds_def)
  ultimately have block: "account_block adm (acc_adapter account) (acc_key account) model \<noteq> Inr None"
    unfolding account_block_None using assms(3) f by (metis (full_types))
  then show ?thesis
    using assms(7-9) by (auto simp: is_ok_iff admission_check_ok)
qed


definition sample_route :: resolved_route where
  "sample_route = \<lparr>ro_extra = [], ro_adapter = ''claude'', ro_model = ''opus'', ro_effort = None,
     ro_catalogue_revision = ''r1'', ro_account_key = Some ''work'', ro_host = ''local'',
     ro_alternatives = [], ro_exclusions = [], ro_eligibility = Eligible,
     ro_readiness = ReceiptReady [] ''quota'' 5000,
     ro_confidentiality = \<lparr>cf_extra = [], cf_evidence_ref = ''policy''\<rparr>, ro_pool_selection = None\<rparr>"

definition sample_admission :: "account_record \<Rightarrow> admission" where
  "sample_admission r = \<lparr>adm_policies = [sample_policy], adm_now = 1001, adm_records = [r], adm_pools = []\<rparr>"




text \<open>
  opting in to partial headroom relaxes nothing else. A route the plain check accepts is
  accepted, and a route only the opt-in accepts is refused by the plain check for exactly one
  reason, the uncalibrated partial coverage.
\<close>

theorem partial_opt_in_is_narrow:
  "(if is_ok (check_with_partial_headroom adm route True)
    then admission_check adm route \<in> {Inr (), Inl (QE_Refused ''uncalibrated partial coverage'')}
    else \<not> is_ok (admission_check adm route))"
  by (auto simp: admission_check_def check_with_partial_headroom_def is_ok_iff res_bind_def
      split: option.splits sum.splits partial_headroom_state.splits if_splits)

end
