(* ===== verification/Quota_Readiness.thy ===== *)
theory Quota_Readiness
  imports Quota_Admission
begin

section \<open>Readiness of routes (crate quota)\<close>

text \<open>
  \<open>quota/src/readiness.rs\<close>: the readiness file of an account, what a reader learns from it
  for one route, and how provider refusals and probe results are published into it. Whether
  \<open>jiff::Timestamp::from_second\<close> accepts a time is the argument \<open>in_range\<close>.
\<close>

subsection \<open>Data\<close>

record readiness_scope =
  rs_host :: string
  rs_adapter :: string
  rs_account_key :: string
  rs_route :: string

datatype readiness_state = Ready | Unavailable | Unknown

record route_readiness =
  rr_schema_version :: nat
  rr_scope :: readiness_scope
  rr_state :: readiness_state
  rr_reason :: "readiness_reason option"
  rr_observed :: i64
  rr_expires :: i64
  rr_reset :: "i64 option"
  rr_evidence_ref :: "string option"

abbreviation LOCAL_HOST :: string where "LOCAL_HOST \<equiv> ''local''"
abbreviation ACCOUNT_ROUTE :: string where "ACCOUNT_ROUTE \<equiv> ''*''"
abbreviation MAX_READINESS_RECORDS :: nat where "MAX_READINESS_RECORDS \<equiv> MAX_WINDOWS"
abbreviation SCHEMA_VERSION :: nat where "SCHEMA_VERSION \<equiv> 1"
abbreviation QUOTA_PROBE :: string where "QUOTA_PROBE \<equiv> ''quota-probe''"

record login_expiry_observation =
  lo_scope :: readiness_scope
  lo_observed :: i64
  lo_valid_until :: i64
  lo_expires :: "i64 option"

datatype login_expiry_state = LoginUnknown | LoginFresh | LoginExpiring | LoginExpired

definition login_state ::
  "(i64 \<Rightarrow> bool) \<Rightarrow> login_expiry_observation \<Rightarrow> i64 \<Rightarrow> u64 \<Rightarrow> login_expiry_state"
where
  "login_state in_range lo now warning_seconds =
     (if now < lo_observed lo \<or> lo_valid_until lo \<le> lo_observed lo \<or> lo_valid_until lo \<le> now
      then LoginUnknown
      else (case lo_expires lo of
              None \<Rightarrow> LoginUnknown
            | Some expiry \<Rightarrow>
                if \<not> in_range expiry then LoginUnknown
                else if expiry \<le> now then LoginExpired
                else if 0 < warning_seconds
                        \<and> i64_saturating_sub expiry now \<le> unwrap_or I64_MAX (i64_try_from warning_seconds)
                then LoginExpiring
                else LoginFresh))"

record readiness_read =
  rx_observed_scope :: "readiness_scope option"
  rx_state :: readiness_state
  rx_reason :: "readiness_reason option"
  rx_observed :: "i64 option"
  rx_expires :: "i64 option"
  rx_reset :: "i64 option"
  rx_evidence_ref :: "string option"

definition read_unknown :: "readiness_reason \<Rightarrow> readiness_read" where
  "read_unknown reason = \<lparr>rx_observed_scope = None, rx_state = Unknown, rx_reason = Some reason,
     rx_observed = None, rx_expires = None, rx_reset = None, rx_evidence_ref = None\<rparr>"

definition read_absent :: readiness_read where
  "read_absent = read_unknown RR_NotProbed"

definition excluded_for :: "readiness_reason option \<Rightarrow> route_exclusion_reason" where
  "excluded_for reason = (case reason of
      Some RR_MissingExecutable \<Rightarrow> EX_MissingExecutable
    | Some RR_SignedOut \<Rightarrow> EX_AuthRequired
    | Some RR_LoginExpired \<Rightarrow> EX_LoginExpired
    | Some RR_AccountMismatch \<Rightarrow> EX_AccountMismatch
    | Some RR_Exhausted \<Rightarrow> EX_ProviderRefused
    | Some RR_ProviderRefusal \<Rightarrow> EX_ProviderRefused
    | _ \<Rightarrow> EX_UnknownAvailability)"

definition project :: "readiness_read \<Rightarrow> receipt_readiness" where
  "project rx = (case rx_state rx of
      Ready \<Rightarrow>
        (case (rx_evidence_ref rx, rx_expires rx) of
           (Some availability_ref, Some expires) \<Rightarrow> ReceiptReady [] availability_ref expires
         | _ \<Rightarrow> receipt_unknown)
    | Unavailable \<Rightarrow> ReceiptUnavailable [] (excluded_for (rx_reason rx))
    | Unknown \<Rightarrow> if rx_reason rx = Some RR_Stale then receipt_stale else receipt_unknown)"

record readiness_file =
  fi_schema_version :: nat
  fi_records :: "route_readiness list"
  fi_login :: "login_expiry_observation option"

definition readiness_default :: readiness_file where
  "readiness_default = \<lparr>fi_schema_version = SCHEMA_VERSION, fi_records = [], fi_login = None\<rparr>"

subsection \<open>Validation and reading\<close>

definition login_scope_invalid :: "string \<Rightarrow> string \<Rightarrow> login_expiry_observation \<Rightarrow> bool" where
  "login_scope_invalid adapter key lo \<longleftrightarrow>
     rs_adapter (lo_scope lo) \<noteq> adapter \<or> rs_account_key (lo_scope lo) \<noteq> key
     \<or> rs_host (lo_scope lo) = [] \<or> 128 < length (rs_host (lo_scope lo))
     \<or> rs_route (lo_scope lo) \<noteq> ACCOUNT_ROUTE"

text \<open>The scan over the records; \<open>seen\<close> holds the scopes already met.\<close>

fun records_invalid :: "string \<Rightarrow> string \<Rightarrow> readiness_scope list \<Rightarrow> route_readiness list \<Rightarrow> bool" where
  "records_invalid adapter key seen [] = False"
| "records_invalid adapter key seen (r # rs) =
     (rs_adapter (rr_scope r) \<noteq> adapter \<or> rs_account_key (rr_scope r) \<noteq> key
      \<or> rs_host (rr_scope r) = [] \<or> 128 < length (rs_host (rr_scope r))
      \<or> rs_route (rr_scope r) = [] \<or> 512 < length (rs_route (rr_scope r))
      \<or> has_control (rs_route (rr_scope r)) \<or> rr_scope r \<in> set seen
      \<or> records_invalid adapter key (rr_scope r # seen) rs)"

definition file_validate :: "readiness_file \<Rightarrow> string \<Rightarrow> string \<Rightarrow> quota_error + unit" where
  "file_validate f adapter key =
     (if fi_schema_version f \<noteq> SCHEMA_VERSION \<or> MAX_READINESS_RECORDS < length (fi_records f)
         \<or> is_some_and (fi_login f) (login_scope_invalid adapter key)
         \<or> records_invalid adapter key [] (fi_records f)
      then Inl (QE_Invalid ''readiness bounds'') else Inr ())"

text \<open>The closure \<open>read\<close> of \<open>ReadinessFile::get\<close>.\<close>

definition read_scope :: "readiness_file \<Rightarrow> i64 \<Rightarrow> readiness_scope \<Rightarrow> readiness_read" where
  "read_scope f now scope =
     (case List.find (\<lambda>r. rr_scope r = scope) (fi_records f) of
        None \<Rightarrow> read_absent
      | Some r \<Rightarrow>
          if fi_schema_version f \<noteq> SCHEMA_VERSION \<or> rr_schema_version r \<noteq> SCHEMA_VERSION
             \<or> now < rr_observed r \<or> rr_expires r \<le> rr_observed r
             \<or> is_some_and (rr_evidence_ref r) (\<lambda>e. \<not> reference e)
          then read_unknown RR_InvalidEvidence
          else if rr_expires r \<le> now
          then (read_unknown RR_Stale)\<lparr>rx_observed_scope := Some (rr_scope r),
                 rx_observed := Some (rr_observed r), rx_expires := Some (rr_expires r),
                 rx_evidence_ref := rr_evidence_ref r\<rparr>
          else if rr_state r = Unknown
          then (read_unknown (unwrap_or RR_NotProbed (rr_reason r)))\<lparr>
                 rx_observed_scope := Some (rr_scope r),
                 rx_observed := Some (rr_observed r), rx_expires := Some (rr_expires r),
                 rx_evidence_ref := rr_evidence_ref r\<rparr>
          else \<lparr>rx_observed_scope = Some (rr_scope r), rx_state = rr_state r,
                 rx_reason = rr_reason r, rx_observed = Some (rr_observed r),
                 rx_expires = Some (rr_expires r), rx_reset = rr_reset r,
                 rx_evidence_ref = rr_evidence_ref r\<rparr>)"

definition account_scope_of :: "readiness_scope \<Rightarrow> readiness_scope" where
  "account_scope_of scope = scope\<lparr>rs_route := ACCOUNT_ROUTE\<rparr>"

text \<open>An account-wide observation that covers every route of the account.\<close>

definition covers_account :: "readiness_read \<Rightarrow> bool" where
  "covers_account rx \<longleftrightarrow> rx_state rx = Unavailable
     \<or> (rx_observed_scope rx \<noteq> None
        \<and> rx_reason rx \<in> {Some RR_SignedOut, Some RR_LoginExpired, Some RR_AccountMismatch})"

definition login_expired ::
  "(i64 \<Rightarrow> bool) \<Rightarrow> readiness_scope \<Rightarrow> i64 \<Rightarrow> login_expiry_observation \<Rightarrow> bool"
where
  "login_expired in_range scope now lo \<longleftrightarrow>
     rs_host (lo_scope lo) = rs_host scope \<and> rs_adapter (lo_scope lo) = rs_adapter scope
     \<and> rs_account_key (lo_scope lo) = rs_account_key scope
     \<and> login_state in_range lo now 0 = LoginExpired"

definition login_expired_read :: "login_expiry_observation \<Rightarrow> readiness_read" where
  "login_expired_read lo = \<lparr>rx_observed_scope = Some (lo_scope lo), rx_state = Unavailable,
     rx_reason = Some RR_LoginExpired, rx_observed = Some (lo_observed lo),
     rx_expires = Some (lo_valid_until lo), rx_reset = None,
     rx_evidence_ref = Some ''login-expiry''\<rparr>"

definition readiness_get ::
  "(i64 \<Rightarrow> bool) \<Rightarrow> readiness_file \<Rightarrow> readiness_scope \<Rightarrow> i64 \<Rightarrow> readiness_read"
where
  "readiness_get in_range f scope now =
     (let account = read_scope f now (account_scope_of scope);
          scoped = read_scope f now scope
      in if rs_route scope \<noteq> ACCOUNT_ROUTE \<and> covers_account account then account
         else if rx_state scoped = Unavailable then scoped
         else (case fi_login f of
                 Some lo \<Rightarrow> if login_expired in_range scope now lo then login_expired_read lo else scoped
               | None \<Rightarrow> scoped))"

subsection \<open>Publication\<close>

definition check_bound :: "readiness_file \<Rightarrow> quota_error + readiness_file" where
  "check_bound f =
     (if MAX_READINESS_RECORDS < length (fi_records f) then Inl (QE_Invalid ''readiness bounds'')
      else Inr f)"

definition readiness_account_scope :: "string \<Rightarrow> account_record \<Rightarrow> readiness_scope" where
  "readiness_account_scope host account = \<lparr>rs_host = host, rs_adapter = acc_adapter (ar_account account),
     rs_account_key = acc_key (ar_account account), rs_route = ACCOUNT_ROUTE\<rparr>"

definition refusal_scope :: "string \<Rightarrow> account_record \<Rightarrow> refusal \<Rightarrow> readiness_scope" where
  "refusal_scope host account f = \<lparr>rs_host = host, rs_adapter = acc_adapter (ar_account account),
     rs_account_key = acc_key (ar_account account),
     rs_route = unwrap_or (acc_adapter (ar_account account) @ ''/'' @ rf_model f) (rf_pool f)\<rparr>"

text \<open>\<open>Option::max\<close>, where \<open>None\<close> is least.\<close>

fun option_max :: "i64 option \<Rightarrow> i64 option \<Rightarrow> i64 option" where
  "option_max None y = y"
| "option_max (Some x) None = Some x"
| "option_max (Some x) (Some y) = Some (max x y)"

definition merge_refusal :: "refusal \<Rightarrow> i64 \<Rightarrow> route_readiness \<Rightarrow> route_readiness" where
  "merge_refusal f expires held = held\<lparr>rr_observed := max (rr_observed held) (rf_observed f),
     rr_expires := max (rr_expires held) expires, rr_reset := option_max (rr_reset held) (rf_resets f)\<rparr>"

definition refusal_readiness :: "readiness_scope \<Rightarrow> refusal \<Rightarrow> i64 \<Rightarrow> route_readiness" where
  "refusal_readiness scope f expires = \<lparr>rr_schema_version = SCHEMA_VERSION, rr_scope = scope,
     rr_state = Unavailable, rr_reason = Some RR_ProviderRefusal, rr_observed = rf_observed f,
     rr_expires = expires, rr_reset = rf_resets f, rr_evidence_ref = Some ''provider-refusal''\<rparr>"

fun publish_refusals ::
  "admission \<Rightarrow> account_record \<Rightarrow> string \<Rightarrow> route_readiness list \<Rightarrow> refusal list
   \<Rightarrow> quota_error + route_readiness list"
where
  "publish_refusals adm account host published [] = Inr published"
| "publish_refusals adm account host published (f # fs) =
     res_bind (refusal_holds adm (acc_adapter (ar_account account)) (Some account) f) (\<lambda>holds.
       if \<not> holds then publish_refusals adm account host published fs
       else res_bind (refusal_expires f) (\<lambda>expires.
         let scope = refusal_scope host account f
         in if list_ex (\<lambda>r. rr_scope r = scope) published
            then publish_refusals adm account host
                   (update_first (\<lambda>r. rr_scope r = scope) (merge_refusal f expires) published) fs
            else publish_refusals adm account host
                   (published @ [refusal_readiness scope f expires]) fs))"

definition is_refusal_of :: "string \<Rightarrow> route_readiness \<Rightarrow> bool" where
  "is_refusal_of host r \<longleftrightarrow> rs_host (rr_scope r) = host \<and> rr_state r = Unavailable
     \<and> rr_reason r = Some RR_ProviderRefusal"

definition retain_unrefused :: "readiness_file \<Rightarrow> string \<Rightarrow> i64 \<Rightarrow> readiness_file" where
  "retain_unrefused f host now =
     f\<lparr>fi_records := filter (\<lambda>r. now < rr_expires r \<and> \<not> is_refusal_of host r) (fi_records f)\<rparr>"

text \<open>An account-wide probe failure in force, which supersedes the per-route facts.\<close>

definition superseded ::
  "(i64 \<Rightarrow> bool) \<Rightarrow> readiness_file \<Rightarrow> account_record \<Rightarrow> string \<Rightarrow> i64 \<Rightarrow> bool"
where
  "superseded in_range f account host now =
     (let account_read = readiness_get in_range f (readiness_account_scope host account) now
      in rx_state account_read = Unavailable \<and> rx_evidence_ref account_read = Some QUOTA_PROBE)"

definition sync_refusals ::
  "(i64 \<Rightarrow> bool) \<Rightarrow> readiness_file \<Rightarrow> account_record \<Rightarrow> string \<Rightarrow> admission \<Rightarrow> quota_error + readiness_file"
where
  "sync_refusals in_range f account host adm =
     (let now = adm_now adm;
          f1 = retain_unrefused f host now
      in if superseded in_range f1 account host now then check_bound f1
         else res_bind (publish_refusals adm account host [] (ar_refusals account)) (\<lambda>published.
           check_bound (f1\<lparr>fi_records :=
             filter (\<lambda>r. \<not> list_ex (\<lambda>new. rr_scope new = rr_scope r) published) (fi_records f1)
             @ published\<rparr>)))"

definition sync_probe_result ::
  "readiness_file \<Rightarrow> account_record \<Rightarrow> string \<Rightarrow> i64 \<Rightarrow> u64 \<Rightarrow> readiness_reason option
   \<Rightarrow> quota_error + readiness_file"
where
  "sync_probe_result f account host now interval_seconds reason =
     (let kept = filter (\<lambda>r. now < rr_expires r
            \<and> \<not> (rs_host (rr_scope r) = host
                 \<and> rs_adapter (rr_scope r) = acc_adapter (ar_account account)
                 \<and> rs_account_key (rr_scope r) = acc_key (ar_account account)
                 \<and> (reason \<noteq> None
                    \<or> (rs_route (rr_scope r) = ACCOUNT_ROUTE
                       \<and> rr_evidence_ref r = Some QUOTA_PROBE)))) (fi_records f)
      in check_bound (f\<lparr>fi_records := (case reason of
            None \<Rightarrow> kept
          | Some rsn \<Rightarrow>
              let interval = unwrap_or I64_MAX (i64_try_from interval_seconds);
                  expires = i64_saturating_add now (max interval 1)
              in kept @ [\<lparr>rr_schema_version = SCHEMA_VERSION,
                   rr_scope = readiness_account_scope host account, rr_state = Unavailable,
                   rr_reason = Some rsn, rr_observed = now, rr_expires = expires,
                   rr_reset = None, rr_evidence_ref = Some QUOTA_PROBE\<rparr>])\<rparr>))"

subsection \<open>When a file is valid, and what a read rests on\<close>

definition valid_readiness_scope :: "string \<Rightarrow> string \<Rightarrow> readiness_scope \<Rightarrow> bool" where
  "valid_readiness_scope adapter key s \<longleftrightarrow> rs_adapter s = adapter \<and> rs_account_key s = key
     \<and> rs_host s \<noteq> [] \<and> length (rs_host s) \<le> 128 \<and> rs_route s \<noteq> [] \<and> length (rs_route s) \<le> 512
     \<and> \<not> has_control (rs_route s)"

lemma records_invalid_iff:
  "records_invalid adapter key seen rs \<longleftrightarrow>
   \<not> (list_all (\<lambda>r. valid_readiness_scope adapter key (rr_scope r)) rs
      \<and> distinct (map rr_scope rs) \<and> set seen \<inter> set (map rr_scope rs) = {})"
proof (induction rs arbitrary: seen)
  case (Cons r rs)
  show ?case
    unfolding records_invalid.simps Cons.IH by (auto simp: valid_readiness_scope_def)
qed simp

lemma file_validate_ok [ok_iff]:
  "file_validate f adapter key = Inr u \<longleftrightarrow>
     fi_schema_version f = SCHEMA_VERSION \<and> length (fi_records f) \<le> MAX_READINESS_RECORDS
   \<and> is_none_or (fi_login f) (\<lambda>lo. \<not> login_scope_invalid adapter key lo)
   \<and> list_all (\<lambda>r. valid_readiness_scope adapter key (rr_scope r)) (fi_records f)
   \<and> distinct (map rr_scope (fi_records f))"
  by (cases "fi_login f") (auto simp: file_validate_def records_invalid_iff)

lemma check_bound_ok [ok_iff]:
  "check_bound f = Inr g \<longleftrightarrow> g = f \<and> length (fi_records f) \<le> MAX_READINESS_RECORDS"
  by (auto simp: check_bound_def)

text \<open>A record a reader may rely on at \<open>now\<close>.\<close>

definition in_force :: "readiness_file \<Rightarrow> i64 \<Rightarrow> route_readiness \<Rightarrow> bool" where
  "in_force f now r \<longleftrightarrow> fi_schema_version f = SCHEMA_VERSION \<and> rr_schema_version r = SCHEMA_VERSION
     \<and> rr_observed r \<le> now \<and> now < rr_expires r \<and> is_none_or (rr_evidence_ref r) reference"

definition record_read :: "route_readiness \<Rightarrow> readiness_read" where
  "record_read r = \<lparr>rx_observed_scope = Some (rr_scope r), rx_state = rr_state r,
     rx_reason = rr_reason r, rx_observed = Some (rr_observed r), rx_expires = Some (rr_expires r),
     rx_reset = rr_reset r, rx_evidence_ref = rr_evidence_ref r\<rparr>"

lemma record_read_simps [simp]:
  "rx_state (record_read r) = rr_state r" "rx_evidence_ref (record_read r) = rr_evidence_ref r"
  "rx_expires (record_read r) = Some (rr_expires r)" "rx_reason (record_read r) = rr_reason r"
  "rx_observed_scope (record_read r) = Some (rr_scope r)"
  by (simp_all add: record_read_def)

lemma read_scope_in_force:
  "List.find (\<lambda>r. rr_scope r = scope) (fi_records f) = Some r \<Longrightarrow> in_force f now r \<Longrightarrow>
   rr_state r \<noteq> Unknown \<Longrightarrow> read_scope f now scope = record_read r"
  by (cases "rr_evidence_ref r") (simp_all add: read_scope_def in_force_def record_read_def)

lemma read_scope_verdict:
  assumes "rx_state (read_scope f now scope) \<noteq> Unknown"
  obtains r where "List.find (\<lambda>r. rr_scope r = scope) (fi_records f) = Some r" "in_force f now r"
    "rr_scope r = scope" "read_scope f now scope = record_read r"
  using assms
  by (cases "List.find (\<lambda>r. rr_scope r = scope) (fi_records f)")
    (auto simp: read_scope_def read_absent_def read_unknown_def in_force_def is_some_and_iff
      is_none_or_iff record_read_def dest: find_Some_in split: if_splits)

lemma find_scope:
  "distinct (map rr_scope rs) \<Longrightarrow> r \<in> set rs \<Longrightarrow> List.find (\<lambda>x. rr_scope x = rr_scope r) rs = Some r"
  by (induction rs) auto

lemma read_scope_unavailable:
  assumes "distinct (map rr_scope (fi_records f))" "r \<in> set (fi_records f)" "in_force f now r"
    and "rr_state r = Unavailable"
  shows "read_scope f now (rr_scope r) = record_read r"
  using find_scope [OF assms(1,2)] assms(3,4) by (simp add: read_scope_in_force)

text \<open>A ready record gives no reason for being signed out; the operations below write none that does.\<close>

definition coherent :: "route_readiness \<Rightarrow> bool" where
  "coherent r \<longleftrightarrow> rr_state r = Ready \<longrightarrow> rr_reason r = None"

lemma get_ready:
  assumes "rx_state (readiness_get in_range f scope now) = Ready"
    and "list_all coherent (fi_records f)"
  shows "readiness_get in_range f scope now = read_scope f now scope"
    and "rx_state (read_scope f now (account_scope_of scope)) \<noteq> Unavailable"
    and "is_none_or (fi_login f) (\<lambda>lo. \<not> login_expired in_range scope now lo)"
proof -
  let ?rx = "readiness_get in_range f scope now"
  let ?account = "read_scope f now (account_scope_of scope)"
  have open_account: "\<not> covers_account ?account" if "rs_route scope \<noteq> ACCOUNT_ROUTE"
  proof
    assume covered: "covers_account ?account"
    with that have "?rx = ?account" by (simp add: readiness_get_def Let_def)
    with assms(1) have ready: "rx_state ?account = Ready" by simp
    then obtain r where r: "List.find (\<lambda>r. rr_scope r = account_scope_of scope) (fi_records f) = Some r"
      and read: "?account = record_read r"
      using read_scope_verdict [of f now "account_scope_of scope"] by (metis readiness_state.distinct(3))
    then have "coherent r"
      using assms(2) by (auto simp: list_all_iff dest: find_Some_in)
    with ready covered read show False by (simp add: coherent_def covers_account_def)
  qed
  show scoped: "?rx = read_scope f now scope"
    and "is_none_or (fi_login f) (\<lambda>lo. \<not> login_expired in_range scope now lo)"
    using assms(1) open_account
    by (cases "fi_login f"; auto simp: readiness_get_def Let_def login_expired_read_def split: if_splits)+
  show "rx_state ?account \<noteq> Unavailable"
  proof (cases "rs_route scope = ACCOUNT_ROUTE")
    case True
    then have "account_scope_of scope = scope" by (simp add: account_scope_of_def)
    with scoped assms(1) show ?thesis by simp
  next
    case False
    with open_account show ?thesis by (simp add: covers_account_def)
  qed
qed


definition sample_scope :: readiness_scope where
  "sample_scope = \<lparr>rs_host = LOCAL_HOST, rs_adapter = ''claude'', rs_account_key = ''work'',
     rs_route = ''claude/opus''\<rparr>"

definition sample_ready :: route_readiness where
  "sample_ready = \<lparr>rr_schema_version = 1, rr_scope = sample_scope, rr_state = Ready, rr_reason = None,
     rr_observed = 900, rr_expires = 1200, rr_reset = None, rr_evidence_ref = Some ''probe-7''\<rparr>"

definition sample_file :: readiness_file where
  "sample_file = \<lparr>fi_schema_version = 1, fi_records = [sample_ready], fi_login = None\<rparr>"


subsection \<open>Published refusals\<close>

text \<open>A refusal the admission check still holds against the account.\<close>

definition held :: "admission \<Rightarrow> account_record \<Rightarrow> refusal \<Rightarrow> bool" where
  "held adm account f \<longleftrightarrow>
     refusal_holds adm (acc_adapter (ar_account account)) (Some account) f = Inr True"

lemma held_expires: "held adm account f \<Longrightarrow> \<exists>e. refusal_expires f = Inr e \<and> adm_now adm < e"
  by (auto simp: held_def refusal_holds_def)

definition refusal_record :: "route_readiness \<Rightarrow> bool" where
  "refusal_record r \<longleftrightarrow> rr_schema_version r = SCHEMA_VERSION \<and> rr_state r = Unavailable
     \<and> rr_reason r = Some RR_ProviderRefusal \<and> rr_evidence_ref r = Some ''provider-refusal''"

text \<open>The list \<open>published\<close> stands for the refusals \<open>gs\<close> scanned so far.\<close>

definition publishes ::
  "admission \<Rightarrow> account_record \<Rightarrow> string \<Rightarrow> refusal list \<Rightarrow> route_readiness list \<Rightarrow> bool"
where
  "publishes adm account host gs rs \<longleftrightarrow> distinct (map rr_scope rs)
   \<and> (\<forall>r \<in> set rs. refusal_record r \<and> adm_now adm < rr_expires r
        \<and> (\<exists>g \<in> set gs. held adm account g \<and> rr_scope r = refusal_scope host account g)
        \<and> rr_observed r \<in> rf_observed ` set gs)
   \<and> (\<forall>g \<in> set gs. held adm account g \<longrightarrow>
        (\<exists>r \<in> set rs. rr_scope r = refusal_scope host account g \<and> rf_observed g \<le> rr_observed r
           \<and> (\<forall>e. refusal_expires g = Inr e \<longrightarrow> e \<le> rr_expires r)))"

lemma merge_refusal_simps [simp]:
  "rr_scope (merge_refusal f e r) = rr_scope r"
  "refusal_record (merge_refusal f e r) = refusal_record r"
  "rr_observed (merge_refusal f e r) = max (rr_observed r) (rf_observed f)"
  "rr_expires (merge_refusal f e r) = max (rr_expires r) e"
  by (simp_all add: merge_refusal_def refusal_record_def)

lemma refusal_readiness_simps [simp]:
  "rr_scope (refusal_readiness scope f e) = scope" "refusal_record (refusal_readiness scope f e)"
  "rr_observed (refusal_readiness scope f e) = rf_observed f"
  "rr_expires (refusal_readiness scope f e) = e"
  by (simp_all add: refusal_readiness_def refusal_record_def)

lemma publishes_skip:
  "publishes adm account host gs rs \<Longrightarrow> \<not> held adm account f \<Longrightarrow> publishes adm account host (gs @ [f]) rs"
  by (fastforce simp: publishes_def)

lemma publishes_new:
  assumes "publishes adm account host gs rs" "held adm account f" "refusal_expires f = Inr e"
    and "\<not> list_ex (\<lambda>r. rr_scope r = refusal_scope host account f) rs"
  shows "publishes adm account host (gs @ [f]) (rs @ [refusal_readiness (refusal_scope host account f) f e])"
proof -
  have "adm_now adm < e" using held_expires [OF assms(2)] assms(3) by auto
  with assms show ?thesis
    by (auto simp: publishes_def list_ex_iff) (metis+)?
qed

lemma publishes_merge:
  assumes p: "publishes adm account host gs rs" and h: "held adm account f" and e: "refusal_expires f = Inr e"
    and ex: "list_ex (\<lambda>r. rr_scope r = refusal_scope host account f) rs"
  shows "publishes adm account host (gs @ [f])
    (update_first (\<lambda>r. rr_scope r = refusal_scope host account f) (merge_refusal f e) rs)"
    (is "publishes _ _ _ _ ?new")
proof -
  let ?p = "\<lambda>r. rr_scope r = refusal_scope host account f"
  have old: "r \<in> set rs \<or> (\<exists>q \<in> set rs. ?p q \<and> r = merge_refusal f e q)" if "r \<in> set ?new" for r
    using set_update_first_subset [of ?p "merge_refusal f e" rs] that by blast
  have "distinct (map rr_scope ?new)"
    using p by (subst update_first_map) (simp_all add: publishes_def)
  moreover have "refusal_record r \<and> adm_now adm < rr_expires r
      \<and> (\<exists>g \<in> set (gs @ [f]). held adm account g \<and> rr_scope r = refusal_scope host account g)
      \<and> rr_observed r \<in> rf_observed ` set (gs @ [f])" if "r \<in> set ?new" for r
    using old [OF that]
  proof
    assume "r \<in> set rs"
    with p show ?thesis unfolding publishes_def by auto
  next
    assume "\<exists>q \<in> set rs. ?p q \<and> r = merge_refusal f e q"
    then obtain q where q: "q \<in> set rs" "?p q" and r: "r = merge_refusal f e q" by blast
    with p have "refusal_record q" "adm_now adm < rr_expires q" "rr_observed q \<in> rf_observed ` set gs"
      unfolding publishes_def by auto
    with q h show ?thesis unfolding r by (auto simp: max_def)
  qed
  moreover have "\<exists>r \<in> set ?new. rr_scope r = refusal_scope host account g \<and> rf_observed g \<le> rr_observed r
      \<and> (\<forall>e. refusal_expires g = Inr e \<longrightarrow> e \<le> rr_expires r)"
    if g: "g \<in> set (gs @ [f])" "held adm account g" for g
  proof (cases "g \<in> set gs")
    case True
    with p g obtain q where q: "q \<in> set rs" "rr_scope q = refusal_scope host account g"
      "rf_observed g \<le> rr_observed q" "\<forall>e. refusal_expires g = Inr e \<longrightarrow> e \<le> rr_expires q"
      unfolding publishes_def by blast
    show ?thesis
      using update_first_keeps [OF q(1), of ?p "merge_refusal f e"] q(2-)
      by (auto intro: bexI [of _ q] bexI [of _ "merge_refusal f e q"])
  next
    case False
    with g have "g = f" by simp
    moreover obtain q where "q \<in> set rs" "?p q" "merge_refusal f e q \<in> set ?new"
      using update_first_hits [of rs ?p "merge_refusal f e"] ex by (auto simp: list_ex_iff)
    ultimately show ?thesis
      using e by (intro bexI [of _ "merge_refusal f e q"]) auto
  qed
  ultimately show ?thesis unfolding publishes_def by blast
qed

lemma publish_refusals_publishes:
  "publish_refusals adm account host rs fs = Inr out \<Longrightarrow> publishes adm account host gs rs \<Longrightarrow>
   publishes adm account host (gs @ fs) out"
proof (induction fs arbitrary: rs gs)
  case (Cons f fs)
  let ?holds = "refusal_holds adm (acc_adapter (ar_account account)) (Some account) f"
  show ?case
  proof (cases "held adm account f")
    case False
    with Cons.prems(1) have "publish_refusals adm account host rs fs = Inr out"
      by (cases ?holds) (auto simp: held_def split: if_splits)
    from Cons.IH [OF this publishes_skip [OF Cons.prems(2) False]] show ?thesis by simp
  next
    case True
    then obtain e where e: "refusal_expires f = Inr e" using held_expires by blast
    let ?scope = "refusal_scope host account f"
    show ?thesis
    proof (cases "list_ex (\<lambda>r. rr_scope r = ?scope) rs")
      case ex: True
      with Cons.prems(1) True e have "publish_refusals adm account host
          (update_first (\<lambda>r. rr_scope r = ?scope) (merge_refusal f e) rs) fs = Inr out"
        by (simp add: held_def Let_def del: res_bind_Inr_iff)
      from Cons.IH [OF this publishes_merge [OF Cons.prems(2) True e ex]] show ?thesis by simp
    next
      case new: False
      with Cons.prems(1) True e have "publish_refusals adm account host
          (rs @ [refusal_readiness ?scope f e]) fs = Inr out"
        by (simp add: held_def Let_def del: res_bind_Inr_iff)
      from Cons.IH [OF this publishes_new [OF Cons.prems(2) True e new]] show ?thesis by simp
    qed
  qed
qed simp

lemma sync_refusals_ok:
  assumes "sync_refusals in_range f account host adm = Inr g"
    and "\<not> superseded in_range (retain_unrefused f host (adm_now adm)) account host (adm_now adm)"
  obtains rs where "publishes adm account host (ar_refusals account) rs"
    and "g = f\<lparr>fi_records := filter (\<lambda>r. adm_now adm < rr_expires r \<and> \<not> is_refusal_of host r
           \<and> rr_scope r \<notin> rr_scope ` set rs) (fi_records f) @ rs\<rparr>"
    and "length (fi_records g) \<le> MAX_READINESS_RECORDS"
proof -
  obtain rs where rs: "publish_refusals adm account host [] (ar_refusals account) = Inr rs"
    and g: "check_bound ((retain_unrefused f host (adm_now adm))\<lparr>fi_records :=
        filter (\<lambda>r. \<not> list_ex (\<lambda>new. rr_scope new = rr_scope r) rs)
          (fi_records (retain_unrefused f host (adm_now adm))) @ rs\<rparr>) = Inr g"
    using assms by (auto simp: sync_refusals_def Let_def)
  have "publishes adm account host [] []" by (simp add: publishes_def)
  from publish_refusals_publishes [OF rs this]
  have "publishes adm account host (ar_refusals account) rs" by simp
  moreover have eq: "list_ex (\<lambda>new. rr_scope new = rr_scope r) rs \<longleftrightarrow> rr_scope r \<in> rr_scope ` set rs" for r
    by (simp add: list_ex_iff image_iff eq_commute)
  ultimately show thesis
    using g that [of rs] unfolding eq by (simp add: check_bound_ok retain_unrefused_def conj_ac)
qed

lemma reference_provider_refusal [simp]: "reference ''provider-refusal''"
  by (simp add: reference_def is_ascii_alphanumeric_def is_ascii_digit_def)

lemma get_unavailable:
  assumes "read_scope f now scope = record_read r" "rr_state r = Unavailable"
    and "list_all coherent (fi_records f)"
  shows "\<exists>reason. project (readiness_get in_range f scope now) = ReceiptUnavailable [] reason"
proof -
  have "rx_state (readiness_get in_range f scope now) \<noteq> Ready"
  proof
    assume "rx_state (readiness_get in_range f scope now) = Ready"
    from get_ready(1) [OF this assms(3)] this show False using assms(1,2) by simp
  qed
  then show ?thesis
    by (auto simp: project_def receipt_unknown_def receipt_stale_def split: readiness_state.splits)
qed

text \<open>
  the readiness file shows exactly the refusals admission holds. After a synchronisation no
  account-wide probe failure supersedes, the provider refusals this host publishes are those of
  the refusals still held, one record per route; the route of each of them reads as unavailable;
  and the observations in force on other routes are kept.
\<close>

theorem held_refusals_published:
  assumes "sync_refusals in_range f account host adm = Inr g"
    and "\<not> superseded in_range (retain_unrefused f host (adm_now adm)) account host (adm_now adm)"
    and "fi_schema_version f = SCHEMA_VERSION" and "distinct (map rr_scope (fi_records f))"
    and "list_all coherent (fi_records f)"
    and "\<forall>x \<in> set (ar_refusals account). rf_observed x \<le> adm_now adm"
  shows "rr_scope ` {r \<in> set (fi_records g). is_refusal_of host r} =
      refusal_scope host account ` {x \<in> set (ar_refusals account). held adm account x}
    \<and> distinct (map rr_scope (fi_records g))
    \<and> (\<forall>x \<in> set (ar_refusals account). held adm account x \<longrightarrow>
        (\<exists>reason. project (readiness_get in_range g (refusal_scope host account x) (adm_now adm)) =
           ReceiptUnavailable [] reason))
    \<and> (\<forall>r \<in> set (fi_records f). adm_now adm < rr_expires r \<and> \<not> is_refusal_of host r
        \<and> (\<forall>x \<in> set (ar_refusals account). held adm account x \<longrightarrow> rr_scope r \<noteq> refusal_scope host account x)
        \<longrightarrow> r \<in> set (fi_records g))"
proof -
  obtain rs where p: "publishes adm account host (ar_refusals account) rs"
    and g: "g = f\<lparr>fi_records := filter (\<lambda>r. adm_now adm < rr_expires r \<and> \<not> is_refusal_of host r
           \<and> rr_scope r \<notin> rr_scope ` set rs) (fi_records f) @ rs\<rparr>"
    using sync_refusals_ok [OF assms(1,2)] by blast
  let ?kept = "filter (\<lambda>r. adm_now adm < rr_expires r \<and> \<not> is_refusal_of host r
           \<and> rr_scope r \<notin> rr_scope ` set rs) (fi_records f)"
  have rec: "refusal_record r" "rr_observed r \<le> adm_now adm" "adm_now adm < rr_expires r"
    "rs_host (rr_scope r) = host" if "r \<in> set rs" for r
    using p that assms(6) by (auto simp: publishes_def refusal_scope_def)
  have scopes: "rr_scope ` set rs =
      refusal_scope host account ` {x \<in> set (ar_refusals account). held adm account x}"
    using p by (auto simp: publishes_def image_iff) (metis)+
  have "{r \<in> set (fi_records g). is_refusal_of host r} = set rs"
    using rec(1,4) unfolding g by (auto simp: is_refusal_of_def refusal_record_def)
  moreover have dist: "distinct (map rr_scope (fi_records g))"
    using p assms(4) unfolding g by (auto simp: publishes_def distinct_map_filter)
  moreover have "\<exists>reason. project (readiness_get in_range g (refusal_scope host account x) (adm_now adm)) =
      ReceiptUnavailable [] reason" if "x \<in> set (ar_refusals account)" "held adm account x" for x
  proof -
    have "refusal_scope host account x \<in> rr_scope ` set rs" using that unfolding scopes by blast
    then obtain r where r: "r \<in> set rs" "rr_scope r = refusal_scope host account x" by auto
    have "in_force g (adm_now adm) r" "rr_state r = Unavailable"
      using rec(1-3) [OF r(1)] assms(3) by (simp_all add: in_force_def refusal_record_def g)
    moreover have "r \<in> set (fi_records g)" using r(1) by (simp add: g)
    ultimately have "read_scope g (adm_now adm) (rr_scope r) = record_read r" "rr_state r = Unavailable"
      using dist read_scope_unavailable by blast+
    moreover have "list_all coherent (fi_records g)"
      using assms(5) rec(1) by (auto simp: g list_all_iff coherent_def refusal_record_def)
    ultimately show ?thesis unfolding r(2) by (rule get_unavailable)
  qed
  moreover have "r \<in> set (fi_records g)" if "r \<in> set (fi_records f)" "adm_now adm < rr_expires r"
    "\<not> is_refusal_of host r"
    "\<forall>x \<in> set (ar_refusals account). held adm account x \<longrightarrow> rr_scope r \<noteq> refusal_scope host account x" for r
    using that scopes by (auto simp: g)
  ultimately show ?thesis using scopes by (simp only: simp_thms) blast
qed

abbreviation sample_refused :: account_record where
  "sample_refused \<equiv> refused_record sample_account (empty_record sample_account) ''opus'' None 1000 None"

definition sample_synced :: readiness_file where
  "sample_synced = readiness_default\<lparr>fi_records := [refusal_readiness
     (refusal_scope LOCAL_HOST sample_refused (hd (ar_refusals sample_refused)))
     (hd (ar_refusals sample_refused)) 4600]\<rparr>"

lemma sample_sync:
  "sync_refusals (\<lambda>_. True) readiness_default sample_refused LOCAL_HOST
      (sample_admission sample_refused) = Inr sample_synced"
  by code_simp

theorem held_refusals_published_witness:
  "sync_refusals (\<lambda>_. True) readiness_default sample_refused LOCAL_HOST
      (sample_admission sample_refused) = Inr sample_synced
    \<and> (\<exists>reason. project (readiness_get (\<lambda>_. True) sample_synced
        (refusal_scope LOCAL_HOST sample_refused (hd (ar_refusals sample_refused))) 1001) =
      ReceiptUnavailable [] reason)"
proof -
  let ?x = "hd (ar_refusals sample_refused)"
  note g = sample_sync
  have hyp: "\<not> superseded (\<lambda>_. True) (retain_unrefused readiness_default LOCAL_HOST
       (adm_now (sample_admission sample_refused))) sample_refused LOCAL_HOST
       (adm_now (sample_admission sample_refused))"
    "fi_schema_version readiness_default = SCHEMA_VERSION"
    "distinct (map rr_scope (fi_records readiness_default))"
    "list_all coherent (fi_records readiness_default)"
    "\<forall>x \<in> set (ar_refusals sample_refused). rf_observed x \<le> adm_now (sample_admission sample_refused)"
    by code_simp+
  have "?x \<in> set (ar_refusals sample_refused)" "held (sample_admission sample_refused) sample_refused ?x"
    by code_simp+
  moreover have "\<forall>x \<in> set (ar_refusals sample_refused).
      held (sample_admission sample_refused) sample_refused x \<longrightarrow>
      (\<exists>reason. project (readiness_get (\<lambda>_. True) sample_synced (refusal_scope LOCAL_HOST sample_refused x)
         (adm_now (sample_admission sample_refused))) = ReceiptUnavailable [] reason)"
    using held_refusals_published [OF g hyp] by (elim conjE)
  moreover have "adm_now (sample_admission sample_refused) = 1001"
    by (simp add: sample_admission_def)
  ultimately show ?thesis
    using g by simp
qed

text \<open>Printable bytes do not hide a control character of what follows them.\<close>

lemma has_control_printable:
  "list_all (\<lambda>b. 32 \<le> byte_of b \<and> byte_of b < 127) s \<Longrightarrow> has_control (s @ t) = has_control t"
  by (induction s) auto

lemma component_printable: "component s \<Longrightarrow> list_all (\<lambda>b. 32 \<le> byte_of b \<and> byte_of b < 127) s"
  unfolding component_def list_all_iff
  by (auto simp: is_ascii_alphanumeric_def is_ascii_digit_def)

definition printable_refusal :: "refusal \<Rightarrow> bool" where
  "printable_refusal x \<longleftrightarrow> \<not> has_control (rf_model x) \<and> is_none_or (rf_pool x) (\<lambda>p. \<not> has_control p)"

lemma valid_refusal_scope:
  assumes "valid_record account" "x \<in> set (ar_refusals account)" "printable_refusal x"
    and "host \<noteq> []" "length host \<le> 128"
  shows "valid_readiness_scope (acc_adapter (ar_account account)) (acc_key (ar_account account))
    (refusal_scope host account x)"
proof -
  have "component (acc_adapter (ar_account account))" "\<not> refusal_invalid (ar_account account) x"
    using assms(1,2) by (auto simp: valid_record_iff list_all_iff valid_scope_def scope_validate_def
        split: if_splits)
  moreover from this(1) have "has_control (acc_adapter (ar_account account) @ ''/'' @ rf_model x) =
      has_control (rf_model x)"
    by (simp add: has_control_printable [OF component_printable])
  ultimately show ?thesis
    using assms(3-) by (cases "rf_pool x")
      (auto simp: valid_readiness_scope_def refusal_scope_def printable_refusal_def refusal_invalid_def
        component_def)
qed

lemma valid_account_scope:
  "host \<noteq> [] \<Longrightarrow> length host \<le> 128 \<Longrightarrow>
   valid_readiness_scope (acc_adapter (ar_account account)) (acc_key (ar_account account))
    (readiness_account_scope host account)"
  by (simp add: valid_readiness_scope_def readiness_account_scope_def)

text \<open>The part of validity that concerns the records.\<close>

definition valid_records :: "account_record \<Rightarrow> route_readiness list \<Rightarrow> bool" where
  "valid_records account rs \<longleftrightarrow> length rs \<le> MAX_READINESS_RECORDS \<and> distinct (map rr_scope rs)
     \<and> list_all (\<lambda>r. valid_readiness_scope (acc_adapter (ar_account account)) (acc_key (ar_account account))
         (rr_scope r)) rs"

lemma file_validate_records:
  assumes "file_validate f (acc_adapter (ar_account account)) (acc_key (ar_account account)) = Inr ()"
  shows "valid_records account (fi_records f)"
    and "valid_records account rs \<Longrightarrow>
      file_validate (f\<lparr>fi_records := rs\<rparr>) (acc_adapter (ar_account account)) (acc_key (ar_account account)) = Inr ()"
  using assms by (auto simp: file_validate_ok valid_records_def)

lemma valid_records_filter: "valid_records account rs \<Longrightarrow> valid_records account (filter p rs)"
  unfolding valid_records_def
  by (auto simp: distinct_map_filter list_all_iff intro: le_trans [OF length_filter_le])

lemma sync_refusals_valid:
  assumes f: "file_validate f (acc_adapter (ar_account account)) (acc_key (ar_account account)) = Inr ()"
    and "valid_record account" "list_all printable_refusal (ar_refusals account)"
    and host: "host \<noteq> []" "length host \<le> 128"
    and ok: "sync_refusals in_range f account host adm = Inr g"
  shows "file_validate g (acc_adapter (ar_account account)) (acc_key (ar_account account)) = Inr ()"
proof (cases "superseded in_range (retain_unrefused f host (adm_now adm)) account host (adm_now adm)")
  case True
  with ok have "g = retain_unrefused f host (adm_now adm)"
    by (simp add: sync_refusals_def Let_def check_bound_ok)
  then show ?thesis
    unfolding retain_unrefused_def
    using file_validate_records [OF f] by (simp add: valid_records_filter)
next
  case False
  from sync_refusals_ok [OF ok False] obtain rs
    where p: "publishes adm account host (ar_refusals account) rs"
    and g: "g = f\<lparr>fi_records := filter (\<lambda>r. adm_now adm < rr_expires r \<and> \<not> is_refusal_of host r
           \<and> rr_scope r \<notin> rr_scope ` set rs) (fi_records f) @ rs\<rparr>"
    and bound: "length (fi_records g) \<le> MAX_READINESS_RECORDS" by blast
  have "valid_readiness_scope (acc_adapter (ar_account account)) (acc_key (ar_account account)) (rr_scope r)"
    if r: "r \<in> set rs" for r
  proof -
    from p r obtain x where x: "x \<in> set (ar_refusals account)" "rr_scope r = refusal_scope host account x"
      unfolding publishes_def by blast
    with assms(3) have "printable_refusal x" by (simp add: list_all_iff)
    with x show ?thesis using valid_refusal_scope [OF assms(2) x(1) _ host] by simp
  qed
  moreover have "distinct (map rr_scope rs)" using p by (simp add: publishes_def)
  ultimately have "valid_records account (fi_records g)"
    using file_validate_records(1) [OF f] bound unfolding g
    by (auto simp: valid_records_def list_all_iff distinct_map_filter)
  with file_validate_records(2) [OF f, of "fi_records g"] show ?thesis by (simp add: g)
qed

lemma sync_probe_result_valid:
  assumes f: "file_validate f (acc_adapter (ar_account account)) (acc_key (ar_account account)) = Inr ()"
    and host: "host \<noteq> []" "length host \<le> 128"
    and ok: "sync_probe_result f account host now seconds reason = Inr g"
  shows "file_validate g (acc_adapter (ar_account account)) (acc_key (ar_account account)) = Inr ()"
proof -
  have "valid_records account (fi_records g)"
    using ok file_validate_records(1) [OF f] valid_account_scope [OF host, of account]
    by (cases reason) (auto simp: sync_probe_result_def check_bound_ok Let_def valid_records_def
        list_all_iff distinct_map_filter readiness_account_scope_def dest: arg_cong [of _ _ rs_host]
        arg_cong [of _ _ rs_adapter] arg_cong [of _ _ rs_account_key])
  with file_validate_records(2) [OF f, of "fi_records g"] ok show ?thesis
    by (auto simp: sync_probe_result_def check_bound_ok Let_def)
qed

text \<open>
  the readiness file of an account stays well typed. Both writers keep a valid file valid for
  the path it is stored under: the schema version, the bounds, the identity of every scope and one
  record per scope. Refusals with printable names are what recording a refusal stores.
\<close>

theorem readiness_file_stays_valid:
  assumes "file_validate f (acc_adapter (ar_account account)) (acc_key (ar_account account)) = Inr ()"
    and "valid_record account" and "list_all printable_refusal (ar_refusals account)"
    and "host \<noteq> []" and "length host \<le> 128"
    and "sync_probe_result f account host now seconds reason = Inr g
      \<or> sync_refusals in_range f account host adm = Inr g"
  shows "file_validate g (acc_adapter (ar_account account)) (acc_key (ar_account account)) = Inr ()"
  using assms sync_refusals_valid sync_probe_result_valid by blast

theorem readiness_file_stays_valid_witness:
  "file_validate sample_synced ''claude'' ''work'' = Inr ()"
proof -
  have "file_validate readiness_default (acc_adapter (ar_account sample_refused))
      (acc_key (ar_account sample_refused)) = Inr ()"
    "valid_record sample_refused" "list_all printable_refusal (ar_refusals sample_refused)"
    "LOCAL_HOST \<noteq> []" "length LOCAL_HOST \<le> 128"
    "acc_adapter (ar_account sample_refused) = ''claude''" "acc_key (ar_account sample_refused) = ''work''"
    by code_simp+
  with readiness_file_stays_valid [of readiness_default sample_refused LOCAL_HOST 0 0 None sample_synced
      "\<lambda>_. True" "sample_admission sample_refused"] sample_sync
  show ?thesis by metis
qed

end
