(* ===== verification/Quota_Report.thy ===== *)
theory Quota_Report
  imports Quota_Readiness
begin

section \<open>The quota report (crate quota)\<close>

text \<open>
  The report of \<open>quota/src/schedule.rs\<close> and its rows in \<open>quota/src/state.rs\<close>: what the menu
  bar and the command line show for each account. Instants of \<open>jiff\<close> are nanosecond counts;
  which seconds it accepts (\<open>jiff_ok\<close>), how it prints an instant (\<open>jiff_show\<close>) and how it reads
  a text (\<open>jiff_parse\<close>) are arguments.
\<close>

subsection \<open>Rows\<close>

record refusal_row =
  rw_model :: string
  rw_pool :: "string option"
  rw_resets_at :: "string option"

record capacity_cooldown_row =
  cw_model :: string
  cw_observed :: i64
  cw_expires :: i64
  cw_remaining :: u64

record login_expiry_view =
  lv_state :: login_expiry_state
  lv_expires :: "i64 option"
  lv_observed :: "i64 option"

record row_display =
  dw_id :: string
  dw_name :: "string option"
  dw_hidden :: bool
  dw_order :: "nat option"
  dw_headline :: "headline option"

record account_row =
  aw_account :: account_scope
  aw_readiness :: "readiness_read option"
  aw_login_expiry :: "login_expiry_view option"
  aw_snapshot :: "quota_snapshot option"
  aw_status :: quota_status
  aw_resets_at :: "string option"
  aw_refusals :: "refusal_row list"
  aw_free_pool_refusal :: bool
  aw_age :: "u64 option"
  aw_next_due :: "i64 option"
  aw_refreshing :: bool
  aw_error :: "probe_failure option"
  aw_repair :: "string option"
  aw_capacity_cooldowns :: "capacity_cooldown_row list"
  aw_display :: "row_display option"

record source_row =
  sw_adapter :: string
  sw_status :: quota_status
  sw_error :: "probe_failure option"
  sw_next_due :: "i64 option"

record coverage =
  cv_total :: u64
  cv_known :: u64

record quota_report =
  rp_schema_version :: u64
  rp_generated :: i64
  rp_accounts :: "account_row list"
  rp_sources :: "source_row list"
  rp_coverage :: coverage
  rp_refreshing_ids :: "string list"
  rp_next_due :: "i64 option"
  rp_report_path :: string
  rp_display :: display
  rp_display_icon_warning :: "string option"

subsection \<open>One account\<close>

definition row_age :: "account_record \<Rightarrow> i64 \<Rightarrow> u64 option" where
  "row_age r now = map_option (\<lambda>s.
     unwrap_or U64_MAX (u64_try_from (max (i64_saturating_sub now (qs_observed s)) 0))) (ar_snapshot r)"

definition auth_required :: "detection list \<Rightarrow> account_record \<Rightarrow> i64 \<Rightarrow> bool" where
  "auth_required detections r now \<longleftrightarrow>
     is_some_and (ar_last_error r) needs_login
     \<or> (\<not> is_some_and (ar_auth_verified r) (\<lambda>at. at \<le> now \<and> i64_saturating_sub now at < 900)
        \<and> list_ex (\<lambda>d. de_adapter d = acc_adapter (ar_account r) \<and> de_status d = QS_AuthRequired
             \<and> is_some_and (de_accounts d) (\<lambda>a. length a = 1)) detections)"

definition row_fresh :: "quota_policy list \<Rightarrow> detection list \<Rightarrow> account_record \<Rightarrow> i64 \<Rightarrow> bool" where
  "row_fresh policies detections r now \<longleftrightarrow>
     is_some_and (ar_snapshot r) (\<lambda>s. qs_observed s \<le> now \<and> ar_last_error r = None
       \<and> \<not> auth_required detections r now
       \<and> is_some_and (row_age r now) (\<lambda>a.
           a < unwrap_or 0 (interval policies (acc_adapter (ar_account r)) TG_Timer PW_Ac)))"

definition active_refusal :: "i64 \<Rightarrow> refusal \<Rightarrow> bool" where
  "active_refusal now f \<longleftrightarrow> rf_observed f \<le> now
     \<and> (case refusal_expires f of Inr expires \<Rightarrow> now < expires | Inl _ \<Rightarrow> False)"

definition refusal_rows ::
  "(i64 \<Rightarrow> bool) \<Rightarrow> (int \<Rightarrow> string) \<Rightarrow> account_record \<Rightarrow> i64 \<Rightarrow> refusal_row list"
where
  "refusal_rows jiff_ok jiff_show r now = map (\<lambda>f. \<lparr>rw_model = rf_model f, rw_pool = rf_pool f,
       rw_resets_at = (case rf_resets f of
           Some reset \<Rightarrow> if now < reset \<and> jiff_ok reset then Some (jiff_show (reset * 1000000000)) else None
         | None \<Rightarrow> None)\<rparr>) (filter (active_refusal now) (ar_refusals r))"

definition row_free_pool :: "account_record \<Rightarrow> string option option" where
  "row_free_pool r = (case get_spec (acc_adapter (ar_account r)) of
      None \<Rightarrow> None
    | Some spec \<Rightarrow>
        (case ad_free_account spec of
           None \<Rightarrow> None
         | Some (key, _) \<Rightarrow> if acc_key (ar_account r) = key then Some (ad_free_pool spec) else None))"

definition active_free_refusals :: "account_record \<Rightarrow> refusal_row list \<Rightarrow> refusal_row list" where
  "active_free_refusals r rows = (case row_free_pool r of
      None \<Rightarrow> [] | Some pool \<Rightarrow> filter (\<lambda>f. rw_pool f = pool) rows)"

definition row_status ::
  "quota_policy list \<Rightarrow> detection list \<Rightarrow> account_record \<Rightarrow> i64 \<Rightarrow> bool \<Rightarrow> quota_status"
where
  "row_status policies detections r now free_refused =
     (if ar_last_error r = Some PF_IsolatedKeychainUnavailable then QS_KeychainUnavailable
      else if free_refused then QS_Exhausted
      else if auth_required detections r now then QS_AuthRequired
      else (case ar_snapshot r of
              Some s \<Rightarrow> if row_fresh policies detections r now then qs_status s else QS_Stale
            | None \<Rightarrow> if ar_last_error r = Some PF_Disabled then QS_Unsupported else QS_Unknown))"

definition row_resets_at ::
  "(int \<Rightarrow> string) \<Rightarrow> (string \<Rightarrow> int option) \<Rightarrow> refusal_row list \<Rightarrow> string option"
where
  "row_resets_at jiff_show jiff_parse free =
     (if free = [] then None
      else (case all_some (map rw_resets_at free) of
              None \<Rightarrow> None
            | Some resets \<Rightarrow> map_option jiff_show (list_max (List.map_filter jiff_parse resets))))"

definition cooldown_rows :: "account_record \<Rightarrow> i64 \<Rightarrow> capacity_cooldown_row list" where
  "cooldown_rows r now = map (\<lambda>c. \<lparr>cw_model = cd_model c, cw_observed = cd_observed c,
       cw_expires = cd_expires c,
       cw_remaining = unwrap_or U64_MAX (u64_try_from (i64_saturating_sub (cd_expires c) now))\<rparr>)
     (filter (\<lambda>c. cd_observed c \<le> now \<and> now < cd_expires c) (ar_capacity_cooldowns r))"

definition account_row_of ::
  "(i64 \<Rightarrow> bool) \<Rightarrow> (int \<Rightarrow> string) \<Rightarrow> (string \<Rightarrow> int option) \<Rightarrow> quota_policy list \<Rightarrow> detection list
   \<Rightarrow> i64 \<Rightarrow> account_record \<Rightarrow> quota_error + account_row"
where
  "account_row_of jiff_ok jiff_show jiff_parse policies detections now r =
     (let refusals = refusal_rows jiff_ok jiff_show r now;
          free = active_free_refusals r refusals
      in res_bind (next_due policies r TG_Timer PW_Ac) (\<lambda>due. Inr
           \<lparr>aw_account = ar_account r, aw_readiness = None, aw_login_expiry = None,
            aw_snapshot = ar_snapshot r,
            aw_status = row_status policies detections r now (free \<noteq> []),
            aw_resets_at = row_resets_at jiff_show jiff_parse free,
            aw_refusals = refusals, aw_free_pool_refusal = (free \<noteq> []), aw_age = row_age r now,
            aw_next_due = map_option (\<lambda>d. max d now) due,
            aw_refreshing = is_some_and (ar_claim r) (\<lambda>c. now < rc_deadline c),
            aw_error = ar_last_error r, aw_repair = None,
            aw_capacity_cooldowns = cooldown_rows r now, aw_display = None\<rparr>))"

subsection \<open>The report\<close>

text \<open>Without detections every record is shown, otherwise the detected accounts.\<close>

definition reported :: "detection list \<Rightarrow> account_record \<Rightarrow> bool" where
  "reported detections r \<longleftrightarrow> detections = []
     \<or> list_ex (\<lambda>d. de_adapter d = acc_adapter (ar_account r)
          \<and> is_some_and (de_accounts d) (list_ex (\<lambda>a. same_account a (ar_account r)))) detections"

fun report_rows ::
  "(account_record \<Rightarrow> quota_error + account_row) \<Rightarrow> account_record list \<Rightarrow> quota_error + account_row list"
where
  "report_rows row [] = Inr []"
| "report_rows row (r # rs) =
     res_bind (row r) (\<lambda>a. res_bind (report_rows row rs) (\<lambda>as. Inr (a # as)))"

definition source_rows :: "string option \<Rightarrow> detection list \<Rightarrow> source_row list" where
  "source_rows query detections = map (\<lambda>d. \<lparr>sw_adapter = de_adapter d, sw_status = de_status d,
       sw_error = (if de_status d = QS_Unsupported then Some PF_Disabled else None),
       sw_next_due = None\<rparr>)
     (filter (\<lambda>d. selected query (de_adapter d) \<and> is_none_or (de_accounts d) (\<lambda>a. a = [])) detections)"

definition status_known :: "quota_status \<Rightarrow> bool" where
  "status_known s \<longleftrightarrow> s \<in> {QS_Available, QS_CreditOnly, QS_Exhausted}"

definition report ::
  "(i64 \<Rightarrow> bool) \<Rightarrow> (int \<Rightarrow> string) \<Rightarrow> (string \<Rightarrow> int option) \<Rightarrow> quota_policy list \<Rightarrow> account_record list
   \<Rightarrow> detection list \<Rightarrow> string option \<Rightarrow> i64 \<Rightarrow> string \<Rightarrow> quota_error + quota_report"
where
  "report jiff_ok jiff_show jiff_parse policies records detections query now path =
     res_bind (validate_inputs records detections) (\<lambda>_.
     res_bind (report_rows (account_row_of jiff_ok jiff_show jiff_parse policies detections now)
       (filter (reported detections)
         (filter (\<lambda>r. selected query (acc_adapter (ar_account r))) records))) (\<lambda>accounts.
     Inr \<lparr>rp_schema_version = 1, rp_generated = now, rp_accounts = accounts,
          rp_sources = source_rows query detections,
          rp_coverage = \<lparr>cv_total = length accounts,
            cv_known = length (filter (\<lambda>a. status_known (aw_status a)) accounts)\<rparr>,
          rp_refreshing_ids = map (\<lambda>a. acc_key (aw_account a) @ ''/'' @ acc_adapter (aw_account a))
            (filter aw_refreshing accounts),
          rp_next_due = list_min (List.map_filter aw_next_due accounts),
          rp_report_path = path,
          rp_display = \<lparr>di_headline = HL_Auto, di_icon = MOST_CONSTRAINED\<rparr>,
          rp_display_icon_warning = None\<rparr>))"

subsection \<open>What a report shows\<close>

lemma active_free_refusals_Nil: "active_free_refusals r [] = []"
  by (simp add: active_free_refusals_def split: option.splits)

lemma report_rows_ok [ok_iff]:
  "report_rows row rs = Inr as \<longleftrightarrow> list_all2 (\<lambda>r a. row r = Inr a) rs as"
proof (induction rs arbitrary: as)
  case (Cons r rs)
  then show ?case by (cases as) auto
qed auto

lemma report_ok:
  assumes "report jiff_ok jiff_show jiff_parse policies records detections query now path = Inr rp"
  shows "list_all2 (\<lambda>r a. account_row_of jiff_ok jiff_show jiff_parse policies detections now r = Inr a)
      (filter (reported detections) (filter (\<lambda>r. selected query (acc_adapter (ar_account r))) records))
      (rp_accounts rp)"
    and "\<forall>r \<in> set records. valid_record r"
proof -
  show "list_all2 (\<lambda>r a. account_row_of jiff_ok jiff_show jiff_parse policies detections now r = Inr a)
      (filter (reported detections) (filter (\<lambda>r. selected query (acc_adapter (ar_account r))) records))
      (rp_accounts rp)"
    using assms unfolding report_def by (auto simp only: ok_iff sum.inject quota_report.simps)
  obtain u where "validate_inputs records detections = Inr u"
    using assms unfolding report_def by (auto simp only: ok_iff)
  then have "validate_records [] records = Inr ()"
    by (auto simp: validate_inputs_def split: if_splits)
  then show "\<forall>r \<in> set records. valid_record r"
    using validate_records_ok by blast
qed

lemma row_age_interval:
  assumes "row_age r now = Some a" "ar_snapshot r = Some s" "qs_observed s \<le> now"
    and "a < n" "n \<le> nat I64_MAX" "is_i64 now" "is_i64 (qs_observed s)"
  shows "i64_saturating_sub now (qs_observed s) < u64_as_i64 n"
  using assms
  by (auto simp: row_age_def u64_try_from_def i64_saturating_sub_def u64_as_i64_def is_i64_def
      split: if_splits)

text \<open>The report and the admission check call the same reading fresh.\<close>

lemma row_fresh_admission:
  assumes "row_fresh policies detections r now"
    and "unwrap_or 0 (interval policies (acc_adapter (ar_account r)) TG_Timer PW_Ac) \<le> nat I64_MAX"
    and "adm_policies adm = policies" "adm_now adm = now" "is_i64 now"
    and "is_none_or (ar_snapshot r) (\<lambda>s. is_i64 (qs_observed s))"
  shows "fresh_snapshot adm (acc_adapter (ar_account r)) (Some r) = ar_snapshot r"
proof -
  obtain s a where s: "ar_snapshot r = Some s" "qs_observed s \<le> now" "row_age r now = Some a"
    "a < unwrap_or 0 (interval policies (acc_adapter (ar_account r)) TG_Timer PW_Ac)"
    using assms(1) by (auto simp: row_fresh_def is_some_and_iff)
  have "is_i64 (qs_observed s)" using assms(6) s(1) by simp
  from row_age_interval [OF s(3,1,2,4) assms(2,5) this] s show ?thesis
    by (simp add: fresh_snapshot_def assms(3,4))
qed

lemma row_status_available:
  assumes "row_status policies detections r now refused \<in> {QS_Available, QS_CreditOnly}"
  shows "\<not> refused \<and> \<not> auth_required detections r now \<and> row_fresh policies detections r now
    \<and> (\<exists>s. ar_snapshot r = Some s \<and> qs_status s = row_status policies detections r now refused)"
  using assms by (auto simp: row_status_def split: if_splits option.splits)

text \<open>
  the report offers an account only on evidence admission would use. A row shown as available
  or on credit belongs to a valid stored record without a probe failure or a pending login, whose
  reading has that status, and is a reading the admission check at the same time calls fresh; no
  refusal of the adapter's free pool is active.
\<close>

theorem report_shows_fresh_evidence:
  assumes "report jiff_ok jiff_show jiff_parse policies records detections query now path = Inr rp"
    and "row \<in> set (rp_accounts rp)" and "aw_status row \<in> {QS_Available, QS_CreditOnly}"
    and "\<forall>r \<in> set records. unwrap_or 0 (interval policies (acc_adapter (ar_account r)) TG_Timer PW_Ac)
        \<le> nat I64_MAX \<and> is_none_or (ar_snapshot r) (\<lambda>s. is_i64 (qs_observed s))"
    and "is_i64 now" and "adm_policies adm = policies" and "adm_now adm = now"
  shows "\<exists>r \<in> set records. \<exists>s. ar_account r = aw_account row \<and> valid_record r
    \<and> ar_last_error r = None \<and> \<not> auth_required detections r now
    \<and> aw_snapshot row = Some s \<and> qs_status s = aw_status row
    \<and> fresh_snapshot adm (acc_adapter (ar_account r)) (Some r) = Some s
    \<and> \<not> aw_free_pool_refusal row"
proof -
  note ok = report_ok [OF assms(1)]
  obtain r where r: "r \<in> set records"
    and row: "account_row_of jiff_ok jiff_show jiff_parse policies detections now r = Inr row"
    using list_all2_member [OF ok(1) assms(2)] by auto
  then obtain refused where w: "aw_account row = ar_account r" "aw_snapshot row = ar_snapshot r"
    "aw_status row = row_status policies detections r now refused" "aw_free_pool_refusal row = refused"
    by (auto simp: account_row_of_def Let_def)
  from row_status_available [of policies detections r now refused] assms(3) w obtain s
    where s: "\<not> refused" "\<not> auth_required detections r now" "row_fresh policies detections r now"
      "ar_snapshot r = Some s" "qs_status s = aw_status row" by auto
  have "ar_last_error r = None" using s(3) by (auto simp: row_fresh_def is_some_and_iff)
  moreover have "fresh_snapshot adm (acc_adapter (ar_account r)) (Some r) = Some s"
    using row_fresh_admission [OF s(3) _ assms(6,7,5)] assms(4) r s(4) by auto
  ultimately show ?thesis
    using r s(1,2,4,5) ok(2) unfolding w(1,2,4) by (intro bexI [OF _ r] exI [of _ s]) simp
qed

definition sample_observed :: account_record where
  "sample_observed = (empty_record sample_account)\<lparr>ar_revision := 3, ar_snapshot := Some sample_snapshot\<rparr>"

theorem report_shows_fresh_evidence_witness:
  "\<exists>rp. report (\<lambda>_. True) (\<lambda>_. []) (\<lambda>_. None) [sample_policy] [sample_observed] [] None
      (qs_observed sample_snapshot + 10) ''report.json'' = Inr rp
    \<and> list_all (\<lambda>row. aw_status row = QS_Available) (rp_accounts rp) \<and> rp_accounts rp \<noteq> []
    \<and> fresh_snapshot \<lparr>adm_policies = [sample_policy], adm_now = qs_observed sample_snapshot + 10,
        adm_records = [], adm_pools = []\<rparr> ''claude'' (Some sample_observed) = Some sample_snapshot"
proof -
  let ?now = "qs_observed sample_snapshot + 10"
  let ?adm = "\<lparr>adm_policies = [sample_policy], adm_now = ?now, adm_records = [], adm_pools = []\<rparr>"
  let ?report = "report (\<lambda>_. True) (\<lambda>_. []) (\<lambda>_. None) [sample_policy] [sample_observed] [] None ?now ''report.json''"
  have snapshot: "qs_account sample_snapshot = sample_account" "qs_revision sample_snapshot = 0"
    by (simp_all add: sample_snapshot_def)
  then have "valid_record sample_observed"
    by (simp add: valid_record_iff sample_observed_def empty_record_def)
  then have "is_ok (validate_inputs [sample_observed] [])"
    by (simp add: validate_inputs_def is_ok_iff record_validate_Inr)
  moreover have "is_ok (next_due [sample_policy] sample_observed TG_Timer PW_Ac)"
    "row_status [sample_policy] [] sample_observed ?now False = QS_Available"
    "ar_refusals sample_observed = []"
    by (simp_all add: next_due_def interval_def sample_policy_def sample_observed_def
        empty_record_def row_status_def row_fresh_def row_age_def auth_required_def sample_snapshot_def
        u64_try_from_def i64_saturating_sub_def event_auth_retry_def)
  ultimately obtain rp row where rp: "?report = Inr rp" "rp_accounts rp = [row]" "aw_status row = QS_Available"
    by (auto simp: report_def account_row_of_def is_ok_iff selected_def reported_def refusal_rows_def
        active_free_refusals_Nil)
  have "\<forall>r \<in> set [sample_observed]. unwrap_or 0 (interval [sample_policy] (acc_adapter (ar_account r)) TG_Timer PW_Ac)
        \<le> nat I64_MAX \<and> is_none_or (ar_snapshot r) (\<lambda>s. is_i64 (qs_observed s))" "is_i64 ?now"
    by (simp_all add: interval_def sample_policy_def sample_observed_def empty_record_def
        sample_snapshot_def is_i64_def)
  from report_shows_fresh_evidence [OF rp(1) _ _ this, of row ?adm] rp
  obtain s where "aw_snapshot row = Some s"
    "fresh_snapshot ?adm (acc_adapter (ar_account sample_observed)) (Some sample_observed) = Some s"
    by auto
  moreover from this(2) have "s = sample_snapshot"
    by (auto simp: fresh_snapshot_def sample_observed_def split: if_splits)
  moreover have "acc_adapter (ar_account sample_observed) = ''claude''" by code_simp
  ultimately show ?thesis using rp by auto
qed

lemma report_totals:
  assumes "report jiff_ok jiff_show jiff_parse policies records detections query now path = Inr rp"
  shows "cv_known (rp_coverage rp) \<le> cv_total (rp_coverage rp)"
    and "cv_total (rp_coverage rp) = length (rp_accounts rp)"
    and "rp_next_due rp = Some due \<Longrightarrow> now \<le> due"
proof -
  have rp: "rp_coverage rp = \<lparr>cv_total = length (rp_accounts rp),
      cv_known = length (filter (\<lambda>a. status_known (aw_status a)) (rp_accounts rp))\<rparr>"
    "rp_next_due rp = list_min (List.map_filter aw_next_due (rp_accounts rp))"
    using assms unfolding report_def by (auto simp only: ok_iff sum.inject quota_report.simps)
  then show "cv_known (rp_coverage rp) \<le> cv_total (rp_coverage rp)"
    "cv_total (rp_coverage rp) = length (rp_accounts rp)" by simp_all
  assume "rp_next_due rp = Some due"
  then obtain a where a: "a \<in> set (rp_accounts rp)" "aw_next_due a = Some due"
    unfolding rp(2) list_min_Some by (auto simp: map_filter_def)
  then obtain r where "account_row_of jiff_ok jiff_show jiff_parse policies detections now r = Inr a"
    using list_all2_member [OF report_ok(1) [OF assms]] by blast
  with a(2) show "now \<le> due" by (auto simp: account_row_of_def Let_def)
qed

end
