(* ===== verification/Quota_Store.thy ===== *)
theory Quota_Store
  imports Quota_Report "HOL-Library.AList" "HOL-Library.Char_ord" "HOL-Library.List_Lexorder"
    "HOL-Library.Product_Lexorder"
begin

section \<open>The quota store (crate cli, \<open>cli/src/quota.rs\<close>)\<close>

text \<open>
  The files below the state directory: \<open>quota/report.json\<close> is the published report, \<open>quota/<key>/<adapter>.json\<close> holds an account record,
  \<open>readiness/<key>/<adapter>.json\<close> its readiness. A directory is the list of its entries in the
  order they are enumerated. The content of a file is what decoding its bytes gives; how each
  system call of a write ends is the argument \<open>io\<close>. What lies outside the repository, the
  encoder of \<open>serde_json\<close> and the time range of \<open>jiff\<close>, and the policies of the adapter
  registry are fields of the argument \<open>env\<close>.
\<close>

subsection \<open>Files and errors\<close>

datatype edge_error =
    EE_Usage
  | EE_Telemetry
  | EE_Run
  | EE_Quota quota_error
  | EE_Config
  | EE_Fs
  | EE_Encode
  | EE_Read
  | EE_Permissions
  | EE_Time
  | EE_Adapter
  | EE_TooLarge
  | EE_HistoryTooLarge
  | EE_Display string
  | EE_Path

datatype 'a stored = Decoded 'a | Undecodable | Unreadable edge_error

type_synonym 'a files = "(string \<times> 'a stored) list"

text \<open>An entry that is no private directory refuses to open with its error.\<close>

datatype quota_entry = AccountDir "account_record files" | OtherEntry edge_error

record quota_store =
  ks_private :: bool
  ks_quota :: "(string \<times> quota_entry) list"
  ks_readiness :: "(string \<times> readiness_file files) list"
  ks_report :: "quota_report stored option"

datatype publication = Durable | VisibleDurabilityUnconfirmed edge_error

fun require_durable :: "publication \<Rightarrow> edge_error + unit" where
  "require_durable Durable = Inr ()"
| "require_durable (VisibleDurabilityUnconfirmed sync_error) = Inl sync_error"

record store_io =
  io_quota_dir :: "edge_error + bool"
  io_lock :: "edge_error + unit"
  io_mkdir :: bool
  io_child :: "edge_error + unit"
  io_write :: "edge_error + publication"
  io_unlink :: "edge_error + unit"
  io_sync :: "edge_error + unit"
  io_rmdir :: bool
  io_open_readiness :: "edge_error + unit"
  io_unlink_readiness :: "edge_error + unit"
  io_sync_readiness :: "edge_error + unit"
  io_rmdir_readiness :: bool
  io_write_readiness :: "edge_error + publication"
  io_write_report :: "edge_error + publication"
  io_rmdir_orphan :: "string \<Rightarrow> bool"

record store_env =
  env_encode_record :: "account_record \<Rightarrow> edge_error + nat"
  env_encode_readiness :: "readiness_file \<Rightarrow> edge_error + nat"
  env_encode_report :: "quota_report \<Rightarrow> edge_error + nat"
  env_in_range :: "i64 \<Rightarrow> bool"
  env_policies :: "quota_policy list"

abbreviation MAX_RECORD_BYTES :: nat where "MAX_RECORD_BYTES \<equiv> 1048576"
abbreviation HISTORY_DIRECTORY :: string where "HISTORY_DIRECTORY \<equiv> ''history''"

definition of_quota :: "quota_error + 'a \<Rightarrow> edge_error + 'a" where
  "of_quota r = (case r of Inl e \<Rightarrow> Inl (EE_Quota e) | Inr x \<Rightarrow> Inr x)"

subsection \<open>Reading account records\<close>

definition account_decode :: "account_record stored \<Rightarrow> edge_error + account_record" where
  "account_decode content = (case content of
      Decoded r \<Rightarrow> of_quota (res_bind (record_validate r) (\<lambda>_. Inr r))
    | Undecodable \<Rightarrow> Inl (EE_Quota QE_Record)
    | Unreadable e \<Rightarrow> Inl e)"

definition file_adapter :: "string \<Rightarrow> string option" where
  "file_adapter file = (case strip_suffix ''.json'' file of
      Some s \<Rightarrow> if component s then Some s else None | None \<Rightarrow> None)"

fun read_files ::
  "string \<Rightarrow> account_record list \<Rightarrow> account_record files \<Rightarrow> edge_error + account_record list"
where
  "read_files key records [] = Inr records"
| "read_files key records ((file, content) # fs) =
     (if prefix ''.'' file then read_files key records fs
      else res_bind (ok_or (EE_Quota (QE_Invalid ''snapshot path'')) (file_adapter file)) (\<lambda>name.
        res_bind (account_decode content) (\<lambda>r.
          if acc_adapter (ar_account r) \<noteq> name \<or> acc_key (ar_account r) \<noteq> key
          then Inl (EE_Quota (QE_Invalid ''snapshot path identity''))
          else if MAX_ACCOUNTS < length (records @ [r])
          then Inl (EE_Quota (QE_Invalid ''account bound''))
          else read_files key (records @ [r]) fs)))"

definition skipped :: "string \<Rightarrow> bool" where
  "skipped entry \<longleftrightarrow> entry = ''report.json'' \<or> entry = ''quota.lock'' \<or> entry = HISTORY_DIRECTORY
     \<or> prefix ''.'' entry"

fun read_entries ::
  "account_record list \<Rightarrow> (string \<times> quota_entry) list \<Rightarrow> edge_error + account_record list"
where
  "read_entries records [] = Inr records"
| "read_entries records ((key, entry) # es) =
     (if skipped key then read_entries records es
      else if \<not> component key then Inl (EE_Quota (QE_Invalid ''account directory''))
      else (case entry of
              OtherEntry e \<Rightarrow> Inl e
            | AccountDir files \<Rightarrow>
                res_bind (read_files key records files) (\<lambda>records. read_entries records es)))"

definition sort_id :: "account_record \<Rightarrow> string \<times> string" where
  "sort_id r = (acc_adapter (ar_account r), acc_key (ar_account r))"

definition read_records :: "quota_store \<Rightarrow> edge_error + account_record list" where
  "read_records ks =
     (if \<not> ks_private ks then Inl EE_Permissions
      else res_bind (read_entries [] (ks_quota ks)) (\<lambda>records. Inr (sort_key sort_id records)))"

subsection \<open>Reading readiness\<close>

definition open_readiness_account ::
  "store_io \<Rightarrow> quota_store \<Rightarrow> string \<Rightarrow> edge_error + readiness_file files option"
where
  "open_readiness_account io ks key =
     res_bind (io_open_readiness io) (\<lambda>_. Inr (map_of (ks_readiness ks) key))"

definition readiness_decode ::
  "readiness_file stored \<Rightarrow> string \<Rightarrow> string \<Rightarrow> edge_error + readiness_file"
where
  "readiness_decode content adapter key = (case content of
      Decoded f \<Rightarrow> of_quota (res_bind (file_validate f adapter key) (\<lambda>_. Inr f))
    | Undecodable \<Rightarrow> Inl (EE_Quota (QE_Invalid ''readiness record''))
    | Unreadable e \<Rightarrow> Inl e)"

definition read_readiness_file ::
  "readiness_file files \<Rightarrow> string \<Rightarrow> string \<Rightarrow> edge_error + readiness_file option"
where
  "read_readiness_file files adapter key = (case map_of files (adapter @ ''.json'') of
      None \<Rightarrow> Inr None
    | Some content \<Rightarrow> res_bind (readiness_decode content adapter key) (\<lambda>f. Inr (Some f)))"

definition recorded_readiness_file ::
  "store_io \<Rightarrow> quota_store \<Rightarrow> string \<Rightarrow> string \<Rightarrow> edge_error + readiness_file option"
where
  "recorded_readiness_file io ks adapter key =
     (if \<not> component adapter \<or> \<not> component key
      then Inl (EE_Quota (QE_Invalid ''readiness scope''))
      else res_bind (open_readiness_account io ks key) (\<lambda>dir.
        case dir of None \<Rightarrow> Inr None | Some files \<Rightarrow> read_readiness_file files adapter key))"

datatype login_evidence = Verified i64 | Unverified i64

fun observed_at :: "login_evidence \<Rightarrow> i64" where
  "observed_at (Verified at) = at"
| "observed_at (Unverified at) = at"

definition superseded_by_probe :: "readiness_scope \<Rightarrow> login_evidence \<Rightarrow> route_readiness \<Rightarrow> bool" where
  "superseded_by_probe scope reprobe r \<longleftrightarrow>
     rs_host (rr_scope r) = rs_host scope \<and> rs_adapter (rr_scope r) = rs_adapter scope
     \<and> rs_account_key (rr_scope r) = rs_account_key scope
     \<and> rr_observed r \<le> observed_at reprobe
     \<and> (rr_reason r \<in> {Some RR_SignedOut, Some RR_LoginExpired}
        \<or> ((case reprobe of Verified _ \<Rightarrow> True | Unverified _ \<Rightarrow> False)
            \<and> rr_reason r = Some RR_AccountMismatch))"

definition forget_login ::
  "readiness_scope \<Rightarrow> login_evidence \<Rightarrow> readiness_file \<Rightarrow> readiness_file"
where
  "forget_login scope reprobe f = f\<lparr>
     fi_records := filter (\<lambda>r. \<not> superseded_by_probe scope reprobe r) (fi_records f),
     fi_login := (if is_some_and (fi_login f) (\<lambda>lo.
                       rs_host (lo_scope lo) = rs_host scope
                     \<and> rs_adapter (lo_scope lo) = rs_adapter scope
                     \<and> rs_account_key (lo_scope lo) = rs_account_key scope
                     \<and> lo_observed lo \<le> observed_at reprobe)
                  then None else fi_login f)\<rparr>"

definition read_readiness_after_probe ::
  "store_env \<Rightarrow> store_io \<Rightarrow> quota_store \<Rightarrow> readiness_scope \<Rightarrow> i64 \<Rightarrow> login_evidence option \<Rightarrow> readiness_read"
where
  "read_readiness_after_probe env io ks scope now reprobe =
     (if \<not> component (rs_adapter scope) \<or> \<not> component (rs_account_key scope)
      then read_unknown RR_InvalidEvidence
      else (case recorded_readiness_file io ks (rs_adapter scope) (rs_account_key scope) of
              Inl _ \<Rightarrow> read_unknown RR_InvalidEvidence
            | Inr None \<Rightarrow> read_absent
            | Inr (Some f) \<Rightarrow>
                readiness_get (env_in_range env)
                  (case reprobe of None \<Rightarrow> f | Some p \<Rightarrow> forget_login scope p f) scope now))"

definition read_readiness ::
  "store_env \<Rightarrow> store_io \<Rightarrow> quota_store \<Rightarrow> readiness_scope \<Rightarrow> i64 \<Rightarrow> readiness_read"
where
  "read_readiness env io ks scope now = read_readiness_after_probe env io ks scope now None"

subsection \<open>Publishing readiness\<close>

definition probe_interval :: "quota_policy list \<Rightarrow> string \<Rightarrow> u64" where
  "probe_interval policies adapter = (case List.find (\<lambda>p. qp_adapter p = adapter) policies of
      None \<Rightarrow> 300 | Some p \<Rightarrow> qp_timer_seconds p)"

definition probed_login :: "update_intent \<Rightarrow> i64 \<Rightarrow> i64 option \<Rightarrow> u64 \<Rightarrow> login_expiry_observation" where
  "probed_login ui now expiry seconds =
     \<lparr>lo_scope = \<lparr>rs_host = LOCAL_HOST, rs_adapter = acc_adapter (ui_account ui),
        rs_account_key = acc_key (ui_account ui), rs_route = ACCOUNT_ROUTE\<rparr>,
      lo_observed = now,
      lo_valid_until = i64_saturating_add now (unwrap_or I64_MAX (i64_try_from (max seconds 1))),
      lo_expires = expiry\<rparr>"

text \<open>The file that the intent and the current file give.\<close>

definition updated_readiness ::
  "store_env \<Rightarrow> update_intent \<Rightarrow> i64 \<Rightarrow> readiness_file option \<Rightarrow> quota_error + readiness_file"
where
  "updated_readiness env ui now current =
     (let f = unwrap_or readiness_default current;
          adapter = acc_adapter (ui_account ui)
      in case ui_replacement ui of
           None \<Rightarrow> Inr (f\<lparr>fi_records := [], fi_login := None\<rparr>)
         | Some record \<Rightarrow>
             res_bind (case ui_readiness_probe_result ui of
                         None \<Rightarrow> Inr f
                       | Some reason \<Rightarrow>
                           sync_probe_result f record LOCAL_HOST now
                             (probe_interval (env_policies env) adapter) reason) (\<lambda>f1.
             let f2 = (case ui_login_probe_expiry ui of
                         None \<Rightarrow> f1
                       | Some (expiry, seconds) \<Rightarrow> f1\<lparr>fi_login := Some (probed_login ui now expiry seconds)\<rparr>)
             in sync_refusals (env_in_range env) f2 record LOCAL_HOST
                  \<lparr>adm_policies = env_policies env, adm_now = now, adm_records = [record], adm_pools = []\<rparr>))"

text \<open>A damaged file is rebuilt from the account record.\<close>

definition current_readiness ::
  "readiness_file files option \<Rightarrow> string \<Rightarrow> string \<Rightarrow> edge_error + readiness_file option"
where
  "current_readiness existing adapter key = (case existing of
      None \<Rightarrow> Inr None
    | Some files \<Rightarrow>
        (case read_readiness_file files adapter key of
           Inr f \<Rightarrow> Inr f
         | Inl (EE_Quota _) \<Rightarrow> Inr None
         | Inl e \<Rightarrow> Inl e))"

text \<open>Removing a file also removes its directory when that leaves it empty.\<close>

definition remove_file :: "bool \<Rightarrow> string \<Rightarrow> string \<Rightarrow> 'a files \<Rightarrow> (string \<times> 'a files) list \<Rightarrow> (string \<times> 'a files) list"
where
  "remove_file rmdir key name files dir =
     (let rest = AList.delete name files
      in if rmdir \<and> rest = [] then AList.delete key dir else AList.update key rest dir)"

definition sync_readiness ::
  "store_env \<Rightarrow> store_io \<Rightarrow> quota_store \<Rightarrow> update_intent \<Rightarrow> i64 \<Rightarrow> (edge_error + unit) \<times> quota_store"
where
  "sync_readiness env io ks ui now =
     (let adapter = acc_adapter (ui_account ui);
          key = acc_key (ui_account ui);
          name = adapter @ ''.json''
      in case open_readiness_account io ks key of
           Inl e \<Rightarrow> (Inl e, ks)
         | Inr existing \<Rightarrow>
           (case current_readiness existing adapter key of
              Inl e \<Rightarrow> (Inl e, ks)
            | Inr current \<Rightarrow>
              (case updated_readiness env ui now current of
                 Inl e \<Rightarrow> (Inl (EE_Quota e), ks)
               | Inr f \<Rightarrow>
                   if fi_records f = [] \<and> fi_login f = None
                   then (case existing of
                           None \<Rightarrow> (Inr (), ks)
                         | Some files \<Rightarrow>
                             (case (if map_of files name = None then Inr () else io_unlink_readiness io) of
                                Inl e \<Rightarrow> (Inl e, ks)
                              | Inr _ \<Rightarrow>
                                  (io_sync_readiness io, ks\<lparr>ks_readiness :=
                                     remove_file (io_rmdir_readiness io) key name files (ks_readiness ks)\<rparr>)))
                   else if current = Some f then (Inr (), ks)
                   else (case env_encode_readiness env f of
                           Inl e \<Rightarrow> (Inl e, ks)
                         | Inr len \<Rightarrow>
                             if MAX_RECORD_BYTES < len
                             then (Inl (EE_Quota (QE_Invalid ''readiness bound'')), ks)
                             else (case io_write_readiness io of
                                     Inl e \<Rightarrow> (Inl e, ks)
                                   | Inr published \<Rightarrow>
                                       (require_durable published,
                                        ks\<lparr>ks_readiness := AList.update key
                                          (AList.update name (Decoded f) (unwrap_or [] existing))
                                          (ks_readiness ks)\<rparr>))))))"

subsection \<open>Writing an account record\<close>

text \<open>\<open>child\<close>: create the account directory unless it exists, and open it.\<close>

definition child ::
  "store_io \<Rightarrow> (string \<times> quota_entry) list \<Rightarrow> string
   \<Rightarrow> (edge_error + account_record files) \<times> (string \<times> quota_entry) list"
where
  "child io dir key =
     (let made = (if map_of dir key = None \<and> (io_mkdir io \<or> is_ok (io_child io))
                  then dir @ [(key, AccountDir [])] else dir)
      in (res_bind (io_child io) (\<lambda>_. case map_of made key of
             Some (AccountDir files) \<Rightarrow> Inr files
           | Some (OtherEntry e) \<Rightarrow> Inl e
           | None \<Rightarrow> Inl EE_Fs), made))"

definition same_id :: "account_scope \<Rightarrow> account_record \<Rightarrow> bool" where
  "same_id account r \<longleftrightarrow> acc_adapter (ar_account r) = acc_adapter account
     \<and> acc_key (ar_account r) = acc_key account"

definition write_intent ::
  "store_env \<Rightarrow> store_io \<Rightarrow> i64 \<Rightarrow> quota_store \<Rightarrow> update_intent \<Rightarrow> account_record list
   \<Rightarrow> (edge_error + unit) \<times> quota_store \<times> account_record list"
where
  "write_intent env io now ks ui records =
     (let pos = position (same_id (ui_account ui)) records;
          key = acc_key (ui_account ui);
          name = acc_adapter (ui_account ui) @ ''.json''
      in case of_quota (intent_check ui (map_option (\<lambda>p. records ! p) pos)) of
           Inl e \<Rightarrow> (Inl e, ks, records)
         | Inr _ \<Rightarrow>
           (case child io (ks_quota ks) key of
              (Inl e, dir) \<Rightarrow> (Inl e, ks\<lparr>ks_quota := dir\<rparr>, records)
            | (Inr files, dir) \<Rightarrow>
              (case ui_replacement ui of
                 Some record \<Rightarrow>
                   (case env_encode_record env record of
                      Inl e \<Rightarrow> (Inl e, ks\<lparr>ks_quota := dir\<rparr>, records)
                    | Inr len \<Rightarrow>
                        if MAX_RECORD_BYTES < len
                        then (Inl (EE_Quota (QE_Invalid ''record bound'')), ks\<lparr>ks_quota := dir\<rparr>, records)
                        else (case io_write io of
                                Inl e \<Rightarrow> (Inl e, ks\<lparr>ks_quota := dir\<rparr>, records)
                              | Inr published \<Rightarrow>
                                  let ks1 = ks\<lparr>ks_quota := AList.update key
                                        (AccountDir (AList.update name (Decoded record) files)) dir\<rparr>
                                  in (case require_durable published of
                                        Inl e \<Rightarrow> (Inl e, ks1, records)
                                      | Inr _ \<Rightarrow>
                                          (Inr (), snd (sync_readiness env io ks1 ui now),
                                           (case pos of Some p \<Rightarrow> records[p := record]
                                            | None \<Rightarrow> records @ [record])))))
               | None \<Rightarrow>
                   (case (if map_of files name = None then Inl EE_Fs else io_unlink io) of
                      Inl e \<Rightarrow> (Inl e, ks\<lparr>ks_quota := dir\<rparr>, records)
                    | Inr _ \<Rightarrow>
                        let rest = AList.delete name files;
                            unlinked = ks\<lparr>ks_quota := AList.update key (AccountDir rest) dir\<rparr>
                        in (case io_sync io of
                              Inl e \<Rightarrow> (Inl e, unlinked, records)
                            | Inr _ \<Rightarrow>
                                let ks1 = (if io_rmdir io \<and> rest = []
                                           then ks\<lparr>ks_quota := AList.delete key dir\<rparr> else unlinked)
                                in (Inr (), snd (sync_readiness env io ks1 ui now),
                                    (case pos of Some p \<Rightarrow> take p records @ drop (Suc p) records
                                     | None \<Rightarrow> records)))))))"

subsection \<open>Evidence from provider events\<close>

text \<open>The account a launched route names; \<open>what\<close> is the kind of evidence in the error.\<close>

definition route_scope :: "string \<Rightarrow> route_record \<Rightarrow> quota_error + (string \<times> account_scope)" where
  "route_scope what route =
     res_bind (ok_or (QE_Invalid (what @ '' route'')) (rt_provider route)) (\<lambda>adapter.
     res_bind (ok_or (QE_Invalid (what @ '' route'')) (rt_model route)) (\<lambda>model.
     res_bind (ok_or (QE_Invalid (what @ '' account'')) (rt_account_key route)) (\<lambda>key.
     res_bind (ok_or (QE_Invalid (what @ '' account label'')) (rt_account_label route)) (\<lambda>label.
     let account = \<lparr>acc_adapter = adapter, acc_key = key, acc_label = label\<rparr>
     in res_bind (scope_validate account) (\<lambda>_. Inr (model, account))))))"

definition locked_records :: "store_io \<Rightarrow> quota_store \<Rightarrow> edge_error + account_record list" where
  "locked_records io ks = res_bind (io_lock io) (\<lambda>_. read_records ks)"

definition stored_scope :: "account_scope \<Rightarrow> account_record option \<Rightarrow> account_scope" where
  "stored_scope account current = (case current of None \<Rightarrow> account | Some r \<Rightarrow> ar_account r)"

definition apply_intent ::
  "store_env \<Rightarrow> store_io \<Rightarrow> i64 \<Rightarrow> quota_store \<Rightarrow> update_intent \<Rightarrow> account_record list
   \<Rightarrow> (edge_error + unit) \<times> quota_store"
where
  "apply_intent env io wall ks ui records =
     (case write_intent env io wall ks ui records of (res, ks', _) \<Rightarrow> (res, ks'))"

definition replayed :: "string \<Rightarrow> string \<Rightarrow> string option \<Rightarrow> i64 \<Rightarrow> account_record \<Rightarrow> bool" where
  "replayed adapter model pool now r \<longleftrightarrow>
     list_ex (\<lambda>f. rf_model f = unwrap_or model (strip_prefix (adapter @ ''/'') model)
       \<and> rf_pool f = pool \<and> now \<le> rf_observed f) (ar_refusals r)"

definition persist_provider_refusal_once ::
  "store_env \<Rightarrow> store_io \<Rightarrow> i64 \<Rightarrow> quota_store \<Rightarrow> route_record \<Rightarrow> string option \<Rightarrow> i64 \<Rightarrow> i64 option
   \<Rightarrow> bool \<Rightarrow> (edge_error + unit) \<times> quota_store"
where
  "persist_provider_refusal_once env io wall ks route pool now resets replay =
     (case res_bind (of_quota (route_scope ''provider refusal'' route)) (\<lambda>scope.
             res_bind (locked_records io ks) (\<lambda>records. Inr (scope, records))) of
        Inl e \<Rightarrow> (Inl e, ks)
      | Inr ((model, account), records) \<Rightarrow>
          let current = List.find (same_id account) records
          in if replay \<and> is_some_and current (replayed (acc_adapter account) model pool now)
             then (Inr (), ks)
             else (case of_quota (record_refusal current (stored_scope account current) model pool now resets) of
                     Inl e \<Rightarrow> (Inl e, ks)
                   | Inr ui \<Rightarrow> apply_intent env io wall ks ui records))"

definition persist_provider_refusal ::
  "store_env \<Rightarrow> store_io \<Rightarrow> i64 \<Rightarrow> quota_store \<Rightarrow> route_record \<Rightarrow> string option \<Rightarrow> i64 \<Rightarrow> i64 option
   \<Rightarrow> (edge_error + unit) \<times> quota_store"
where
  "persist_provider_refusal env io wall ks route pool now resets =
     persist_provider_refusal_once env io wall ks route pool now resets False"

definition persist_capacity_cooldown ::
  "store_env \<Rightarrow> store_io \<Rightarrow> i64 \<Rightarrow> quota_store \<Rightarrow> route_record \<Rightarrow> i64 \<Rightarrow> u64
   \<Rightarrow> (edge_error + unit) \<times> quota_store"
where
  "persist_capacity_cooldown env io wall ks route now duration_seconds =
     (if duration_seconds = 0 then (Inr (), ks)
      else case res_bind (of_quota (route_scope ''capacity cooldown'' route)) (\<lambda>scope.
             res_bind (locked_records io ks) (\<lambda>records. Inr (scope, records))) of
        Inl e \<Rightarrow> (Inl e, ks)
      | Inr ((model, account), records) \<Rightarrow>
          let current = List.find (same_id account) records
          in (case of_quota (record_capacity_cooldown current (stored_scope account current) model now
                               duration_seconds) of
                Inl e \<Rightarrow> (Inl e, ks)
              | Inr None \<Rightarrow> (Inr (), ks)
              | Inr (Some ui) \<Rightarrow> apply_intent env io wall ks ui records))"

text \<open>The record after a provider accepted the account's login.\<close>

definition verified_record :: "account_record \<Rightarrow> i64 \<Rightarrow> account_record" where
  "verified_record r now =
     (let n1 = r\<lparr>ar_auth_verified := Some now, ar_auth_retry_pending := False, ar_claim := None\<rparr>;
          n2 = (if is_some_and (ar_last_error n1) needs_login
                then n1\<lparr>ar_last_error := None, ar_failures := 0, ar_backoff_until := None,
                        ar_last_attempt := None\<rparr>
                else n1)
      in if is_some_and (ar_snapshot n2) (\<lambda>s. qs_status s = QS_AuthRequired)
         then n2\<lparr>ar_snapshot := None\<rparr> else n2)"

definition success_intent ::
  "account_record option \<Rightarrow> account_record \<Rightarrow> i64 \<Rightarrow> quota_error + update_intent"
where
  "success_intent current base now =
     (let next = verified_record base now
      in res_bind (ok_or QE_NumberOutOfRange (u64_checked_add (ar_revision next) 1)) (\<lambda>revision.
         Inr \<lparr>ui_account = ar_account next, ui_expected = current,
              ui_replacement = Some (next\<lparr>ar_revision := revision\<rparr>),
              ui_readiness_probe_result = None, ui_login_probe_expiry = None\<rparr>))"

definition verified_row :: "i64 \<Rightarrow> account_row \<Rightarrow> account_row" where
  "verified_row now row =
     (let r1 = row\<lparr>aw_status := (if aw_snapshot row \<noteq> None then QS_Stale else QS_Unknown)\<rparr>;
          r2 = (if is_some_and (aw_snapshot r1) (\<lambda>s. qs_status s = QS_AuthRequired)
                then r1\<lparr>aw_snapshot := None, aw_status := QS_Unknown, aw_age := None\<rparr> else r1)
      in r2\<lparr>aw_error := None, aw_refreshing := False, aw_next_due := Some now\<rparr>)"

definition verified_report :: "string \<Rightarrow> string \<Rightarrow> i64 \<Rightarrow> quota_report \<Rightarrow> quota_report option" where
  "verified_report adapter key now rp =
     (let mine = (\<lambda>row. acc_adapter (aw_account row) = adapter \<and> acc_key (aw_account row) = key)
      in if now < rp_generated rp
            \<or> \<not> is_some_and (List.find mine (rp_accounts rp)) (\<lambda>row. aw_status row = QS_AuthRequired)
         then None
         else
           let rows = update_first mine (verified_row now) (rp_accounts rp);
               elapsed = unwrap_or U64_MAX (u64_try_from (i64_saturating_sub now (rp_generated rp)))
           in Some (rp\<lparr>rp_refreshing_ids := filter (\<lambda>i. i \<noteq> key @ ''/'' @ adapter) (rp_refreshing_ids rp),
                rp_next_due := list_min (List.map_filter aw_next_due rows),
                rp_accounts := map (\<lambda>row. row\<lparr>aw_age :=
                  map_option (\<lambda>age. u64_saturating_add age elapsed) (aw_age row)\<rparr>) rows,
                rp_generated := now\<rparr>))"

definition publish_verified ::
  "store_env \<Rightarrow> store_io \<Rightarrow> quota_store \<Rightarrow> string \<Rightarrow> string \<Rightarrow> i64 \<Rightarrow> (edge_error + unit) \<times> quota_store"
where
  "publish_verified env io ks adapter key now =
     (case ks_report ks of
        None \<Rightarrow> (Inr (), ks)
      | Some (Unreadable e) \<Rightarrow> (Inl e, ks)
      | Some Undecodable \<Rightarrow> (Inl EE_Encode, ks)
      | Some (Decoded rp) \<Rightarrow>
          (case verified_report adapter key now rp of
             None \<Rightarrow> (Inr (), ks)
           | Some rp' \<Rightarrow>
               (case res_bind (env_encode_report env rp') (\<lambda>_. io_write_report io) of
                  Inl e \<Rightarrow> (Inl e, ks)
                | Inr published \<Rightarrow> (require_durable published, ks\<lparr>ks_report := Some (Decoded rp')\<rparr>))))"

text \<open>The record a success starts from; \<open>None\<close> leaves the store alone.\<close>

definition success_base ::
  "route_record \<Rightarrow> string \<Rightarrow> string \<Rightarrow> account_record option \<Rightarrow> quota_error + account_record option"
where
  "success_base route adapter key current = (case current of
      Some r \<Rightarrow> Inr (Some r)
    | None \<Rightarrow>
        (case rt_account_label route of
           None \<Rightarrow> Inr None
         | Some label \<Rightarrow>
             let account = \<lparr>acc_adapter = adapter, acc_key = key, acc_label = label\<rparr>
             in res_bind (scope_validate account) (\<lambda>_. Inr (Some (empty_record account)))))"

definition persist_provider_success ::
  "store_env \<Rightarrow> store_io \<Rightarrow> i64 \<Rightarrow> quota_store \<Rightarrow> route_record \<Rightarrow> i64 \<Rightarrow> (edge_error + unit) \<times> quota_store"
where
  "persist_provider_success env io wall ks route now =
     (case (rt_provider route, rt_account_key route) of
        (Some adapter, Some key) \<Rightarrow>
          (case io_quota_dir io of
             Inl e \<Rightarrow> (Inl e, ks)
           | Inr False \<Rightarrow> (Inr (), ks)
           | Inr True \<Rightarrow>
             (case locked_records io ks of
                Inl e \<Rightarrow> (Inl e, ks)
              | Inr records \<Rightarrow>
                  let current = List.find (\<lambda>r. acc_adapter (ar_account r) = adapter
                                   \<and> acc_key (ar_account r) = key) records
                  in (case of_quota (success_base route adapter key current) of
                        Inl e \<Rightarrow> (Inl e, ks)
                      | Inr None \<Rightarrow> (Inr (), ks)
                      | Inr (Some base) \<Rightarrow>
                          if ar_last_error base = Some PF_AccountMismatch then (Inr (), ks)
                          else (case of_quota (success_intent current base now) of
                                  Inl e \<Rightarrow> (Inl e, ks)
                                | Inr ui \<Rightarrow>
                                    (case apply_intent env io wall ks ui records of
                                       (Inl e, ks') \<Rightarrow> (Inl e, ks')
                                     | (Inr _, ks') \<Rightarrow> publish_verified env io ks' adapter key now)))))
      | _ \<Rightarrow> (Inr (), ks))"

subsection \<open>The locked sections of a tick\<close>

text \<open>
  A tick takes the quota lock for each of these sections and releases it while it probes a
  provider. The credential metadata of each registered account, which the tick observes on the
  host, comes with the account; \<open>None\<close> is an inaccessible path. Each write has its own outcomes.
\<close>

definition ambient_auth :: "detection list \<Rightarrow> account_record \<Rightarrow> bool" where
  "ambient_auth ds next \<longleftrightarrow>
     list_ex (\<lambda>d. de_adapter d = acc_adapter (ar_account next) \<and> de_status d = QS_AuthRequired
       \<and> is_some_and (de_accounts d) (\<lambda>accounts. length accounts = 1
            \<and> acc_key (hd accounts) = acc_key (ar_account next))) ds"

definition metadata_intent ::
  "detection list \<Rightarrow> account_record option \<Rightarrow> account_record \<Rightarrow> credential_metadata list
   \<Rightarrow> quota_error + update_intent"
where
  "metadata_intent ds current base metadata =
     (let n1 = (if is_some_and (ar_last_error base) needs_login
                   \<or> is_some_and (ar_snapshot base) (\<lambda>s. qs_status s = QS_AuthRequired)
                   \<or> ambient_auth ds base
                then base\<lparr>ar_auth_retry_pending := True\<rparr> else base);
          n2 = n1\<lparr>ar_credential_metadata := metadata\<rparr>
      in res_bind (ok_or QE_NumberOutOfRange (u64_checked_add (ar_revision n2) 1)) (\<lambda>revision.
         Inr \<lparr>ui_account = ar_account n2, ui_expected = current,
              ui_replacement = Some (n2\<lparr>ar_revision := revision\<rparr>),
              ui_readiness_probe_result = None, ui_login_probe_expiry = None\<rparr>))"

type_synonym observed_registration = "account_scope \<times> credential_metadata list option \<times> store_io"

fun refresh_registrations ::
  "store_env \<Rightarrow> i64 \<Rightarrow> detection list \<Rightarrow> quota_store \<Rightarrow> account_record list \<Rightarrow> observed_registration list
   \<Rightarrow> (edge_error + unit) \<times> quota_store \<times> account_record list"
where
  "refresh_registrations env wall ds ks records [] = (Inr (), ks, records)"
| "refresh_registrations env wall ds ks records ((account, None, io) # rest) =
     refresh_registrations env wall ds ks records rest"
| "refresh_registrations env wall ds ks records ((account, Some metadata, io) # rest) =
     (let current = List.find (same_id account) records;
          base = unwrap_or (empty_record account) current
      in if ar_credential_metadata base = metadata
         then refresh_registrations env wall ds ks records rest
         else (case of_quota (metadata_intent ds current base metadata) of
                 Inl e \<Rightarrow> (Inl e, ks, records)
               | Inr ui \<Rightarrow>
                   (case write_intent env io wall ks ui records of
                      (Inl e, ks', records') \<Rightarrow> (Inl e, ks', records')
                    | (Inr _, ks', records') \<Rightarrow>
                        refresh_registrations env wall ds ks' records' rest)))"

definition refresh_auth_metadata ::
  "store_env \<Rightarrow> i64 \<Rightarrow> detection list \<Rightarrow> quota_tick \<Rightarrow> quota_store \<Rightarrow> account_record list
   \<Rightarrow> observed_registration list \<Rightarrow> (edge_error + unit) \<times> quota_store \<times> account_record list"
where
  "refresh_auth_metadata env wall ds tick ks records registrations =
     (if qt_trigger tick \<notin> {TG_Panel, TG_Wake, TG_Manual} then (Inr (), ks, records)
      else refresh_registrations env wall ds ks records
             (filter (\<lambda>(a, _). selected (qt_adapter tick) (acc_adapter a)) registrations))"

definition missing_readiness ::
  "store_io \<Rightarrow> quota_store \<Rightarrow> detection list \<Rightarrow> (string \<times> string) list"
where
  "missing_readiness io ks ds =
     map account_id (filter (\<lambda>a. recorded_readiness_file io ks (acc_adapter a) (acc_key a) = Inr None)
       (concat (List.map_filter de_accounts ds)))"

fun apply_drops ::
  "store_env \<Rightarrow> (nat \<Rightarrow> store_io) \<Rightarrow> i64 \<Rightarrow> quota_store \<Rightarrow> account_record list \<Rightarrow> update_intent list
   \<Rightarrow> (edge_error + unit) \<times> quota_store \<times> account_record list"
where
  "apply_drops env ios wall ks records [] = (Inr (), ks, records)"
| "apply_drops env ios wall ks records (ui # rest) =
     (case write_intent env (ios (length rest)) wall ks ui records of
        (Inl e, ks', records') \<Rightarrow> (Inl e, ks', records')
      | (Inr _, ks', records') \<Rightarrow> apply_drops env ios wall ks' records' rest)"

definition clean_orphan_dirs :: "store_io \<Rightarrow> quota_store \<Rightarrow> quota_store" where
  "clean_orphan_dirs io ks = ks\<lparr>ks_quota := filter (\<lambda>(key, entry).
     skipped key \<or> entry \<noteq> AccountDir [] \<or> \<not> io_rmdir_orphan io key) (ks_quota ks)\<rparr>"

text \<open>The first section: \<open>ios\<close> gives the outcomes of each drop, \<open>io\<close> those of the section.\<close>

definition tick_plan_section ::
  "store_env \<Rightarrow> store_io \<Rightarrow> i64 \<Rightarrow> quota_policy list \<Rightarrow> detection list \<Rightarrow> quota_tick \<Rightarrow> i64 \<Rightarrow> settings
   \<Rightarrow> observed_registration list \<Rightarrow> (nat \<Rightarrow> store_io) \<Rightarrow> quota_store \<Rightarrow> (edge_error + tick_plan) \<times> quota_store"
where
  "tick_plan_section env io wall policies ds tick now st registrations ios ks =
     (case locked_records io ks of
        Inl e \<Rightarrow> (Inl e, ks)
      | Inr records \<Rightarrow>
        (case refresh_auth_metadata env wall ds tick ks records registrations of
           (Inl e, ks1, _) \<Rightarrow> (Inl e, ks1)
         | (Inr _, ks1, records1) \<Rightarrow>
           (case of_quota (plan_tick_with_settings policies records1 ds tick now st
                             (missing_readiness io ks1 ds)) of
              Inl e \<Rightarrow> (Inl e, ks1)
            | Inr plan \<Rightarrow>
              (case apply_drops env ios wall ks1 records1 (tp_drops plan) of
                 (Inl e, ks2, _) \<Rightarrow> (Inl e, ks2)
               | (Inr _, ks2, _) \<Rightarrow> (Inr plan, clean_orphan_dirs io ks2)))))"

text \<open>Reserving an account before its probe; \<open>Inr None\<close> moves on to the next account.\<close>

definition tick_reserve ::
  "store_env \<Rightarrow> store_io \<Rightarrow> i64 \<Rightarrow> quota_policy list \<Rightarrow> quota_tick \<Rightarrow> account_scope \<Rightarrow> i64 \<Rightarrow> string
   \<Rightarrow> quota_store \<Rightarrow> (edge_error + account_record option option) \<times> quota_store"
where
  "tick_reserve env io wall policies tick account at token ks =
     (case locked_records io ks of
        Inl e \<Rightarrow> (Inl e, ks)
      | Inr records \<Rightarrow>
          let current = List.find (same_id account) records;
              missing = (recorded_readiness_file io ks (acc_adapter account) (acc_key account) = Inr None)
          in (case trigger_for_readiness policies current (qt_trigger tick) (qt_power tick) missing of
                Inl e \<Rightarrow> (Inl (EE_Quota e), ks)
              | Inr trigger \<Rightarrow>
                (case reserve policies current account at token trigger (qt_power tick) of
                   Inl QE_Conflict \<Rightarrow> (Inr None, ks)
                 | Inl e \<Rightarrow> (Inl (EE_Quota e), ks)
                 | Inr ui \<Rightarrow>
                     (case apply_intent env io wall ks ui records of
                        (Inl e, ks') \<Rightarrow> (Inl e, ks')
                      | (Inr _, ks') \<Rightarrow> (Inr (Some current), ks')))))"

definition probe_intent ::
  "quota_policy list \<Rightarrow> account_scope \<Rightarrow> readiness_reason option \<Rightarrow> i64 option \<Rightarrow> update_intent \<Rightarrow> update_intent"
where
  "probe_intent policies account reason login_expiry ui =
     (let sticky = reason \<noteq> None
            \<and> is_some_and (ui_replacement ui) (\<lambda>r. ar_last_error r = Some PF_AccountMismatch)
      in ui\<lparr>ui_readiness_probe_result := Some (if sticky then Some RR_AccountMismatch else reason),
            ui_login_probe_expiry := Some (login_expiry, probe_interval policies (acc_adapter account))\<rparr>)"

definition tick_complete ::
  "store_env \<Rightarrow> store_io \<Rightarrow> i64 \<Rightarrow> quota_policy list \<Rightarrow> account_scope \<Rightarrow> i64 \<Rightarrow> i64 \<Rightarrow> string \<Rightarrow> i64
   \<Rightarrow> probe_failure + quota_snapshot \<Rightarrow> readiness_reason option \<Rightarrow> i64 option
   \<Rightarrow> quota_store \<Rightarrow> (edge_error + unit) \<times> quota_store"
where
  "tick_complete env io wall policies account tick_deadline at token finished outcome reason login_expiry ks =
     (case locked_records io ks of
        Inl e \<Rightarrow> (Inl e, ks)
      | Inr records \<Rightarrow>
        (case of_quota (probe_deadline tick_deadline at) of
           Inl e \<Rightarrow> (Inl e, ks)
         | Inr deadline \<Rightarrow>
           (case (if finished \<le> deadline then List.find (same_id account) records else None) of
              None \<Rightarrow> (Inr (), ks)
            | Some r \<Rightarrow>
              (case complete r token finished outcome None of
                 Inl QE_Conflict \<Rightarrow> (Inr (), ks)
               | Inl e \<Rightarrow> (Inl (EE_Quota e), ks)
               | Inr ui \<Rightarrow>
                   apply_intent env io wall ks (probe_intent policies account reason login_expiry ui) records))))"

text \<open>The records the report is made of, with an empty one for each configured account.\<close>

fun add_configured :: "account_record list \<Rightarrow> account_scope list \<Rightarrow> account_record list" where
  "add_configured records [] = records"
| "add_configured records (account # rest) =
     add_configured (if list_ex (same_id account) records then records
                     else records @ [empty_record account]) rest"

subsection \<open>What the files of a store say\<close>

lemma of_quota_simps [simp]:
  "of_quota (Inl e) = Inl (EE_Quota e)" "of_quota (Inr x) = Inr x"
  by (simp_all add: of_quota_def)

lemma of_quota_Inr [simp, ok_iff]: "of_quota r = Inr x \<longleftrightarrow> r = Inr x"
  by (cases r) simp_all

definition file_record :: "string \<Rightarrow> account_record stored \<Rightarrow> account_record option" where
  "file_record file content = (if prefix ''.'' file then None else
     (case content of Decoded r \<Rightarrow> Some r | _ \<Rightarrow> None))"

definition entry_records :: "string \<times> quota_entry \<Rightarrow> account_record list" where
  "entry_records = (\<lambda>(key, entry). if skipped key then [] else
     (case entry of AccountDir files \<Rightarrow> List.map_filter (\<lambda>(f, c). file_record f c) files | OtherEntry _ \<Rightarrow> []))"

definition file_ok :: "string \<Rightarrow> string \<times> account_record stored \<Rightarrow> bool" where
  "file_ok key = (\<lambda>(file, content). prefix ''.'' file
     \<or> (\<exists>r. content = Decoded r \<and> valid_record r \<and> acc_key (ar_account r) = key
          \<and> file = acc_adapter (ar_account r) @ ''.json''))"

definition entry_ok :: "string \<times> quota_entry \<Rightarrow> bool" where
  "entry_ok = (\<lambda>(key, entry). skipped key
     \<or> (component key \<and> (\<exists>files. entry = AccountDir files \<and> list_all (file_ok key) files)))"

definition names_ok :: "(string \<times> quota_entry) list \<Rightarrow> bool" where
  "names_ok dir \<longleftrightarrow> distinct (map fst dir)
     \<and> list_all (\<lambda>(_, entry). case entry of AccountDir files \<Rightarrow> distinct (map fst files) | OtherEntry _ \<Rightarrow> True) dir"

lemma component_no_dot: "component s \<Longrightarrow> CHR ''.'' \<notin> set s"
  by (auto simp: component_def list_all_iff is_ascii_alphanumeric_def is_ascii_digit_def)

lemma component_json: "component s \<Longrightarrow> \<not> prefix ''.'' (s @ ''.json'')"
  using component_no_dot [of s] by (cases s) (auto simp: component_def)

lemma component_skipped: "component key \<Longrightarrow> skipped key \<longleftrightarrow> key = HISTORY_DIRECTORY"
  using component_no_dot [of key] by (cases key) (auto simp: skipped_def)

lemma valid_record_scope: "valid_record r \<Longrightarrow> valid_scope (ar_account r)"
  by (simp add: valid_record_iff)

lemma valid_scope_components: "valid_scope a \<Longrightarrow> component (acc_adapter a) \<and> component (acc_key a)"
  by (auto simp: valid_scope_def scope_validate_def split: if_splits)

lemma account_decode_ok [ok_iff]: "account_decode c = Inr r \<longleftrightarrow> c = Decoded r \<and> valid_record r"
  by (cases c) (auto simp: account_decode_def record_validate_Inr)

lemma file_adapter_Some: "file_adapter file = Some name \<longleftrightarrow> file = name @ ''.json'' \<and> component name"
  by (auto simp: file_adapter_def split: option.splits if_splits) (metis strip_suffix_Some option.distinct(1))

lemma read_files_ok:
  "read_files key records files = Inr out \<longleftrightarrow>
   list_all (file_ok key) files \<and> out = records @ List.map_filter (\<lambda>(f, c). file_record f c) files
   \<and> (List.map_filter (\<lambda>(f, c). file_record f c) files = [] \<or> length out \<le> MAX_ACCOUNTS)"
proof (induction files arbitrary: records)
  case Nil
  then show ?case by (auto simp: map_filter_simps)
next
  case (Cons fc files)
  obtain name content where fc: "fc = (name, content)" by (cases fc)
  show ?case
  proof (cases "prefix ''.'' name")
    case True
    then show ?thesis
      using Cons.IH [of records] by (simp add: fc file_ok_def file_record_def map_filter_simps)
  next
    case False
    have step: "read_files key records (fc # files) = Inr out \<longleftrightarrow>
        (\<exists>r. content = Decoded r \<and> valid_record r \<and> acc_key (ar_account r) = key
           \<and> name = acc_adapter (ar_account r) @ ''.json'' \<and> length (records @ [r]) \<le> MAX_ACCOUNTS
           \<and> read_files key (records @ [r]) files = Inr out)"
      using False valid_scope_components [OF valid_record_scope]
      by (auto simp: fc file_adapter_Some account_decode_ok)
    show ?thesis
    proof (cases "\<exists>r. content = Decoded r \<and> valid_record r \<and> acc_key (ar_account r) = key
           \<and> name = acc_adapter (ar_account r) @ ''.json''")
      case True
      then obtain r where r: "content = Decoded r" "valid_record r" "acc_key (ar_account r) = key"
        "name = acc_adapter (ar_account r) @ ''.json''" by blast
      then have "file_ok key fc" "file_record name content = Some r"
        using False by (auto simp: fc file_ok_def file_record_def)
      then show ?thesis
        unfolding step Cons.IH using r by (auto simp: fc map_filter_simps)
    next
      case bad: False
      with False have "\<not> file_ok key fc" by (auto simp: fc file_ok_def)
      with bad show ?thesis unfolding step by auto
    qed
  qed
qed

lemma bounded_append:
  "((xs = [] \<or> length (as @ xs) \<le> n) \<and> (ys = [] \<or> length ((as @ xs) @ ys) \<le> n)) \<longleftrightarrow>
   (xs @ ys = [] \<or> length (as @ xs @ ys) \<le> n)"
  by (cases ys) auto

lemma read_entries_ok:
  "read_entries records dir = Inr out \<longleftrightarrow>
   list_all entry_ok dir \<and> out = records @ concat (map entry_records dir)
   \<and> (concat (map entry_records dir) = [] \<or> length out \<le> MAX_ACCOUNTS)"
proof (induction dir arbitrary: records)
  case (Cons ke dir)
  obtain key entry where ke: "ke = (key, entry)" by (cases ke)
  show ?case
  proof (cases "skipped key")
    case True
    then show ?thesis using Cons.IH [of records] by (simp add: ke entry_ok_def entry_records_def)
  next
    case False
    show ?thesis
    proof (cases entry)
      case (OtherEntry e)
      with False show ?thesis by (auto simp: ke entry_ok_def)
    next
      case (AccountDir files)
      let ?fs = "List.map_filter (\<lambda>(f, c). file_record f c) files"
      have "read_entries records (ke # dir) = Inr out \<longleftrightarrow> component key
          \<and> (\<exists>out1. read_files key records files = Inr out1 \<and> read_entries out1 dir = Inr out)"
        using False by (auto simp: ke AccountDir)
      also have "\<dots> \<longleftrightarrow> component key \<and> list_all (file_ok key) files \<and> list_all entry_ok dir
          \<and> out = records @ ?fs @ concat (map entry_records dir)
          \<and> (?fs @ concat (map entry_records dir) = [] \<or> length out \<le> MAX_ACCOUNTS)"
        unfolding read_files_ok Cons.IH
        using bounded_append [of ?fs records MAX_ACCOUNTS "concat (map entry_records dir)"] by auto
      finally show ?thesis
        using False by (simp add: ke AccountDir entry_ok_def entry_records_def)
    qed
  qed
qed auto

lemma read_records_ok:
  assumes "read_records ks = Inr rs"
  shows "list_all entry_ok (ks_quota ks)" and "set rs = (\<Union>e \<in> set (ks_quota ks). set (entry_records e))"
  using assms by (auto simp: read_records_def read_entries_ok split: if_splits)

subsection \<open>The store as a register per account\<close>

text \<open>
  The abstract store: one register per adapter and key, updated by compare and swap. A directory
  stands for the registers its readable files hold.
\<close>

type_synonym registers = "string \<times> string \<Rightarrow> account_record option"

definition account_map :: "(string \<times> quota_entry) list \<Rightarrow> registers" where
  "account_map dir = (\<lambda>(adapter, key). if skipped key then None else
     (case map_of dir key of
        Some (AccountDir files) \<Rightarrow> Option.bind (map_of files (adapter @ ''.json'')) (file_record (adapter @ ''.json''))
      | _ \<Rightarrow> None))"

definition cas ::
  "string \<times> string \<Rightarrow> account_record option \<Rightarrow> account_record option \<Rightarrow> registers \<Rightarrow> registers option"
where
  "cas i expected replacement m = (if m i = expected then Some (m(i := replacement)) else None)"

lemma in_entry_records:
  "r \<in> set (entry_records (key, entry)) \<longleftrightarrow> \<not> skipped key
   \<and> (\<exists>files name content. entry = AccountDir files \<and> (name, content) \<in> set files \<and> file_record name content = Some r)"
  by (cases entry) (auto simp: entry_records_def set_map_filter Bex_def)

lemma account_map_iff:
  assumes "names_ok dir" "list_all entry_ok dir"
  shows "account_map dir i = Some r \<longleftrightarrow> (\<exists>e \<in> set dir. r \<in> set (entry_records e)) \<and> sort_id r = i"
proof -
  obtain adapter key where i: "i = (adapter, key)" by (cases i)
  show ?thesis
  proof
    assume L: "account_map dir i = Some r"
    then obtain files content where files: "\<not> skipped key" "map_of dir key = Some (AccountDir files)"
      "map_of files (adapter @ ''.json'') = Some content" "file_record (adapter @ ''.json'') content = Some r"
      by (auto simp: account_map_def i bind_eq_Some_conv split: option.splits quota_entry.splits if_splits)
    then have entry: "(key, AccountDir files) \<in> set dir" and "(adapter @ ''.json'', content) \<in> set files"
      by (auto dest: map_of_SomeD)
    moreover from this assms(2) files(1) have "file_ok key (adapter @ ''.json'', content)"
      by (auto simp: list_all_iff entry_ok_def)
    moreover have "r \<in> set (entry_records (key, AccountDir files))"
      unfolding in_entry_records using files(1,4) calculation(2) by blast
    ultimately show "(\<exists>e \<in> set dir. r \<in> set (entry_records e)) \<and> sort_id r = i"
      using files(4) by (auto simp: i sort_id_def file_ok_def file_record_def split: if_splits)
  next
    assume "(\<exists>e \<in> set dir. r \<in> set (entry_records e)) \<and> sort_id r = i"
    then obtain k files name content where e: "(k, AccountDir files) \<in> set dir" "\<not> skipped k"
      "(name, content) \<in> set files" "file_record name content = Some r" and id: "sort_id r = i"
      by (auto simp: in_entry_records)
    from e assms(2) have "file_ok k (name, content)"
      by (auto simp: list_all_iff entry_ok_def)
    with e(4) have n: "content = Decoded r" "acc_key (ar_account r) = k" "name = acc_adapter (ar_account r) @ ''.json''"
      by (auto simp: file_ok_def file_record_def split: if_splits)
    have "map_of dir k = Some (AccountDir files)" "map_of files name = Some content"
      using assms(1) e(1,3) by (auto simp: names_ok_def list_all_iff)
    with e n id show "account_map dir i = Some r"
      by (auto simp: account_map_def sort_id_def)
  qed
qed

lemma read_records_find:
  assumes "read_records ks = Inr rs" "names_ok (ks_quota ks)"
  shows "List.find (same_id a) rs = account_map (ks_quota ks) (account_id a)"
proof -
  note ok = read_records_ok [OF assms(1)]
  have iff: "account_map (ks_quota ks) (account_id a) = Some r \<longleftrightarrow> r \<in> set rs \<and> same_id a r" for r
    using account_map_iff [OF assms(2) ok(1)] ok(2) by (auto simp: same_id_def sort_id_def account_id_def)
  show ?thesis
  proof (cases "List.find (same_id a) rs")
    case None
    then have "account_map (ks_quota ks) (account_id a) \<noteq> Some r" for r
      unfolding iff by (auto simp: find_None_iff)
    with None show ?thesis by (cases "account_map (ks_quota ks) (account_id a)") auto
  next
    case (Some r)
    with iff [of r] find_Some_in [OF Some] show ?thesis by simp
  qed
qed

subsection \<open>What writing a file changes\<close>

lemma names_ok_update:
  assumes "names_ok dir" "distinct (map fst files)"
  shows "names_ok (AList.update key (AccountDir files) dir)"
proof -
  have "set (AList.update key (AccountDir files) dir) \<subseteq> insert (key, AccountDir files) (set dir)"
    by (induction dir) auto
  with assms show ?thesis
    unfolding names_ok_def list_all_iff
    by (auto simp: AList.distinct_update split: quota_entry.splits)
qed

lemma names_ok_files:
  "names_ok dir \<Longrightarrow> map_of dir key = Some (AccountDir files) \<Longrightarrow> distinct (map fst files)"
  by (auto simp: names_ok_def list_all_iff dest!: map_of_SomeD)

lemma names_ok_filter: "names_ok dir \<Longrightarrow> names_ok (filter p dir)"
  by (auto simp: names_ok_def list_all_iff distinct_map_filter)

lemma child_made:
  assumes "child io dir key = (res, dir')"
  shows "account_map dir' = account_map dir"
    and "names_ok dir \<Longrightarrow> names_ok dir'"
    and "list_all entry_ok dir \<Longrightarrow> component key \<Longrightarrow> list_all entry_ok dir'"
    and "res = Inr files \<Longrightarrow> map_of dir' key = Some (AccountDir files)"
proof -
  have dir': "dir' = dir \<or> (map_of dir key = None \<and> dir' = dir @ [(key, AccountDir [])])"
    using assms by (auto simp: child_def Let_def split: if_splits)
  have new: "account_map (dir @ [(key, AccountDir [])]) = account_map dir" if "map_of dir key = None"
    using that by (auto simp: account_map_def fun_eq_iff map_add_def split: option.splits quota_entry.splits)
  with dir' show "account_map dir' = account_map dir" by auto
  show "names_ok dir \<Longrightarrow> names_ok dir'"
    using dir' by (auto simp: names_ok_def map_of_eq_None_iff)
  show "list_all entry_ok dir \<Longrightarrow> component key \<Longrightarrow> list_all entry_ok dir'"
    using dir' by (auto simp: entry_ok_def)
  show "res = Inr files \<Longrightarrow> map_of dir' key = Some (AccountDir files)"
    using assms by (auto simp: child_def Let_def map_add_def split: if_splits option.splits quota_entry.splits)
qed

lemma account_map_update:
  assumes "map_of dir key = Some (AccountDir files)" "component adapter" "\<not> skipped key"
  shows "account_map (AList.update key (AccountDir (AList.update (adapter @ ''.json'') (Decoded r) files)) dir) =
    (account_map dir)((adapter, key) \<mapsto> r)"
proof
  fix i :: "string \<times> string"
  obtain a k where i: "i = (a, k)" by (cases i)
  show "account_map (AList.update key (AccountDir (AList.update (adapter @ ''.json'') (Decoded r) files)) dir) i =
      ((account_map dir)((adapter, key) \<mapsto> r)) i"
    using assms component_json [of adapter]
    by (auto simp: i account_map_def update_conv' file_record_def)
qed

lemma account_map_delete:
  assumes "map_of dir key = Some (AccountDir files)"
  shows "account_map (AList.update key (AccountDir (AList.delete (adapter @ ''.json'') files)) dir) =
    (account_map dir)((adapter, key) := None)"
proof
  fix i :: "string \<times> string"
  obtain a k where i: "i = (a, k)" by (cases i)
  show "account_map (AList.update key (AccountDir (AList.delete (adapter @ ''.json'') files)) dir) i =
      ((account_map dir)((adapter, key) := None)) i"
    using assms by (auto simp: i account_map_def update_conv' delete_conv')
qed

lemma account_map_rmdir:
  assumes "map_of dir key = Some (AccountDir files)" "AList.delete (adapter @ ''.json'') files = []"
  shows "account_map (AList.delete key dir) = (account_map dir)((adapter, key) := None)"
proof
  fix i :: "string \<times> string"
  obtain a k where i: "i = (a, k)" by (cases i)
  have "map_of files (a @ ''.json'') = None" if "a \<noteq> adapter"
    using that fun_cong [OF arg_cong [OF assms(2), of map_of], of "a @ ''.json''"] by (simp add: delete_conv')
  then show "account_map (AList.delete key dir) i = ((account_map dir)((adapter, key) := None)) i"
    using assms(1) by (auto simp: i account_map_def delete_conv')
qed

subsection \<open>Writing an intent refines compare and swap\<close>

lemma same_id_sort: "same_id a r \<longleftrightarrow> sort_id r = account_id a"
  by (auto simp: same_id_def sort_id_def account_id_def)

definition mirrors :: "registers \<Rightarrow> account_record list \<Rightarrow> bool" where
  "mirrors m records \<longleftrightarrow> distinct (map sort_id records) \<and> m = keyed sort_id records"

lemma mirrors_find: "mirrors m records \<Longrightarrow> List.find (same_id a) records = m (account_id a)"
  by (simp add: mirrors_def keyed_find same_id_sort [abs_def])

lemma mirrors_replace:
  assumes "mirrors m records" "sort_id r = i"
  shows "mirrors (m(i \<mapsto> r)) (case position (\<lambda>r. sort_id r = i) records of
    Some p \<Rightarrow> records[p := r] | None \<Rightarrow> records @ [r])"
proof (cases "position (\<lambda>r. sort_id r = i) records")
  case None
  with keyed_append [OF None _ assms(2)] assms(1) show ?thesis by (simp add: mirrors_def)
next
  case (Some p)
  with keyed_update [OF Some _ assms(2)] assms(1) show ?thesis by (simp add: mirrors_def)
qed

lemma mirrors_remove:
  assumes "mirrors m records"
  shows "mirrors (m(i := None)) (case position (\<lambda>r. sort_id r = i) records of
    Some p \<Rightarrow> take p records @ drop (Suc p) records | None \<Rightarrow> records)"
proof (cases "position (\<lambda>r. sort_id r = i) records")
  case None
  then have "m i = None"
    using assms by (auto simp: mirrors_def keyed_None position_None_iff)
  then have "m(i := None) = m" by (rule fun_upd_idem)
  with None assms show ?thesis by simp
next
  case (Some p)
  with keyed_remove [OF Some] assms show ?thesis unfolding mirrors_def by auto
qed

lemma file_ids:
  "list_all (file_ok key) files \<Longrightarrow> distinct (map fst files) \<Longrightarrow>
   distinct (map sort_id (List.map_filter (\<lambda>(f, c). file_record f c) files))
   \<and> (\<forall>r \<in> set (List.map_filter (\<lambda>(f, c). file_record f c) files).
        acc_key (ar_account r) = key \<and> acc_adapter (ar_account r) @ ''.json'' \<in> fst ` set files)"
proof (induction files)
  case (Cons fc files)
  obtain name content where fc: "fc = (name, content)" by (cases fc)
  show ?case
  proof (cases "file_record name content")
    case None
    with Cons show ?thesis by (auto simp: fc map_filter_simps)
  next
    case (Some r)
    with Cons.prems have "name = acc_adapter (ar_account r) @ ''.json''" "acc_key (ar_account r) = key"
      by (auto simp: fc file_ok_def file_record_def split: if_splits)
    with Cons Some show ?thesis by (auto simp: fc map_filter_simps sort_id_def)
  qed
qed (simp add: map_filter_simps)

lemma entry_ids:
  assumes "entry_ok e" "names_ok [e]"
  shows "distinct (map sort_id (entry_records e)) \<and> snd ` set (map sort_id (entry_records e)) \<subseteq> {fst e}"
proof (cases "skipped (fst e)")
  case True
  then show ?thesis by (cases e) (simp add: entry_records_def)
next
  case False
  with assms(1) obtain key files where e: "e = (key, AccountDir files)" "list_all (file_ok key) files"
    by (cases e) (auto simp: entry_ok_def)
  with assms(2) have "distinct (map fst files)" by (simp add: names_ok_def)
  from file_ids [OF e(2) this] False e(1) show ?thesis by (auto simp: entry_records_def sort_id_def)
qed

lemma disjoint_by_image: "f ` A \<subseteq> {x} \<Longrightarrow> f ` B \<subseteq> C \<Longrightarrow> x \<notin> C \<Longrightarrow> A \<inter> B = {}"
  by auto

lemma dir_ids:
  "list_all entry_ok dir \<Longrightarrow> names_ok dir \<Longrightarrow> distinct (map sort_id (concat (map entry_records dir)))
   \<and> snd ` set (map sort_id (concat (map entry_records dir))) \<subseteq> fst ` set dir"
proof (induction dir)
  case (Cons e dir)
  have "entry_ok e" "names_ok [e]" "names_ok dir" "fst e \<notin> fst ` set dir"
    using Cons.prems by (auto simp: names_ok_def)
  note head = this
  have e: "distinct (map sort_id (entry_records e))" "snd ` set (map sort_id (entry_records e)) \<subseteq> {fst e}"
    using entry_ids [OF head(1,2)] by blast+
  have t: "distinct (map sort_id (concat (map entry_records dir)))"
    "snd ` set (map sort_id (concat (map entry_records dir))) \<subseteq> fst ` set dir"
    using Cons.IH [OF _ head(3)] Cons.prems(1) by simp_all
  note disj = disjoint_by_image [OF e(2) t(2) head(4)]
  have "distinct (map sort_id (concat (map entry_records (e # dir))))"
    unfolding list.map concat.simps map_append distinct_append using e(1) t(1) disj by (intro conjI)
  moreover have "snd ` set (map sort_id (concat (map entry_records (e # dir)))) \<subseteq> fst ` set (e # dir)"
    unfolding list.map concat.simps map_append set_append image_Un list.set image_insert
    using e(2) t(2) by (rule Un_mono [of _ "{fst e}", unfolded insert_is_Un [symmetric]])
  ultimately show ?case ..
qed simp

lemma read_records_mirrors:
  assumes "read_records ks = Inr rs" "names_ok (ks_quota ks)"
  shows "mirrors (account_map (ks_quota ks)) rs"
proof -
  note ok = read_records_ok [OF assms(1)]
  have "rs = sort_key sort_id (concat (map entry_records (ks_quota ks)))"
    using assms(1) by (auto simp: read_records_def read_entries_ok split: if_splits)
  moreover have "distinct (map sort_id (concat (map entry_records (ks_quota ks))))"
    using dir_ids [OF ok(1) assms(2)] by blast
  ultimately have d: "distinct (map sort_id rs)"
    by (simp only: distinct_map distinct_sort set_sort)
  have "account_map (ks_quota ks) i = keyed sort_id rs i" for i
  proof -
    have "account_map (ks_quota ks) i = Some r \<longleftrightarrow> keyed sort_id rs i = Some r" for r
      using account_map_iff [OF assms(2) ok(1)] keyed_Some [OF d] ok(2) by auto
    then show ?thesis by (cases "keyed sort_id rs i"; cases "account_map (ks_quota ks) i") auto
  qed
  with d show ?thesis unfolding mirrors_def by blast
qed

lemma sync_readiness_keeps [simp]:
  "ks_quota (snd (sync_readiness env io ks ui now)) = ks_quota ks"
  "ks_private (snd (sync_readiness env io ks ui now)) = ks_private ks"
  "ks_report (snd (sync_readiness env io ks ui now)) = ks_report ks"
  by (simp_all add: sync_readiness_def Let_def split: sum.splits option.splits)

lemma intent_check_ok:
  assumes "intent_check ui cur = Inr ()"
  shows "cur = ui_expected ui" and "valid_scope (ui_account ui)"
    and "ui_replacement ui = Some r \<Longrightarrow> valid_record r \<and> sort_id r = account_id (ui_account ui)
      \<and> ar_revision r = revision_of cur + 1"
  using assms
  by (auto simp: intent_check_def scope_validate_Inr record_validate_Inr sort_id_def account_id_def
      revision_of_def split: if_splits option.splits)

text \<open>The ways a write ends: refused, failed before the change, or past it.\<close>

lemma write_intent_shape:
  assumes "write_intent env io now ks ui records = (res, ks', records')"
    and "cur = List.find (same_id (ui_account ui)) records"
    and "key = acc_key (ui_account ui)" and "name = acc_adapter (ui_account ui) @ ''.json''"
    and "pos = position (same_id (ui_account ui)) records"
  obtains (refused) e where "intent_check ui cur = Inl e" "res = Inl (EE_Quota e)" "ks' = ks"
    | (failed) opened e where "intent_check ui cur = Inr ()" "child io (ks_quota ks) key = (opened, ks_quota ks')"
        "res = Inl e" "ks_private ks' = ks_private ks"
    | (replaced) files dir r where "intent_check ui cur = Inr ()" "child io (ks_quota ks) key = (Inr files, dir)"
        "ui_replacement ui = Some r" "ks_private ks' = ks_private ks"
        "ks_quota ks' = AList.update key (AccountDir (AList.update name (Decoded r) files)) dir"
        "res = Inr () \<Longrightarrow> records' = (case pos of Some p \<Rightarrow> records[p := r] | None \<Rightarrow> records @ [r])"
    | (removed) files dir where "intent_check ui cur = Inr ()" "child io (ks_quota ks) key = (Inr files, dir)"
        "ui_replacement ui = None" "ks_private ks' = ks_private ks"
        "ks_quota ks' = AList.update key (AccountDir (AList.delete name files)) dir
          \<or> (AList.delete name files = [] \<and> ks_quota ks' = AList.delete key dir)"
        "res = Inr () \<Longrightarrow> records' = (case pos of Some p \<Rightarrow> take p records @ drop (Suc p) records | None \<Rightarrow> records)"
proof -
  have cur: "map_option ((!) records) pos = cur"
    unfolding assms(2,5) by (rule position_find)
  obtain opened dir where child: "child io (ks_quota ks) key = (opened, dir)" by (cases "child io (ks_quota ks) key")
  note w = assms(1) [unfolded write_intent_def Let_def assms(3-5) [symmetric] cur child prod.case]
  show thesis
  proof (cases "intent_check ui cur")
    case (Inl e)
    with w show thesis by (intro refused) auto
  next
    case ok: (Inr u)
    show thesis
    proof (cases opened)
      case (Inl e)
      with w ok child show thesis by (intro failed [of opened e]) auto
    next
      case (Inr files)
      note w = w [unfolded ok of_quota_simps sum.case Inr]
      show thesis
      proof (cases "ui_replacement ui")
        case (Some r)
        from w show thesis
          unfolding Some option.case
          using ok child Inr Some
          by (auto split: sum.splits if_splits intro: failed replaced)
      next
        case None
        from w show thesis
          unfolding None option.case
          using ok child Inr None
          by (auto split: sum.splits if_splits intro: failed removed)
      qed
    qed
  qed
qed

text \<open>What the sections of the program rely on: unique names, readable files, and what is read.\<close>

definition store_ok :: "quota_store \<Rightarrow> bool" where
  "store_ok ks \<longleftrightarrow> names_ok (ks_quota ks) \<and> list_all entry_ok (ks_quota ks)"

abbreviation registers_of :: "quota_store \<Rightarrow> registers" where
  "registers_of ks \<equiv> account_map (ks_quota ks)"

lemma entry_ok_update:
  assumes "list_all entry_ok dir" "component key" "list_all (file_ok key) files"
  shows "list_all entry_ok (AList.update key (AccountDir files) dir)"
proof -
  have "set (AList.update key (AccountDir files) dir) \<subseteq> insert (key, AccountDir files) (set dir)"
    by (induction dir) auto
  moreover have "entry_ok (key, AccountDir files)" using assms(2,3) by (simp add: entry_ok_def)
  ultimately show ?thesis using assms(1) by (auto simp: list_all_iff)
qed

lemma entry_ok_files:
  "list_all entry_ok dir \<Longrightarrow> map_of dir key = Some (AccountDir files) \<Longrightarrow> \<not> skipped key \<Longrightarrow>
   list_all (file_ok key) files"
  by (auto simp: list_all_iff entry_ok_def dest!: map_of_SomeD)

lemma file_ok_update:
  assumes "list_all (file_ok key) files" "valid_record r" "sort_id r = (adapter, key)"
  shows "list_all (file_ok key) (AList.update (adapter @ ''.json'') (Decoded r) files)"
proof -
  have "set (AList.update (adapter @ ''.json'') (Decoded r) files) \<subseteq>
      insert (adapter @ ''.json'', Decoded r) (set files)"
    by (induction files) auto
  moreover have "file_ok key (adapter @ ''.json'', Decoded r)"
    using assms(2,3) by (simp add: file_ok_def sort_id_def)
  ultimately show ?thesis using assms(1) by (auto simp: list_all_iff)
qed

lemma list_all_delete: "list_all p xs \<Longrightarrow> list_all p (AList.delete k xs)"
  by (auto simp: list_all_iff AList.delete_eq)

lemma distinct_delete: "distinct (map fst xs) \<Longrightarrow> distinct (map fst (AList.delete k xs))"
  by (simp add: AList.delete_eq distinct_map_filter)

lemma replaced_effect:
  assumes ks: "store_ok ks" and child: "child io (ks_quota ks) key = (Inr files, dir)"
    and key: "component key" "\<not> skipped key" and r: "valid_record r" "sort_id r = (adapter, key)"
    and new: "ks_quota ks' = AList.update key (AccountDir (AList.update (adapter @ ''.json'') (Decoded r) files)) dir"
  shows "store_ok ks' \<and> registers_of ks' = (registers_of ks)((adapter, key) \<mapsto> r)"
proof -
  note made = child_made [OF child]
  have names: "names_ok dir" and entries: "list_all entry_ok dir"
    and files: "map_of dir key = Some (AccountDir files)"
    using ks made(2,3,4) key(1) by (auto simp: store_ok_def)
  have "component adapter"
    using r valid_scope_components [OF valid_record_scope] by (auto simp: sort_id_def)
  then have "registers_of ks' = (registers_of ks)((adapter, key) \<mapsto> r)"
    unfolding new using account_map_update [OF files _ key(2)] made(1) by simp
  moreover have "store_ok ks'"
    unfolding store_ok_def new
    using names_ok_update [OF names] names_ok_files [OF names files]
      entry_ok_update [OF entries key(1)] file_ok_update [OF entry_ok_files [OF entries files key(2)] r]
    by (simp add: AList.distinct_update)
  ultimately show ?thesis by blast
qed

lemma removed_effect:
  assumes ks: "store_ok ks" and child: "child io (ks_quota ks) key = (Inr files, dir)"
    and key: "component key" "\<not> skipped key"
    and new: "ks_quota ks' = AList.update key (AccountDir (AList.delete (adapter @ ''.json'') files)) dir
      \<or> (AList.delete (adapter @ ''.json'') files = [] \<and> ks_quota ks' = AList.delete key dir)"
  shows "store_ok ks' \<and> registers_of ks' = (registers_of ks)((adapter, key) := None)"
proof -
  note made = child_made [OF child]
  have names: "names_ok dir" and entries: "list_all entry_ok dir"
    and files: "map_of dir key = Some (AccountDir files)"
    using ks made(2,3,4) key(1) by (auto simp: store_ok_def)
  have map: "registers_of ks' = (registers_of ks)((adapter, key) := None)"
    using new
  proof
    assume n: "ks_quota ks' = AList.update key (AccountDir (AList.delete (adapter @ ''.json'') files)) dir"
    show ?thesis unfolding n account_map_delete [OF files] made(1) by simp
  next
    assume n: "AList.delete (adapter @ ''.json'') files = [] \<and> ks_quota ks' = AList.delete key dir"
    then show ?thesis using account_map_rmdir [OF files, of adapter] made(1) by simp
  qed
  have "names_ok (ks_quota ks') \<and> list_all entry_ok (ks_quota ks')"
    using new
  proof
    assume n: "ks_quota ks' = AList.update key (AccountDir (AList.delete (adapter @ ''.json'') files)) dir"
    show ?thesis
      unfolding n
      using names_ok_update [OF names distinct_delete [OF names_ok_files [OF names files]]]
        entry_ok_update [OF entries key(1) list_all_delete [OF entry_ok_files [OF entries files key(2)]]]
      by blast
  next
    assume "AList.delete (adapter @ ''.json'') files = [] \<and> ks_quota ks' = AList.delete key dir"
    then show ?thesis
      using names_ok_filter [OF names] list_all_delete [OF entries] by (simp add: AList.delete_eq)
  qed
  with map show ?thesis by (simp add: store_ok_def)
qed

lemma write_intent_effect:
  assumes w: "write_intent env io now ks ui records = (res, ks', records')"
    and ks: "store_ok ks" and m: "mirrors (registers_of ks) records"
    and key: "acc_key (ui_account ui) \<noteq> HISTORY_DIRECTORY"
  shows "store_ok ks' \<and> ks_private ks' = ks_private ks
    \<and> (if registers_of ks' = registers_of ks \<and> res \<noteq> Inr () then True
       else intent_check ui (registers_of ks (account_id (ui_account ui))) = Inr ()
          \<and> registers_of ks' = (registers_of ks)(account_id (ui_account ui) := ui_replacement ui)
          \<and> (res = Inr () \<longrightarrow> mirrors (registers_of ks') records'))"
proof -
  let ?a = "ui_account ui"
  have cur: "List.find (same_id ?a) records = registers_of ks (account_id ?a)"
    using mirrors_find [OF m] .
  have id: "account_id ?a = (acc_adapter ?a, acc_key ?a)" by (simp add: account_id_def)
  have pos: "position (same_id ?a) records = position (\<lambda>r. sort_id r = account_id ?a) records"
    by (simp add: same_id_sort [abs_def])
  have comp: "component (acc_key ?a)" "\<not> skipped (acc_key ?a)"
    if "intent_check ui (registers_of ks (account_id ?a)) = Inr ()"
    using valid_scope_components [OF intent_check_ok(2) [OF that]] key component_skipped by auto
  from w cur [symmetric] refl refl refl show ?thesis
  proof (cases rule: write_intent_shape)
    case (refused e)
    with ks show ?thesis by simp
  next
    case (failed opened e)
    note made = child_made [OF failed(2)]
    have "store_ok ks'" using ks made(2,3) comp [OF failed(1)] by (simp add: store_ok_def)
    with failed made(1) show ?thesis by simp
  next
    case (replaced files dir r)
    note check = intent_check_ok(3) [OF replaced(1,3)]
    have eff: "store_ok ks' \<and> registers_of ks' = (registers_of ks)(account_id ?a \<mapsto> r)"
      using replaced_effect [OF ks replaced(2) comp [OF replaced(1)] _ _ replaced(5)] check id by simp
    have "mirrors (registers_of ks') records'" if "res = Inr ()"
      using mirrors_replace [OF m, of r "account_id ?a"] check
      unfolding replaced(6) [OF that] eff [THEN conjunct2] pos by blast
    with eff replaced(1,3,4) show ?thesis by simp
  next
    case (removed files dir)
    have eff: "store_ok ks' \<and> registers_of ks' = (registers_of ks)(account_id ?a := None)"
      using removed_effect [OF ks removed(2) comp [OF removed(1)] removed(5)] id by simp
    have "mirrors (registers_of ks') records'" if "res = Inr ()"
      using mirrors_remove [OF m, of "account_id ?a"]
      unfolding removed(6) [OF that] eff [THEN conjunct2] pos .
    with eff removed(1,3,4) show ?thesis by simp
  qed
qed


subsection \<open>Runs of the program over the store\<close>

text \<open>
  The abstract steps: a register receives a valid record with the next revision, or is dropped.
\<close>

inductive register_step :: "registers \<Rightarrow> registers \<Rightarrow> bool" where
  put: "valid_record r \<Longrightarrow> sort_id r = i \<Longrightarrow> ar_revision r = revision_of (m i) + 1 \<Longrightarrow>
    register_step m (m(i \<mapsto> r))"
| drop: "m i \<noteq> None \<Longrightarrow> register_step m (m(i := None))"

lemma write_intent_step:
  assumes "write_intent env io now ks ui records = (res, ks', records')"
    and "store_ok ks" and "mirrors (registers_of ks) records"
    and "acc_key (ui_account ui) \<noteq> HISTORY_DIRECTORY"
  shows "store_ok ks'" and "ks_private ks' = ks_private ks"
    and "register_step\<^sup>*\<^sup>* (registers_of ks) (registers_of ks')"
    and "res = Inr () \<Longrightarrow> mirrors (registers_of ks') records'"
proof -
  let ?i = "account_id (ui_account ui)"
  note eff = write_intent_effect [OF assms]
  show "store_ok ks'" "ks_private ks' = ks_private ks" "res = Inr () \<Longrightarrow> mirrors (registers_of ks') records'"
    using eff by auto
  show "register_step\<^sup>*\<^sup>* (registers_of ks) (registers_of ks')"
  proof (cases "registers_of ks' = registers_of ks")
    case False
    with eff have check: "intent_check ui (registers_of ks ?i) = Inr ()"
      and new: "registers_of ks' = (registers_of ks)(?i := ui_replacement ui)" by auto
    show ?thesis
    proof (cases "ui_replacement ui")
      case None
      with new False have "registers_of ks ?i \<noteq> None" by (auto simp: fun_upd_idem)
      with drop new None show ?thesis by (metis r_into_rtranclp)
    next
      case (Some r)
      with put [of r ?i "registers_of ks"] intent_check_ok(3) [OF check Some] new show ?thesis
        by (metis r_into_rtranclp)
    qed
  qed simp
qed

definition simulates :: "quota_store \<Rightarrow> quota_store \<Rightarrow> bool" where
  "simulates ks ks' \<longleftrightarrow> store_ok ks' \<and> ks_private ks' = ks_private ks
     \<and> register_step\<^sup>*\<^sup>* (registers_of ks) (registers_of ks')"

lemma simulates_refl: "store_ok ks \<Longrightarrow> simulates ks ks"
  by (simp add: simulates_def)

lemma simulates_trans: "simulates a b \<Longrightarrow> simulates b c \<Longrightarrow> simulates a c"
  unfolding simulates_def by (auto intro: rtranclp_trans)

lemma simulates_quota: "store_ok ks \<Longrightarrow> ks_quota ks' = ks_quota ks \<Longrightarrow> ks_private ks' = ks_private ks \<Longrightarrow> simulates ks ks'"
  by (simp add: simulates_def store_ok_def)

lemma locked_records_mirrors:
  "locked_records io ks = Inr records \<Longrightarrow> store_ok ks \<Longrightarrow> mirrors (registers_of ks) records"
  by (auto simp: locked_records_def store_ok_def intro: read_records_mirrors)

lemma write_intent_simulates:
  assumes "write_intent env io now ks ui records = (res, ks', records')" "store_ok ks"
    and "mirrors (registers_of ks) records" "acc_key (ui_account ui) \<noteq> HISTORY_DIRECTORY"
  shows "simulates ks ks'"
  using write_intent_step [OF assms] by (simp add: simulates_def)

lemma apply_intent_simulates:
  assumes "apply_intent env io wall ks ui records = (res, ks')" "store_ok ks"
    and "locked_records io' ks = Inr records" "acc_key (ui_account ui) \<noteq> HISTORY_DIRECTORY"
  shows "simulates ks ks'"
  using assms locked_records_mirrors [OF assms(3,2)]
  by (auto simp: apply_intent_def split: prod.splits intro: write_intent_simulates)

lemma found_key: "List.find (same_id a) records = Some r \<Longrightarrow> acc_key (ar_account r) = acc_key a"
  by (auto simp: same_id_def dest: find_Some_in)

lemma stored_scope_key: "acc_key (stored_scope a (List.find (same_id a) records)) = acc_key a"
  by (auto simp: stored_scope_def found_key split: option.splits)

lemma record_refusal_account:
  "record_refusal current account model pool now resets = Inr ui \<Longrightarrow> ui_account ui = account"
  using record_refusal_ok by (fastforce simp: Let_def)

lemma record_cooldown_account:
  "record_capacity_cooldown current account model now duration = Inr (Some ui) \<Longrightarrow> ui_account ui = account"
  using record_cooldown_ok by (fastforce simp: Let_def)

lemma route_scope_key: "route_scope what route = Inr (model, account) \<Longrightarrow> rt_account_key route = Some (acc_key account)"
  by (auto simp: route_scope_def Let_def)

lemma persist_provider_refusal_once_simulates:
  assumes "persist_provider_refusal_once env io wall ks route pool now resets replay = (res, ks')"
    and "store_ok ks" "rt_account_key route \<noteq> Some HISTORY_DIRECTORY"
  shows "simulates ks ks'"
proof (cases "res_bind (of_quota (route_scope ''provider refusal'' route)) (\<lambda>scope.
    res_bind (locked_records io ks) (\<lambda>records. Inr (scope, records)))")
  case (Inl e)
  with assms show ?thesis by (auto simp: persist_provider_refusal_once_def simulates_refl)
next
  case (Inr x)
  then obtain model account records where x: "x = ((model, account), records)"
    and scope: "route_scope ''provider refusal'' route = Inr (model, account)"
    and records: "locked_records io ks = Inr records" by (cases x) auto
  let ?cur = "List.find (same_id account) records"
  note body = assms(1) [unfolded persist_provider_refusal_once_def Inr x sum.case prod.case Let_def]
  show ?thesis
  proof (cases "ks' = ks")
    case False
    then obtain ui where ui: "record_refusal ?cur (stored_scope account ?cur) model pool now resets = Inr ui"
      and applied: "apply_intent env io wall ks ui records = (res, ks')"
      using body by (auto split: if_splits sum.splits)
    have "acc_key (ui_account ui) \<noteq> HISTORY_DIRECTORY"
      using record_refusal_account [OF ui] stored_scope_key [of account records] route_scope_key [OF scope]
        assms(3) by auto
    with applied assms(2) records show ?thesis by (rule apply_intent_simulates)
  qed (simp add: simulates_refl assms(2))
qed

lemma persist_capacity_cooldown_simulates:
  assumes "persist_capacity_cooldown env io wall ks route now duration = (res, ks')"
    and "store_ok ks" "rt_account_key route \<noteq> Some HISTORY_DIRECTORY"
  shows "simulates ks ks'"
proof (cases "res_bind (of_quota (route_scope ''capacity cooldown'' route)) (\<lambda>scope.
    res_bind (locked_records io ks) (\<lambda>records. Inr (scope, records)))")
  case (Inl e)
  with assms show ?thesis by (auto simp: persist_capacity_cooldown_def simulates_refl split: if_splits)
next
  case (Inr x)
  then obtain model account records where x: "x = ((model, account), records)"
    and scope: "route_scope ''capacity cooldown'' route = Inr (model, account)"
    and records: "locked_records io ks = Inr records" by (cases x) auto
  let ?cur = "List.find (same_id account) records"
  note body = assms(1) [unfolded persist_capacity_cooldown_def Inr x sum.case prod.case Let_def]
  show ?thesis
  proof (cases "ks' = ks")
    case False
    then obtain ui where ui: "record_capacity_cooldown ?cur (stored_scope account ?cur) model now duration = Inr (Some ui)"
      and applied: "apply_intent env io wall ks ui records = (res, ks')"
      using body by (auto split: if_splits sum.splits option.splits)
    have "acc_key (ui_account ui) \<noteq> HISTORY_DIRECTORY"
      using record_cooldown_account [OF ui] stored_scope_key [of account records] route_scope_key [OF scope]
        assms(3) by auto
    with applied assms(2) records show ?thesis by (rule apply_intent_simulates)
  qed (simp add: simulates_refl assms(2))
qed

lemma publish_verified_keeps:
  "publish_verified env io ks adapter key now = (res, ks') \<Longrightarrow>
   ks_quota ks' = ks_quota ks \<and> ks_private ks' = ks_private ks"
  by (auto simp: publish_verified_def split: option.splits stored.splits sum.splits)

lemma verified_record_account [simp]: "ar_account (verified_record r now) = ar_account r"
  by (simp add: verified_record_def Let_def)

lemma persist_provider_success_simulates:
  assumes "persist_provider_success env io wall ks route now = (res, ks')"
    and "store_ok ks" "rt_account_key route \<noteq> Some HISTORY_DIRECTORY"
  shows "simulates ks ks'"
proof (cases "ks' = ks")
  case False
  let ?cur = "\<lambda>adapter key records. List.find (\<lambda>r. acc_adapter (ar_account r) = adapter
      \<and> acc_key (ar_account r) = key) records"
  obtain adapter key records base ui res1 ks1 where key: "rt_account_key route = Some key"
    and records: "locked_records io ks = Inr records"
    and base: "success_base route adapter key (?cur adapter key records) = Inr (Some base)"
    and ui: "success_intent (?cur adapter key records) base now = Inr ui"
    and applied: "apply_intent env io wall ks ui records = (res1, ks1)"
    and last: "ks' = ks1 \<or> publish_verified env io ks1 adapter key now = (res, ks')"
    using assms(1) False unfolding persist_provider_success_def
    by (auto simp: Let_def split: option.splits sum.splits bool.splits if_splits prod.splits)
  have "acc_key (ar_account base) = key"
    using base by (auto simp: success_base_def Let_def empty_record_def split: option.splits dest: find_Some_in)
  then have "acc_key (ui_account ui) \<noteq> HISTORY_DIRECTORY"
    using ui key assms(3) by (auto simp: success_intent_def Let_def)
  with applied assms(2) records have sim: "simulates ks ks1" by (rule apply_intent_simulates)
  from last show ?thesis
  proof
    assume "publish_verified env io ks1 adapter key now = (res, ks')"
    from publish_verified_keeps [OF this] sim have "simulates ks1 ks'"
      by (auto simp: simulates_def store_ok_def)
    with sim show ?thesis by (rule simulates_trans)
  qed (simp add: sim)
qed (simp add: simulates_refl assms(2))

lemma reserve_key:
  assumes "reserve policies (List.find (same_id account) records) account at token trigger pw = Inr ui"
  shows "acc_key (ui_account ui) = acc_key account"
  using assms unfolding reserve_ok_iff Let_def by (auto simp: same_account_def)

lemma complete_account: "complete r token now outcome retry = Inr ui \<Longrightarrow> ui_account ui = ar_account r"
  by (auto simp: complete_def Let_def split: if_splits)

lemma tick_reserve_simulates:
  assumes "tick_reserve env io wall policies tick account at token ks = (res, ks')"
    and "store_ok ks" "acc_key account \<noteq> HISTORY_DIRECTORY"
  shows "simulates ks ks'"
proof (cases "ks' = ks")
  case False
  then obtain records trigger ui res1 where records: "locked_records io ks = Inr records"
    and ui: "reserve policies (List.find (same_id account) records) account at token trigger (qt_power tick) = Inr ui"
    and applied: "apply_intent env io wall ks ui records = (res1, ks')"
    using assms(1) unfolding tick_reserve_def
    by (auto simp: Let_def split: sum.splits quota_error.splits prod.splits)
  from applied assms(2) records show ?thesis
    by (rule apply_intent_simulates) (simp add: reserve_key [OF ui] assms(3))
qed (simp add: simulates_refl assms(2))

lemma tick_complete_simulates:
  assumes "tick_complete env io wall policies account deadline at token finished outcome reason login ks = (res, ks')"
    and "store_ok ks" "acc_key account \<noteq> HISTORY_DIRECTORY"
  shows "simulates ks ks'"
proof (cases "ks' = ks")
  case False
  then obtain records r ui where records: "locked_records io ks = Inr records"
    and r: "List.find (same_id account) records = Some r"
    and ui: "complete r token finished outcome None = Inr ui"
    and applied: "apply_intent env io wall ks (probe_intent policies account reason login ui) records = (res, ks')"
    using assms(1) unfolding tick_complete_def
    by (auto split: sum.splits quota_error.splits option.splits if_splits)
  from applied assms(2) records show ?thesis
    by (rule apply_intent_simulates)
      (use complete_account [OF ui] found_key [OF r] assms(3) in \<open>simp add: probe_intent_def Let_def\<close>)
qed (simp add: simulates_refl assms(2))

lemma refresh_registrations_simulates:
  assumes "refresh_registrations env wall ds ks records regs = (res, ks', records')"
    and "store_ok ks" "mirrors (registers_of ks) records"
    and "list_all (\<lambda>(a, _). acc_key a \<noteq> HISTORY_DIRECTORY) regs"
  shows "simulates ks ks' \<and> (res = Inr () \<longrightarrow> mirrors (registers_of ks') records')"
  using assms
proof (induction env wall ds ks records regs rule: refresh_registrations.induct)
  case (1 env wall ds ks records)
  then show ?case by (simp add: simulates_refl)
next
  case (2 env wall ds ks records account io rest)
  then show ?case by simp
next
  case (3 env wall ds ks records account metadata io rest)
  let ?cur = "List.find (same_id account) records"
  let ?base = "unwrap_or (empty_record account) ?cur"
  have key: "acc_key (ar_account ?base) = acc_key account"
    by (cases ?cur) (auto simp: empty_record_def found_key)
  show ?case
  proof (cases "ar_credential_metadata ?base = metadata")
    case True
    with "3.prems" show ?thesis
      using "3.IH"(1) [OF refl refl True] by (simp add: Let_def)
  next
    case changed: False
    show ?thesis
    proof (cases "metadata_intent ds ?cur ?base metadata")
      case (Inl e)
      with "3.prems" changed show ?thesis by (auto simp: Let_def simulates_refl)
    next
      case ui: (Inr ui)
      have "acc_key (ui_account ui) = acc_key account"
        using ui key by (auto simp: metadata_intent_def Let_def)
      with "3.prems"(4) have ne: "acc_key (ui_account ui) \<noteq> HISTORY_DIRECTORY" by simp
      obtain res1 ks1 records1 where w: "write_intent env io wall ks ui records = (res1, ks1, records1)"
        by (cases "write_intent env io wall ks ui records") auto
      note step = write_intent_step [OF w "3.prems"(2,3) ne]
      note sim = write_intent_simulates [OF w "3.prems"(2,3) ne]
      show ?thesis
      proof (cases res1)
        case (Inl e)
        with "3.prems"(1) changed ui w sim show ?thesis by (auto simp: Let_def)
      next
        case (Inr u)
        have rest: "refresh_registrations env wall ds ks1 records1 rest = (res, ks', records')"
          using "3.prems"(1) changed ui w Inr by (simp add: Let_def)
        have "simulates ks1 ks' \<and> (res = Inr () \<longrightarrow> mirrors (registers_of ks') records')"
          using "3.IH"(2) [OF refl refl changed, of ui, unfolded ui w Inr, OF _ refl refl refl] rest step "3.prems"(4) Inr
          by simp
        with sim show ?thesis by (auto intro: simulates_trans)
      qed
    qed
  qed
qed

lemma apply_drops_simulates:
  assumes "apply_drops env ios wall ks records drops = (res, ks', records')"
    and "store_ok ks" "mirrors (registers_of ks) records"
    and "list_all (\<lambda>ui. acc_key (ui_account ui) \<noteq> HISTORY_DIRECTORY) drops"
  shows "simulates ks ks'"
  using assms
proof (induction drops arbitrary: ks records)
  case Nil
  then show ?case by (simp add: simulates_refl)
next
  case (Cons ui drops)
  obtain res1 ks1 records1 where
    w: "write_intent env (ios (length drops)) wall ks ui records = (res1, ks1, records1)"
    by (cases "write_intent env (ios (length drops)) wall ks ui records") auto
  have ne: "acc_key (ui_account ui) \<noteq> HISTORY_DIRECTORY" using Cons.prems(4) by simp
  note step = write_intent_step [OF w Cons.prems(2,3) ne]
  note sim = write_intent_simulates [OF w Cons.prems(2,3) ne]
  show ?case
  proof (cases res1)
    case (Inl e)
    with Cons.prems(1) w sim show ?thesis by simp
  next
    case (Inr u)
    with Cons.prems(1,4) w step have "simulates ks1 ks'" by (auto intro!: Cons.IH)
    with sim show ?thesis by (rule simulates_trans)
  qed
qed

lemma mirrored_key:
  assumes "store_ok ks" "mirrors (registers_of ks) records" "r \<in> set records"
  shows "acc_key (ar_account r) \<noteq> HISTORY_DIRECTORY"
proof
  assume "acc_key (ar_account r) = HISTORY_DIRECTORY"
  then have "registers_of ks (sort_id r) = None"
    by (simp add: account_map_def sort_id_def skipped_def)
  with assms(2,3) show False
    by (auto simp: mirrors_def keyed_None)
qed

lemma map_of_filter:
  "distinct (map fst xs) \<Longrightarrow> map_of (filter p xs) k =
   (case map_of xs k of Some v \<Rightarrow> if p (k, v) then Some v else None | None \<Rightarrow> None)"
proof (induction xs)
  case (Cons x xs)
  show ?case
  proof (cases "fst x = k")
    case True
    with Cons.prems have "map_of (filter p xs) k = None"
      by (auto simp: map_of_eq_None_iff)
    with True show ?thesis by (cases x) auto
  next
    case False
    with Cons show ?thesis by (cases x) auto
  qed
qed simp

lemma clean_orphan_dirs_simulates:
  assumes "store_ok ks"
  shows "simulates ks (clean_orphan_dirs io ks)"
proof -
  have d: "distinct (map fst (ks_quota ks))" using assms by (simp add: store_ok_def names_ok_def)
  have "registers_of (clean_orphan_dirs io ks) = registers_of ks"
    by (rule ext) (auto simp: account_map_def clean_orphan_dirs_def map_of_filter [OF d]
        split: option.splits quota_entry.splits)
  moreover have "store_ok (clean_orphan_dirs io ks)"
    using assms names_ok_filter by (auto simp: store_ok_def clean_orphan_dirs_def list_all_iff)
  ultimately show ?thesis by (simp add: simulates_def clean_orphan_dirs_def)
qed

lemma tick_plan_section_simulates:
  assumes sec: "tick_plan_section env io wall policies ds tick now st regs ios ks = (res, ks')"
    and ks: "store_ok ks" and regs: "list_all (\<lambda>(a, _). acc_key a \<noteq> HISTORY_DIRECTORY) regs"
  shows "simulates ks ks'"
proof (cases "locked_records io ks")
  case (Inl e)
  with sec ks show ?thesis by (simp add: tick_plan_section_def simulates_refl)
next
  case (Inr records)
  note m = locked_records_mirrors [OF Inr ks]
  obtain res1 ks1 records1 where
    r: "refresh_auth_metadata env wall ds tick ks records regs = (res1, ks1, records1)"
    by (cases "refresh_auth_metadata env wall ds tick ks records regs") auto
  have one: "simulates ks ks1 \<and> (res1 = Inr () \<longrightarrow> mirrors (registers_of ks1) records1)"
  proof (cases "qt_trigger tick \<in> {TG_Panel, TG_Wake, TG_Manual}")
    case True
    with r have "refresh_registrations env wall ds ks records
        (filter (\<lambda>(a, _). selected (qt_adapter tick) (acc_adapter a)) regs) = (res1, ks1, records1)"
      by (auto simp: refresh_auth_metadata_def)
    then show ?thesis
      using refresh_registrations_simulates [OF _ ks m] regs by (auto simp: list_all_iff)
  next
    case False
    with r m ks show ?thesis by (auto simp: refresh_auth_metadata_def simulates_refl)
  qed
  then have ok1: "store_ok ks1" by (simp add: simulates_def)
  show ?thesis
  proof (cases "ks' = ks1")
    case False
    then obtain plan where ok: "res1 = Inr ()"
      and plan: "plan_tick_with_settings policies records1 ds tick now st (missing_readiness io ks1 ds) = Inr plan"
      using sec Inr r by (auto simp: tick_plan_section_def split: sum.splits)
    obtain res2 ks2 records2 where
      a: "apply_drops env ios wall ks1 records1 (tp_drops plan) = (res2, ks2, records2)"
      by (cases "apply_drops env ios wall ks1 records1 (tp_drops plan)") auto
    have last: "ks' = ks2 \<or> ks' = clean_orphan_dirs io ks2"
      using sec Inr r ok plan a by (auto simp: tick_plan_section_def split: sum.splits)
    have m1: "mirrors (registers_of ks1) records1" using one ok by blast
    have "list_all (\<lambda>ui. acc_key (ui_account ui) \<noteq> HISTORY_DIRECTORY) (tp_drops plan)"
      using mirrored_key [OF ok1 m1] plan_tick_parts(4) [OF plan] by (auto simp: list_all_iff drop_intent_def)
    from apply_drops_simulates [OF a ok1 m1 this] have two: "simulates ks1 ks2" .
    then have "simulates ks2 (clean_orphan_dirs io ks2)"
      using clean_orphan_dirs_simulates by (simp add: simulates_def)
    with one two last show ?thesis by (auto intro: simulates_trans)
  qed (use one in blast)
qed

text \<open>
  An account whose key is the name of the history directory is a valid scope, but the reader
  skips its directory: what is written for it is never read.
\<close>

lemma history_account_unread:
  assumes "read_records ks = Inr rs" "r \<in> set rs"
  shows "acc_key (ar_account r) \<noteq> HISTORY_DIRECTORY"
proof -
  obtain key files name content where e: "(key, AccountDir files) \<in> set (ks_quota ks)" "\<not> skipped key"
    "(name, content) \<in> set files" "file_record name content = Some r"
    using assms(2) read_records_ok(2) [OF assms(1)] by (auto simp: in_entry_records)
  with read_records_ok(1) [OF assms(1)] have "file_ok key (name, content)"
    by (auto simp: list_all_iff entry_ok_def)
  with e(2,4) show ?thesis by (auto simp: file_ok_def file_record_def skipped_def split: if_splits)
qed

lemma history_key_valid: "valid_scope (sample_account\<lparr>acc_key := HISTORY_DIRECTORY\<rparr>)"
  by code_simp

text \<open>A step of the program: one of the sections it runs under the quota lock.\<close>

inductive store_step :: "store_env \<Rightarrow> quota_store \<Rightarrow> quota_store \<Rightarrow> bool" for env where
  refusal: "persist_provider_refusal_once env io wall ks route pool now resets replay = (res, ks') \<Longrightarrow>
    rt_account_key route \<noteq> Some HISTORY_DIRECTORY \<Longrightarrow> store_step env ks ks'"
| cooldown: "persist_capacity_cooldown env io wall ks route now duration = (res, ks') \<Longrightarrow>
    rt_account_key route \<noteq> Some HISTORY_DIRECTORY \<Longrightarrow> store_step env ks ks'"
| success: "persist_provider_success env io wall ks route now = (res, ks') \<Longrightarrow>
    rt_account_key route \<noteq> Some HISTORY_DIRECTORY \<Longrightarrow> store_step env ks ks'"
| plan: "tick_plan_section env io wall policies ds tick now st regs ios ks = (planned, ks') \<Longrightarrow>
    list_all (\<lambda>(a, _). acc_key a \<noteq> HISTORY_DIRECTORY) regs \<Longrightarrow> store_step env ks ks'"
| reservation: "tick_reserve env io wall policies tick account at token ks = (claimed, ks') \<Longrightarrow>
    acc_key account \<noteq> HISTORY_DIRECTORY \<Longrightarrow> store_step env ks ks'"
| completion: "tick_complete env io wall policies account deadline at token finished outcome reason login ks =
      (res, ks') \<Longrightarrow> acc_key account \<noteq> HISTORY_DIRECTORY \<Longrightarrow> store_step env ks ks'"

lemma store_step_simulates: "store_step env ks ks' \<Longrightarrow> store_ok ks \<Longrightarrow> simulates ks ks'"
  by (induction rule: store_step.induct)
    (blast intro: persist_provider_refusal_once_simulates persist_capacity_cooldown_simulates
      persist_provider_success_simulates tick_plan_section_simulates tick_reserve_simulates
      tick_complete_simulates)+

lemma store_run_simulates: "(store_step env)\<^sup>*\<^sup>* ks ks' \<Longrightarrow> store_ok ks \<Longrightarrow> simulates ks ks'"
proof (induction rule: rtranclp_induct)
  case base
  then show ?case by (rule simulates_refl)
next
  case (step y z)
  then show ?case using store_step_simulates [OF step.hyps(2)] simulates_trans by (auto simp: simulates_def)
qed

definition empty_store :: quota_store where
  "empty_store = \<lparr>ks_private = True, ks_quota = [], ks_readiness = [], ks_report = None\<rparr>"

lemma empty_store_ok [simp]: "store_ok empty_store"
  by (simp add: store_ok_def names_ok_def empty_store_def)

lemma read_files_bound:
  "list_all (file_ok key) files \<Longrightarrow> read_files key records files = Inl e \<Longrightarrow>
   e = EE_Quota (QE_Invalid ''account bound'')"
proof (induction files arbitrary: records)
  case (Cons fc files)
  obtain name content where fc: "fc = (name, content)" by (cases fc)
  show ?case
  proof (cases "prefix ''.'' name")
    case True
    then show ?thesis
      by (intro Cons.IH [of records]) (use Cons.prems in \<open>simp_all add: fc\<close>)
  next
    case False
    with Cons.prems(1) obtain r where r: "content = Decoded r" "valid_record r" "acc_key (ar_account r) = key"
      "name = acc_adapter (ar_account r) @ ''.json''"
      by (auto simp: fc file_ok_def)
    then have "file_adapter name = Some (acc_adapter (ar_account r))" "account_decode content = Inr r"
      using valid_scope_components [OF valid_record_scope] by (auto simp: file_adapter_Some account_decode_ok)
    with Cons.prems(2) False r have "MAX_ACCOUNTS < length (records @ [r]) \<and> e = EE_Quota (QE_Invalid ''account bound'')
        \<or> read_files key (records @ [r]) files = Inl e"
      by (auto simp: fc split: if_splits)
    with Cons.IH Cons.prems(1) show ?thesis by auto
  qed
qed simp

lemma read_entries_bound:
  "list_all entry_ok dir \<Longrightarrow> read_entries records dir = Inl e \<Longrightarrow> e = EE_Quota (QE_Invalid ''account bound'')"
proof (induction dir arbitrary: records)
  case (Cons ke dir)
  obtain key entry where ke: "ke = (key, entry)" by (cases ke)
  show ?case
  proof (cases "skipped key")
    case True
    then show ?thesis
      by (intro Cons.IH [of records]) (use Cons.prems in \<open>simp_all add: ke\<close>)
  next
    case False
    with Cons.prems(1) obtain files where files: "component key" "entry = AccountDir files" "list_all (file_ok key) files"
      by (auto simp: ke entry_ok_def)
    with Cons.prems(2) False have "read_files key records files = Inl e
        \<or> (\<exists>out. read_files key records files = Inr out \<and> read_entries out dir = Inl e)"
      by (auto simp: ke res_bind_Inl_iff)
    with Cons.IH Cons.prems(1) read_files_bound [OF files(3)] show ?thesis by auto
  qed
qed simp


definition sample_env :: store_env where
  "sample_env = \<lparr>env_encode_record = (\<lambda>_. Inr 800), env_encode_readiness = (\<lambda>_. Inr 400),
     env_encode_report = (\<lambda>_. Inr 900), env_in_range = (\<lambda>_. True), env_policies = [sample_policy]\<rparr>"

definition sample_io :: store_io where
  "sample_io = \<lparr>io_quota_dir = Inr True, io_lock = Inr (), io_mkdir = True, io_child = Inr (),
     io_write = Inr Durable, io_unlink = Inr (), io_sync = Inr (), io_rmdir = True,
     io_open_readiness = Inr (), io_unlink_readiness = Inr (), io_sync_readiness = Inr (),
     io_rmdir_readiness = True, io_write_readiness = Inr Durable, io_write_report = Inr Durable,
     io_rmdir_orphan = (\<lambda>_. True)\<rparr>"

definition sample_launch :: route_record where
  "sample_launch = from_resolved sample_route (Some ''work'') ''cli''"

definition sample_intent :: update_intent where
  "sample_intent = \<lparr>ui_account = sample_account, ui_expected = None, ui_replacement = Some sample_refused,
     ui_readiness_probe_result = None, ui_login_probe_expiry = None\<rparr>"

definition sample_stored :: quota_store where
  "sample_stored = \<lparr>ks_private = True,
     ks_quota = [(''work'', AccountDir [(''claude.json'', Decoded sample_refused)])],
     ks_readiness = [(''work'', [(''claude.json'', Decoded sample_synced)])], ks_report = None\<rparr>"

lemma sample_first_refusal:
  "record_refusal None sample_account ''claude/opus'' None 1000 None = Inr sample_intent"
proof -
  have "record_validate (empty_record sample_account) = Inr ()" "scope_validate sample_account = Inr ()"
    by (simp_all add: record_validate_Inr scope_validate_Inr valid_empty_record)
  moreover have "record_validate sample_refused = Inr ()"
    by (simp add: record_validate_Inr valid_record_iff refused_record_def push_refusal_def
        new_refusal_def empty_record_def refusal_invalid_def)
  moreover have "strip_prefix ''claude/'' ''claude/opus'' = Some ''opus''"
    by (simp add: strip_prefix_def)
  ultimately show ?thesis
    by (simp add: record_refusal_def refused_record_def push_refusal_def new_refusal_def
        empty_record_def u64_checked_add_def sample_intent_def del: strip_prefix_Some)
qed

lemma sample_readiness:
  "updated_readiness sample_env sample_intent 1001 None = Inr sample_synced"
  using sample_sync
  by (simp add: updated_readiness_def sample_intent_def sample_env_def sample_admission_def)

lemma sample_write:
  "write_intent sample_env sample_io 1001 empty_store sample_intent [] = (Inr (), sample_stored, [sample_refused])"
proof -
  have check: "intent_check sample_intent None = Inr ()"
    using refusal_recording.accepted [of None "(sample_account, ''claude/opus'', None, 1000, None)" sample_intent]
      sample_first_refusal by simp
  have "fi_records sample_synced \<noteq> []" by (simp add: sample_synced_def)
  then show ?thesis
    using check sample_readiness
    by (simp add: write_intent_def sync_readiness_def child_def sample_io_def sample_env_def
        open_readiness_account_def current_readiness_def empty_store_def sample_stored_def
        sample_intent_def [THEN arg_cong [of _ _ ui_account]] sample_intent_def [THEN arg_cong [of _ _ ui_replacement]]
        sample_account_def)
qed

lemma sample_persisted:
  "persist_provider_refusal_once sample_env sample_io 1001 empty_store sample_launch None 1000 None False =
   (Inr (), sample_stored)"
proof -
  have scope: "route_scope ''provider refusal'' sample_launch = Inr (''claude/opus'', sample_account)"
    by code_simp
  have "locked_records sample_io empty_store = Inr []" by code_simp
  with scope show ?thesis
    by (simp add: persist_provider_refusal_once_def stored_scope_def sample_first_refusal apply_intent_def
        sample_write)
qed



end
