(* ===== verification/Fabric_Store.thy ===== *)
theory Fabric_Store
  imports Workflow_Receipt
begin

section \<open>The coordination store (crate fabric-store)\<close>

text \<open>
  \<open>fabric-store/src/lib.rs\<close>, \<open>db.rs\<close>, \<open>events.rs\<close> and \<open>operations.rs\<close>: bounds on text, records and
  pages, write transactions, the event log and the replay of operations. The tables of a database
  are the fields of a record that later theories extend by their own tables. A row that is looked
  up by its key only is in a map, rows that are enumerated are in a list; keys are identities and
  not their text.

  SQLite is outside: a request carries the failure, if any, of opening a transaction and of a
  statement or the commit within it. A transaction that does not commit leaves the database as it
  was; a write within the transaction of an operation is part of that operation's action. A stored
  record is a \<open>Blob\<close> with the length of its canonical bytes, or bytes that do not
  decode; equal bytes are equal records.
\<close>

subsection \<open>Errors and bounds\<close>

datatype push_phase = PushPrepared | Pushing | PushUnknown | PushCommitted | PushRetryable | PushConflict

datatype push_action = BeginPush | UncertainPush | ConfirmedPush | ReconcilePush "git_oid option"

datatype fabric_error =
    FE_Sqlite
  | FE_Filesystem fs_error
  | FE_Io io_cause
  | FE_Invalid string
  | FE_NotFound
  | FE_ViewerLimit
  | FE_ViewerNotOpen
  | FE_Conflict
  | FE_PushUnresolved string
  | FE_PushTransition push_phase push_action
  | FE_Overlap id
  | FE_PathEncoding
  | FE_StaleFence
  | FE_Busy
  | FE_Cancelled
  | FE_SchemaVersion int
  | FE_UnversionedDatabase
  | FE_JournalMode string
  | FE_UnsafePath string
  | FE_Decode decode_error
  | FE_Encode canonical_error
  | FE_Time time_error

definition MAX_BODY_BYTES :: nat where
  "MAX_BODY_BYTES = 65536"

definition FABRIC_RECORD_BYTES :: nat where
  "FABRIC_RECORD_BYTES = 262144"

definition MAX_PAGE_ROWS :: nat where
  "MAX_PAGE_ROWS = 100"

definition MAX_PAGE_BYTES :: nat where
  "MAX_PAGE_BYTES = 1048576"

definition check_text :: "string \<Rightarrow> string \<Rightarrow> fabric_error + unit" where
  "check_text value field' =
     (if value = [] \<or> MAX_BODY_BYTES < length value \<or> CHR 0x00 \<in> set value then Inl (FE_Invalid field') else Inr ())"

definition check_page :: "int \<Rightarrow> nat \<Rightarrow> fabric_error + nat" where
  "check_page after limit =
     (if after < 0 \<or> \<not> (1 \<le> limit \<and> limit \<le> MAX_PAGE_ROWS) then Inl (FE_Invalid ''cursor or page limit'') else Inr limit)"

subsection \<open>Stored records\<close>

datatype 'r blob = Blob nat 'r | BadBlob nat decode_error

fun blob_length :: "'r blob \<Rightarrow> nat" where
  "blob_length (Blob n _) = n"
| "blob_length (BadBlob n _) = n"

definition encode_record :: "('r \<Rightarrow> canonical_error + nat) \<Rightarrow> 'r \<Rightarrow> fabric_error + 'r blob" where
  "encode_record canon r = (case canon r of
       Inl e \<Rightarrow> Inl (FE_Encode e)
     | Inr n \<Rightarrow> if FABRIC_RECORD_BYTES < n then Inl (FE_Invalid ''record size'') else Inr (Blob n r))"

fun decode_blob :: "'r blob \<Rightarrow> fabric_error + 'r" where
  "decode_blob (Blob _ r) = Inr r"
| "decode_blob (BadBlob _ e) = Inl (FE_Decode e)"

record 'a fabric_page =
  pg_items :: "'a list"
  pg_truncated :: bool

text \<open>
  \<open>bounded_rows\<close> reads rows, each as at most one byte more than the record limit, until their
  total exceeds the page.
\<close>

definition read_length :: "'r blob \<Rightarrow> nat" where
  "read_length b = min (blob_length b) (FABRIC_RECORD_BYTES + 1)"

fun bounded_rows :: "nat \<Rightarrow> ('r blob \<times> 't \<Rightarrow> fabric_error + 'u) \<Rightarrow> ('r blob \<times> 't) list \<Rightarrow> fabric_error + 'u fabric_page" where
  "bounded_rows used f [] = Inr \<lparr>pg_items = [], pg_truncated = False\<rparr>"
| "bounded_rows used f (row # rows) =
     (if MAX_PAGE_BYTES < used + read_length (fst row) then Inr \<lparr>pg_items = [], pg_truncated = True\<rparr>
      else res_bind (f row) (\<lambda>x.
           res_bind (bounded_rows (used + read_length (fst row)) f rows) (\<lambda>p.
           Inr (p\<lparr>pg_items := x # pg_items p\<rparr>))))"

subsection \<open>Requests and transactions\<close>

record store_request =
  sq_cancelled :: bool
  sq_now :: "time_error + wall_time"
  sq_begin :: "fabric_error option"
  sq_commit :: "fabric_error option"

definition request_check :: "store_request \<Rightarrow> fabric_error + unit" where
  "request_check req = (if sq_cancelled req then Inl FE_Cancelled else Inr ())"

definition wall_now :: "store_request \<Rightarrow> fabric_error + wall_time" where
  "wall_now req = map_err FE_Time (sq_now req)"

definition store_write :: "store_request \<Rightarrow> ('d \<Rightarrow> fabric_error + 'a \<times> 'd) \<Rightarrow> 'd \<Rightarrow> (fabric_error + 'a) \<times> 'd" where
  "store_write req action db = (case request_check req of
       Inl e \<Rightarrow> (Inl e, db)
     | Inr _ \<Rightarrow> (case sq_begin req of
           Some e \<Rightarrow> (Inl e, db)
         | None \<Rightarrow> (case action db of
               Inl e \<Rightarrow> (Inl e, db)
             | Inr (v, db') \<Rightarrow> (case sq_commit req of Some e \<Rightarrow> (Inl e, db) | None \<Rightarrow> (Inr v, db')))))"

text \<open>A query outside a transaction, which may fail.\<close>

definition query_rows :: "store_request \<Rightarrow> fabric_error + 'a \<Rightarrow> fabric_error + 'a" where
  "query_rows req result = (case sq_begin req of Some e \<Rightarrow> Inl e | None \<Rightarrow> result)"

subsection \<open>The event log\<close>

datatype event_kind =
    NoteEvent | MailSent | MailRead | TaskCreated | TaskClaimed | TaskUpdated | TaskRenewed | TaskReleased
  | TaskFinished | RunChanged | ClaimAcquired | ClaimRenewed | ClaimReleased | LandingAcquired | LandingRenewed
  | LandingReleased | PushChanged

record event_record =
  er_extra :: extra_fields
  er_header :: nat
  er_project :: id
  er_actor :: "id option"
  er_kind :: event_kind
  er_entity :: "string option"
  er_detail :: string
  er_at :: wall_time

record event_row =
  el_seq :: nat
  el_project :: id
  el_dedup :: "string option"
  el_record :: "event_record blob"

record fabric_event =
  fv_seq :: nat
  fv_record :: event_record

text \<open>The last sequence number of the events table is kept by its AUTOINCREMENT.\<close>

record fabric_db =
  db_events :: "event_row list"
  db_event_seq :: nat
  db_event_cursors :: "id \<times> id \<rightharpoonup> nat"
  db_operations :: "id \<times> string \<rightharpoonup> id \<times> string \<times> string"

type_synonym event_canon = "event_record \<Rightarrow> canonical_error + nat"

definition event_of :: "id \<Rightarrow> id option \<Rightarrow> event_kind \<Rightarrow> string option \<Rightarrow> string \<Rightarrow> wall_time \<Rightarrow> event_record" where
  "event_of project actor kind entity detail t =
     \<lparr>er_extra = [], er_header = 1, er_project = project, er_actor = actor, er_kind = kind, er_entity = entity,
      er_detail = detail, er_at = t\<rparr>"

definition append_event ::
  "event_canon \<Rightarrow> event_record \<Rightarrow> string option \<Rightarrow> 'z fabric_db_scheme \<Rightarrow> fabric_error + nat \<times> 'z fabric_db_scheme" where
  "append_event canon r dedup db =
     res_bind (check_text (er_detail r) ''event detail'') (\<lambda>_.
     res_bind (case dedup of None \<Rightarrow> Inr () | Some key \<Rightarrow> check_text key ''dedup key'') (\<lambda>_.
     res_bind (encode_record canon r) (\<lambda>bytes.
     case (if dedup = None then None
           else List.find (\<lambda>row. el_project row = er_project r \<and> el_dedup row = dedup) (db_events db)) of
       Some row \<Rightarrow> if el_record row \<noteq> bytes then Inl FE_Conflict else Inr (el_seq row, db)
     | None \<Rightarrow>
         let seq = Suc (db_event_seq db) in
         Inr (seq, db\<lparr>db_events := db_events db @
                  [\<lparr>el_seq = seq, el_project = er_project r, el_dedup = dedup, el_record = bytes\<rparr>],
                db_event_seq := seq\<rparr>))))"

definition note_event ::
  "event_canon \<Rightarrow> store_request \<Rightarrow> event_record \<Rightarrow> string option \<Rightarrow> 'z fabric_db_scheme \<Rightarrow> (fabric_error + nat) \<times> 'z fabric_db_scheme" where
  "note_event canon req r dedup db =
     (if er_kind r \<noteq> NoteEvent then (Inl (FE_Invalid ''note kind''), db)
      else store_write req (append_event canon r dedup) db)"

definition event_rows :: "'z fabric_db_scheme \<Rightarrow> id \<Rightarrow> int \<Rightarrow> event_row list" where
  "event_rows db project after =
     sort_key el_seq (filter (\<lambda>row. el_project row = project \<and> after < int (el_seq row)) (db_events db))"

definition read_events ::
  "store_request \<Rightarrow> id \<Rightarrow> int \<Rightarrow> nat \<Rightarrow> 'z fabric_db_scheme \<Rightarrow> fabric_error + fabric_event fabric_page" where
  "read_events req project after limit db =
     res_bind (request_check req) (\<lambda>_.
     res_bind (check_page after limit) (\<lambda>n.
     query_rows req
       (bounded_rows 0 (\<lambda>(bytes, seq). res_bind (decode_blob bytes) (\<lambda>r. Inr \<lparr>fv_seq = seq, fv_record = r\<rparr>))
         (map (\<lambda>row. (el_record row, el_seq row)) (take n (event_rows db project after))))))"

definition event_cursor :: "store_request \<Rightarrow> id \<Rightarrow> id \<Rightarrow> 'z fabric_db_scheme \<Rightarrow> fabric_error + nat" where
  "event_cursor req project consumer db =
     res_bind (request_check req) (\<lambda>_. query_rows req (Inr (unwrap_or 0 (db_event_cursors db (project, consumer)))))"

definition mark_events_read ::
  "store_request \<Rightarrow> id \<Rightarrow> id \<Rightarrow> int \<Rightarrow> 'z fabric_db_scheme \<Rightarrow> (fabric_error + unit) \<times> 'z fabric_db_scheme" where
  "mark_events_read req project consumer seq db =
     (if seq < 0 then (Inl (FE_Invalid ''event cursor''), db)
      else store_write req (\<lambda>db.
        let highest = fold max (map el_seq (filter (\<lambda>row. el_project row = project) (db_events db))) 0 in
        if int highest < seq then Inl (FE_Invalid ''event cursor'')
        else Inr ((), db\<lparr>db_event_cursors := (db_event_cursors db)((project, consumer) \<mapsto>
               max (unwrap_or 0 (db_event_cursors db (project, consumer))) (nat seq))\<rparr>)) db)"

subsection \<open>Replay of operations\<close>

text \<open>
  The frozen request and the result are texts; \<open>dec\<close> decodes a result. \<open>nested\<close> says that the
  connection is already in a transaction.
\<close>

definition replay ::
  "(string \<Rightarrow> fabric_error + 'a) \<Rightarrow> 'z fabric_db_scheme \<Rightarrow> id \<Rightarrow> id \<Rightarrow> string \<Rightarrow> string \<Rightarrow> fabric_error + 'a option" where
  "replay dec db project actor i frozen = (case db_operations db (project, i) of
       None \<Rightarrow> Inr None
     | Some (owner, input, result) \<Rightarrow>
         if owner = actor \<and> input = frozen then res_bind (dec result) (\<lambda>x. Inr (Some x))
         else Inl (FE_Invalid ''operation ID reused with a different request''))"

definition coordination_operation ::
  "('a \<Rightarrow> fabric_error + string) \<Rightarrow> (string \<Rightarrow> fabric_error + 'a) \<Rightarrow> bool \<Rightarrow> store_request \<Rightarrow> id \<Rightarrow> id \<Rightarrow> string
   \<Rightarrow> fabric_error + string \<Rightarrow> ('z fabric_db_scheme \<Rightarrow> fabric_error + 'a \<times> 'z fabric_db_scheme)
   \<Rightarrow> 'z fabric_db_scheme \<Rightarrow> (fabric_error + 'a) \<times> 'z fabric_db_scheme" where
  "coordination_operation enc dec nested req project actor i input action db = (case input of
       Inl e \<Rightarrow> (Inl e, db)
     | Inr frozen \<Rightarrow>
         if nested then (Inl (FE_Invalid ''nested operation''), db)
         else (case request_check req of
             Inl e \<Rightarrow> (Inl e, db)
           | Inr _ \<Rightarrow> (case sq_begin req of
                 Some e \<Rightarrow> (Inl e, db)
               | None \<Rightarrow> (case replay dec db project actor i frozen of
                     Inl e \<Rightarrow> (Inl e, db)
                   | Inr (Some result) \<Rightarrow> (Inr result, db)
                   | Inr None \<Rightarrow> (case action db of
                         Inl e \<Rightarrow> (Inl e, db)
                       | Inr (result, db') \<Rightarrow> (case enc result of
                             Inl e \<Rightarrow> (Inl e, db)
                           | Inr bytes \<Rightarrow>
                               if db_operations db' (project, i) \<noteq> None then (Inl FE_Sqlite, db)
                               else (case sq_commit req of
                                   Some e \<Rightarrow> (Inl e, db)
                                 | None \<Rightarrow> (Inr result, db'\<lparr>db_operations := (db_operations db')((project, i) \<mapsto>
                                       (actor, frozen, bytes))\<rparr>))))))))"

definition coordination_replay ::
  "(string \<Rightarrow> fabric_error + 'a) \<Rightarrow> store_request \<Rightarrow> id \<Rightarrow> id \<Rightarrow> string \<Rightarrow> fabric_error + string \<Rightarrow> 'z fabric_db_scheme
   \<Rightarrow> fabric_error + 'a option" where
  "coordination_replay dec req project actor i input db =
     res_bind (request_check req) (\<lambda>_.
     res_bind input (\<lambda>frozen.
     query_rows req (replay dec db project actor i frozen)))"

definition coordination_receipt_with_input ::
  "(string \<Rightarrow> fabric_error + 'i) \<Rightarrow> (string \<Rightarrow> fabric_error + 'a) \<Rightarrow> store_request \<Rightarrow> id \<Rightarrow> id \<Rightarrow> string \<Rightarrow> 'z fabric_db_scheme
   \<Rightarrow> fabric_error + ('i \<times> 'a) option" where
  "coordination_receipt_with_input dec_input dec req project actor i db =
     res_bind (request_check req) (\<lambda>_. query_rows req (case db_operations db (project, i) of
         None \<Rightarrow> Inr None
       | Some (owner, input, result) \<Rightarrow>
           if owner = actor then
             res_bind (dec_input input) (\<lambda>x. res_bind (dec result) (\<lambda>y. Inr (Some (x, y))))
           else Inl FE_Conflict))"

definition coordination_receipt ::
  "(string \<Rightarrow> fabric_error + 'i) \<Rightarrow> (string \<Rightarrow> fabric_error + 'a) \<Rightarrow> store_request \<Rightarrow> id \<Rightarrow> id \<Rightarrow> string \<Rightarrow> 'z fabric_db_scheme
   \<Rightarrow> fabric_error + 'a option" where
  "coordination_receipt ignore dec req project actor i db =
     res_bind (coordination_receipt_with_input ignore dec req project actor i db) (\<lambda>found. Inr (map_option snd found))"

subsection \<open>Transactions and pages\<close>

lemma store_write_cases:
  assumes "store_write req action db = (r, db')"
  obtains e where "r = Inl e" "db' = db" | v where "r = Inr v" "action db = Inr (v, db')"
  using assms by (auto simp: store_write_def split: sum.splits option.splits)

lemma store_write_Inr: "store_write req action db = (Inr v, db') \<Longrightarrow> action db = Inr (v, db')"
  by (auto elim: store_write_cases)

lemma store_write_keeps:
  assumes "P db" and "\<And>v db'. action db = Inr (v, db') \<Longrightarrow> P db'"
  shows "P (snd (store_write req action db))"
  using assms by (cases "store_write req action db") (auto elim: store_write_cases)

lemma read_length_le: "read_length b \<le> FABRIC_RECORD_BYTES + 1"
  by (simp add: read_length_def)

text \<open>A page is a prefix of its rows; it holds at least one row if there is any.\<close>

lemma bounded_rows_prefix:
  assumes "bounded_rows used f rows = Inr p"
  obtains k where "k \<le> length rows" "list_all2 (\<lambda>row x. f row = Inr x) (take k rows) (pg_items p)"
    "pg_truncated p \<longleftrightarrow> k < length rows"
proof -
  have "\<exists>k \<le> length rows. list_all2 (\<lambda>row x. f row = Inr x) (take k rows) (pg_items p) \<and> (pg_truncated p \<longleftrightarrow> k < length rows)"
    using assms
  proof (induction rows arbitrary: used p)
    case (Cons row rows)
    show ?case
    proof (cases "MAX_PAGE_BYTES < used + read_length (fst row)")
      case True
      with Cons.prems show ?thesis by (intro exI [of _ 0]) auto
    next
      case False
      with Cons.prems obtain x q where x: "f row = Inr x" and q: "bounded_rows (used + read_length (fst row)) f rows = Inr q"
        and p: "p = q\<lparr>pg_items := x # pg_items q\<rparr>" by auto
      from Cons.IH [OF q] obtain k where "k \<le> length rows" "list_all2 (\<lambda>row x. f row = Inr x) (take k rows) (pg_items q)"
        "pg_truncated q \<longleftrightarrow> k < length rows" by blast
      with x p show ?thesis by (intro exI [of _ "Suc k"]) simp
    qed
  qed simp
  then show thesis using that by blast
qed

lemma bounded_rows_progress:
  assumes "bounded_rows 0 f rows = Inr p" and "rows \<noteq> []"
  shows "pg_items p \<noteq> []"
proof (cases rows)
  case (Cons row rest)
  have "\<not> MAX_PAGE_BYTES < read_length (fst row)"
    using read_length_le [of "fst row"] by (simp add: MAX_PAGE_BYTES_def FABRIC_RECORD_BYTES_def)
  with assms(1) Cons show ?thesis by auto
qed (use assms(2) in simp)

subsection \<open>The event log stays in order\<close>

lemma append_event_effect:
  assumes "append_event canon r dedup db = Inr (seq, db')"
  obtains row where "db' = db" "row \<in> set (db_events db)" "el_seq row = seq" "el_dedup row = dedup" "dedup \<noteq> None"
      "el_project row = er_project r" "decode_blob (el_record row) = Inr r"
  | bytes where "db' = db\<lparr>db_events := db_events db @ [\<lparr>el_seq = seq, el_project = er_project r, el_dedup = dedup, el_record = bytes\<rparr>],
        db_event_seq := seq\<rparr>" "seq = Suc (db_event_seq db)" "decode_blob bytes = Inr r"
      "\<And>row. dedup \<noteq> None \<Longrightarrow> row \<in> set (db_events db) \<Longrightarrow> el_project row = er_project r \<Longrightarrow> el_dedup row \<noteq> dedup"
proof -
  from assms obtain bytes where b: "encode_record canon r = Inr bytes"
    and c: "(case (if dedup = None then None
           else List.find (\<lambda>row. el_project row = er_project r \<and> el_dedup row = dedup) (db_events db)) of
       Some row \<Rightarrow> if el_record row \<noteq> bytes then Inl FE_Conflict else Inr (el_seq row, db)
     | None \<Rightarrow>
         let seq = Suc (db_event_seq db) in
         Inr (seq, db\<lparr>db_events := db_events db @
                  [\<lparr>el_seq = seq, el_project = er_project r, el_dedup = dedup, el_record = bytes\<rparr>],
                db_event_seq := seq\<rparr>)) = Inr (seq, db')"
    by (auto simp: append_event_def)
  from b have d: "decode_blob bytes = Inr r" by (auto simp: encode_record_def split: sum.splits if_splits)
  show thesis
  proof (cases "if dedup = None then None
      else List.find (\<lambda>row. el_project row = er_project r \<and> el_dedup row = dedup) (db_events db)")
    case None
    then have n: "dedup \<noteq> None \<Longrightarrow> row \<in> set (db_events db) \<Longrightarrow> el_project row = er_project r \<Longrightarrow> el_dedup row \<noteq> dedup" for row
      by (auto simp: find_None_iff split: if_splits)
    from c None have "db' = db\<lparr>db_events := db_events db @ [\<lparr>el_seq = seq, el_project = er_project r, el_dedup = dedup, el_record = bytes\<rparr>],
        db_event_seq := seq\<rparr>" "seq = Suc (db_event_seq db)" by (auto simp: Let_def)
    then show thesis using d n by (rule that(2))
  next
    case (Some row)
    then have "dedup \<noteq> None" "row \<in> set (db_events db)" "el_project row = er_project r" "el_dedup row = dedup"
      by (auto split: if_splits dest!: find_Some_in)
    with c Some d show thesis by (intro that(1)) (auto split: if_splits)
  qed
qed

lemma append_event_tables [simp]:
  assumes "append_event canon r dedup db = Inr (seq, db')"
  shows "db_event_cursors db' = db_event_cursors db" "db_operations db' = db_operations db" "fabric_db.more db' = fabric_db.more db"
  using assms by (auto elim!: append_event_effect)

definition log_ok :: "'z fabric_db_scheme \<Rightarrow> bool" where
  "log_ok db \<longleftrightarrow> sorted_wrt (<) (map el_seq (db_events db)) \<and> (\<forall>row \<in> set (db_events db). el_seq row \<le> db_event_seq db)
     \<and> distinct (map (\<lambda>row. (el_project row, el_dedup row)) (filter (\<lambda>row. el_dedup row \<noteq> None) (db_events db)))"

lemma append_event_log:
  assumes "append_event canon r dedup db = Inr (seq, db')" and "log_ok db"
  shows "log_ok db'"
  using assms(1)
proof (cases rule: append_event_effect)
  case (2 bytes)
  with assms(2) show ?thesis
    by (auto simp: log_ok_def sorted_wrt_append less_Suc_eq_le intro: le_SucI)
qed (use assms(2) in simp)

text \<open>In an ordered log a page of events is the next part of the project's events.\<close>

lemma read_events_page:
  assumes "log_ok db" and "read_events req project after limit db = Inr page"
  obtains k where "k \<le> limit" "list_all2 (\<lambda>row e. decode_blob (el_record row) = Inr (fv_record e) \<and> fv_seq e = el_seq row)
      (take k (filter (\<lambda>row. el_project row = project \<and> after < int (el_seq row)) (db_events db))) (pg_items page)"
    "k = 0 \<Longrightarrow> \<forall>row \<in> set (db_events db). el_project row = project \<longrightarrow> int (el_seq row) \<le> after"
proof -
  let ?rows = "filter (\<lambda>row. el_project row = project \<and> after < int (el_seq row)) (db_events db)"
  have "sorted (map el_seq ?rows)"
    using assms(1) by (intro sorted_filter strict_sorted_imp_sorted) (simp add: log_ok_def)
  then have rows: "event_rows db project after = ?rows"
    by (simp add: event_rows_def sort_key_id_if_sorted)
  from assms(2) obtain n where n: "check_page after limit = Inr n"
    and b: "bounded_rows 0 (\<lambda>(bytes, seq). res_bind (decode_blob bytes) (\<lambda>r. Inr \<lparr>fv_seq = seq, fv_record = r\<rparr>))
      (map (\<lambda>row. (el_record row, el_seq row)) (take n ?rows)) = Inr page"
    by (auto simp: read_events_def query_rows_def rows split: option.splits)
  from n have lim: "n = limit" "1 \<le> limit" by (auto simp: check_page_def split: if_splits)
  from bounded_rows_prefix [OF b] obtain k where k: "k \<le> length (take n ?rows)"
    "list_all2 (\<lambda>row x. (case row of (bytes, seq) \<Rightarrow> res_bind (decode_blob bytes) (\<lambda>r. Inr \<lparr>fv_seq = seq, fv_record = r\<rparr>)) = Inr x)
      (take k (map (\<lambda>row. (el_record row, el_seq row)) (take n ?rows))) (pg_items page)" by auto
  have "take k (map (\<lambda>row. (el_record row, el_seq row)) (take n ?rows)) = map (\<lambda>row. (el_record row, el_seq row)) (take k ?rows)"
    using k(1) by (simp add: take_map min_absorb1)
  from k(2) [unfolded this list_all2_map1]
  have "list_all2 (\<lambda>row e. decode_blob (el_record row) = Inr (fv_record e) \<and> fv_seq e = el_seq row) (take k ?rows) (pg_items page)"
    by (rule list_all2_mono) auto
  moreover have "\<forall>row \<in> set (db_events db). el_project row = project \<longrightarrow> int (el_seq row) \<le> after" if "k = 0"
  proof -
    from that k(2) have "pg_items page = []" by simp
    with bounded_rows_progress [OF b] lim have "?rows = []" by auto
    then show ?thesis by (auto simp: filter_empty_conv not_less)
  qed
  ultimately show thesis using that [of k] k(1) lim by simp
qed

subsection \<open>Operations take effect once\<close>

text \<open>
  A run of operations. An operation that takes effect is recorded as \<open>Ran\<close>, one that returns the
  result of an earlier one as \<open>Replayed\<close>. Its action is any composition of the other methods of
  the store, none of which touches the receipts.
\<close>

datatype ('a, 'd) op_request = OpRequest store_request id id string string "'d \<Rightarrow> fabric_error + 'a \<times> 'd"

datatype 'a op_event = Ran id string id string 'a | Replayed id string id string 'a

fun operation_step ::
  "('a \<Rightarrow> fabric_error + string) \<Rightarrow> (string \<Rightarrow> fabric_error + 'a) \<Rightarrow> 'z fabric_db_scheme \<Rightarrow> ('a, 'z fabric_db_scheme) op_request
   \<Rightarrow> 'z fabric_db_scheme \<times> 'a op_event list" where
  "operation_step enc dec db (OpRequest req project actor i frozen action) =
     (case coordination_operation enc dec False req project actor i (Inr frozen) action db of
        (Inl e, db') \<Rightarrow> (db', [])
      | (Inr r, db') \<Rightarrow>
          (db', [if db_operations db (project, i) = None then Ran project i actor frozen r else Replayed project i actor frozen r]))"

definition codec_ok :: "('a \<Rightarrow> fabric_error + string) \<Rightarrow> (string \<Rightarrow> fabric_error + 'a) \<Rightarrow> bool" where
  "codec_ok enc dec \<longleftrightarrow> (\<forall>r bytes. enc r = Inr bytes \<longrightarrow> dec bytes = Inr r)"

fun op_ok :: "('a \<Rightarrow> fabric_error + string) \<Rightarrow> (string \<Rightarrow> fabric_error + 'a) \<Rightarrow> ('a, 'z fabric_db_scheme) op_request \<Rightarrow> bool" where
  "op_ok enc dec (OpRequest req project actor i frozen action) \<longleftrightarrow> codec_ok enc dec
     \<and> (\<forall>db r db'. action db = Inr (r, db') \<longrightarrow> db_operations db' = db_operations db)"

definition empty_fabric :: "'z \<Rightarrow> 'z fabric_db_scheme" where
  "empty_fabric rest = \<lparr>db_events = [], db_event_seq = 0, db_event_cursors = Map.empty, db_operations = Map.empty, \<dots> = rest\<rparr>"

definition op_traced :: "(string \<Rightarrow> fabric_error + 'a) \<Rightarrow> 'a op_event list \<Rightarrow> 'z fabric_db_scheme \<Rightarrow> bool" where
  "op_traced dec tr db \<longleftrightarrow>
     (\<forall>project i. case db_operations db (project, i) of
          None \<Rightarrow> \<forall>actor frozen r. Ran project i actor frozen r \<notin> set tr
        | Some (actor, frozen, bytes) \<Rightarrow> \<exists>r. dec bytes = Inr r \<and> Ran project i actor frozen r \<in> set tr)"

fun op_admissible :: "'a op_event list \<Rightarrow> 'a op_event \<Rightarrow> bool" where
  "op_admissible tr (Ran project i actor frozen r) \<longleftrightarrow> (\<forall>actor' frozen' r'. Ran project i actor' frozen' r' \<notin> set tr)"
| "op_admissible tr (Replayed project i actor frozen r) \<longleftrightarrow> Ran project i actor frozen r \<in> set tr"

lemma coordination_operation_Inl: "coordination_operation enc dec nested req project actor i input action db = (Inl e, db') \<Longrightarrow> db' = db"
  by (auto simp: coordination_operation_def split: sum.splits option.splits if_splits)

lemma coordination_operation_Inr:
  assumes "coordination_operation enc dec nested req project actor i (Inr frozen) action db = (Inr r, db')"
  obtains bytes where "db' = db" "db_operations db (project, i) = Some (actor, frozen, bytes)" "dec bytes = Inr r"
  | db1 bytes where "db_operations db (project, i) = None" "action db = Inr (r, db1)" "enc r = Inr bytes"
      "db' = db1\<lparr>db_operations := (db_operations db1)((project, i) \<mapsto> (actor, frozen, bytes))\<rparr>"
  using assms
  by (auto simp: coordination_operation_def replay_def split: sum.splits option.splits if_splits prod.splits)

lemma operation_step_cases:
  assumes "op_ok enc dec e"
  obtains "operation_step enc dec db e = (db, [])"
  | project i actor frozen r bytes where "operation_step enc dec db e = (db, [Replayed project i actor frozen r])"
      "db_operations db (project, i) = Some (actor, frozen, bytes)" "dec bytes = Inr r"
  | project i actor frozen r bytes db' where "operation_step enc dec db e = (db', [Ran project i actor frozen r])"
      "db_operations db (project, i) = None" "db_operations db' = (db_operations db)((project, i) \<mapsto> (actor, frozen, bytes))"
      "dec bytes = Inr r"
proof (cases e)
  case (OpRequest req project actor i frozen action)
  obtain res db' where c: "coordination_operation enc dec False req project actor i (Inr frozen) action db = (res, db')" by fastforce
  show thesis
  proof (cases res)
    case (Inl x)
    with c coordination_operation_Inl OpRequest that(1) show thesis by fastforce
  next
    case (Inr r)
    from c Inr have "coordination_operation enc dec False req project actor i (Inr frozen) action db = (Inr r, db')" by simp
    then show thesis
    proof (cases rule: coordination_operation_Inr)
      case (1 bytes)
      with c Inr OpRequest show thesis by (intro that(2)) auto
    next
      case (2 db1 bytes)
      with assms OpRequest have "db_operations db1 = db_operations db" "dec bytes = Inr r" by (auto simp: codec_ok_def)
      with 2 c Inr OpRequest show thesis by (intro that(3)) auto
    qed
  qed
qed

lemma op_traced_Ran:
  assumes "op_traced dec tr db" and "db_operations db (project, i) = None" and "dec bytes = Inr r"
    and "db_operations db' = (db_operations db)((project, i) \<mapsto> (actor, frozen, bytes))"
  shows "op_traced dec (tr @ [Ran project i actor frozen r]) db'"
  unfolding op_traced_def
proof (intro allI)
  fix q j
  show "case db_operations db' (q, j) of
      None \<Rightarrow> \<forall>a f r'. Ran q j a f r' \<notin> set (tr @ [Ran project i actor frozen r])
    | Some (a, f, b) \<Rightarrow> \<exists>r'. dec b = Inr r' \<and> Ran q j a f r' \<in> set (tr @ [Ran project i actor frozen r])"
  proof (cases "(q, j) = (project, i)")
    case True
    with assms(3,4) show ?thesis by simp
  next
    case False
    then have "db_operations db' (q, j) = db_operations db (q, j)" using assms(4) by auto
    moreover from assms(1) have "case db_operations db (q, j) of
        None \<Rightarrow> \<forall>a f r'. Ran q j a f r' \<notin> set tr
      | Some (a, f, b) \<Rightarrow> \<exists>r'. dec b = Inr r' \<and> Ran q j a f r' \<in> set tr"
      unfolding op_traced_def by blast
    ultimately show ?thesis using False by (auto split: option.splits)
  qed
qed

lemma op_traced_Replayed: "op_traced dec (tr @ [Replayed project i actor frozen r]) db \<longleftrightarrow> op_traced dec tr db"
  by (simp add: op_traced_def cong: option.case_cong prod.case_cong)

interpretation ops: traced_machine "operation_step (enc :: 'a \<Rightarrow> _) dec" "empty_fabric (rest :: 'z)" "op_ok enc dec" "op_traced dec" op_admissible
proof
  show "op_traced dec [] (empty_fabric rest)"
    by (simp add: op_traced_def empty_fabric_def)
next
  fix tr and db :: "'z fabric_db_scheme" and e :: "('a, 'z fabric_db_scheme) op_request"
  assume t: "op_traced dec tr db" and e: "op_ok enc dec e"
  show "op_traced dec (tr @ snd (operation_step enc dec db e)) (fst (operation_step enc dec db e))"
    using e
  proof (cases rule: operation_step_cases [where db = db])
    case (3 project i actor frozen r bytes db')
    with op_traced_Ran [OF t 3(2) 3(4) 3(3)] show ?thesis by simp
  qed (use t in \<open>simp_all add: op_traced_Replayed\<close>)
next
  fix tr and db :: "'z fabric_db_scheme" and e :: "('a, 'z fabric_db_scheme) op_request" and xs x ys
  assume t: "op_traced dec tr db" and e: "op_ok enc dec e" and out: "snd (operation_step enc dec db e) = xs @ x # ys"
  show "op_admissible (tr @ xs) x"
    using e
  proof (cases rule: operation_step_cases [where db = db])
    case (2 project i actor frozen r bytes)
    with out have "xs = []" "x = Replayed project i actor frozen r" by (auto simp: Cons_eq_append_conv)
    with t 2(2,3) show ?thesis by (force simp: op_traced_def split: option.splits)
  next
    case (3 project i actor frozen r bytes db')
    with out have "xs = []" "x = Ran project i actor frozen r" by (auto simp: Cons_eq_append_conv)
    with t 3(2) show ?thesis by (force simp: op_traced_def split: option.splits)
  qed (use out in simp)
qed

lemma filter_at_most_one:
  assumes "\<And>us x vs. xs = us @ x # vs \<Longrightarrow> P x \<Longrightarrow> filter P us = []"
  shows "length (filter P xs) \<le> 1"
  using assms
proof (induction xs rule: rev_induct)
  case (snoc x xs)
  show ?case
  proof (cases "P x")
    case True
    with snoc.prems [of xs x "[]"] show ?thesis by simp
  next
    case False
    have "length (filter P xs) \<le> 1"
    proof (rule snoc.IH)
      fix us y vs
      assume "xs = us @ y # vs" "P y"
      with snoc.prems [of us y "vs @ [x]"] show "filter P us = []" by simp
    qed
    with False show ?thesis by simp
  qed
qed simp

fun runs_op :: "id \<Rightarrow> string \<Rightarrow> 'a op_event \<Rightarrow> bool" where
  "runs_op project i (Ran p j _ _ _) \<longleftrightarrow> p = project \<and> j = i"
| "runs_op project i (Replayed _ _ _ _ _) \<longleftrightarrow> False"

definition example_op :: "bool \<Rightarrow> (string, fabric_db) op_request" where
  "example_op cancelled = OpRequest \<lparr>sq_cancelled = cancelled, sq_now = Inr 1, sq_begin = None, sq_commit = None\<rparr> ''p'' ''a'' ''op'' ''send''
     (\<lambda>db. Inr (''sent'', db\<lparr>db_event_seq := Suc (db_event_seq db)\<rparr>))"



end
