(* ===== verification/Fabric_Tasks.thy ===== *)
theory Fabric_Tasks
  imports Fabric_Store "HOL-Library.List_Lexorder" "HOL-Library.Char_ord"
begin

section \<open>Fenced tasks (crate fabric-store)\<close>

text \<open>
  \<open>fabric-store/src/tasks.rs\<close>: tasks that actors claim under a lease. A claim returns a fence, and
  every later operation on the task presents it. The table is a list with one row per project and
  task; \<open>UPDATE\<close> changes the rows with a key.
\<close>

subsection \<open>Data\<close>

datatype task_state = TaskOpen | TaskActive | TaskDone | TaskCancelled

fun task_state_sql :: "task_state \<Rightarrow> string" where
  "task_state_sql TaskOpen = ''open''"
| "task_state_sql TaskActive = ''active''"
| "task_state_sql TaskDone = ''done''"
| "task_state_sql TaskCancelled = ''cancelled''"

record fabric_task =
  ts_extra :: extra_fields
  ts_header :: nat
  ts_project :: id
  ts_id :: id
  ts_objective :: string
  ts_note :: "string option"
  ts_state :: task_state
  ts_owner :: "id option"
  ts_generation :: nat
  ts_expires_at :: "wall_time option"
  ts_created_at :: wall_time
  ts_updated_at :: wall_time

record task_claim =
  tl_project :: id
  tl_task :: id
  tl_actor :: id
  tl_token :: string
  tl_lease :: duration_micros

record task_fence =
  tf_extra :: extra_fields
  tf_task :: id
  tf_actor :: id
  tf_generation :: nat
  tf_token :: string

record task_row =
  tr_project :: id
  tr_id :: id
  tr_state :: task_state
  tr_generation :: nat
  tr_owner :: "id option"
  tr_token :: "string option"
  tr_expires :: "wall_time option"
  tr_record :: "fabric_task blob"

record task_db = fabric_db +
  db_tasks :: "task_row list"

type_synonym task_canon = "fabric_task \<Rightarrow> canonical_error + nat"

definition task_key :: "task_row \<Rightarrow> id \<times> id" where
  "task_key row = (tr_project row, tr_id row)"

subsection \<open>Operations\<close>

definition insert_task ::
  "task_canon \<Rightarrow> event_canon \<Rightarrow> fabric_task \<Rightarrow> 'z task_db_scheme \<Rightarrow> fabric_error + bool \<times> 'z task_db_scheme" where
  "insert_task canon ev task db =
     res_bind (check_text (ts_objective task) ''objective'') (\<lambda>_.
     res_bind (case ts_note task of None \<Rightarrow> Inr () | Some note \<Rightarrow> check_text note ''note'') (\<lambda>_.
     if ts_state task \<noteq> TaskOpen \<or> ts_owner task \<noteq> None \<or> ts_generation task \<noteq> 0 \<or> ts_expires_at task \<noteq> None
     then Inl (FE_Invalid ''initial task state'')
     else res_bind (encode_record canon task) (\<lambda>bytes.
       case List.find (\<lambda>row. task_key row = (ts_project task, ts_id task)) (db_tasks db) of
         Some previous \<Rightarrow> if tr_record previous \<noteq> bytes then Inl FE_Conflict else Inr (False, db)
       | None \<Rightarrow>
           res_bind (append_event ev (event_of (ts_project task) None TaskCreated (Some (show_id (ts_id task))) ''created'' (ts_created_at task)) None
             (db\<lparr>db_tasks := db_tasks db @ [\<lparr>tr_project = ts_project task, tr_id = ts_id task, tr_state = TaskOpen, tr_generation = 0,
                  tr_owner = None, tr_token = None, tr_expires = None, tr_record = bytes\<rparr>]\<rparr>)) (\<lambda>(_, db'). Inr (True, db')))))"

definition find_task :: "'z task_db_scheme \<Rightarrow> id \<Rightarrow> id \<Rightarrow> task_row option" where
  "find_task db project i = List.find (\<lambda>row. task_key row = (project, i)) (db_tasks db)"

definition load_task :: "'z task_db_scheme \<Rightarrow> id \<Rightarrow> id \<Rightarrow> fabric_error + fabric_task" where
  "load_task db project i =
     res_bind (ok_or FE_NotFound (find_task db project i)) (\<lambda>row.
     res_bind (decode_blob (tr_record row)) (\<lambda>task.
     if ts_project task \<noteq> project \<or> ts_id task \<noteq> i then Inl (FE_Invalid ''stored task identity'') else Inr task))"

definition fenced :: "'z task_db_scheme \<Rightarrow> id \<Rightarrow> task_fence \<Rightarrow> wall_time \<Rightarrow> bool \<Rightarrow> fabric_error + fabric_task" where
  "fenced db project fence now require_live =
     res_bind (load_task db project (tf_task fence)) (\<lambda>task.
     let token = Option.bind (find_task db project (tf_task fence)) tr_token in
     if ts_state task \<noteq> TaskActive \<or> ts_owner task \<noteq> Some (tf_actor fence) \<or> ts_generation task \<noteq> tf_generation fence
        \<or> (require_live \<and> is_none_or (ts_expires_at task) (\<lambda>expiry. expiry \<le> now)) \<or> token \<noteq> Some (tf_token fence)
     then Inl FE_StaleFence else Inr task)"

definition save_task ::
  "task_canon \<Rightarrow> fabric_task \<Rightarrow> string option \<Rightarrow> 'z task_db_scheme \<Rightarrow> fabric_error + 'z task_db_scheme" where
  "save_task canon task token db =
     res_bind (ok_or (FE_Invalid ''task generation'') (i64_try_from (ts_generation task))) (\<lambda>_.
     res_bind (encode_record canon task) (\<lambda>bytes.
     Inr (db\<lparr>db_tasks := map (\<lambda>row. if task_key row = (ts_project task, ts_id task)
       then row\<lparr>tr_state := ts_state task, tr_generation := ts_generation task, tr_owner := ts_owner task, tr_token := token,
            tr_expires := ts_expires_at task, tr_record := bytes\<rparr>
       else row) (db_tasks db)\<rparr>)))"

text \<open>Saving a task and logging what happened, the last part of every change.\<close>

definition save_and_log ::
  "task_canon \<Rightarrow> event_canon \<Rightarrow> fabric_task \<Rightarrow> string option \<Rightarrow> id option \<Rightarrow> event_kind \<Rightarrow> string \<Rightarrow> wall_time
   \<Rightarrow> 'z task_db_scheme \<Rightarrow> fabric_error + 'z task_db_scheme" where
  "save_and_log canon ev task token actor kind detail now db =
     res_bind (save_task canon task token db) (\<lambda>db1.
     res_bind (append_event ev (event_of (ts_project task) actor kind (Some (show_id (ts_id task))) detail now) None db1) (\<lambda>(_, db2).
     Inr db2))"

definition create_task ::
  "task_canon \<Rightarrow> event_canon \<Rightarrow> store_request \<Rightarrow> fabric_task \<Rightarrow> 'z task_db_scheme \<Rightarrow> (fabric_error + unit) \<times> 'z task_db_scheme" where
  "create_task canon ev req task db = store_write req (\<lambda>db. res_bind (insert_task canon ev task db) (\<lambda>(_, db'). Inr ((), db'))) db"

definition get_task :: "store_request \<Rightarrow> id \<Rightarrow> id \<Rightarrow> 'z task_db_scheme \<Rightarrow> fabric_error + fabric_task" where
  "get_task req project i db = res_bind (request_check req) (\<lambda>_. query_rows req (load_task db project i))"

definition list_tasks ::
  "store_request \<Rightarrow> id \<Rightarrow> task_state option \<Rightarrow> id option \<Rightarrow> nat \<Rightarrow> 'z task_db_scheme \<Rightarrow> fabric_error + fabric_task fabric_page" where
  "list_tasks req project state after limit db =
     res_bind (request_check req) (\<lambda>_.
     res_bind (check_page 0 limit) (\<lambda>n.
     query_rows req (bounded_rows 0 (\<lambda>(bytes, _). decode_blob bytes)
       (map (\<lambda>row. (tr_record row, ()))
         (take n (sort_key tr_id (filter (\<lambda>row. tr_project row = project \<and> is_none_or state (\<lambda>s. tr_state row = s)
            \<and> is_none_or after (\<lambda>i. i < tr_id row)) (db_tasks db))))))))"

definition claim_expiry :: "(i64 \<Rightarrow> bool) \<Rightarrow> wall_time \<Rightarrow> duration_micros \<Rightarrow> fabric_error + wall_time" where
  "claim_expiry jiff now lease = map_err FE_Time (wall_checked_add jiff now lease)"

definition lease_in_range :: "duration_micros \<Rightarrow> bool" where
  "lease_in_range lease \<longleftrightarrow> 1000000 \<le> lease \<and> lease \<le> 3600000000"

definition lease_expiry :: "(i64 \<Rightarrow> bool) \<Rightarrow> wall_time \<Rightarrow> duration_micros \<Rightarrow> fabric_error + wall_time" where
  "lease_expiry jiff now lease =
     (if \<not> lease_in_range lease then Inl (FE_Invalid ''lease duration'') else claim_expiry jiff now lease)"

definition claim_task ::
  "(i64 \<Rightarrow> bool) \<Rightarrow> task_canon \<Rightarrow> event_canon \<Rightarrow> store_request \<Rightarrow> task_claim \<Rightarrow> 'z task_db_scheme
   \<Rightarrow> (fabric_error + task_fence) \<times> 'z task_db_scheme" where
  "claim_task jiff canon ev req claim db =
     (if \<not> lease_in_range (tl_lease claim) then (Inl (FE_Invalid ''task lease''), db)
      else store_write req (\<lambda>db.
        res_bind (wall_now req) (\<lambda>now.
        res_bind (claim_expiry jiff now (tl_lease claim)) (\<lambda>expires.
        res_bind (load_task db (tl_project claim) (tl_task claim)) (\<lambda>task.
        if ts_state task \<notin> {TaskOpen, TaskActive}
           \<or> (ts_state task = TaskActive \<and> is_none_or (ts_expires_at task) (\<lambda>expiry. now < expiry))
        then Inl FE_Conflict
        else res_bind (ok_or (FE_Invalid ''task generation'') (u64_checked_add (ts_generation task) 1)) (\<lambda>generation.
          let task' = task\<lparr>ts_generation := generation, ts_state := TaskActive, ts_owner := Some (tl_actor claim),
                ts_expires_at := Some expires, ts_updated_at := now\<rparr> in
          res_bind (save_and_log canon ev task' (Some (tl_token claim)) (ts_owner task') TaskClaimed (decimal generation) now db) (\<lambda>db'.
          Inr (\<lparr>tf_extra = [], tf_task = ts_id task', tf_actor = tl_actor claim, tf_generation = generation,
                tf_token = tl_token claim\<rparr>, db'))))))) db)"

definition verify_task :: "store_request \<Rightarrow> id \<Rightarrow> task_fence \<Rightarrow> 'z task_db_scheme \<Rightarrow> fabric_error + fabric_task" where
  "verify_task req project fence db =
     query_rows req (res_bind (wall_now req) (\<lambda>now. fenced db project fence now True))"

definition renew_task ::
  "(i64 \<Rightarrow> bool) \<Rightarrow> task_canon \<Rightarrow> event_canon \<Rightarrow> store_request \<Rightarrow> id \<Rightarrow> task_fence \<Rightarrow> duration_micros \<Rightarrow> 'z task_db_scheme
   \<Rightarrow> (fabric_error + unit) \<times> 'z task_db_scheme" where
  "renew_task jiff canon ev req project fence lease db = store_write req (\<lambda>db.
     res_bind (wall_now req) (\<lambda>now.
     res_bind (lease_expiry jiff now lease) (\<lambda>expires.
     res_bind (fenced db project fence now True) (\<lambda>task.
     res_bind (save_and_log canon ev (task\<lparr>ts_expires_at := Some expires, ts_updated_at := now\<rparr>) (Some (tf_token fence))
       (Some (tf_actor fence)) TaskRenewed ''renewed'' now db) (\<lambda>db'. Inr ((), db')))))) db"

definition update_task ::
  "task_canon \<Rightarrow> event_canon \<Rightarrow> store_request \<Rightarrow> id \<Rightarrow> task_fence \<Rightarrow> string \<Rightarrow> string option \<Rightarrow> 'z task_db_scheme
   \<Rightarrow> (fabric_error + unit) \<times> 'z task_db_scheme" where
  "update_task canon ev req project fence objective note db =
     (case res_bind (check_text objective ''objective'') (\<lambda>_. case note of None \<Rightarrow> Inr () | Some n \<Rightarrow> check_text n ''note'') of
        Inl e \<Rightarrow> (Inl e, db)
      | Inr _ \<Rightarrow> store_write req (\<lambda>db.
          res_bind (wall_now req) (\<lambda>now.
          res_bind (fenced db project fence now True) (\<lambda>task.
          res_bind (save_and_log canon ev (task\<lparr>ts_objective := objective, ts_note := note, ts_updated_at := now\<rparr>)
            (Some (tf_token fence)) (ts_owner task) TaskUpdated ''updated'' now db) (\<lambda>db'. Inr ((), db'))))) db)"

definition close_task ::
  "task_canon \<Rightarrow> event_canon \<Rightarrow> store_request \<Rightarrow> id \<Rightarrow> task_fence \<Rightarrow> task_state \<Rightarrow> 'z task_db_scheme
   \<Rightarrow> (fabric_error + unit) \<times> 'z task_db_scheme" where
  "close_task canon ev req project fence state db = store_write req (\<lambda>db.
     res_bind (wall_now req) (\<lambda>now.
     res_bind (fenced db project fence now False) (\<lambda>task.
     res_bind (save_and_log canon ev (task\<lparr>ts_state := state, ts_owner := None, ts_expires_at := None, ts_updated_at := now\<rparr>)
       None (Some (tf_actor fence)) (if state = TaskOpen then TaskReleased else TaskFinished) (task_state_sql state) now db) (\<lambda>db'.
     Inr ((), db'))))) db"

definition release_task ::
  "task_canon \<Rightarrow> event_canon \<Rightarrow> store_request \<Rightarrow> id \<Rightarrow> task_fence \<Rightarrow> 'z task_db_scheme \<Rightarrow> (fabric_error + unit) \<times> 'z task_db_scheme" where
  "release_task canon ev req project fence db = close_task canon ev req project fence TaskOpen db"

definition finish_task ::
  "task_canon \<Rightarrow> event_canon \<Rightarrow> store_request \<Rightarrow> id \<Rightarrow> task_fence \<Rightarrow> task_state \<Rightarrow> 'z task_db_scheme
   \<Rightarrow> (fabric_error + unit) \<times> 'z task_db_scheme" where
  "finish_task canon ev req project fence state db =
     (if state \<notin> {TaskDone, TaskCancelled} then (Inl (FE_Invalid ''finish state''), db)
      else close_task canon ev req project fence state db)"

subsection \<open>Runs\<close>

text \<open>
  A run is a sequence of operations of any actors with the time each one read. What a fence is
  about: the task, the actor, the generation and the token. A successful operation leaves an
  event; a grant and a renewal with the time at which the lease ends.
\<close>

type_synonym fence_core = "id \<times> id \<times> nat \<times> string"

definition fence_of :: "task_fence \<Rightarrow> fence_core" where
  "fence_of f = (tf_task f, tf_actor f, tf_generation f, tf_token f)"

abbreviation core_task :: "fence_core \<Rightarrow> id" where
  "core_task c \<equiv> fst c"

abbreviation core_generation :: "fence_core \<Rightarrow> nat" where
  "core_generation c \<equiv> fst (snd (snd c))"

datatype task_op =
    CreateTask fabric_task
  | ClaimTask task_claim
  | VerifyTask id task_fence
  | RenewTask id task_fence duration_micros
  | UpdateTask id task_fence string "string option"
  | ReleaseTask id task_fence
  | FinishTask id task_fence task_state

datatype fence_event =
    FenceGranted id fence_core wall_time wall_time
  | FenceRenewed id fence_core wall_time wall_time
  | FenceUsed id fence_core wall_time
  | FenceClosed id fence_core

definition now_of :: "store_request \<Rightarrow> wall_time" where
  "now_of req = (case sq_now req of Inr now \<Rightarrow> now | Inl _ \<Rightarrow> 0)"

definition emit :: "('a \<Rightarrow> 'o list) \<Rightarrow> (fabric_error + 'a) \<times> 'd \<Rightarrow> 'd \<times> 'o list" where
  "emit f r = (snd r, case fst r of Inl _ \<Rightarrow> [] | Inr x \<Rightarrow> f x)"

fun task_step ::
  "(i64 \<Rightarrow> bool) \<Rightarrow> task_canon \<Rightarrow> event_canon \<Rightarrow> 'z task_db_scheme \<Rightarrow> store_request \<times> task_op \<Rightarrow> 'z task_db_scheme \<times> fence_event list" where
  "task_step jiff canon ev db (req, CreateTask task) = emit (\<lambda>_. []) (create_task canon ev req task db)"
| "task_step jiff canon ev db (req, ClaimTask claim) =
     emit (\<lambda>f. [FenceGranted (tl_project claim) (fence_of f) (now_of req) (now_of req + int (tl_lease claim))])
       (claim_task jiff canon ev req claim db)"
| "task_step jiff canon ev db (req, VerifyTask project f) =
     emit (\<lambda>_. [FenceUsed project (fence_of f) (now_of req)]) (verify_task req project f db, db)"
| "task_step jiff canon ev db (req, RenewTask project f lease) =
     emit (\<lambda>_. [FenceRenewed project (fence_of f) (now_of req) (now_of req + int lease)]) (renew_task jiff canon ev req project f lease db)"
| "task_step jiff canon ev db (req, UpdateTask project f objective note) =
     emit (\<lambda>_. [FenceUsed project (fence_of f) (now_of req)]) (update_task canon ev req project f objective note db)"
| "task_step jiff canon ev db (req, ReleaseTask project f) =
     emit (\<lambda>_. [FenceClosed project (fence_of f)]) (release_task canon ev req project f db)"
| "task_step jiff canon ev db (req, FinishTask project f state) =
     emit (\<lambda>_. [FenceClosed project (fence_of f)]) (finish_task canon ev req project f state db)"

text \<open>The fence that holds a task after a trace, with the end of its lease.\<close>

fun held_after :: "id \<Rightarrow> id \<Rightarrow> (fence_core \<times> wall_time) option \<Rightarrow> fence_event \<Rightarrow> (fence_core \<times> wall_time) option" where
  "held_after p t h (FenceGranted q c _ e) = (if q = p \<and> core_task c = t then Some (c, e) else h)"
| "held_after p t h (FenceRenewed q c _ e) = (if q = p \<and> core_task c = t then Some (c, e) else h)"
| "held_after p t h (FenceUsed _ _ _) = h"
| "held_after p t h (FenceClosed q c) = (if q = p \<and> core_task c = t then None else h)"

definition held_fence :: "fence_event list \<Rightarrow> id \<Rightarrow> id \<Rightarrow> (fence_core \<times> wall_time) option" where
  "held_fence tr p t = foldl (held_after p t) None tr"

lemma held_simps [simp]: "held_fence [] p t = None" "held_fence (tr @ [x]) p t = held_after p t (held_fence tr p t) x"
  by (simp_all add: held_fence_def)

fun fence_admissible :: "fence_event list \<Rightarrow> fence_event \<Rightarrow> bool" where
  "fence_admissible tr (FenceGranted p c now e) \<longleftrightarrow>
     is_none_or (held_fence tr p (core_task c)) (\<lambda>(_, e'). e' \<le> now)
     \<and> (\<forall>c' n' e'. FenceGranted p c' n' e' \<in> set tr \<longrightarrow> core_task c' = core_task c \<longrightarrow> core_generation c' < core_generation c)"
| "fence_admissible tr (FenceRenewed p c now e) \<longleftrightarrow> (\<exists>e'. held_fence tr p (core_task c) = Some (c, e') \<and> now < e')"
| "fence_admissible tr (FenceUsed p c now) \<longleftrightarrow> (\<exists>e'. held_fence tr p (core_task c) = Some (c, e') \<and> now < e')"
| "fence_admissible tr (FenceClosed p c) \<longleftrightarrow> (\<exists>e'. held_fence tr p (core_task c) = Some (c, e'))"

subsection \<open>The table follows the trace\<close>

definition task_row_ok :: "task_row \<Rightarrow> bool" where
  "task_row_ok row \<longleftrightarrow> (\<exists>n task. tr_record row = Blob n task \<and> ts_project task = tr_project row \<and> ts_id task = tr_id row
     \<and> ts_state task = tr_state row \<and> ts_owner task = tr_owner row \<and> ts_generation task = tr_generation row
     \<and> ts_expires_at task = tr_expires row)
     \<and> (tr_owner row \<noteq> None \<longleftrightarrow> tr_state row = TaskActive) \<and> (tr_token row \<noteq> None \<longleftrightarrow> tr_state row = TaskActive)
     \<and> (tr_expires row \<noteq> None \<longleftrightarrow> tr_state row = TaskActive)"

fun holder_of :: "id \<Rightarrow> nat \<Rightarrow> id option \<Rightarrow> string option \<Rightarrow> wall_time option \<Rightarrow> (fence_core \<times> wall_time) option" where
  "holder_of t g (Some actor) (Some token) (Some expires) = Some ((t, actor, g, token), expires)"
| "holder_of t g _ _ _ = None"

definition row_holder :: "task_row \<Rightarrow> (fence_core \<times> wall_time) option" where
  "row_holder row = holder_of (tr_id row) (tr_generation row) (tr_owner row) (tr_token row) (tr_expires row)"

definition grants_below :: "fence_event list \<Rightarrow> id \<Rightarrow> id \<Rightarrow> nat \<Rightarrow> bool" where
  "grants_below tr p t g \<longleftrightarrow> (\<forall>c n e. FenceGranted p c n e \<in> set tr \<longrightarrow> core_task c = t \<longrightarrow> core_generation c < g)"

definition tasks_traced :: "fence_event list \<Rightarrow> 'z task_db_scheme \<Rightarrow> bool" where
  "tasks_traced tr db \<longleftrightarrow> (\<forall>p t. case find_task db p t of
       None \<Rightarrow> held_fence tr p t = None \<and> grants_below tr p t 0
     | Some row \<Rightarrow> task_row_ok row \<and> held_fence tr p t = row_holder row \<and> grants_below tr p t (Suc (tr_generation row)))"

lemma tasks_traced_row:
  assumes "tasks_traced tr db" and "find_task db p t = Some row"
  shows "task_row_ok row" "held_fence tr p t = row_holder row" "grants_below tr p t (Suc (tr_generation row))" "tr_project row = p" "tr_id row = t"
proof -
  from assms(1) have "case find_task db p t of
       None \<Rightarrow> held_fence tr p t = None \<and> grants_below tr p t 0
     | Some row \<Rightarrow> task_row_ok row \<and> held_fence tr p t = row_holder row \<and> grants_below tr p t (Suc (tr_generation row))"
    unfolding tasks_traced_def by blast
  with assms(2) show "task_row_ok row" "held_fence tr p t = row_holder row" "grants_below tr p t (Suc (tr_generation row))" by auto
  from assms(2) show "tr_project row = p" "tr_id row = t" by (auto simp: find_task_def task_key_def dest!: find_Some_in)
qed

lemma append_event_tasks: "append_event ev r dedup db = Inr (seq, db') \<Longrightarrow> db_tasks db' = db_tasks db"
  by (erule append_event_effect) simp_all

lemma find_map_update:
  assumes "\<And>x. k (f x) = k x"
  shows "List.find (\<lambda>x. k x = i) (map (\<lambda>x. if k x = j then f x else x) xs) =
    (if i = j then map_option f (List.find (\<lambda>x. k x = i) xs) else List.find (\<lambda>x. k x = i) xs)"
  using assms by (induction xs) auto

lemma encode_record_Inr: "encode_record canon r = Inr b \<Longrightarrow> \<exists>n. b = Blob n r"
  by (auto simp: encode_record_def split: sum.splits if_splits)

text \<open>The row of a task after it has been saved.\<close>

definition saved_row :: "fabric_task \<Rightarrow> string option \<Rightarrow> nat \<Rightarrow> task_row \<Rightarrow> task_row" where
  "saved_row task token n row = row\<lparr>tr_state := ts_state task, tr_generation := ts_generation task, tr_owner := ts_owner task,
     tr_token := token, tr_expires := ts_expires_at task, tr_record := Blob n task\<rparr>"

lemma save_and_log_find:
  assumes "save_and_log canon ev task token actor kind detail now db = Inr db'"
  obtains n where "\<And>p t. find_task db' p t = (if p = ts_project task \<and> t = ts_id task
    then map_option (saved_row task token n) (find_task db p t) else find_task db p t)"
proof -
  from assms obtain db1 seq where s: "save_task canon task token db = Inr db1"
    and a: "append_event ev (event_of (ts_project task) actor kind (Some (show_id (ts_id task))) detail now) None db1 = Inr (seq, db')"
    by (auto simp: save_and_log_def)
  from s obtain bytes where b: "encode_record canon task = Inr bytes" and d: "db1 = db\<lparr>db_tasks := map (\<lambda>row. if task_key row = (ts_project task, ts_id task)
       then row\<lparr>tr_state := ts_state task, tr_generation := ts_generation task, tr_owner := ts_owner task, tr_token := token,
            tr_expires := ts_expires_at task, tr_record := bytes\<rparr>
       else row) (db_tasks db)\<rparr>" by (auto simp: save_task_def)
  from encode_record_Inr [OF b] obtain n where n: "bytes = Blob n task" by blast
  have "db_tasks db' = map (\<lambda>row. if task_key row = (ts_project task, ts_id task) then saved_row task token n row else row) (db_tasks db)"
    using append_event_tasks [OF a] d by (simp add: saved_row_def n)
  moreover have "task_key (saved_row task token n row) = task_key row" for row by (simp add: saved_row_def task_key_def)
  ultimately have "find_task db' p t = (if p = ts_project task \<and> t = ts_id task
    then map_option (saved_row task token n) (find_task db p t) else find_task db p t)" for p t
    by (simp add: find_task_def find_map_update)
  then show thesis by (rule that)
qed

fun about :: "fence_event \<Rightarrow> id \<times> id" where
  "about (FenceGranted p c _ _) = (p, core_task c)"
| "about (FenceRenewed p c _ _) = (p, core_task c)"
| "about (FenceUsed p c _) = (p, core_task c)"
| "about (FenceClosed p c) = (p, core_task c)"

lemma held_after_other: "about x \<noteq> (p, t) \<Longrightarrow> held_after p t h x = h"
  by (cases x) auto

lemma grants_below_snoc:
  "grants_below (tr @ [x]) p t g \<longleftrightarrow> grants_below tr p t g
   \<and> (\<forall>c n e. x = FenceGranted p c n e \<longrightarrow> core_task c = t \<longrightarrow> core_generation c < g)"
  unfolding grants_below_def set_append by (simp only: Un_iff list.set empty_iff insert_iff) metis

lemma grants_below_mono: "grants_below tr p t g \<Longrightarrow> g \<le> g' \<Longrightarrow> grants_below tr p t g'"
  by (fastforce simp: grants_below_def)

lemma tasks_traced_save:
  assumes traced: "tasks_traced tr db" and row: "find_task db (ts_project task) (ts_id task) = Some row"
    and saved: "save_and_log canon ev task token actor kind detail now db = Inr db'"
    and active: "ts_owner task \<noteq> None \<longleftrightarrow> ts_state task = TaskActive" "token \<noteq> None \<longleftrightarrow> ts_state task = TaskActive"
      "ts_expires_at task \<noteq> None \<longleftrightarrow> ts_state task = TaskActive"
    and about: "about x = (ts_project task, ts_id task)"
    and held_fence: "held_fence (tr @ [x]) (ts_project task) (ts_id task) = 
      holder_of (ts_id task) (ts_generation task) (ts_owner task) token (ts_expires_at task)"
    and gen: "tr_generation row \<le> ts_generation task"
      "\<And>p c n e. x = FenceGranted p c n e \<Longrightarrow> core_generation c \<le> ts_generation task"
  shows "tasks_traced (tr @ [x]) db'"
  unfolding tasks_traced_def
proof (intro allI)
  fix p t
  from saved obtain n where find: "\<And>p t. find_task db' p t = (if p = ts_project task \<and> t = ts_id task
    then map_option (saved_row task token n) (find_task db p t) else find_task db p t)"
    using save_and_log_find by blast
  note old = tasks_traced_row [OF traced row]
  show "case find_task db' p t of
       None \<Rightarrow> held_fence (tr @ [x]) p t = None \<and> grants_below (tr @ [x]) p t 0
     | Some row \<Rightarrow> task_row_ok row \<and> held_fence (tr @ [x]) p t = row_holder row \<and> grants_below (tr @ [x]) p t (Suc (tr_generation row))"
  proof (cases "(p, t) = (ts_project task, ts_id task)")
    case True
    then have "find_task db' p t = Some (saved_row task token n row)" using row by (simp add: find)
    moreover have "task_row_ok (saved_row task token n row)"
      using active old(4,5) by (simp add: task_row_ok_def saved_row_def)
    moreover have "held_fence (tr @ [x]) p t = row_holder (saved_row task token n row)"
      using held_fence True old(5) by (simp add: row_holder_def saved_row_def del: held_simps)
    moreover have "grants_below (tr @ [x]) p t (Suc (ts_generation task))"
      using True grants_below_mono [OF old(3)] gen by (fastforce simp: grants_below_snoc)
    ultimately show ?thesis by (simp add: saved_row_def)
  next
    case False
    then have "find_task db' p t = find_task db p t" by (auto simp: find)
    moreover have "held_fence (tr @ [x]) p t = held_fence tr p t"
      using False about held_after_other [of x p t] by auto
    moreover have "grants_below (tr @ [x]) p t g \<longleftrightarrow> grants_below tr p t g" for g
      using False about by (auto simp: grants_below_snoc)
    moreover from traced have "case find_task db p t of
       None \<Rightarrow> held_fence tr p t = None \<and> grants_below tr p t 0
     | Some row \<Rightarrow> task_row_ok row \<and> held_fence tr p t = row_holder row \<and> grants_below tr p t (Suc (tr_generation row))"
      unfolding tasks_traced_def by blast
    ultimately show ?thesis by (simp only:)
  qed
qed

lemma tasks_traced_Used: "tasks_traced (tr @ [FenceUsed p c now]) db \<longleftrightarrow> tasks_traced tr db"
  by (simp add: tasks_traced_def grants_below_snoc cong: option.case_cong)

lemma load_task_row:
  assumes "load_task db p t = Inr task"
  obtains row n where "find_task db p t = Some row" "tr_record row = Blob n task" "ts_project task = p" "ts_id task = t"
proof -
  from assms obtain row where "find_task db p t = Some row" "decode_blob (tr_record row) = Inr task" "ts_project task = p" "ts_id task = t"
    by (auto simp: load_task_def split: if_splits)
  moreover from this(2) obtain n where "tr_record row = Blob n task" by (cases "tr_record row") auto
  ultimately show thesis by (intro that)
qed

lemma fenced_held:
  assumes "fenced db p f now live = Inr task" and "tasks_traced tr db"
  obtains row e where "find_task db p (tf_task f) = Some row" "held_fence tr p (tf_task f) = Some (fence_of f, e)"
    "live \<longrightarrow> now < e" "ts_project task = p" "ts_id task = tf_task f" "ts_state task = TaskActive"
    "ts_owner task = Some (tf_actor f)" "ts_generation task = tf_generation f" "ts_expires_at task = Some e"
    "tr_generation row = tf_generation f"
proof -
  from assms(1) have l: "load_task db p (tf_task f) = Inr task"
    and c: "ts_state task = TaskActive" "ts_owner task = Some (tf_actor f)" "ts_generation task = tf_generation f"
      "live \<longrightarrow> \<not> is_none_or (ts_expires_at task) (\<lambda>expiry. expiry \<le> now)"
      "Option.bind (find_task db p (tf_task f)) tr_token = Some (tf_token f)"
    by (auto simp: fenced_def Let_def split: if_splits)
  from l obtain row n where r: "find_task db p (tf_task f) = Some row" "tr_record row = Blob n task" "ts_project task = p" "ts_id task = tf_task f"
    by (rule load_task_row)
  note t = tasks_traced_row [OF assms(2) r(1)]
  from t(1) r(2) have s: "ts_state task = tr_state row" "ts_owner task = tr_owner row" "ts_generation task = tr_generation row"
    "ts_expires_at task = tr_expires row" "tr_expires row \<noteq> None \<longleftrightarrow> tr_state row = TaskActive" by (auto simp: task_row_ok_def)
  with c obtain e where e: "tr_expires row = Some e" by auto
  have "held_fence tr p (tf_task f) = Some (fence_of f, e)"
    using t(2,5) s(2,3) [symmetric] c(2,3,5) e r(1) by (simp add: row_holder_def fence_of_def)
  moreover have "live \<longrightarrow> now < e" using c(4) s e by (simp add: not_le)
  ultimately show thesis using r(1,3,4) c s e by (intro that) auto
qed

definition step_ok :: "fence_event list \<Rightarrow> 'z task_db_scheme \<times> fence_event list \<Rightarrow> bool" where
  "step_ok tr r \<longleftrightarrow> snd r = [] \<and> tasks_traced tr (fst r)
     \<or> (\<exists>x. snd r = [x] \<and> tasks_traced (tr @ [x]) (fst r) \<and> fence_admissible tr x)"

lemma step_ok_emit:
  assumes "tasks_traced tr db"
    and "\<And>v db'. action db = Inr (v, db') \<Longrightarrow> step_ok tr (db', f v)"
  shows "step_ok tr (emit f (store_write req action db))"
proof -
  obtain r db' where w: "store_write req action db = (r, db')" by fastforce
  then show ?thesis
  proof (cases rule: store_write_cases)
    case (1 e)
    with w assms(1) show ?thesis by (simp add: emit_def step_ok_def)
  next
    case (2 v)
    from assms(2) [OF 2(2)] show ?thesis by (simp add: emit_def w 2(1))
  qed
qed

lemma step_ok_refused: "tasks_traced tr db \<Longrightarrow> step_ok tr (emit f (Inl e, db))"
  by (simp add: emit_def step_ok_def)

lemma step_ok_event: "tasks_traced (tr @ [x]) db \<Longrightarrow> fence_admissible tr x \<Longrightarrow> step_ok tr (db, [x])"
  by (simp add: step_ok_def)

lemma wall_now_Inr: "wall_now req = Inr now \<Longrightarrow> now_of req = now"
  by (simp add: wall_now_def now_of_def)

lemma claim_expiry_Inr: "claim_expiry jiff now lease = Inr e \<Longrightarrow> e = now + int lease"
  by (auto simp: claim_expiry_def wall_checked_add_def from_micros_def split: if_splits)

lemma lease_expiry_Inr: "lease_expiry jiff now lease = Inr e \<Longrightarrow> e = now + int lease"
  by (auto simp: lease_expiry_def claim_expiry_Inr split: if_splits)

lemma create_task_ok:
  assumes "tasks_traced tr db"
  shows "step_ok tr (task_step jiff canon ev db (req, CreateTask task))"
  unfolding task_step.simps create_task_def
proof (rule step_ok_emit [OF assms])
  fix v :: unit and db'
  assume "res_bind (insert_task canon ev task db) (\<lambda>(_, db'). Inr ((), db')) = Inr (v, db')"
  then obtain b where i: "insert_task canon ev task db = Inr (b, db')" by auto
  show "step_ok tr (db', [])"
  proof (cases b)
    case False
    with i have "db' = db" by (auto simp: insert_task_def split: option.splits if_splits)
    with assms show ?thesis by (simp add: step_ok_def)
  next
    case True
    with i obtain bytes seq where none: "find_task db (ts_project task) (ts_id task) = None" and b: "encode_record canon task = Inr bytes"
      and open_task: "ts_state task = TaskOpen" "ts_owner task = None" "ts_generation task = 0" "ts_expires_at task = None"
      and a: "append_event ev (event_of (ts_project task) None TaskCreated (Some (show_id (ts_id task))) ''created'' (ts_created_at task)) None
         (db\<lparr>db_tasks := db_tasks db @ [\<lparr>tr_project = ts_project task, tr_id = ts_id task, tr_state = TaskOpen, tr_generation = 0,
              tr_owner = None, tr_token = None, tr_expires = None, tr_record = bytes\<rparr>]\<rparr>) = Inr (seq, db')"
      by (auto simp: insert_task_def find_task_def split: option.splits if_splits)
    let ?row = "\<lparr>tr_project = ts_project task, tr_id = ts_id task, tr_state = TaskOpen, tr_generation = 0,
              tr_owner = None, tr_token = None, tr_expires = None, tr_record = bytes\<rparr>"
    from encode_record_Inr [OF b] obtain n where n: "bytes = Blob n task" by blast
    have rows: "db_tasks db' = db_tasks db @ [?row]" using append_event_tasks [OF a] by simp
    have "tasks_traced tr db'"
      unfolding tasks_traced_def
    proof (intro allI)
      fix p t
      from assms have old: "case find_task db p t of
           None \<Rightarrow> held_fence tr p t = None \<and> grants_below tr p t 0
         | Some row \<Rightarrow> task_row_ok row \<and> held_fence tr p t = row_holder row \<and> grants_below tr p t (Suc (tr_generation row))"
        unfolding tasks_traced_def by blast
      show "case find_task db' p t of
           None \<Rightarrow> held_fence tr p t = None \<and> grants_below tr p t 0
         | Some row \<Rightarrow> task_row_ok row \<and> held_fence tr p t = row_holder row \<and> grants_below tr p t (Suc (tr_generation row))"
      proof (cases "(p, t) = (ts_project task, ts_id task)")
        case True
        then have "find_task db' p t = Some ?row" using none rows by (simp add: find_task_def find_append task_key_def)
        moreover from True none old have "held_fence tr p t = None" "grants_below tr p t 0" by auto
        ultimately show ?thesis using open_task n grants_below_mono [of tr p t 0] by (simp add: task_row_ok_def row_holder_def)
      next
        case False
        then have "find_task db' p t = find_task db p t"
          using rows by (auto simp: find_task_def find_append task_key_def split: option.splits)
        with old show ?thesis by simp
      qed
    qed
    then show ?thesis by (simp add: step_ok_def)
  qed
qed

lemma claim_task_ok:
  assumes "tasks_traced tr db"
  shows "step_ok tr (task_step jiff canon ev db (req, ClaimTask claim))"
proof (cases "lease_in_range (tl_lease claim)")
  case True
  show ?thesis
  proof (simp only: task_step.simps claim_task_def True not_True_eq_False if_False, rule step_ok_emit [OF assms])
    fix f db'
    let ?p = "tl_project claim" and ?t = "tl_task claim"
    assume "res_bind (wall_now req) (\<lambda>now.
        res_bind (claim_expiry jiff now (tl_lease claim)) (\<lambda>expires.
        res_bind (load_task db ?p ?t) (\<lambda>task.
        if ts_state task \<notin> {TaskOpen, TaskActive}
           \<or> (ts_state task = TaskActive \<and> is_none_or (ts_expires_at task) (\<lambda>expiry. now < expiry))
        then Inl FE_Conflict
        else res_bind (ok_or (FE_Invalid ''task generation'') (u64_checked_add (ts_generation task) 1)) (\<lambda>generation.
          let task' = task\<lparr>ts_generation := generation, ts_state := TaskActive, ts_owner := Some (tl_actor claim),
                ts_expires_at := Some expires, ts_updated_at := now\<rparr> in
          res_bind (save_and_log canon ev task' (Some (tl_token claim)) (ts_owner task') TaskClaimed (decimal generation) now db) (\<lambda>db'.
          Inr (\<lparr>tf_extra = [], tf_task = ts_id task', tf_actor = tl_actor claim, tf_generation = generation,
                tf_token = tl_token claim\<rparr>, db')))))) = Inr (f, db')"
    then obtain now e task where now: "wall_now req = Inr now" and e: "claim_expiry jiff now (tl_lease claim) = Inr e"
      and l: "load_task db ?p ?t = Inr task"
      and free: "ts_state task = TaskActive \<longrightarrow> \<not> is_none_or (ts_expires_at task) (\<lambda>expiry. now < expiry)"
      and s: "save_and_log canon ev (task\<lparr>ts_generation := Suc (ts_generation task), ts_state := TaskActive, ts_owner := Some (tl_actor claim),
            ts_expires_at := Some e, ts_updated_at := now\<rparr>) (Some (tl_token claim)) (Some (tl_actor claim)) TaskClaimed
            (decimal (Suc (ts_generation task))) now db = Inr db'"
      and f: "f = \<lparr>tf_extra = [], tf_task = ts_id task, tf_actor = tl_actor claim, tf_generation = Suc (ts_generation task),
            tf_token = tl_token claim\<rparr>"
      by (auto simp: Let_def split: if_splits)
    from l obtain row n where r: "find_task db ?p ?t = Some row" "tr_record row = Blob n task" "ts_project task = ?p" "ts_id task = ?t"
      by (rule load_task_row)
    note old = tasks_traced_row [OF assms r(1)]
    from old(1) r(2) have ok: "ts_state task = tr_state row" "ts_generation task = tr_generation row" "ts_expires_at task = tr_expires row"
      "tr_owner row \<noteq> None \<longleftrightarrow> tr_state row = TaskActive" by (auto simp: task_row_ok_def)
    have x: "FenceGranted ?p (fence_of f) (now_of req) (now_of req + int (tl_lease claim)) =
        FenceGranted ?p (?t, tl_actor claim, Suc (tr_generation row), tl_token claim) now e"
      using wall_now_Inr [OF now] claim_expiry_Inr [OF e] f r(4) ok(2) by (simp add: fence_of_def)
    show "step_ok tr (db', [FenceGranted ?p (fence_of f) (now_of req) (now_of req + int (tl_lease claim))])"
      unfolding x
    proof (rule step_ok_event)
      show "tasks_traced (tr @ [FenceGranted ?p (?t, tl_actor claim, Suc (tr_generation row), tl_token claim) now e]) db'"
        by (rule tasks_traced_save [OF assms _ s]) (use r ok(2) in auto)
      have "is_none_or (held_fence tr ?p ?t) (\<lambda>(_, e'). e' \<le> now)"
      proof (cases "tr_state row = TaskActive")
        case True
        with free ok(1,3) obtain e' where "tr_expires row = Some e'" "e' \<le> now" by (auto simp: is_none_or_iff not_less)
        then show ?thesis
          unfolding old(2) row_holder_def
          by (cases "tr_owner row"; cases "tr_token row") simp_all
      next
        case False
        with ok(4) have "tr_owner row = None" by blast
        then show ?thesis unfolding old(2) row_holder_def by simp
      qed
      then show "fence_admissible tr (FenceGranted ?p (?t, tl_actor claim, Suc (tr_generation row), tl_token claim) now e)"
        using old(3) by (simp add: grants_below_def)
    qed
  qed
next
  case False
  then show ?thesis by (simp add: claim_task_def step_ok_refused [OF assms])
qed

lemma verify_task_ok:
  assumes "tasks_traced tr db"
  shows "step_ok tr (task_step jiff canon ev db (req, VerifyTask project f))"
proof (cases "verify_task req project f db")
  case (Inr task)
  then obtain now where "wall_now req = Inr now" and "fenced db project f now True = Inr task"
    by (auto simp: verify_task_def query_rows_def split: option.splits)
  from fenced_held [OF this(2) assms] wall_now_Inr [OF this(1)]
  have "fence_admissible tr (FenceUsed project (fence_of f) (now_of req))" by (auto simp: fence_of_def)
  with Inr assms show ?thesis by (simp add: emit_def step_ok_def tasks_traced_Used)
qed (simp add: step_ok_refused [OF assms])

lemma renew_task_ok:
  assumes "tasks_traced tr db"
  shows "step_ok tr (task_step jiff canon ev db (req, RenewTask project f lease))"
  unfolding task_step.simps renew_task_def
proof (rule step_ok_emit [OF assms])
  fix v :: unit and db'
  assume "res_bind (wall_now req) (\<lambda>now.
     res_bind (lease_expiry jiff now lease) (\<lambda>expires.
     res_bind (fenced db project f now True) (\<lambda>task.
     res_bind (save_and_log canon ev (task\<lparr>ts_expires_at := Some expires, ts_updated_at := now\<rparr>) (Some (tf_token f))
       (Some (tf_actor f)) TaskRenewed ''renewed'' now db) (\<lambda>db'. Inr ((), db'))))) = Inr (v, db')"
  then obtain now e task where now: "wall_now req = Inr now" and e: "lease_expiry jiff now lease = Inr e"
    and fenced: "fenced db project f now True = Inr task"
    and s: "save_and_log canon ev (task\<lparr>ts_expires_at := Some e, ts_updated_at := now\<rparr>) (Some (tf_token f))
       (Some (tf_actor f)) TaskRenewed ''renewed'' now db = Inr db'" by auto
  from fenced assms obtain row e' where h: "find_task db project (tf_task f) = Some row" "held_fence tr project (tf_task f) = Some (fence_of f, e')"
    "True \<longrightarrow> now < e'" "ts_project task = project" "ts_id task = tf_task f" "ts_state task = TaskActive"
    "ts_owner task = Some (tf_actor f)" "ts_generation task = tf_generation f" "ts_expires_at task = Some e'"
    "tr_generation row = tf_generation f" by (rule fenced_held)
  have "tasks_traced (tr @ [FenceRenewed project (fence_of f) now e]) db'"
    by (rule tasks_traced_save [OF assms _ s]) (use h in \<open>auto simp: fence_of_def\<close>)
  then show "step_ok tr (db', [FenceRenewed project (fence_of f) (now_of req) (now_of req + int lease)])"
    using h(2,3) wall_now_Inr [OF now] lease_expiry_Inr [OF e] by (intro step_ok_event) (auto simp: fence_of_def)
qed

lemma update_task_ok:
  assumes "tasks_traced tr db"
  shows "step_ok tr (task_step jiff canon ev db (req, UpdateTask project f objective note))"
proof (cases "res_bind (check_text objective ''objective'') (\<lambda>_. case note of None \<Rightarrow> Inr () | Some n \<Rightarrow> check_text n ''note'')")
  case (Inr u)
  show ?thesis
  proof (simp only: task_step.simps update_task_def Inr sum.case, rule step_ok_emit [OF assms])
    fix v :: unit and db'
    assume "res_bind (wall_now req) (\<lambda>now.
          res_bind (fenced db project f now True) (\<lambda>task.
          res_bind (save_and_log canon ev (task\<lparr>ts_objective := objective, ts_note := note, ts_updated_at := now\<rparr>)
            (Some (tf_token f)) (ts_owner task) TaskUpdated ''updated'' now db) (\<lambda>db'. Inr ((), db')))) = Inr (v, db')"
    then obtain now task where now: "wall_now req = Inr now" and fenced: "fenced db project f now True = Inr task"
      and s: "save_and_log canon ev (task\<lparr>ts_objective := objective, ts_note := note, ts_updated_at := now\<rparr>)
            (Some (tf_token f)) (ts_owner task) TaskUpdated ''updated'' now db = Inr db'" by auto
    from fenced assms obtain row e where h: "find_task db project (tf_task f) = Some row" "held_fence tr project (tf_task f) = Some (fence_of f, e)"
      "True \<longrightarrow> now < e" "ts_project task = project" "ts_id task = tf_task f" "ts_state task = TaskActive"
      "ts_owner task = Some (tf_actor f)" "ts_generation task = tf_generation f" "ts_expires_at task = Some e"
      "tr_generation row = tf_generation f" by (rule fenced_held)
    have "tasks_traced (tr @ [FenceUsed project (fence_of f) now]) db'"
      by (rule tasks_traced_save [OF assms _ s]) (use h in \<open>auto simp: fence_of_def\<close>)
    then show "step_ok tr (db', [FenceUsed project (fence_of f) (now_of req)])"
      using h(2,3) wall_now_Inr [OF now] by (intro step_ok_event) (auto simp: fence_of_def)
  qed
qed (simp add: update_task_def step_ok_refused [OF assms])

lemma close_task_ok:
  assumes "tasks_traced tr db" and "state \<noteq> TaskActive"
  shows "step_ok tr (emit (\<lambda>_. [FenceClosed project (fence_of f)]) (close_task canon ev req project f state db))"
  unfolding close_task_def
proof (rule step_ok_emit [OF assms(1)])
  fix v :: unit and db'
  assume "res_bind (wall_now req) (\<lambda>now.
     res_bind (fenced db project f now False) (\<lambda>task.
     res_bind (save_and_log canon ev (task\<lparr>ts_state := state, ts_owner := None, ts_expires_at := None, ts_updated_at := now\<rparr>)
       None (Some (tf_actor f)) (if state = TaskOpen then TaskReleased else TaskFinished) (task_state_sql state) now db) (\<lambda>db'.
     Inr ((), db')))) = Inr (v, db')"
  then obtain now task where fenced: "fenced db project f now False = Inr task"
    and s: "save_and_log canon ev (task\<lparr>ts_state := state, ts_owner := None, ts_expires_at := None, ts_updated_at := now\<rparr>)
       None (Some (tf_actor f)) (if state = TaskOpen then TaskReleased else TaskFinished) (task_state_sql state) now db = Inr db'" by auto
  from fenced assms(1) obtain row e where h: "find_task db project (tf_task f) = Some row" "held_fence tr project (tf_task f) = Some (fence_of f, e)"
    "False \<longrightarrow> now < e" "ts_project task = project" "ts_id task = tf_task f" "ts_state task = TaskActive"
    "ts_owner task = Some (tf_actor f)" "ts_generation task = tf_generation f" "ts_expires_at task = Some e"
    "tr_generation row = tf_generation f" by (rule fenced_held)
  have "tasks_traced (tr @ [FenceClosed project (fence_of f)]) db'"
    by (rule tasks_traced_save [OF assms(1) _ s]) (use h assms(2) in \<open>auto simp: fence_of_def\<close>)
  then show "step_ok tr (db', [FenceClosed project (fence_of f)])"
    using h(2) by (intro step_ok_event) (auto simp: fence_of_def)
qed

lemma task_step_ok:
  assumes "tasks_traced tr db"
  shows "step_ok tr (task_step jiff canon ev db e)"
proof (cases "(jiff, canon, ev, db, e)" rule: task_step.cases)
  case (6 jiff canon ev db req project f)
  with close_task_ok [OF assms, of TaskOpen] show ?thesis by (simp add: release_task_def)
next
  case (7 jiff canon ev db req project f state)
  show ?thesis
  proof (cases "state \<in> {TaskDone, TaskCancelled}")
    case True
    with 7 close_task_ok [OF assms, of state] show ?thesis by (auto simp: finish_task_def)
  next
    case False
    with 7 assms show ?thesis by (auto simp: finish_task_def intro: step_ok_refused)
  qed
qed (use assms create_task_ok claim_task_ok verify_task_ok renew_task_ok update_task_ok in \<open>simp_all only: prod.inject\<close>)

definition empty_tasks :: "'z \<Rightarrow> 'z task_db_scheme" where
  "empty_tasks rest = empty_fabric \<lparr>db_tasks = [], \<dots> = rest\<rparr>"

interpretation task_fences: traced_machine "task_step jiff canon ev" "empty_tasks (rest :: 'z)" "\<lambda>_. True" tasks_traced fence_admissible
proof
  show "tasks_traced [] (empty_tasks rest)"
    by (simp add: tasks_traced_def empty_tasks_def empty_fabric_def find_task_def grants_below_def)
next
  fix tr and db :: "'z task_db_scheme" and e
  assume "tasks_traced tr db"
  from task_step_ok [OF this, of jiff canon ev e] show "tasks_traced (tr @ snd (task_step jiff canon ev db e)) (fst (task_step jiff canon ev db e))"
    by (auto simp: step_ok_def)
next
  fix tr and db :: "'z task_db_scheme" and e xs x ys
  assume "tasks_traced tr db" "snd (task_step jiff canon ev db e) = xs @ x # ys"
  with task_step_ok [of tr db jiff canon ev e] show "fence_admissible (tr @ xs) x"
    by (auto simp: step_ok_def append_eq_Cons_conv)
qed

subsection \<open>Properties\<close>

definition example_task :: fabric_task where
  "example_task = \<lparr>ts_extra = [], ts_header = 1, ts_project = ''p'', ts_id = ''t'', ts_objective = ''review'', ts_note = None,
     ts_state = TaskOpen, ts_owner = None, ts_generation = 0, ts_expires_at = None, ts_created_at = 0, ts_updated_at = 0\<rparr>"

definition example_request :: "wall_time \<Rightarrow> store_request" where
  "example_request now = \<lparr>sq_cancelled = False, sq_now = Inr now, sq_begin = None, sq_commit = None\<rparr>"

definition example_fence :: "id \<Rightarrow> nat \<Rightarrow> task_fence" where
  "example_fence actor generation = \<lparr>tf_extra = [], tf_task = ''t'', tf_actor = actor, tf_generation = generation, tf_token = actor\<rparr>"

definition example_claim_by :: "id \<Rightarrow> task_claim" where
  "example_claim_by actor = \<lparr>tl_project = ''p'', tl_task = ''t'', tl_actor = actor, tl_token = actor, tl_lease = 1000000\<rparr>"

definition example_task_run :: "(store_request \<times> task_op) list" where
  "example_task_run =
     [(example_request 0, CreateTask example_task),
      (example_request 1, ClaimTask (example_claim_by ''a'')),
      (example_request 1000001, ClaimTask (example_claim_by ''b'')),
      (example_request 1000002, UpdateTask ''p'' (example_fence ''a'' 1) ''late'' None)]"

lemmas example_tasks = example_task_def example_request_def example_fence_def example_claim_by_def empty_tasks_def empty_fabric_def
  emit_def create_task_def insert_task_def claim_task_def update_task_def finish_task_def close_task_def store_write_def request_check_def
  wall_now_def map_err_def claim_expiry_def lease_in_range_def wall_checked_add_def from_micros_def load_task_def find_task_def
  fenced_def save_and_log_def save_task_def append_event_def event_of_def check_text_def encode_record_def task_key_def
  u64_checked_add_def i64_try_from_def MAX_BODY_BYTES_def FABRIC_RECORD_BYTES_def now_of_def fence_of_def Let_def is_i64_def

lemma decimal_examples: "decimal (Suc 0) = ''1''" "decimal 2 = ''2''" "decimal (Suc (Suc 0)) = ''2''"
  by code_simp+

lemma example_task_trace:
  "snd (run_machine (task_step (\<lambda>_. True) (\<lambda>_. Inr 10) (\<lambda>_. Inr 10)) (empty_tasks ()) example_task_run) =
     [FenceGranted ''p'' (''t'', ''a'', 1, ''a'') 1 1000001] @ FenceGranted ''p'' (''t'', ''b'', 2, ''b'') 1000001 2000001 # []"
  by (simp add: example_task_run_def example_tasks decimal_examples run_machine_Cons del: run_machine.simps(2))

text \<open>
  C11: Fences exclude each other. Along every run of operations on tasks by any actors, whichever
  fail and whatever times they read: a task is granted only when nobody holds it or the holder's
  lease has ended at that time, and with a generation above all granted before; it is used or
  renewed only under the very fence that was granted last and not closed since, before its lease
  ends; and it is released or finished only under that fence. So a stale fence never has an
  effect.
\<close>

theorem task_fences_exclude:
  assumes "snd (run_machine (task_step jiff canon ev) (empty_tasks rest) ops) = before @ x # after"
  shows "(\<forall>p c now e. x = FenceGranted p c now e \<longrightarrow> is_none_or (held_fence before p (core_task c)) (\<lambda>(_, e'). e' \<le> now)
        \<and> (\<forall>c' n' e'. FenceGranted p c' n' e' \<in> set before \<longrightarrow> core_task c' = core_task c \<longrightarrow> core_generation c' < core_generation c))
    \<and> (\<forall>p c now e. x = FenceUsed p c now \<or> x = FenceRenewed p c now e \<longrightarrow> (\<exists>e'. held_fence before p (core_task c) = Some (c, e') \<and> now < e'))
    \<and> (\<forall>p c. x = FenceClosed p c \<longrightarrow> (\<exists>e'. held_fence before p (core_task c) = Some (c, e')))"
proof -
  have "fence_admissible before x"
    using task_fences.run_admissible [OF _ assms] by (simp add: list_all_iff)
  then show ?thesis by (cases x) (auto simp del: split_paired_All split_paired_Ex)
qed

theorem task_fences_exclude_witness:
  "snd (run_machine (task_step (\<lambda>_. True) (\<lambda>_. Inr 10) (\<lambda>_. Inr 10)) (empty_tasks ()) example_task_run) =
     [FenceGranted ''p'' (''t'', ''a'', 1, ''a'') 1 1000001] @ FenceGranted ''p'' (''t'', ''b'', 2, ''b'') 1000001 2000001 # []
   \<and> is_none_or (held_fence [FenceGranted ''p'' (''t'', ''a'', 1, ''a'') 1 1000001] ''p'' ''t'') (\<lambda>(_, e). e \<le> 1000001)"
  using example_task_trace task_fences_exclude [OF example_task_trace] by simp

end
