(* ===== verification/Fabric_Claims.thy ===== *)
theory Fabric_Claims
  imports Fabric_Tasks "HOL-Library.Sublist" "HOL-Library.Product_Lexorder"
begin

section \<open>Work claims (crate fabric-store)\<close>

text \<open>
  \<open>fabric-store/src/claims.rs\<close>: advisory claims on issues, paths and work trees. The claims of each
  kind have their own list here, since every query names the kind; the counters and the identities
  are common to both kinds. A path is its text; \<open>canonicalize\<close> and the digest that serves as the
  key of a scope are arguments.
\<close>

subsection \<open>Paths\<close>

fun split_slash :: "string \<Rightarrow> string list" where
  "split_slash [] = [[]]"
| "split_slash (c # cs) = (if c = CHR ''/'' then [] # split_slash cs
     else (case split_slash cs of [] \<Rightarrow> [[c]] | part # parts \<Rightarrow> (c # part) # parts))"

text \<open>The order of paths is that of their components.\<close>

definition path_components :: "string \<Rightarrow> string list" where
  "path_components p = filter (\<lambda>c. c \<noteq> []) (split_slash p)"

definition path_parent :: "string \<Rightarrow> string option" where
  "path_parent p =
     (if p = [] \<or> p = ''/'' then None
      else let q = rev (dropWhile (\<lambda>c. c \<noteq> CHR ''/'') (rev p)) in Some (if q = ''/'' then q else butlast q))"

lemma path_parent_shorter: "path_parent p = Some q \<Longrightarrow> length q < length p"
proof -
  assume a: "path_parent p = Some q"
  let ?r = "rev (dropWhile (\<lambda>c. c \<noteq> CHR ''/'') (rev p))"
  from a have p: "p \<noteq> []" "p \<noteq> ''/''" and q: "q = (if ?r = ''/'' then ?r else butlast ?r)"
    by (auto simp: path_parent_def Let_def split: if_splits)
  have len: "length ?r \<le> length p" using length_dropWhile_le [of _ "rev p"] by simp
  show ?thesis
  proof (cases "?r = ''/''")
    case True
    have "length p \<noteq> 1"
    proof
      assume "length p = 1"
      then obtain c where "p = [c]" by (cases p) auto
      with True p show False by (auto split: if_splits)
    qed
    with p True q show ?thesis by (cases p) auto
  next
    case False
    with q have "length q = length ?r - 1" by simp
    moreover have "0 < length p" using p(1) by simp
    ultimately show ?thesis using len by linarith
  qed
qed

function path_ancestors :: "string \<Rightarrow> string list" where
  "path_ancestors p = p # (case path_parent p of None \<Rightarrow> [] | Some q \<Rightarrow> path_ancestors q)"
  by pat_completeness auto
termination
  by (relation "measure length") (simp_all add: path_parent_shorter)

declare path_ancestors.simps [simp del]


definition is_utf8 :: "string \<Rightarrow> bool" where
  "is_utf8 s \<longleftrightarrow> is_ok (from_utf8 s)"

definition canonical_path :: "(string \<Rightarrow> io_cause + string) \<Rightarrow> string \<Rightarrow> fabric_error + string" where
  "canonical_path realpath p =
     (if \<not> is_utf8 p then Inl FE_PathEncoding
      else if 4096 < length p then Inl (FE_Invalid ''claim path length'')
      else if \<not> prefix ''/'' p then Inl (FE_Invalid ''absolute claim path'')
      else res_bind (map_err FE_Io (realpath p)) (\<lambda>q.
        if \<not> is_utf8 q then Inl FE_PathEncoding
        else if 4096 < length q then Inl (FE_Invalid ''claim path length'')
        else Inr q))"

subsection \<open>Scopes and claims\<close>

datatype work_scope =
    IssueScope extra_fields string
  | PathsScope extra_fields "string list"
  | WorktreeScope extra_fields string

fun canonical_paths :: "(string \<Rightarrow> io_cause + string) \<Rightarrow> string list \<Rightarrow> fabric_error + string list" where
  "canonical_paths realpath [] = Inr []"
| "canonical_paths realpath (p # ps) =
     res_bind (canonical_path realpath p) (\<lambda>q. res_bind (canonical_paths realpath ps) (\<lambda>qs. Inr (q # qs)))"

fun scope_canonical :: "(string \<Rightarrow> io_cause + string) \<Rightarrow> work_scope \<Rightarrow> fabric_error + work_scope" where
  "scope_canonical realpath (IssueScope extra key) =
     res_bind (check_text key ''issue key'') (\<lambda>_. Inr (IssueScope extra key))"
| "scope_canonical realpath (PathsScope extra ps) =
     (if ps = [] \<or> 100 < length ps then Inl (FE_Invalid ''claim paths'')
      else res_bind (canonical_paths realpath ps) (\<lambda>qs. Inr (PathsScope extra (remdups_adj (sort_key path_components qs)))))"
| "scope_canonical realpath (WorktreeScope extra p) =
     res_bind (canonical_path realpath p) (\<lambda>q. Inr (WorktreeScope extra q))"

fun scope_paths :: "work_scope \<Rightarrow> string list" where
  "scope_paths (IssueScope _ _) = []"
| "scope_paths (PathsScope _ ps) = ps"
| "scope_paths (WorktreeScope _ p) = [p]"

record claim_request =
  cq_extra :: extra_fields
  cq_id :: id
  cq_project :: id
  cq_actor :: id
  cq_token :: string
  cq_lease :: duration_micros
  cq_scope :: work_scope

record claim_fence =
  cf_extra :: extra_fields
  cf_id :: id
  cf_actor :: id
  cf_generation :: nat
  cf_token :: string

record work_claim =
  wc_extra :: extra_fields
  wc_header :: nat
  wc_project :: id
  wc_id :: id
  wc_scope :: work_scope
  wc_holder :: "id option"
  wc_generation :: nat
  wc_expires_at :: "wall_time option"
  wc_updated_at :: wall_time

text \<open>Of \<open>landing.rs\<close>, whose claims share the counters and the identities.\<close>

record landing =
  ld_extra :: extra_fields
  ld_header :: nat
  ld_project :: id
  ld_id :: id
  ld_reference :: string
  ld_expected :: git_oid
  ld_candidate :: git_oid
  ld_holder :: "id option"
  ld_generation :: nat
  ld_expires_at :: "wall_time option"
  ld_operation :: "string option"
  ld_updated_at :: wall_time

record push_request =
  pr_extra :: extra_fields
  pr_header :: nat
  pr_project :: id
  pr_claim :: id
  pr_actor :: id
  pr_generation :: nat
  pr_reference :: string
  pr_expected :: git_oid
  pr_candidate :: git_oid
  pr_remote :: string

record push_operation =
  po_extra :: extra_fields
  po_header :: nat
  po_id :: string
  po_digest :: digest
  po_request :: push_request
  po_phase :: push_phase
  po_observed_remote :: "git_oid option"
  po_updated_at :: wall_time

datatype claim_kind = WorkKind | LandingKind

record 'r claim_row =
  cw_project :: id
  cw_id :: id
  cw_key :: string
  cw_generation :: nat
  cw_holder :: "id option"
  cw_token :: "string option"
  cw_expires :: "wall_time option"
  cw_record :: "'r blob"

record claim_counter =
  cc_project :: id
  cc_kind :: claim_kind
  cc_key :: string
  cc_id :: id
  cc_generation :: nat

record claim_path =
  ca_project :: id
  ca_claim :: id
  ca_path :: string

record push_row =
  pu_project :: id
  pu_id :: string
  pu_claim :: id
  pu_phase :: push_phase
  pu_record :: "push_operation blob"

record claim_db = task_db +
  db_counters :: "claim_counter list"
  db_work :: "work_claim claim_row list"
  db_landings :: "landing claim_row list"
  db_claim_paths :: "claim_path list"
  db_pushes :: "push_row list"

subsection \<open>Rows and fences\<close>

record 'r stored_claim =
  sc_id :: id
  sc_generation :: nat
  sc_holder :: "id option"
  sc_token :: "string option"
  sc_expires :: "wall_time option"
  sc_body :: "'r blob option"

definition find_claim :: "'r claim_row list \<Rightarrow> id \<Rightarrow> id \<Rightarrow> 'r claim_row option" where
  "find_claim rows project i = List.find (\<lambda>row. cw_project row = project \<and> cw_id row = i) rows"

definition by_scope ::
  "claim_kind \<Rightarrow> 'r claim_row list \<Rightarrow> 'z claim_db_scheme \<Rightarrow> id \<Rightarrow> string \<Rightarrow> 'r stored_claim option" where
  "by_scope kind rows db project key =
     map_option (\<lambda>n. let row = find_claim rows project (cc_id n) in
         \<lparr>sc_id = cc_id n, sc_generation = cc_generation n, sc_holder = Option.bind row cw_holder,
          sc_token = Option.bind row cw_token, sc_expires = Option.bind row cw_expires, sc_body = map_option cw_record row\<rparr>)
       (List.find (\<lambda>n. cc_project n = project \<and> cc_kind n = kind \<and> cc_key n = key) (db_counters db))"

definition by_fence ::
  "'r claim_row list \<Rightarrow> id \<Rightarrow> claim_fence \<Rightarrow> wall_time option \<Rightarrow> fabric_error + 'r claim_row" where
  "by_fence rows project fence live =
     res_bind (ok_or FE_StaleFence (find_claim rows project (cf_id fence))) (\<lambda>row.
     if cw_holder row \<noteq> Some (cf_actor fence) \<or> cw_generation row \<noteq> cf_generation fence \<or> cw_token row \<noteq> Some (cf_token fence)
        \<or> is_some_and live (\<lambda>now. is_none_or (cw_expires row) (\<lambda>t. t \<le> now))
     then Inl FE_StaleFence else Inr row)"

definition next_generation :: "'r stored_claim option \<Rightarrow> fabric_error + nat" where
  "next_generation old =
     res_bind (ok_or (FE_Invalid ''claim generation'') (u64_checked_add (case old of None \<Rightarrow> 0 | Some r \<Rightarrow> sc_generation r) 1)) (\<lambda>n.
     res_bind (ok_or (FE_Invalid ''claim generation'') (i64_try_from n)) (\<lambda>_. Inr n))"

text \<open>
  \<open>save_claim\<close>: the counter of the scope and the row of the claim are inserted or updated. A row
  of the same scope with another identity would violate a constraint.
\<close>

definition save_counter :: "claim_counter \<Rightarrow> claim_counter list \<Rightarrow> claim_counter list" where
  "save_counter n ns =
     (if list_ex (\<lambda>m. cc_project m = cc_project n \<and> cc_kind m = cc_kind n \<and> cc_key m = cc_key n) ns
      then map (\<lambda>m. if cc_project m = cc_project n \<and> cc_kind m = cc_kind n \<and> cc_key m = cc_key n
             then m\<lparr>cc_generation := cc_generation n\<rparr> else m) ns
      else ns @ [n])"

definition save_row :: "'r claim_row \<Rightarrow> 'r claim_row list \<Rightarrow> 'r claim_row list" where
  "save_row r rows =
     (if list_ex (\<lambda>row. cw_project row = cw_project r \<and> cw_id row = cw_id r) rows
      then map (\<lambda>row. if cw_project row = cw_project r \<and> cw_id row = cw_id r
             then row\<lparr>cw_generation := cw_generation r, cw_holder := cw_holder r, cw_token := cw_token r,
                  cw_expires := cw_expires r, cw_record := cw_record r\<rparr> else row) rows
      else rows @ [r])"

record claim_write =
  cp_project :: id
  cp_id :: id
  cp_key :: string
  cp_generation :: nat
  cp_holder :: "id option"
  cp_token :: "string option"
  cp_expires :: "wall_time option"

definition row_of_write :: "claim_write \<Rightarrow> 'r blob \<Rightarrow> 'r claim_row" where
  "row_of_write w b = \<lparr>cw_project = cp_project w, cw_id = cp_id w, cw_key = cp_key w, cw_generation = cp_generation w,
     cw_holder = cp_holder w, cw_token = cp_token w, cw_expires = cp_expires w, cw_record = b\<rparr>"

definition save_claim ::
  "claim_kind \<Rightarrow> claim_write \<Rightarrow> fabric_error + 'r blob \<Rightarrow> 'r claim_row list \<Rightarrow> claim_counter list
   \<Rightarrow> fabric_error + 'r claim_row list \<times> claim_counter list" where
  "save_claim kind w bytes rows ns =
     res_bind (ok_or (FE_Invalid ''claim generation'') (i64_try_from (cp_generation w))) (\<lambda>_.
     if list_ex (\<lambda>n. cc_project n = cp_project w \<and> cc_id n = cp_id w \<and> (cc_kind n \<noteq> kind \<or> cc_key n \<noteq> cp_key w)) ns
     then Inl FE_Conflict
     else res_bind bytes (\<lambda>b.
       if list_ex (\<lambda>row. cw_project row = cp_project w \<and> cw_key row = cp_key w \<and> cw_id row \<noteq> cp_id w) rows then Inl FE_Sqlite
       else Inr (save_row (row_of_write w b) rows,
                 save_counter \<lparr>cc_project = cp_project w, cc_kind = kind, cc_key = cp_key w, cc_id = cp_id w,
                   cc_generation = cp_generation w\<rparr> ns)))"

definition claim_event ::
  "event_canon \<Rightarrow> id \<Rightarrow> claim_fence \<Rightarrow> event_kind \<Rightarrow> string \<Rightarrow> wall_time \<Rightarrow> 'z fabric_db_scheme \<Rightarrow> fabric_error + 'z fabric_db_scheme" where
  "claim_event ev project fence kind detail now db =
     res_bind (append_event ev (event_of project (Some (cf_actor fence)) kind (Some (show_id (cf_id fence))) detail now) None db)
       (\<lambda>(_, db'). Inr db')"

subsection \<open>Overlapping paths\<close>

definition live_claim :: "wall_time \<Rightarrow> 'r claim_row \<Rightarrow> bool" where
  "live_claim now row \<longleftrightarrow> cw_holder row \<noteq> None \<and> is_some_and (cw_expires row) (\<lambda>t. now < t)"

text \<open>
  The first path that a query finds, joined with its live claim. Which of several is reported is
  not fixed by the query.
\<close>

definition find_live_path :: "'z claim_db_scheme \<Rightarrow> id \<Rightarrow> wall_time \<Rightarrow> (string \<Rightarrow> bool) \<Rightarrow> id option" where
  "find_live_path db project now matches =
     map_option ca_claim (List.find (\<lambda>p. ca_project p = project \<and> matches (ca_path p)
       \<and> list_ex (\<lambda>row. cw_project row = project \<and> cw_id row = ca_claim p \<and> live_claim now row) (db_work db)) (db_claim_paths db))"

definition path_range :: "string \<Rightarrow> string \<times> string" where
  "path_range p = (if p = ''/'' then (''/'', ''0'') else (p @ ''/'', p @ ''0''))"

fun find_ancestor :: "'z claim_db_scheme \<Rightarrow> id \<Rightarrow> wall_time \<Rightarrow> string list \<Rightarrow> id option" where
  "find_ancestor db project now [] = None"
| "find_ancestor db project now (p # ps) =
     (case find_live_path db project now (\<lambda>q. q = p) of Some i \<Rightarrow> Some i | None \<Rightarrow> find_ancestor db project now ps)"

definition overlapping_path :: "'z claim_db_scheme \<Rightarrow> id \<Rightarrow> wall_time \<Rightarrow> string \<Rightarrow> id option" where
  "overlapping_path db project now p =
     (let (lower, upper) = path_range p in
      case find_live_path db project now (\<lambda>q. lower \<le> q \<and> q < upper) of
        Some i \<Rightarrow> Some i
      | None \<Rightarrow> find_ancestor db project now (path_ancestors p))"

fun find_overlap :: "'z claim_db_scheme \<Rightarrow> id \<Rightarrow> wall_time \<Rightarrow> string list \<Rightarrow> id option" where
  "find_overlap db project now [] = None"
| "find_overlap db project now (p # ps) =
     (case overlapping_path db project now p of Some i \<Rightarrow> Some i | None \<Rightarrow> find_overlap db project now ps)"

subsection \<open>Operations\<close>

text \<open>
  \<open>prune_released\<close> deletes at most a hundred released claims of the project in the order of their
  identities, unless a push refers to them.
\<close>

definition prunable :: "'z claim_db_scheme \<Rightarrow> id \<Rightarrow> 'r claim_row list \<Rightarrow> id list" where
  "prunable db project rows = map cw_id (filter (\<lambda>row. cw_project row = project \<and> cw_holder row = None
     \<and> \<not> list_ex (\<lambda>o'. pu_project o' = project \<and> pu_claim o' = cw_id row) (db_pushes db)) rows)"

definition prune_released :: "id \<Rightarrow> 'z claim_db_scheme \<Rightarrow> 'z claim_db_scheme" where
  "prune_released project db =
     (let ids = take 100 (sort (prunable db project (db_work db) @ prunable db project (db_landings db))) in
      db\<lparr>db_work := filter (\<lambda>row. \<not> (cw_project row = project \<and> cw_id row \<in> set ids)) (db_work db),
         db_landings := filter (\<lambda>row. \<not> (cw_project row = project \<and> cw_id row \<in> set ids)) (db_landings db),
         db_claim_paths := filter (\<lambda>p. \<not> (ca_project p = project \<and> ca_claim p \<in> set ids)) (db_claim_paths db)\<rparr>)"

definition add_paths :: "id \<Rightarrow> id \<Rightarrow> string list \<Rightarrow> claim_path list \<Rightarrow> claim_path list" where
  "add_paths project i ps rows =
     foldl (\<lambda>rows p. let row = \<lparr>ca_project = project, ca_claim = i, ca_path = p\<rparr> in if row \<in> set rows then rows else rows @ [row]) rows ps"

type_synonym scope_digest = "work_scope \<Rightarrow> canonical_error + string"
type_synonym claim_canon = "work_claim \<Rightarrow> canonical_error + nat"

definition scope_key :: "scope_digest \<Rightarrow> work_scope \<Rightarrow> fabric_error + string" where
  "scope_key digest scope = map_err FE_Encode (digest scope)"

definition fence_for :: "id \<Rightarrow> claim_request \<Rightarrow> nat \<Rightarrow> claim_fence" where
  "fence_for i claim generation =
     \<lparr>cf_extra = [], cf_id = i, cf_actor = cq_actor claim, cf_generation = generation, cf_token = cq_token claim\<rparr>"

definition previous_extra :: "work_claim stored_claim option \<Rightarrow> fabric_error + extra_fields" where
  "previous_extra previous = (case Option.bind previous sc_body of
       None \<Rightarrow> Inr [] | Some b \<Rightarrow> res_bind (decode_blob b) (\<lambda>w. Inr (wc_extra w)))"

definition grant_claim ::
  "claim_canon \<Rightarrow> event_canon \<Rightarrow> claim_request \<Rightarrow> work_scope \<Rightarrow> string \<Rightarrow> wall_time \<Rightarrow> wall_time \<Rightarrow> work_claim stored_claim option
   \<Rightarrow> 'z claim_db_scheme \<Rightarrow> fabric_error + claim_fence \<times> 'z claim_db_scheme" where
  "grant_claim canon ev claim scope key now expires previous db =
     (let i = (case previous of None \<Rightarrow> cq_id claim | Some r \<Rightarrow> sc_id r) in
      res_bind (next_generation previous) (\<lambda>generation.
      let fence = fence_for i claim generation in
      res_bind (previous_extra previous) (\<lambda>extra.
      let r = \<lparr>wc_extra = extra, wc_header = 1, wc_project = cq_project claim, wc_id = i, wc_scope = scope, wc_holder = Some (cq_actor claim),
            wc_generation = generation, wc_expires_at = Some expires, wc_updated_at = now\<rparr> in
      res_bind (save_claim WorkKind \<lparr>cp_project = cq_project claim, cp_id = i, cp_key = key, cp_generation = generation,
          cp_holder = Some (cq_actor claim), cp_token = Some (cq_token claim), cp_expires = Some expires\<rparr>
          (encode_record canon r) (db_work db) (db_counters db)) (\<lambda>(rows, ns).
      res_bind (claim_event ev (cq_project claim) fence ClaimAcquired ''acquired'' now
          (db\<lparr>db_work := rows, db_counters := ns,
              db_claim_paths := add_paths (cq_project claim) i (scope_paths scope) (db_claim_paths db)\<rparr>)) (\<lambda>db'.
      Inr (fence, db'))))))"

definition acquire_claim_tx ::
  "(i64 \<Rightarrow> bool) \<Rightarrow> claim_canon \<Rightarrow> event_canon \<Rightarrow> store_request \<Rightarrow> claim_request \<Rightarrow> work_scope \<Rightarrow> string
   \<Rightarrow> 'z claim_db_scheme \<Rightarrow> fabric_error + claim_fence \<times> 'z claim_db_scheme" where
  "acquire_claim_tx jiff canon ev req claim scope key db =
     res_bind (wall_now req) (\<lambda>now.
     res_bind (lease_expiry jiff now (cq_lease claim)) (\<lambda>expires.
     let previous = by_scope WorkKind (db_work db) db (cq_project claim) key in
     case (case previous of
         Some row \<Rightarrow> if sc_holder row \<noteq> None \<and> is_some_and (sc_expires row) (\<lambda>t. now < t) then Some row else None
       | None \<Rightarrow> None) of
       Some row \<Rightarrow>
         if sc_holder row = Some (cq_actor claim) \<and> sc_token row = Some (cq_token claim)
         then Inr (fence_for (sc_id row) claim (sc_generation row), db)
         else Inl (FE_Overlap (sc_id row))
     | None \<Rightarrow> (case find_overlap db (cq_project claim) now (scope_paths scope) of
           Some i \<Rightarrow> Inl (FE_Overlap i)
         | None \<Rightarrow> grant_claim canon ev claim scope key now expires previous (prune_released (cq_project claim) db))))"

definition acquire_claim ::
  "(i64 \<Rightarrow> bool) \<Rightarrow> (string \<Rightarrow> io_cause + string) \<Rightarrow> scope_digest \<Rightarrow> claim_canon \<Rightarrow> event_canon \<Rightarrow> store_request \<Rightarrow> claim_request
   \<Rightarrow> 'z claim_db_scheme \<Rightarrow> (fabric_error + claim_fence) \<times> 'z claim_db_scheme" where
  "acquire_claim jiff realpath digest canon ev req claim db =
     (case res_bind (scope_canonical realpath (cq_scope claim)) (\<lambda>scope.
           res_bind (scope_key digest scope) (\<lambda>key. Inr (scope, key))) of
        Inl e \<Rightarrow> (Inl e, db)
      | Inr (scope, key) \<Rightarrow> store_write req (acquire_claim_tx jiff canon ev req claim scope key) db)"

definition verify_claim :: "store_request \<Rightarrow> id \<Rightarrow> claim_fence \<Rightarrow> 'z claim_db_scheme \<Rightarrow> fabric_error + work_claim" where
  "verify_claim req project fence db =
     res_bind (wall_now req) (\<lambda>now. query_rows req
       (res_bind (by_fence (db_work db) project fence (Some now)) (\<lambda>row. decode_blob (cw_record row))))"

definition change_claim_tx ::
  "(i64 \<Rightarrow> bool) \<Rightarrow> scope_digest \<Rightarrow> claim_canon \<Rightarrow> event_canon \<Rightarrow> store_request \<Rightarrow> id \<Rightarrow> claim_fence \<Rightarrow> duration_micros option
   \<Rightarrow> 'z claim_db_scheme \<Rightarrow> fabric_error + unit \<times> 'z claim_db_scheme" where
  "change_claim_tx jiff digest canon ev req project fence lease db =
     res_bind (wall_now req) (\<lambda>now.
     res_bind (by_fence (db_work db) project fence (map_option (\<lambda>_. now) lease)) (\<lambda>row.
     res_bind (decode_blob (cw_record row)) (\<lambda>r.
     res_bind (case lease of None \<Rightarrow> Inr None | Some d \<Rightarrow> res_bind (lease_expiry jiff now d) (\<lambda>e. Inr (Some e))) (\<lambda>expires.
     let r' = r\<lparr>wc_expires_at := expires, wc_holder := map_option (\<lambda>_. cf_actor fence) lease, wc_updated_at := now\<rparr> in
     res_bind (scope_key digest (wc_scope r')) (\<lambda>key.
     res_bind (save_claim WorkKind \<lparr>cp_project = project, cp_id = cf_id fence, cp_key = key, cp_generation = cf_generation fence,
         cp_holder = wc_holder r', cp_token = map_option (\<lambda>_. cf_token fence) lease, cp_expires = wc_expires_at r'\<rparr>
         (encode_record canon r') (db_work db) (db_counters db)) (\<lambda>(rows, ns).
     res_bind (claim_event ev project fence (if lease \<noteq> None then ClaimRenewed else ClaimReleased)
         (if lease \<noteq> None then ''renewed'' else ''released'') now (db\<lparr>db_work := rows, db_counters := ns\<rparr>)) (\<lambda>db'.
     Inr ((), db'))))))))"

definition renew_claim ::
  "(i64 \<Rightarrow> bool) \<Rightarrow> scope_digest \<Rightarrow> claim_canon \<Rightarrow> event_canon \<Rightarrow> store_request \<Rightarrow> id \<Rightarrow> claim_fence \<Rightarrow> duration_micros
   \<Rightarrow> 'z claim_db_scheme \<Rightarrow> (fabric_error + unit) \<times> 'z claim_db_scheme" where
  "renew_claim jiff digest canon ev req project fence lease db =
     store_write req (change_claim_tx jiff digest canon ev req project fence (Some lease)) db"

definition release_claim ::
  "(i64 \<Rightarrow> bool) \<Rightarrow> scope_digest \<Rightarrow> claim_canon \<Rightarrow> event_canon \<Rightarrow> store_request \<Rightarrow> id \<Rightarrow> claim_fence
   \<Rightarrow> 'z claim_db_scheme \<Rightarrow> (fabric_error + unit) \<times> 'z claim_db_scheme" where
  "release_claim jiff digest canon ev req project fence db =
     store_write req (change_claim_tx jiff digest canon ev req project fence None) db"

definition list_claims ::
  "store_request \<Rightarrow> id \<Rightarrow> id option \<Rightarrow> nat \<Rightarrow> 'z claim_db_scheme \<Rightarrow> fabric_error + work_claim fabric_page" where
  "list_claims req project after limit db =
     res_bind (request_check req) (\<lambda>_.
     res_bind (check_page 0 limit) (\<lambda>n.
     query_rows req (bounded_rows 0 (\<lambda>(bytes, _). decode_blob bytes)
       (map (\<lambda>row. (cw_record row, ()))
         (take n (sort_key cw_id (filter (\<lambda>row. cw_project row = project \<and> is_none_or after (\<lambda>i. i < cw_id row)) (db_work db))))))))"

subsection \<open>Canonical paths\<close>

text \<open>The text of a canonical absolute path, from its components.\<close>

definition path_of :: "string list \<Rightarrow> string" where
  "path_of cs = (if cs = [] then ''/'' else concat (map (\<lambda>c. CHR ''/'' # c) cs))"

definition components_ok :: "string list \<Rightarrow> bool" where
  "components_ok cs \<longleftrightarrow> (\<forall>c \<in> set cs. c \<noteq> [] \<and> CHR ''/'' \<notin> set c)"

lemma components_ok_simps [simp]: "components_ok []" "components_ok (c # cs) \<longleftrightarrow> c \<noteq> [] \<and> CHR ''/'' \<notin> set c \<and> components_ok cs"
  "components_ok (cs @ ds) \<longleftrightarrow> components_ok cs \<and> components_ok ds"
  by (auto simp: components_ok_def)

lemma between_slash_and_zero: "CHR ''/'' \<le> c \<and> c < CHR ''0'' \<longleftrightarrow> c = CHR ''/''"
proof
  assume "CHR ''/'' \<le> c \<and> c < CHR ''0''"
  then have "(of_char c :: nat) = of_char CHR ''/''"
    by (simp add: less_eq_char_def less_char_def)
  then show "c = CHR ''/''" by (simp only: of_char_eq_iff)
qed (simp add: less_eq_char_def less_char_def)

text \<open>The range that a query uses holds exactly the texts that continue with a slash.\<close>

lemma slash_range: "v @ ''/'' \<le> q \<and> q < v @ ''0'' \<longleftrightarrow> prefix (v @ ''/'') q"
proof (induction v arbitrary: q)
  case Nil
  show ?case
  proof (cases q)
    case (Cons x xs)
    with between_slash_and_zero [of x] show ?thesis by (cases xs) (auto simp: le_less)
  qed simp
next
  case (Cons c v)
  show ?case
  proof (cases q)
    fix d r
    assume "q = d # r"
    with Cons.IH [of r] show ?thesis by auto
  qed simp
qed

lemma concat_slash_prefix:
  assumes "components_ok cs" and "components_ok ds"
  shows "prefix (concat (map (\<lambda>c. CHR ''/'' # c) cs) @ ''/'') (concat (map (\<lambda>c. CHR ''/'' # c) ds)) \<longleftrightarrow> strict_prefix cs ds"
  using assms
proof (induction cs arbitrary: ds)
  case Nil
  then show ?case by (cases ds) auto
next
  case (Cons c cs)
  show ?case
  proof (cases ds)
    case (Cons d ds')
    have split: "prefix (c @ CHR ''/'' # xs) (d @ concat (map (\<lambda>c. CHR ''/'' # c) ds'))
        \<longleftrightarrow> c = d \<and> prefix (CHR ''/'' # xs) (concat (map (\<lambda>c. CHR ''/'' # c) ds'))"
      if "CHR ''/'' \<notin> set c" "CHR ''/'' \<notin> set d" for xs
      using that
    proof (induction c arbitrary: d)
      case Nil
      show ?case
      proof (cases d)
        case (Cons x d')
        with Nil.prems show ?thesis by auto
      qed simp
    next
      case (Cons x c)
      show ?case
      proof (cases d)
        case Nil
        with Cons.prems show ?thesis by (cases ds') auto
      next
        case (Cons y d')
        with Cons.prems Cons.IH [of d'] show ?thesis by auto
      qed
    qed
    let ?rest = "\<lambda>es. concat (map (\<lambda>c. CHR ''/'' # c) es)"
    have "\<exists>xs. ?rest cs @ ''/'' = CHR ''/'' # xs" by (cases cs) auto
    then obtain xs where xs: "?rest cs @ ''/'' = CHR ''/'' # xs" by blast
    have "prefix (?rest (c # cs) @ ''/'') (?rest ds) \<longleftrightarrow> c = d \<and> prefix (?rest cs @ ''/'') (?rest ds')"
      using split [of xs] Cons Cons.prems by (simp add: xs)
    with Cons Cons.IH [of ds'] Cons.prems show ?thesis by auto
  qed simp
qed

lemma path_of_inject:
  assumes "components_ok cs" and "components_ok ds" and "path_of cs = path_of ds"
  shows "cs = ds"
proof -
  have cat: "concat (map (\<lambda>c. CHR ''/'' # c) cs) = concat (map (\<lambda>c. CHR ''/'' # c) ds) \<Longrightarrow> cs = ds"
    if "components_ok cs" "components_ok ds" for cs ds
    using that
  proof (induction cs arbitrary: ds)
    case Nil
    then show ?case by (cases ds) auto
  next
    case (Cons c cs)
    then obtain d ds' where ds: "ds = d # ds'" by (cases ds) auto
    let ?rest = "\<lambda>es. concat (map (\<lambda>c. CHR ''/'' # c) es)"
    have head: "takeWhile (\<lambda>x. x \<noteq> CHR ''/'') (e @ ?rest es) = e" if "CHR ''/'' \<notin> set e" for e es
    proof -
      have "takeWhile (\<lambda>x. x \<noteq> CHR ''/'') (e @ ?rest es) = e @ takeWhile (\<lambda>x. x \<noteq> CHR ''/'') (?rest es)"
        using that by (intro takeWhile_append2) auto
      moreover have "takeWhile (\<lambda>x. x \<noteq> CHR ''/'') (?rest es) = []" by (cases es) auto
      ultimately show ?thesis by simp
    qed
    from Cons.prems ds have eq: "c @ ?rest cs = d @ ?rest ds'" by simp
    with head [of c cs] head [of d ds'] Cons.prems ds have "c = d" by simp
    with eq Cons.IH [of ds'] Cons.prems ds show ?case by simp
  qed
  have one: "concat (map (\<lambda>c. CHR ''/'' # c) es) \<noteq> ''/''" if "components_ok es" for es
    using that by (cases es) auto
  show ?thesis
    using assms cat [OF assms(1,2)] one [OF assms(1)] one [OF assms(2)] by (auto simp: path_of_def split: if_splits)
qed

lemma path_parent_snoc:
  assumes "components_ok (cs @ [c])"
  shows "path_parent (path_of (cs @ [c])) = Some (path_of cs)"
proof -
  let ?text = "concat (map (\<lambda>c. CHR ''/'' # c) cs)"
  have p: "path_of (cs @ [c]) = ?text @ CHR ''/'' # c" by (simp add: path_of_def)
  have "dropWhile (\<lambda>x. x \<noteq> CHR ''/'') (rev c @ CHR ''/'' # rev ?text) = dropWhile (\<lambda>x. x \<noteq> CHR ''/'') (CHR ''/'' # rev ?text)"
    using assms by (intro dropWhile_append2) auto
  then have "dropWhile (\<lambda>x. x \<noteq> CHR ''/'') (rev (?text @ CHR ''/'' # c)) = CHR ''/'' # rev ?text" by simp
  moreover have "?text = [] \<longleftrightarrow> cs = []" by (cases cs) auto
  moreover have "?text @ CHR ''/'' # c \<noteq> ''/''" using assms by (cases ?text) auto
  ultimately show ?thesis
    using assms unfolding p by (auto simp: path_parent_def path_of_def Let_def)
qed

lemma path_ancestors_of:
  assumes "components_ok cs"
  shows "q \<in> set (path_ancestors (path_of cs)) \<longleftrightarrow> (\<exists>es. prefix es cs \<and> q = path_of es)"
  using assms
proof (induction cs rule: rev_induct)
  case Nil
  have "path_ancestors ''/'' = [''/'']" by (simp add: path_ancestors.simps [of "''/''"] path_parent_def)
  then show ?case by (simp add: path_of_def)
next
  case (snoc c cs)
  have "path_ancestors (path_of (cs @ [c])) = path_of (cs @ [c]) # path_ancestors (path_of cs)"
    using path_parent_snoc [OF snoc.prems] by (simp add: path_ancestors.simps [of "path_of (cs @ [c])"])
  with snoc show ?case by (auto simp: prefix_snoc)
qed

definition paths_overlap :: "string \<Rightarrow> string \<Rightarrow> bool" where
  "paths_overlap p q \<longleftrightarrow> (\<exists>cs ds. components_ok cs \<and> components_ok ds \<and> p = path_of cs \<and> q = path_of ds \<and> (prefix cs ds \<or> prefix ds cs))"

lemma paths_overlap_sym: "paths_overlap p q \<longleftrightarrow> paths_overlap q p"
  by (auto simp: paths_overlap_def)

definition canonical_text :: "string \<Rightarrow> bool" where
  "canonical_text p \<longleftrightarrow> (\<exists>cs. components_ok cs \<and> p = path_of cs)"

lemma path_range_overlap:
  assumes "components_ok cs" and "components_ok ds" and "strict_prefix cs ds"
  shows "fst (path_range (path_of cs)) \<le> path_of ds \<and> path_of ds < snd (path_range (path_of cs))"
proof -
  from assms(3) have ds: "ds \<noteq> []" by auto
  show ?thesis
  proof (cases "cs = []")
    case True
    from ds have "prefix ([] @ ''/'') (path_of ds)" by (cases ds) (auto simp: path_of_def)
    with slash_range [of "[]" "path_of ds"] True show ?thesis by (simp add: path_range_def path_of_def)
  next
    case False
    then have "path_of cs \<noteq> ''/''" using assms(1) by (cases cs) (auto simp: path_of_def)
    moreover have "prefix (path_of cs @ ''/'') (path_of ds)"
      using concat_slash_prefix [OF assms(1,2)] assms(3) False ds by (simp add: path_of_def)
    ultimately show ?thesis using slash_range [of "path_of cs" "path_of ds"] by (simp add: path_range_def)
  qed
qed

text \<open>A path that no query finds overlaps no path of a live claim.\<close>

lemma find_live_path_None:
  assumes "find_live_path db project now matches = None" and "p \<in> set (db_claim_paths db)" and "ca_project p = project"
    and "row \<in> set (db_work db)" and "cw_project row = project" and "cw_id row = ca_claim p" and "live_claim now row"
  shows "\<not> matches (ca_path p)"
  using assms by (auto simp: find_live_path_def find_None_iff list_ex_iff)

lemma find_ancestor_None: "find_ancestor db project now ps = None \<Longrightarrow> p \<in> set ps \<Longrightarrow> find_live_path db project now (\<lambda>q. q = p) = None"
  by (induction ps) (auto split: option.splits)

lemma overlapping_path_None:
  assumes "overlapping_path db project now q = None" and "canonical_text q" and "canonical_text (ca_path p)"
    and p: "p \<in> set (db_claim_paths db)" "ca_project p = project" "row \<in> set (db_work db)" "cw_project row = project"
      "cw_id row = ca_claim p" "live_claim now row"
  shows "\<not> paths_overlap q (ca_path p)"
proof
  assume "paths_overlap q (ca_path p)"
  then obtain cs ds where ok: "components_ok cs" "components_ok ds" and q: "q = path_of cs" "ca_path p = path_of ds"
    and pre: "prefix cs ds \<or> prefix ds cs" by (auto simp: paths_overlap_def)
  from assms(1) have range: "find_live_path db project now (\<lambda>x. fst (path_range q) \<le> x \<and> x < snd (path_range q)) = None"
    and anc: "find_ancestor db project now (path_ancestors q) = None"
    by (auto simp: overlapping_path_def case_prod_beta split: option.splits)
  show False
  proof (cases "strict_prefix cs ds")
    case True
    with path_range_overlap [OF ok True] find_live_path_None [OF range p] q show False by simp
  next
    case False
    with pre have "prefix ds cs" by (auto simp: strict_prefix_def)
    with q path_ancestors_of [OF ok(1)] have "ca_path p \<in> set (path_ancestors q)" by auto
    from find_ancestor_None [OF anc this] find_live_path_None [OF _ p] show False by blast
  qed
qed

lemma find_overlap_None: "find_overlap db project now ps = None \<Longrightarrow> q \<in> set ps \<Longrightarrow> overlapping_path db project now q = None"
  by (induction ps) (auto split: option.splits)

definition realpath_ok :: "(string \<Rightarrow> io_cause + string) \<Rightarrow> bool" where
  "realpath_ok realpath \<longleftrightarrow> (\<forall>p q. realpath p = Inr q \<longrightarrow> canonical_text q)"

lemma canonical_path_text: "realpath_ok realpath \<Longrightarrow> canonical_path realpath p = Inr q \<Longrightarrow> canonical_text q"
  by (auto simp: canonical_path_def realpath_ok_def split: if_splits)

lemma canonical_paths_text: "realpath_ok realpath \<Longrightarrow> canonical_paths realpath ps = Inr qs \<Longrightarrow> q \<in> set qs \<Longrightarrow> canonical_text q"
  by (induction ps arbitrary: qs) (auto dest: canonical_path_text)

lemma scope_canonical_text:
  assumes "realpath_ok realpath" and "scope_canonical realpath s = Inr scope" and "q \<in> set (scope_paths scope)"
  shows "canonical_text q"
  using assms by (cases s) (auto dest: canonical_path_text canonical_paths_text split: if_splits)

subsection \<open>Counters and rows\<close>

definition claim_key :: "'r claim_row \<Rightarrow> id \<times> id" where
  "claim_key row = (cw_project row, cw_id row)"

definition counter_key :: "claim_counter \<Rightarrow> id \<times> claim_kind \<times> string \<times> id" where
  "counter_key n = (cc_project n, cc_kind n, cc_key n, cc_id n)"

definition counters_ok :: "claim_counter list \<Rightarrow> bool" where
  "counters_ok ns \<longleftrightarrow> (\<forall>p k x i l y j. (p, k, x, i) \<in> counter_key ` set ns \<longrightarrow> (p, l, y, j) \<in> counter_key ` set ns \<longrightarrow>
     (i = j \<longleftrightarrow> k = l \<and> x = y))"

definition has_counter :: "claim_kind \<Rightarrow> claim_counter list \<Rightarrow> 'r claim_row \<Rightarrow> bool" where
  "has_counter kind ns row \<longleftrightarrow> (cw_project row, kind, cw_key row, cw_id row) \<in> counter_key ` set ns"

definition rows_ok :: "claim_kind \<Rightarrow> claim_counter list \<Rightarrow> 'r claim_row list \<Rightarrow> bool" where
  "rows_ok kind ns rows \<longleftrightarrow> distinct (map claim_key rows) \<and> (\<forall>row \<in> set rows. has_counter kind ns row)"

lemma find_claim_Some: "find_claim rows project i = Some row \<Longrightarrow> row \<in> set rows \<and> cw_project row = project \<and> cw_id row = i"
  by (auto simp: find_claim_def dest!: find_Some_in)

lemma rows_unique: "rows_ok kind ns rows \<Longrightarrow> r \<in> set rows \<Longrightarrow> s \<in> set rows \<Longrightarrow> claim_key r = claim_key s \<Longrightarrow> r = s"
  by (auto simp: rows_ok_def distinct_map dest: inj_onD)

lemma save_counter_keys:
  "counter_key ` set (save_counter n ns) =
    (if list_ex (\<lambda>m. cc_project m = cc_project n \<and> cc_kind m = cc_kind n \<and> cc_key m = cc_key n) ns
     then counter_key ` set ns else insert (counter_key n) (counter_key ` set ns))"
proof -
  have "counter_key (if c then m\<lparr>cc_generation := g\<rparr> else m) = counter_key m" for c m g by (simp add: counter_key_def)
  then have map: "map counter_key (map (\<lambda>m. if P m then m\<lparr>cc_generation := g\<rparr> else m) ns) = map counter_key ns" for P g by simp
  have "counter_key ` set (map (\<lambda>m. if P m then m\<lparr>cc_generation := g\<rparr> else m) ns) = counter_key ` set ns" for P g
    using arg_cong [OF map [of P g], of set] by (simp only: set_map)
  then show ?thesis unfolding save_counter_def by (simp del: set_map)
qed

lemma save_counter_new:
  assumes "\<And>m. m \<in> set ns \<Longrightarrow> cc_project m = cc_project n \<Longrightarrow> cc_kind m = cc_kind n \<Longrightarrow> cc_key m = cc_key n \<Longrightarrow> cc_id m = cc_id n"
  shows "counter_key n \<in> counter_key ` set (save_counter n ns)"
proof (cases "list_ex (\<lambda>m. cc_project m = cc_project n \<and> cc_kind m = cc_kind n \<and> cc_key m = cc_key n) ns")
  case True
  then obtain m where m: "m \<in> set ns" "cc_project m = cc_project n" "cc_kind m = cc_kind n" "cc_key m = cc_key n" by (auto simp: list_ex_iff)
  with assms [OF m] have "counter_key n = counter_key m" by (simp add: counter_key_def)
  with m(1) True show ?thesis by (simp add: save_counter_keys)
qed (simp add: save_counter_keys)

lemma save_claim_counters:
  assumes "save_claim kind w bytes rows ns = Inr (rows', ns')" and "counters_ok ns"
    and "\<And>n. n \<in> set ns \<Longrightarrow> cc_project n = cp_project w \<Longrightarrow> cc_kind n = kind \<Longrightarrow> cc_key n = cp_key w \<Longrightarrow> cc_id n = cp_id w"
  shows "counters_ok ns'"
    and "\<And>m (row :: 'q claim_row). has_counter m ns row \<Longrightarrow> has_counter m ns' row"
    and "has_counter kind ns' (row_of_write w b)"
proof -
  let ?n = "\<lparr>cc_project = cp_project w, cc_kind = kind, cc_key = cp_key w, cc_id = cp_id w, cc_generation = cp_generation w\<rparr>"
  from assms(1) have ns': "ns' = save_counter ?n ns"
    and fresh: "\<And>n. n \<in> set ns \<Longrightarrow> cc_project n = cp_project w \<Longrightarrow> cc_id n = cp_id w \<Longrightarrow> cc_kind n = kind \<and> cc_key n = cp_key w"
    by (auto simp: save_claim_def list_ex_iff split: if_splits)
  have new: "(p, k, x, i) \<in> counter_key ` set ns' \<Longrightarrow>
      (p, k, x, i) \<in> counter_key ` set ns \<or> (p, k, x, i) = (cp_project w, kind, cp_key w, cp_id w)" for p k x i
  proof -
    assume "(p, k, x, i) \<in> counter_key ` set ns'"
    then show ?thesis unfolding ns' save_counter_keys by (auto simp: counter_key_def [of ?n] split: if_splits)
  qed
  have old: "(cp_project w, k, x, i) \<in> counter_key ` set ns \<Longrightarrow> i = cp_id w \<longleftrightarrow> k = kind \<and> x = cp_key w" for k x i
  proof -
    assume "(cp_project w, k, x, i) \<in> counter_key ` set ns"
    then obtain n where n: "n \<in> set ns" "cc_project n = cp_project w" "cc_kind n = k" "cc_key n = x" "cc_id n = i"
      by (auto simp: counter_key_def)
    from fresh [OF n(1,2)] assms(3) [OF n(1,2)] n(3-5) show ?thesis by blast
  qed
  show "counters_ok ns'"
    unfolding counters_ok_def
  proof (intro allI impI)
    fix p k x i l y j
    assume "(p, k, x, i) \<in> counter_key ` set ns'" "(p, l, y, j) \<in> counter_key ` set ns'"
    with new have "(p, k, x, i) \<in> counter_key ` set ns \<or> (p, k, x, i) = (cp_project w, kind, cp_key w, cp_id w)"
      "(p, l, y, j) \<in> counter_key ` set ns \<or> (p, l, y, j) = (cp_project w, kind, cp_key w, cp_id w)" by blast+
    then consider "(p, k, x, i) \<in> counter_key ` set ns" "(p, l, y, j) \<in> counter_key ` set ns"
      | "p = cp_project w" "(p, k, x, i) \<in> counter_key ` set ns" "l = kind" "y = cp_key w" "j = cp_id w"
      | "p = cp_project w" "k = kind" "x = cp_key w" "i = cp_id w" "(p, l, y, j) \<in> counter_key ` set ns"
      | "k = l" "x = y" "i = j" by auto
    then show "i = j \<longleftrightarrow> k = l \<and> x = y"
    proof cases
      case 1
      with assms(2) show ?thesis unfolding counters_ok_def by blast
    next
      case 2
      with old [of k x i] show ?thesis by blast
    next
      case 3
      with old [of l y j] show ?thesis by blast
    qed simp
  qed
  show "has_counter m ns' row" if "has_counter m ns row" for m and row :: "'q claim_row"
    using that unfolding ns' has_counter_def save_counter_keys by (auto split: if_splits)
  show "has_counter kind ns' (row_of_write w b)"
    using save_counter_new [of ns ?n] assms(3) unfolding ns' has_counter_def by (simp add: row_of_write_def counter_key_def)
qed

text \<open>A row after a save is an old one of another claim, or the new one with the key of the old.\<close>

lemma save_row_member:
  assumes "x \<in> set (save_row r rows)"
  obtains "x \<in> set rows" "claim_key x \<noteq> claim_key r"
  | old where "old \<in> set rows" "claim_key old = claim_key r" "x = r\<lparr>cw_key := cw_key old\<rparr>"
  | "x = r" "\<And>old. old \<in> set rows \<Longrightarrow> claim_key old \<noteq> claim_key r"
  using assms by (auto simp: save_row_def claim_key_def list_ex_iff split: if_splits)

lemma save_row_keys: "map claim_key (save_row r rows) = (if claim_key r \<in> set (map claim_key rows) then map claim_key rows else map claim_key rows @ [claim_key r])"
  by (auto simp: save_row_def claim_key_def list_ex_iff intro: rev_image_eqI)

lemma claim_event_tables:
  assumes "claim_event ev project fence kind detail now db = Inr db'"
  shows "db_work db' = db_work db" "db_landings db' = db_landings db" "db_counters db' = db_counters db"
    "db_claim_paths db' = db_claim_paths db" "db_pushes db' = db_pushes db"
  using assms by (auto simp: claim_event_def elim!: append_event_effect)

lemma save_claim_rows:
  assumes "save_claim kind w (encode_record canon r) rows ns = Inr (rows', ns')" and "x \<in> set rows'"
    and "\<forall>row \<in> set rows. has_counter kind ns row"
  obtains "x \<in> set rows" "(cw_project x, cw_id x) \<noteq> (cp_project w, cp_id w)"
  | b where "x = row_of_write w b" "decode_blob b = Inr r"
proof -
  from assms(1) obtain b where b: "encode_record canon r = Inr b" and rows': "rows' = save_row (row_of_write w b) rows"
    and fresh: "\<And>n. n \<in> set ns \<Longrightarrow> cc_project n = cp_project w \<Longrightarrow> cc_id n = cp_id w \<Longrightarrow> cc_kind n = kind \<and> cc_key n = cp_key w"
    by (auto simp: save_claim_def list_ex_iff split: if_splits)
  from b have d: "decode_blob b = Inr r" by (auto simp: encode_record_def split: sum.splits if_splits)
  have key: "claim_key (row_of_write w b) = (cp_project w, cp_id w)" by (simp add: claim_key_def row_of_write_def)
  from assms(2) rows' have "x \<in> set (save_row (row_of_write w b) rows)" by simp
  then show thesis
  proof (cases rule: save_row_member)
    case 1
    with key that(1) show thesis by (simp add: claim_key_def)
  next
    case (2 old)
    from assms(3) 2(1) have "has_counter kind ns old" by blast
    then obtain n where "n \<in> set ns" "counter_key n = (cw_project old, kind, cw_key old, cw_id old)"
      unfolding has_counter_def by (metis imageE)
    with fresh [of n] 2(2) key have "cw_key old = cp_key w" by (auto simp: counter_key_def claim_key_def)
    with 2(3) have "x = row_of_write w b" by (simp add: row_of_write_def)
    with d show thesis by (rule that(2) [rotated])
  next
    case 3
    from 3(1) d show thesis by (rule that(2))
  qed
qed

lemma add_paths_set: "set (add_paths project i ps rows) = set rows \<union> (\<lambda>p. \<lparr>ca_project = project, ca_claim = i, ca_path = p\<rparr>) ` set ps"
  unfolding add_paths_def by (induction ps arbitrary: rows) (auto simp: Let_def)

subsection \<open>Live claims are disjoint\<close>

text \<open>
  A row is sound when its key is the digest of its scope and the table of paths has the paths of
  its scope. Two claims of a project are apart when, as long as both live, no path of the one is
  equal to, above or below a path of the other.
\<close>

definition row_sound :: "scope_digest \<Rightarrow> claim_path list \<Rightarrow> work_claim claim_row \<Rightarrow> bool" where
  "row_sound digest ps row \<longleftrightarrow> (\<forall>w. decode_blob (cw_record row) = Inr w \<longrightarrow> digest (wc_scope w) = Inr (cw_key row)
     \<and> (\<forall>q \<in> set (scope_paths (wc_scope w)). canonical_text q
          \<and> \<lparr>ca_project = cw_project row, ca_claim = cw_id row, ca_path = q\<rparr> \<in> set ps))"

definition scopes_apart :: "work_scope \<Rightarrow> work_scope \<Rightarrow> bool" where
  "scopes_apart s t \<longleftrightarrow> (\<forall>p \<in> set (scope_paths s). \<forall>q \<in> set (scope_paths t). \<not> paths_overlap p q)"

definition rows_apart :: "wall_time \<Rightarrow> work_claim claim_row \<Rightarrow> work_claim claim_row \<Rightarrow> bool" where
  "rows_apart now r s \<longleftrightarrow> (\<forall>v w. cw_project r = cw_project s \<longrightarrow> cw_id r \<noteq> cw_id s \<longrightarrow> live_claim now r \<longrightarrow> live_claim now s \<longrightarrow>
     decode_blob (cw_record r) = Inr v \<longrightarrow> decode_blob (cw_record s) = Inr w \<longrightarrow> scopes_apart (wc_scope v) (wc_scope w))"

definition work_inv :: "scope_digest \<Rightarrow> wall_time \<Rightarrow> 'z claim_db_scheme \<Rightarrow> bool" where
  "work_inv digest now db \<longleftrightarrow> counters_ok (db_counters db)
     \<and> (\<forall>row \<in> set (db_work db). has_counter WorkKind (db_counters db) row \<and> row_sound digest (db_claim_paths db) row)
     \<and> (\<forall>r \<in> set (db_work db). \<forall>s \<in> set (db_work db). rows_apart now r s)"

lemma scopes_apart_sym: "scopes_apart s t \<Longrightarrow> scopes_apart t s"
  unfolding scopes_apart_def using paths_overlap_sym by blast

lemma live_claim_earlier: "live_claim now row \<Longrightarrow> before \<le> now \<Longrightarrow> live_claim before row"
  by (auto simp: live_claim_def is_some_and_def split: option.splits)

lemma work_inv_later: "work_inv digest before db \<Longrightarrow> before \<le> now \<Longrightarrow> work_inv digest now db"
  unfolding work_inv_def rows_apart_def using live_claim_earlier by blast

lemma row_sound_more: "row_sound digest ps row \<Longrightarrow> set ps \<subseteq> set ps' \<Longrightarrow> row_sound digest ps' row"
  unfolding row_sound_def by blast

lemma prune_released_inv:
  assumes "work_inv digest now db"
  shows "work_inv digest now (prune_released project db)"
proof -
  let ?db = "prune_released project db"
  define ids where "ids = take 100 (sort (prunable db project (db_work db) @ prunable db project (db_landings db)))"
  have work: "db_work ?db = filter (\<lambda>row. \<not> (cw_project row = project \<and> cw_id row \<in> set ids)) (db_work db)"
    and paths: "db_claim_paths ?db = filter (\<lambda>p. \<not> (ca_project p = project \<and> ca_claim p \<in> set ids)) (db_claim_paths db)"
    and counters: "db_counters ?db = db_counters db"
    unfolding prune_released_def ids_def Let_def by simp_all
  have "row_sound digest (db_claim_paths ?db) row" if "row \<in> set (db_work ?db)" for row
  proof -
    from that work have row: "row \<in> set (db_work db)" "\<not> (cw_project row = project \<and> cw_id row \<in> set ids)" by auto
    with assms have "row_sound digest (db_claim_paths db) row" unfolding work_inv_def by blast
    with row(2) show ?thesis unfolding row_sound_def paths by simp
  qed
  moreover have "set (db_work ?db) \<subseteq> set (db_work db)" unfolding work by auto
  ultimately show ?thesis using assms unfolding work_inv_def counters by blast
qed

lemma save_claim_inv:
  assumes inv: "work_inv digest now db"
    and save: "save_claim WorkKind w (encode_record canon r) (db_work db) (db_counters db) = Inr (rows, ns)"
    and key: "digest (wc_scope r) = Inr (cp_key w)"
    and i: "\<And>n. n \<in> set (db_counters db) \<Longrightarrow> cc_project n = cp_project w \<Longrightarrow> cc_kind n = WorkKind \<Longrightarrow> cc_key n = cp_key w \<Longrightarrow> cc_id n = cp_id w"
    and paths: "set (db_claim_paths db) \<subseteq> set ps"
      "\<And>q. q \<in> set (scope_paths (wc_scope r)) \<Longrightarrow> canonical_text q \<and> \<lparr>ca_project = cp_project w, ca_claim = cp_id w, ca_path = q\<rparr> \<in> set ps"
    and apart: "\<And>s v. s \<in> set (db_work db) \<Longrightarrow> cw_project s = cp_project w \<Longrightarrow> cw_id s \<noteq> cp_id w \<Longrightarrow> live_claim now s \<Longrightarrow>
      decode_blob (cw_record s) = Inr v \<Longrightarrow> cp_holder w \<noteq> None \<Longrightarrow> scopes_apart (wc_scope r) (wc_scope v)"
    and db': "db_work db' = rows" "db_counters db' = ns" "db_claim_paths db' = ps"
  shows "work_inv digest now db'"
proof -
  from inv have has: "\<forall>row \<in> set (db_work db). has_counter WorkKind (db_counters db) row"
    and sound: "\<And>row. row \<in> set (db_work db) \<Longrightarrow> row_sound digest (db_claim_paths db) row"
    and old: "\<And>x y. x \<in> set (db_work db) \<Longrightarrow> y \<in> set (db_work db) \<Longrightarrow> rows_apart now x y"
    and ok: "counters_ok (db_counters db)"
    unfolding work_inv_def by blast+
  have counters: "counters_ok ns" by (rule save_claim_counters(1) [OF save ok]) (rule i)
  have kept: "has_counter WorkKind ns x" if "has_counter WorkKind (db_counters db) x" for x :: "work_claim claim_row"
    by (rule save_claim_counters(2) [OF save ok _ that]) (rule i)
  have added: "has_counter WorkKind ns (row_of_write w b)" for b :: "work_claim blob"
    by (rule save_claim_counters(3) [OF save ok]) (rule i)
  have new: "rows_apart now x y" if "x = row_of_write w b" "decode_blob b = Inr r" "y \<in> set (db_work db)" for x y b
    using that apart [of y] unfolding rows_apart_def by (auto simp: row_of_write_def live_claim_def)
  have sym: "rows_apart now y x" if "rows_apart now x y" for x y
    unfolding rows_apart_def
  proof (intro allI impI)
    fix v u
    assume "cw_project y = cw_project x" "cw_id y \<noteq> cw_id x" "live_claim now y" "live_claim now x"
      "decode_blob (cw_record y) = Inr v" "decode_blob (cw_record x) = Inr u"
    with that have "scopes_apart (wc_scope u) (wc_scope v)" unfolding rows_apart_def by simp
    then show "scopes_apart (wc_scope v) (wc_scope u)" by (rule scopes_apart_sym)
  qed
  have "rows_apart now x y" if x: "x \<in> set rows" and y: "y \<in> set rows" for x y
    using save x has
  proof (cases rule: save_claim_rows)
    case 1
    note x = 1
    from save y has show ?thesis
    proof (cases rule: save_claim_rows)
      case 1
      from old [OF x(1) 1(1)] show ?thesis .
    next
      case (2 b)
      from sym [OF new [OF 2 x(1)]] show ?thesis .
    qed
  next
    case (2 b)
    note x = 2
    from save y has show ?thesis
    proof (cases rule: save_claim_rows)
      case 1
      from new [OF x 1(1)] show ?thesis .
    next
      case (2 b)
      with x show ?thesis by (simp add: rows_apart_def row_of_write_def)
    qed
  qed
  moreover have "has_counter WorkKind ns x \<and> row_sound digest ps x" if x: "x \<in> set rows" for x
    using save x has
  proof (cases rule: save_claim_rows)
    case 1
    from kept [OF bspec [OF has 1(1)]] row_sound_more [OF sound [OF 1(1)] paths(1)] show ?thesis by simp
  next
    case (2 b)
    with key paths(2) added [of b] show ?thesis by (simp add: row_sound_def row_of_write_def)
  qed
  ultimately show ?thesis using counters unfolding work_inv_def db' by blast
qed

lemma counter_in: "n \<in> set ns \<Longrightarrow> (cc_project n, cc_kind n, cc_key n, cc_id n) \<in> counter_key ` set ns"
  using imageI [of n "set ns" counter_key] unfolding counter_key_def [of n] .

lemma counter_unique:
  assumes "counters_ok ns" and "(p, k, x, i) \<in> counter_key ` set ns" and "(p, k, x, j) \<in> counter_key ` set ns"
  shows "i = j"
  using assms unfolding counters_ok_def by blast

lemma by_scope_id:
  assumes "counters_ok (db_counters db)" and "by_scope kind rows db project key = previous"
    and "n \<in> set (db_counters db)" and "cc_project n = project" and "cc_kind n = kind" and "cc_key n = key"
  shows "cc_id n = (case previous of None \<Rightarrow> d | Some r \<Rightarrow> sc_id r)"
proof -
  let ?find = "List.find (\<lambda>n. cc_project n = project \<and> cc_kind n = kind \<and> cc_key n = key) (db_counters db)"
  from assms(3-6) obtain m where m: "?find = Some m" by (cases ?find) (auto simp: find_None_iff)
  from find_Some_in [OF m] have "m \<in> set (db_counters db)" "cc_project m = project" "cc_kind m = kind" "cc_key m = key" by auto
  with counter_in [of m "db_counters db"] counter_in [OF assms(3)] assms(4-6) have "cc_id n = cc_id m"
    using counter_unique [OF assms(1)] by simp
  with m assms(2) show ?thesis by (auto simp: by_scope_def Let_def)
qed

lemma grant_claim_inv:
  assumes "grant_claim canon ev claim scope key now expires previous db = Inr (f, db')"
    and inv: "work_inv digest now db" and digest: "digest scope = Inr key"
    and i: "\<And>n. n \<in> set (db_counters db) \<Longrightarrow> cc_project n = cq_project claim \<Longrightarrow> cc_kind n = WorkKind \<Longrightarrow> cc_key n = key \<Longrightarrow>
      cc_id n = (case previous of None \<Rightarrow> cq_id claim | Some r \<Rightarrow> sc_id r)"
    and paths: "\<And>q. q \<in> set (scope_paths scope) \<Longrightarrow> canonical_text q"
    and apart: "\<And>s v. s \<in> set (db_work db) \<Longrightarrow> cw_project s = cq_project claim \<Longrightarrow> live_claim now s \<Longrightarrow>
      decode_blob (cw_record s) = Inr v \<Longrightarrow> scopes_apart scope (wc_scope v)"
  shows "work_inv digest now db'"
proof -
  let ?i = "case previous of None \<Rightarrow> cq_id claim | Some r \<Rightarrow> sc_id r"
  from assms(1) obtain generation extra rows ns where
    save: "save_claim WorkKind \<lparr>cp_project = cq_project claim, cp_id = ?i, cp_key = key, cp_generation = generation,
          cp_holder = Some (cq_actor claim), cp_token = Some (cq_token claim), cp_expires = Some expires\<rparr>
        (encode_record canon \<lparr>wc_extra = extra, wc_header = 1, wc_project = cq_project claim, wc_id = ?i, wc_scope = scope,
            wc_holder = Some (cq_actor claim), wc_generation = generation, wc_expires_at = Some expires, wc_updated_at = now\<rparr>)
        (db_work db) (db_counters db) = Inr (rows, ns)"
    and event: "claim_event ev (cq_project claim) (fence_for ?i claim generation) ClaimAcquired ''acquired'' now
          (db\<lparr>db_work := rows, db_counters := ns,
              db_claim_paths := add_paths (cq_project claim) ?i (scope_paths scope) (db_claim_paths db)\<rparr>) = Inr db'"
    unfolding grant_claim_def Let_def by auto
  show ?thesis
  proof (rule save_claim_inv [OF inv save])
    show "db_work db' = rows" "db_counters db' = ns"
      "db_claim_paths db' = add_paths (cq_project claim) ?i (scope_paths scope) (db_claim_paths db)"
      using claim_event_tables [OF event] by simp_all
    show "set (db_claim_paths db) \<subseteq> set (add_paths (cq_project claim) ?i (scope_paths scope) (db_claim_paths db))"
      by (simp add: add_paths_set)
  qed (use digest paths apart i in \<open>auto simp: add_paths_set\<close>)
qed

lemma acquire_claim_inv:
  assumes tx: "acquire_claim_tx jiff canon ev req claim scope key db = Inr (f, db')" and now: "wall_now req = Inr now"
    and inv: "work_inv digest now db" and digest: "digest scope = Inr key"
    and paths: "\<And>q. q \<in> set (scope_paths scope) \<Longrightarrow> canonical_text q"
  shows "work_inv digest now db'"
proof -
  let ?previous = "by_scope WorkKind (db_work db) db (cq_project claim) key" and ?db = "prune_released (cq_project claim) db"
  from tx now consider "db' = db"
    | expires where "find_overlap db (cq_project claim) now (scope_paths scope) = None"
        "grant_claim canon ev claim scope key now expires ?previous ?db = Inr (f, db')"
    by (auto simp: acquire_claim_tx_def Let_def split: option.splits if_splits)
  then show ?thesis
  proof cases
    case 1
    with inv show ?thesis by simp
  next
    case 2
    have ok: "counters_ok (db_counters db)" using inv by (simp add: work_inv_def)
    have apart: "scopes_apart scope (wc_scope v)"
      if s: "s \<in> set (db_work db)" "cw_project s = cq_project claim" "live_claim now s" "decode_blob (cw_record s) = Inr v" for s v
      unfolding scopes_apart_def
    proof (intro ballI)
      fix p q
      assume p: "p \<in> set (scope_paths scope)" and q: "q \<in> set (scope_paths (wc_scope v))"
      from inv s(1) have "row_sound digest (db_claim_paths db) s" by (simp add: work_inv_def)
      with s(4) q have *: "canonical_text q" "\<lparr>ca_project = cw_project s, ca_claim = cw_id s, ca_path = q\<rparr> \<in> set (db_claim_paths db)"
        by (simp_all add: row_sound_def)
      from overlapping_path_None [OF find_overlap_None [OF 2(1) p] paths [OF p] _ *(2) _ s(1,2) _ s(3)] *(1) s(2)
      show "\<not> paths_overlap p q" by simp
    qed
    have sub: "set (db_work ?db) \<subseteq> set (db_work db)" "db_counters ?db = db_counters db"
      by (auto simp: prune_released_def Let_def)
    show ?thesis
    proof (rule grant_claim_inv [OF 2(2) prune_released_inv [OF inv] digest])
      fix n
      assume "n \<in> set (db_counters ?db)" "cc_project n = cq_project claim" "cc_kind n = WorkKind" "cc_key n = key"
      with sub(2) show "cc_id n = (case ?previous of None \<Rightarrow> cq_id claim | Some r \<Rightarrow> sc_id r)"
        by (intro by_scope_id [OF ok refl]) simp_all
    next
      fix s v
      assume "s \<in> set (db_work ?db)" "cw_project s = cq_project claim" "live_claim now s" "decode_blob (cw_record s) = Inr v"
      with sub(1) show "scopes_apart scope (wc_scope v)" by (intro apart) auto
    qed (rule paths)
  qed
qed

lemma change_claim_inv:
  assumes tx: "change_claim_tx jiff digest canon ev req project fence lease db = Inr (v, db')" and now: "wall_now req = Inr now"
    and inv: "work_inv digest now db"
  shows "work_inv digest now db'"
proof -
  from tx now obtain row r expires key rows ns where
    row: "by_fence (db_work db) project fence (map_option (\<lambda>_. now) lease) = Inr row" "decode_blob (cw_record row) = Inr r"
    and key: "scope_key digest (wc_scope r) = Inr key"
    and save: "save_claim WorkKind \<lparr>cp_project = project, cp_id = cf_id fence, cp_key = key, cp_generation = cf_generation fence,
         cp_holder = map_option (\<lambda>_. cf_actor fence) lease, cp_token = map_option (\<lambda>_. cf_token fence) lease, cp_expires = expires\<rparr>
       (encode_record canon (r\<lparr>wc_expires_at := expires, wc_holder := map_option (\<lambda>_. cf_actor fence) lease, wc_updated_at := now\<rparr>))
       (db_work db) (db_counters db) = Inr (rows, ns)"
    and event: "claim_event ev project fence (if lease \<noteq> None then ClaimRenewed else ClaimReleased)
         (if lease \<noteq> None then ''renewed'' else ''released'') now (db\<lparr>db_work := rows, db_counters := ns\<rparr>) = Inr db'"
    unfolding change_claim_tx_def Let_def by auto
  from row(1) have find: "find_claim (db_work db) project (cf_id fence) = Some row"
    and live: "lease \<noteq> None \<Longrightarrow> live_claim now row"
    by (auto simp: by_fence_def live_claim_def is_none_or_iff is_some_and_def not_le split: if_splits option.splits)
  from find_claim_Some [OF find] have in_db: "row \<in> set (db_work db)" "cw_project row = project" "cw_id row = cf_id fence" by auto
  from inv in_db(1) have ok: "counters_ok (db_counters db)" and has: "has_counter WorkKind (db_counters db) row"
    and sound: "row_sound digest (db_claim_paths db) row" and apart: "\<And>s. s \<in> set (db_work db) \<Longrightarrow> rows_apart now row s"
    by (simp_all add: work_inv_def)
  from sound row(2) key have k: "digest (wc_scope r) = Inr key" "cw_key row = key"
    by (auto simp: row_sound_def scope_key_def)
  show ?thesis
  proof (rule save_claim_inv [OF inv save])
    show "db_work db' = rows" "db_counters db' = ns" "db_claim_paths db' = db_claim_paths db"
      using claim_event_tables [OF event] by simp_all
    show "cc_id n = cp_id \<lparr>cp_project = project, cp_id = cf_id fence, cp_key = key, cp_generation = cf_generation fence,
         cp_holder = map_option (\<lambda>_. cf_actor fence) lease, cp_token = map_option (\<lambda>_. cf_token fence) lease, cp_expires = expires\<rparr>"
      if "n \<in> set (db_counters db)" "cc_project n = cp_project \<lparr>cp_project = project, cp_id = cf_id fence, cp_key = key,
         cp_generation = cf_generation fence, cp_holder = map_option (\<lambda>_. cf_actor fence) lease,
         cp_token = map_option (\<lambda>_. cf_token fence) lease, cp_expires = expires\<rparr>" "cc_kind n = WorkKind"
        "cc_key n = cp_key \<lparr>cp_project = project, cp_id = cf_id fence, cp_key = key, cp_generation = cf_generation fence,
         cp_holder = map_option (\<lambda>_. cf_actor fence) lease, cp_token = map_option (\<lambda>_. cf_token fence) lease, cp_expires = expires\<rparr>" for n
    proof -
      from counter_in [OF that(1)] that(2-4) have "(project, WorkKind, key, cc_id n) \<in> counter_key ` set (db_counters db)" by simp
      moreover from has in_db k(2) have "(project, WorkKind, key, cf_id fence) \<in> counter_key ` set (db_counters db)"
        by (simp add: has_counter_def)
      ultimately show ?thesis using counter_unique [OF ok] by simp
    qed
  qed (use k sound row(2) in_db live apart in \<open>auto simp: row_sound_def rows_apart_def\<close>)
qed

subsection \<open>Runs\<close>

text \<open>
  Every operation comes some time after the previous one and sees the wall clock of its moment.
\<close>

datatype claim_op =
    AcquireClaim claim_request
  | RenewClaim id claim_fence duration_micros
  | ReleaseClaim id claim_fence

fun claim_step ::
  "(i64 \<Rightarrow> bool) \<Rightarrow> (string \<Rightarrow> io_cause + string) \<Rightarrow> scope_digest \<Rightarrow> claim_canon \<Rightarrow> event_canon
   \<Rightarrow> wall_time \<times> 'z claim_db_scheme \<Rightarrow> nat \<times> store_request \<times> claim_op
   \<Rightarrow> (wall_time \<times> 'z claim_db_scheme) \<times> (fabric_error + claim_fence option) list" where
  "claim_step jiff realpath digest canon ev (clock, db) (gap, req, op) =
     (let now = clock + int gap; req' = req\<lparr>sq_now := Inr now\<rparr> in
      case op of
        AcquireClaim claim \<Rightarrow> (case acquire_claim jiff realpath digest canon ev req' claim db of
            (r, db') \<Rightarrow> ((now, db'), [res_bind r (\<lambda>f. Inr (Some f))]))
      | RenewClaim project fence lease \<Rightarrow> (case renew_claim jiff digest canon ev req' project fence lease db of
            (r, db') \<Rightarrow> ((now, db'), [res_bind r (\<lambda>_. Inr None)]))
      | ReleaseClaim project fence \<Rightarrow> (case release_claim jiff digest canon ev req' project fence db of
            (r, db') \<Rightarrow> ((now, db'), [res_bind r (\<lambda>_. Inr None)])))"

lemma claim_step_inv:
  assumes "realpath_ok realpath" and "case s of (clock, db) \<Rightarrow> work_inv digest clock db"
  shows "case fst (claim_step jiff realpath digest canon ev s e) of (clock, db) \<Rightarrow> work_inv digest clock db"
proof -
  obtain clock db gap req op where s: "s = (clock, db)" and e: "e = (gap, req, op)" by (cases s, cases e) auto
  let ?now = "clock + int gap" and ?req = "req\<lparr>sq_now := Inr (clock + int gap)\<rparr>"
  have now: "wall_now ?req = Inr ?now" by (simp add: wall_now_def)
  have inv: "work_inv digest ?now db" using assms(2) s work_inv_later [of digest clock db ?now] by simp
  have change: "work_inv digest ?now (snd (store_write ?req (change_claim_tx jiff digest canon ev ?req project fence lease) db))"
    for project fence lease
    by (rule store_write_keeps [where P = "work_inv digest ?now", OF inv]) (rule change_claim_inv [OF _ now inv])
  show ?thesis
  proof (cases op)
    case (AcquireClaim claim)
    have "work_inv digest ?now (snd (acquire_claim jiff realpath digest canon ev ?req claim db))"
    proof (cases "scope_canonical realpath (cq_scope claim)")
      case (Inr scope)
      have "digest scope = Inr key \<Longrightarrow> work_inv digest ?now (snd (store_write ?req (acquire_claim_tx jiff canon ev ?req claim scope key) db))" for key
        by (rule store_write_keeps [where P = "work_inv digest ?now", OF inv]) (erule acquire_claim_inv [OF _ now inv], assumption, rule scope_canonical_text [OF assms(1) Inr])
      with Inr inv show ?thesis by (simp add: acquire_claim_def scope_key_def split: sum.splits)
    qed (use inv in \<open>simp add: acquire_claim_def\<close>)
    with s e AcquireClaim show ?thesis by (simp add: Let_def case_prod_beta)
  next
    case (RenewClaim project fence lease)
    with s e change show ?thesis by (simp add: Let_def case_prod_beta renew_claim_def)
  next
    case (ReleaseClaim project fence)
    with s e change show ?thesis by (simp add: Let_def case_prod_beta release_claim_def)
  qed
qed

interpretation claims: invariant_machine "claim_step jiff realpath digest canon ev"
  "\<lambda>s. realpath_ok realpath \<and> (case s of (clock, db) \<Rightarrow> work_inv digest clock (db :: 'z claim_db_scheme))"
  for jiff realpath digest canon ev
  by unfold_locales (simp add: claim_step_inv)

lemma work_inv_empty:
  assumes "db_counters db = []" and "db_work db = []"
  shows "work_inv digest clock db"
  using assms by (simp add: work_inv_def counters_ok_def)

lemma work_inv_apart:
  assumes "work_inv digest now db" and "r \<in> set (db_work db)" and "s \<in> set (db_work db)" and "cw_project r = cw_project s"
    and "cw_id r \<noteq> cw_id s" and "live_claim now r" and "live_claim now s"
    and v: "decode_blob (cw_record r) = Inr v" and w: "decode_blob (cw_record s) = Inr w"
  shows "wc_scope v \<noteq> wc_scope w \<and> scopes_apart (wc_scope v) (wc_scope w)"
proof -
  from assms(1-3) have ok: "counters_ok (db_counters db)" and has: "has_counter WorkKind (db_counters db) r" "has_counter WorkKind (db_counters db) s"
    and sound: "row_sound digest (db_claim_paths db) r" "row_sound digest (db_claim_paths db) s" and apart: "rows_apart now r s"
    by (simp_all add: work_inv_def)
  have "cw_key r \<noteq> cw_key s"
    using counter_unique [OF ok, of "cw_project s" WorkKind "cw_key s" "cw_id r" "cw_id s"] has assms(4,5) unfolding has_counter_def by auto
  with sound v w have "wc_scope v \<noteq> wc_scope w" by (auto simp: row_sound_def)
  with apart assms(4-9) show ?thesis by (simp add: rows_apart_def)
qed

subsection \<open>Example\<close>

text \<open>One actor claims a work tree, another is refused a directory below it and granted one beside it.\<close>

definition example_realpath :: "string \<Rightarrow> io_cause + string" where
  "example_realpath p = (if p \<in> {''/a'', ''/a/x'', ''/b''} then Inr p else Inl \<lparr>io_kind_of = IoNotFound, io_os_code = Some 2\<rparr>)"

definition example_acquire :: "string \<Rightarrow> string \<Rightarrow> nat \<times> store_request \<times> claim_op" where
  "example_acquire i path = (1, \<lparr>sq_cancelled = False, sq_now = Inr 0, sq_begin = None, sq_commit = None\<rparr>,
     AcquireClaim \<lparr>cq_extra = [], cq_id = i, cq_project = ''p'', cq_actor = i, cq_token = i, cq_lease = 1000000,
       cq_scope = WorktreeScope [] path\<rparr>)"

definition example_claims_db :: claim_db where
  "example_claims_db = \<lparr>db_events = [], db_event_seq = 0, db_event_cursors = Map.empty, db_operations = Map.empty, db_tasks = [],
     db_counters = [], db_work = [], db_landings = [], db_claim_paths = [], db_pushes = []\<rparr>"

definition example_claims_run :: "(wall_time \<times> claim_db) \<times> (fabric_error + claim_fence option) list" where
  "example_claims_run = run_machine
     (claim_step (\<lambda>_. True) example_realpath (\<lambda>s. Inr (concat (scope_paths s))) (\<lambda>_. Inr 10) (\<lambda>_. Inr 10)) (0, example_claims_db)
     [example_acquire ''i'' ''/a'', example_acquire ''j'' ''/a/x'', example_acquire ''k'' ''/b'']"

definition example_row :: "string \<Rightarrow> string \<Rightarrow> wall_time \<Rightarrow> work_claim claim_row" where
  "example_row i path now = \<lparr>cw_project = ''p'', cw_id = i, cw_key = path, cw_generation = 1, cw_holder = Some i, cw_token = Some i,
     cw_expires = Some (now + 1000000), cw_record = Blob 10 \<lparr>wc_extra = [], wc_header = 1, wc_project = ''p'', wc_id = i,
       wc_scope = WorktreeScope [] path, wc_holder = Some i, wc_generation = 1, wc_expires_at = Some (now + 1000000), wc_updated_at = now\<rparr>\<rparr>"

lemma example_paths:
  "is_utf8 ''/a''" "is_utf8 ''/a/x''" "is_utf8 ''/b''"
  "path_ancestors ''/a'' = [''/a'', ''/'']" "path_ancestors ''/a/x'' = [''/a/x'', ''/a'', ''/'']" "path_ancestors ''/b'' = [''/b'', ''/'']"
  by code_simp+

lemmas example_claims = example_claims_run_def example_acquire_def example_claims_db_def example_realpath_def example_row_def
  acquire_claim_def acquire_claim_tx_def canonical_path_def scope_key_def store_write_def request_check_def wall_now_def
  lease_expiry_def claim_expiry_def lease_in_range_def wall_checked_add_def from_micros_def by_scope_def overlapping_path_def path_range_def
  find_live_path_def grant_claim_def prune_released_def prunable_def next_generation_def previous_extra_def fence_for_def
  save_claim_def save_row_def save_counter_def row_of_write_def find_claim_def add_paths_def claim_event_def live_claim_def
  append_event_def event_of_def check_text_def encode_record_def map_err_def u64_checked_add_def i64_try_from_def
  MAX_BODY_BYTES_def FABRIC_RECORD_BYTES_def Let_def is_i64_def is_some_and_def show_id_def

lemma example_claims_outcome:
  "db_work (snd (fst example_claims_run)) = [example_row ''i'' ''/a'' 1, example_row ''k'' ''/b'' 3] \<and> fst (fst example_claims_run) = 3"
  by (simp add: example_claims example_paths run_machine_Cons del: run_machine.simps(2))

text \<open>
  C9: Live claims are disjoint. After every run of operations on the claims of a fresh store, by any
  actors and at times that do not go back, two different claims of a project that are both held and
  unexpired have different scopes, and no path of the one is equal to, above or below a path of the
  other. That \<open>canonicalize\<close> returns absolute paths without empty components is assumed.
\<close>

theorem live_claims_are_disjoint:
  assumes "realpath_ok realpath" and "db_work db = []" and "db_counters db = []"
    and run: "fst (run_machine (claim_step jiff realpath digest canon ev) (clock, db) ops) = (now, db')"
    and r: "r \<in> set (db_work db')" "live_claim now r" "decode_blob (cw_record r) = Inr v"
    and s: "s \<in> set (db_work db')" "live_claim now s" "decode_blob (cw_record s) = Inr w"
    and "cw_project r = cw_project s" and "cw_id r \<noteq> cw_id s"
  shows "wc_scope v \<noteq> wc_scope w \<and> (\<forall>p \<in> set (scope_paths (wc_scope v)). \<forall>q \<in> set (scope_paths (wc_scope w)). \<not> paths_overlap p q)"
proof -
  have "work_inv digest now db'"
    using claims.run_inv [where s = "(clock, db)" and es = ops and realpath = realpath and digest = digest and jiff = jiff and canon = canon and ev = ev] assms(1) work_inv_empty [OF assms(3,2)] run by simp
  from work_inv_apart [OF this r(1) s(1) assms(11,12) r(2) s(2) r(3) s(3)] show ?thesis by (simp add: scopes_apart_def)
qed

lemma example_realpath_ok: "realpath_ok example_realpath"
proof -
  have canonical: "components_ok cs \<Longrightarrow> canonical_text (path_of cs)" for cs by (auto simp: canonical_text_def)
  have "canonical_text ''/a''" "canonical_text ''/a/x''" "canonical_text ''/b''"
    using canonical [of "[''a'']"] canonical [of "[''a'', ''x'']"] canonical [of "[''b'']"] by (simp_all add: path_of_def)
  then show ?thesis by (simp add: realpath_ok_def example_realpath_def)
qed

theorem live_claims_are_disjoint_witness:
  "db_work (snd (fst example_claims_run)) = [example_row ''i'' ''/a'' 1, example_row ''k'' ''/b'' 3] \<and> \<not> paths_overlap ''/a'' ''/b''"
proof -
  have live: "live_claim 3 (example_row ''i'' ''/a'' 1)" "live_claim 3 (example_row ''k'' ''/b'' 3)"
    by (simp_all add: live_claim_def example_row_def is_some_and_def)
  have run: "fst example_claims_run = (3, snd (fst example_claims_run))"
    using example_claims_outcome by (metis prod.collapse)
  show ?thesis
    using live_claims_are_disjoint [OF example_realpath_ok _ _ run [unfolded example_claims_run_def], of "example_row ''i'' ''/a'' 1" _
        "example_row ''k'' ''/b'' 3"] live example_claims_outcome
    unfolding example_claims_run_def [symmetric] by (simp add: example_claims_db_def) (simp add: example_row_def)
qed

end
