(* ===== verification/Fabric_Landing.thy ===== *)
theory Fabric_Landing
  imports Fabric_Claims
begin

section \<open>Landing (crate fabric-store)\<close>

text \<open>
  \<open>fabric-store/src/landing.rs\<close>: the exclusive claim on a branch and the push operations made under
  it. The directory of the lock files is an argument: none, or the outcome of reading its device
  and inode. The digest of a push request is an argument.
\<close>

subsection \<open>References and guards\<close>

definition contains_text :: "string \<Rightarrow> string \<Rightarrow> bool" where
  "contains_text part s \<longleftrightarrow> sublist part s"

definition refused_byte :: "char \<Rightarrow> bool" where
  "refused_byte c \<longleftrightarrow> (of_char c :: nat) \<le> 32 \<or> (of_char c :: nat) = 127 \<or> c \<in> set ''~^:?*[''
     \<or> (of_char c :: nat) = 92"

definition reference_ok :: "string \<Rightarrow> fabric_error + unit" where
  "reference_ok value =
     (if \<not> prefix ''refs/heads/'' value \<or> 1024 < length value \<or> list_ex (\<lambda>c. 128 \<le> (of_char c :: nat)) value
         \<or> list_ex refused_byte value \<or> contains_text ''..'' value \<or> contains_text [CHR ''@'', CHR ''{''] value \<or> suffix ''.'' value
         \<or> list_ex (\<lambda>s. s = [] \<or> prefix ''.'' s \<or> suffix ''.lock'' s) (split_slash value)
      then Inl (FE_Invalid ''landing ref'') else Inr ())"

type_synonym lock_directory = "(fs_error + nat \<times> nat) option"

record landing_guard =
  lg_project :: id
  lg_reference :: string
  lg_directory :: "nat \<times> nat"

definition lock_metadata :: "lock_directory \<Rightarrow> fabric_error + nat \<times> nat" where
  "lock_metadata locks = res_bind (ok_or (FE_Invalid ''landing lock store'') locks) (map_err FE_Filesystem)"

definition landing_lock_name :: "(id \<Rightarrow> string \<Rightarrow> canonical_error + string) \<Rightarrow> id \<Rightarrow> string \<Rightarrow> fabric_error + string" where
  "landing_lock_name digest project branch =
     res_bind (map_err FE_Encode (digest project branch)) (\<lambda>key.
     if prefix ''sha256:'' key then Inr (drop 7 key @ ''.lock'') else Inl (FE_Invalid ''lock digest''))"

definition lock_landing ::
  "lock_directory \<Rightarrow> (id \<Rightarrow> string \<Rightarrow> canonical_error + string) \<Rightarrow> (string \<Rightarrow> fs_error + unit) \<Rightarrow> store_request \<Rightarrow> id \<Rightarrow> string
   \<Rightarrow> fabric_error + landing_guard" where
  "lock_landing locks digest lock req project branch =
     res_bind (reference_ok branch) (\<lambda>_.
     res_bind (request_check req) (\<lambda>_.
     res_bind (landing_lock_name digest project branch) (\<lambda>name.
     if locks = None then Inl (FE_Invalid ''landing lock store'')
     else res_bind (map_err FE_Filesystem (lock name)) (\<lambda>_.
     res_bind (lock_metadata locks) (\<lambda>directory.
     Inr \<lparr>lg_project = project, lg_reference = branch, lg_directory = directory\<rparr>)))))"

definition check_guard :: "lock_directory \<Rightarrow> landing_guard \<Rightarrow> fabric_error + unit" where
  "check_guard locks guard =
     res_bind (lock_metadata locks) (\<lambda>directory.
     if lg_directory guard \<noteq> directory then Inl (FE_Invalid ''landing lock store'') else Inr ())"

subsection \<open>Operations on the tables\<close>

type_synonym landing_canon = "landing \<Rightarrow> canonical_error + nat"
type_synonym push_canon = "push_operation \<Rightarrow> canonical_error + nat"

definition find_push :: "'z claim_db_scheme \<Rightarrow> id \<Rightarrow> string \<Rightarrow> push_row option" where
  "find_push db project i = List.find (\<lambda>o'. pu_project o' = project \<and> pu_id o' = i) (db_pushes db)"

definition load_operation :: "'z claim_db_scheme \<Rightarrow> id \<Rightarrow> string \<Rightarrow> fabric_error + push_operation" where
  "load_operation db project i =
     res_bind (ok_or FE_NotFound (find_push db project i)) (\<lambda>row.
     res_bind (decode_blob (pu_record row)) (\<lambda>operation.
     if pr_project (po_request operation) \<noteq> project \<or> po_id operation \<noteq> i then Inl (FE_Invalid ''stored operation identity'')
     else Inr operation))"

definition save_push :: "push_row \<Rightarrow> push_row list \<Rightarrow> push_row list" where
  "save_push r rows =
     (if list_ex (\<lambda>row. pu_project row = pu_project r \<and> pu_id row = pu_id r) rows
      then map (\<lambda>row. if pu_project row = pu_project r \<and> pu_id row = pu_id r
             then row\<lparr>pu_phase := pu_phase r, pu_record := pu_record r\<rparr> else row) rows
      else rows @ [r])"

definition save_operation :: "push_canon \<Rightarrow> push_operation \<Rightarrow> 'z claim_db_scheme \<Rightarrow> fabric_error + 'z claim_db_scheme" where
  "save_operation canon operation db =
     res_bind (encode_record canon operation) (\<lambda>b.
     Inr (db\<lparr>db_pushes := save_push \<lparr>pu_project = pr_project (po_request operation), pu_id = po_id operation,
        pu_claim = pr_claim (po_request operation), pu_phase = po_phase operation, pu_record = b\<rparr> (db_pushes db)\<rparr>))"

definition unresolved :: "'z claim_db_scheme \<Rightarrow> id \<Rightarrow> id \<Rightarrow> string option" where
  "unresolved db project claim = map_option pu_id
     (List.find (\<lambda>o'. pu_project o' = project \<and> pu_claim o' = claim \<and> pu_phase o' \<in> {Pushing, PushUnknown}) (db_pushes db))"

definition landing_fence ::
  "lock_directory \<Rightarrow> landing_guard \<Rightarrow> claim_fence \<Rightarrow> wall_time option \<Rightarrow> 'z claim_db_scheme \<Rightarrow> fabric_error + landing" where
  "landing_fence locks guard fence live db =
     res_bind (check_guard locks guard) (\<lambda>_.
     res_bind (by_fence (db_landings db) (lg_project guard) fence live) (\<lambda>row.
     res_bind (decode_blob (cw_record row)) (\<lambda>value.
     if ld_reference value \<noteq> lg_reference guard \<or> ld_project value \<noteq> lg_project guard \<or> ld_id value \<noteq> cf_id fence
     then Inl FE_StaleFence else Inr value)))"

definition save_landing ::
  "landing_canon \<Rightarrow> landing \<Rightarrow> string option \<Rightarrow> 'z claim_db_scheme \<Rightarrow> fabric_error + 'z claim_db_scheme" where
  "save_landing canon value token db =
     res_bind (save_claim LandingKind \<lparr>cp_project = ld_project value, cp_id = ld_id value, cp_key = ld_reference value,
         cp_generation = ld_generation value, cp_holder = ld_holder value, cp_token = token, cp_expires = ld_expires_at value\<rparr>
         (encode_record canon value) (db_landings db) (db_counters db)) (\<lambda>(rows, ns).
     Inr (db\<lparr>db_landings := rows, db_counters := ns\<rparr>))"

subsection \<open>Landing claims\<close>

record landing_request =
  lq_extra :: extra_fields
  lq_id :: id
  lq_project :: id
  lq_actor :: id
  lq_token :: string
  lq_reference :: string
  lq_expected :: git_oid
  lq_candidate :: git_oid
  lq_lease :: duration_micros

fun same_hash :: "git_oid \<Rightarrow> git_oid \<Rightarrow> bool" where
  "same_hash (Sha1 _) (Sha1 _) = True"
| "same_hash (Sha256 _) (Sha256 _) = True"
| "same_hash _ _ = False"

definition landing_fence_for :: "id \<Rightarrow> landing_request \<Rightarrow> nat \<Rightarrow> claim_fence" where
  "landing_fence_for i claim generation =
     \<lparr>cf_extra = [], cf_id = i, cf_actor = lq_actor claim, cf_generation = generation, cf_token = lq_token claim\<rparr>"

definition landing_extra :: "landing stored_claim option \<Rightarrow> fabric_error + extra_fields" where
  "landing_extra previous = (case Option.bind previous sc_body of
       None \<Rightarrow> Inr [] | Some b \<Rightarrow> res_bind (decode_blob b) (\<lambda>v. Inr (ld_extra v)))"

definition grant_landing ::
  "landing_canon \<Rightarrow> event_canon \<Rightarrow> landing_request \<Rightarrow> wall_time \<Rightarrow> wall_time \<Rightarrow> landing stored_claim option
   \<Rightarrow> 'z claim_db_scheme \<Rightarrow> fabric_error + claim_fence \<times> 'z claim_db_scheme" where
  "grant_landing canon ev claim now expires previous db =
     (let i = (case previous of None \<Rightarrow> lq_id claim | Some r \<Rightarrow> sc_id r) in
      res_bind (next_generation previous) (\<lambda>generation.
      let fence = landing_fence_for i claim generation in
      res_bind (landing_extra previous) (\<lambda>extra.
      res_bind (save_landing canon \<lparr>ld_extra = extra, ld_header = 1, ld_project = lq_project claim, ld_id = i,
          ld_reference = lq_reference claim, ld_expected = lq_expected claim, ld_candidate = lq_candidate claim,
          ld_holder = Some (lq_actor claim), ld_generation = generation, ld_expires_at = Some expires, ld_operation = None,
          ld_updated_at = now\<rparr> (Some (lq_token claim)) db) (\<lambda>db1.
      res_bind (claim_event ev (lq_project claim) fence LandingAcquired ''acquired'' now db1) (\<lambda>db2.
      Inr (fence, db2))))))"

definition acquire_landing_tx ::
  "(i64 \<Rightarrow> bool) \<Rightarrow> landing_canon \<Rightarrow> event_canon \<Rightarrow> store_request \<Rightarrow> landing_request
   \<Rightarrow> 'z claim_db_scheme \<Rightarrow> fabric_error + claim_fence \<times> 'z claim_db_scheme" where
  "acquire_landing_tx jiff canon ev req claim db =
     res_bind (wall_now req) (\<lambda>now.
     res_bind (lease_expiry jiff now (lq_lease claim)) (\<lambda>expires.
     let previous = by_scope LandingKind (db_landings db) db (lq_project claim) (lq_reference claim) in
     case previous of
       None \<Rightarrow> grant_landing canon ev claim now expires previous db
     | Some row \<Rightarrow>
         if sc_holder row = Some (lq_actor claim) \<and> sc_token row = Some (lq_token claim) \<and> is_some_and (sc_expires row) (\<lambda>t. now < t)
         then res_bind (res_bind (ok_or (FE_Decode (syntax_error [] 0)) (sc_body row)) decode_blob) (\<lambda>value.
           if ld_expected value \<noteq> lq_expected claim \<or> ld_candidate value \<noteq> lq_candidate claim then Inl FE_Conflict
           else Inr (landing_fence_for (sc_id row) claim (sc_generation row), db))
         else (case unresolved db (lq_project claim) (sc_id row) of
           Some operation \<Rightarrow> Inl (FE_PushUnresolved operation)
         | None \<Rightarrow>
             if sc_holder row \<noteq> None \<and> is_some_and (sc_expires row) (\<lambda>t. now < t) then Inl FE_Conflict
             else grant_landing canon ev claim now expires previous db)))"

definition acquire_landing ::
  "(i64 \<Rightarrow> bool) \<Rightarrow> lock_directory \<Rightarrow> landing_canon \<Rightarrow> event_canon \<Rightarrow> store_request \<Rightarrow> landing_guard \<Rightarrow> landing_request
   \<Rightarrow> 'z claim_db_scheme \<Rightarrow> (fabric_error + claim_fence) \<times> 'z claim_db_scheme" where
  "acquire_landing jiff locks canon ev req guard claim db =
     (case check_guard locks guard of
        Inl e \<Rightarrow> (Inl e, db)
      | Inr _ \<Rightarrow>
          if lq_project claim \<noteq> lg_project guard \<or> lq_reference claim \<noteq> lg_reference guard then (Inl (FE_Invalid ''landing lock scope''), db)
          else if \<not> same_hash (lq_expected claim) (lq_candidate claim) \<or> lq_expected claim = lq_candidate claim
          then (Inl (FE_Invalid ''landing OIDs''), db)
          else store_write req (acquire_landing_tx jiff canon ev req claim) db)"

definition verify_landing ::
  "lock_directory \<Rightarrow> store_request \<Rightarrow> landing_guard \<Rightarrow> claim_fence \<Rightarrow> 'z claim_db_scheme \<Rightarrow> fabric_error + landing" where
  "verify_landing locks req guard fence db =
     res_bind (wall_now req) (\<lambda>now. query_rows req (landing_fence locks guard fence (Some now) db))"

definition read_landing :: "store_request \<Rightarrow> id \<Rightarrow> string \<Rightarrow> 'z claim_db_scheme \<Rightarrow> fabric_error + landing option" where
  "read_landing req project branch db =
     res_bind (request_check req) (\<lambda>_.
     res_bind (reference_ok branch) (\<lambda>_. query_rows req
       (case List.find (\<lambda>row. cw_project row = project \<and> cw_key row = branch) (db_landings db) of
          None \<Rightarrow> Inr None
        | Some row \<Rightarrow> res_bind (decode_blob (cw_record row)) (\<lambda>value. Inr (Some value)))))"

definition change_landing_tx ::
  "(i64 \<Rightarrow> bool) \<Rightarrow> lock_directory \<Rightarrow> landing_canon \<Rightarrow> event_canon \<Rightarrow> store_request \<Rightarrow> landing_guard \<Rightarrow> claim_fence
   \<Rightarrow> duration_micros option \<Rightarrow> 'z claim_db_scheme \<Rightarrow> fabric_error + unit \<times> 'z claim_db_scheme" where
  "change_landing_tx jiff locks canon ev req guard fence lease db =
     res_bind (wall_now req) (\<lambda>now.
     res_bind (landing_fence locks guard fence (map_option (\<lambda>_. now) lease) db) (\<lambda>value.
     case (if lease = None then unresolved db (lg_project guard) (cf_id fence) else None) of
       Some operation \<Rightarrow> Inl (FE_PushUnresolved operation)
     | None \<Rightarrow>
         res_bind (case lease of None \<Rightarrow> Inr None | Some d \<Rightarrow> res_bind (lease_expiry jiff now d) (\<lambda>e. Inr (Some e))) (\<lambda>expires.
         let value' = value\<lparr>ld_updated_at := now, ld_expires_at := expires, ld_holder := map_option (\<lambda>_. cf_actor fence) lease\<rparr> in
         res_bind (save_landing canon value' (map_option (\<lambda>_. cf_token fence) lease) db) (\<lambda>db1.
         res_bind (claim_event ev (lg_project guard) fence (if lease \<noteq> None then LandingRenewed else LandingReleased)
             (if lease \<noteq> None then ''renewed'' else ''released'') now db1) (\<lambda>db2.
         Inr ((), db2))))))"

definition renew_landing ::
  "(i64 \<Rightarrow> bool) \<Rightarrow> lock_directory \<Rightarrow> landing_canon \<Rightarrow> event_canon \<Rightarrow> store_request \<Rightarrow> landing_guard \<Rightarrow> claim_fence
   \<Rightarrow> duration_micros \<Rightarrow> 'z claim_db_scheme \<Rightarrow> (fabric_error + unit) \<times> 'z claim_db_scheme" where
  "renew_landing jiff locks canon ev req guard fence lease db =
     store_write req (change_landing_tx jiff locks canon ev req guard fence (Some lease)) db"

definition release_landing ::
  "(i64 \<Rightarrow> bool) \<Rightarrow> lock_directory \<Rightarrow> landing_canon \<Rightarrow> event_canon \<Rightarrow> store_request \<Rightarrow> landing_guard \<Rightarrow> claim_fence
   \<Rightarrow> 'z claim_db_scheme \<Rightarrow> (fabric_error + unit) \<times> 'z claim_db_scheme" where
  "release_landing jiff locks canon ev req guard fence db =
     store_write req (change_landing_tx jiff locks canon ev req guard fence None) db"

subsection \<open>Pushes\<close>

text \<open>What follows the first \<open>://\<close>.\<close>

fun after_scheme :: "string \<Rightarrow> string option" where
  "after_scheme [] = None"
| "after_scheme (c # cs) = (if prefix ''://'' (c # cs) then Some (drop 2 cs) else after_scheme cs)"

definition remote_ok :: "string \<Rightarrow> bool" where
  "remote_ok remote \<longleftrightarrow> remote \<noteq> [] \<and> length remote \<le> 4096 \<and> \<not> prefix ''-'' remote
     \<and> list_all (\<lambda>c. 32 \<le> (of_char c :: nat) \<and> (of_char c :: nat) \<noteq> 127) remote
     \<and> CHR ''?'' \<notin> set remote \<and> CHR ''#'' \<notin> set remote
     \<and> is_none_or (after_scheme remote) (\<lambda>tail. CHR ''@'' \<notin> set (takeWhile (\<lambda>c. c \<noteq> CHR ''/'') tail))"

type_synonym push_digest = "push_request \<Rightarrow> canonical_error + digest"

definition frozen_request :: "landing_guard \<Rightarrow> claim_fence \<Rightarrow> landing \<Rightarrow> string \<Rightarrow> push_request" where
  "frozen_request guard fence landing remote =
     \<lparr>pr_extra = [], pr_header = 1, pr_project = lg_project guard, pr_claim = cf_id fence, pr_actor = cf_actor fence,
      pr_generation = cf_generation fence, pr_reference = ld_reference landing, pr_expected = ld_expected landing,
      pr_candidate = ld_candidate landing, pr_remote = remote\<rparr>"

definition prepared_operation :: "string \<Rightarrow> digest \<Rightarrow> push_request \<Rightarrow> wall_time \<Rightarrow> push_operation" where
  "prepared_operation i d frozen now =
     \<lparr>po_extra = [], po_header = 1, po_id = i, po_digest = d, po_request = frozen, po_phase = PushPrepared,
      po_observed_remote = None, po_updated_at = now\<rparr>"

definition prepare_push_tx ::
  "lock_directory \<Rightarrow> landing_canon \<Rightarrow> push_canon \<Rightarrow> push_digest \<Rightarrow> event_canon \<Rightarrow> store_request \<Rightarrow> landing_guard \<Rightarrow> claim_fence
   \<Rightarrow> string \<Rightarrow> string \<Rightarrow> 'z claim_db_scheme \<Rightarrow> fabric_error + push_operation \<times> 'z claim_db_scheme" where
  "prepare_push_tx locks canon push_canon digest ev req guard fence i remote db =
     res_bind (wall_now req) (\<lambda>now.
     res_bind (landing_fence locks guard fence (Some now) db) (\<lambda>landing.
     if is_some_and (ld_operation landing) (\<lambda>old. old \<noteq> i) then Inl FE_Conflict
     else
       let frozen = frozen_request guard fence landing remote in
       res_bind (map_err FE_Encode (digest frozen)) (\<lambda>d.
       case load_operation db (lg_project guard) i of
         Inr old \<Rightarrow> if po_digest old = d then Inr (old, db) else Inl FE_Conflict
       | Inl e \<Rightarrow>
           if e \<noteq> FE_NotFound then Inl e
           else
             let operation = prepared_operation i d frozen now in
             res_bind (save_operation push_canon operation db) (\<lambda>db1.
             res_bind (save_landing canon (landing\<lparr>ld_operation := Some i, ld_updated_at := now\<rparr>) (Some (cf_token fence)) db1) (\<lambda>db2.
             res_bind (claim_event ev (lg_project guard) fence PushChanged ''prepared'' now db2) (\<lambda>db3.
             Inr (operation, db3)))))))"

definition prepare_push ::
  "lock_directory \<Rightarrow> landing_canon \<Rightarrow> push_canon \<Rightarrow> push_digest \<Rightarrow> event_canon \<Rightarrow> store_request \<Rightarrow> landing_guard \<Rightarrow> claim_fence
   \<Rightarrow> string \<Rightarrow> string \<Rightarrow> 'z claim_db_scheme \<Rightarrow> (fabric_error + push_operation) \<times> 'z claim_db_scheme" where
  "prepare_push locks canon push_canon digest ev req guard fence i remote db =
     (if \<not> remote_ok remote then (Inl (FE_Invalid ''push remote''), db)
      else store_write req (prepare_push_tx locks canon push_canon digest ev req guard fence i remote) db)"

definition read_push :: "store_request \<Rightarrow> id \<Rightarrow> string \<Rightarrow> 'z claim_db_scheme \<Rightarrow> fabric_error + push_operation" where
  "read_push req project i db = res_bind (request_check req) (\<lambda>_. query_rows req (load_operation db project i))"

fun push_phase_sql :: "push_phase \<Rightarrow> string" where
  "push_phase_sql PushPrepared = ''prepared''"
| "push_phase_sql Pushing = ''pushing''"
| "push_phase_sql PushUnknown = ''unknown''"
| "push_phase_sql PushCommitted = ''committed''"
| "push_phase_sql PushRetryable = ''retryable''"
| "push_phase_sql PushConflict = ''conflict''"

definition reconciled_phase :: "push_request \<Rightarrow> git_oid option \<Rightarrow> push_phase" where
  "reconciled_phase request remote = (case remote of
       None \<Rightarrow> PushUnknown
     | Some oid \<Rightarrow> if oid = pr_candidate request then PushCommitted
         else if oid = pr_expected request then PushRetryable else PushConflict)"

fun push_transition :: "push_request \<Rightarrow> push_phase \<Rightarrow> push_action \<Rightarrow> fabric_error + push_phase" where
  "push_transition request from action =
     (case action of
        BeginPush \<Rightarrow> if from \<in> {PushPrepared, PushRetryable} then Inr Pushing else Inl (FE_PushTransition from action)
      | UncertainPush \<Rightarrow> if from = Pushing then Inr PushUnknown else Inl (FE_PushTransition from action)
      | ConfirmedPush \<Rightarrow> if from = Pushing then Inr PushCommitted else Inl (FE_PushTransition from action)
      | ReconcilePush remote \<Rightarrow>
          if from \<in> {Pushing, PushUnknown} then Inr (reconciled_phase request remote) else Inl (FE_PushTransition from action))"

fun observed_after :: "push_operation \<Rightarrow> push_action \<Rightarrow> git_oid option" where
  "observed_after operation BeginPush = None"
| "observed_after operation UncertainPush = po_observed_remote operation"
| "observed_after operation ConfirmedPush = Some (pr_candidate (po_request operation))"
| "observed_after operation (ReconcilePush remote) = remote"

definition change_push_tx ::
  "lock_directory \<Rightarrow> push_canon \<Rightarrow> event_canon \<Rightarrow> store_request \<Rightarrow> landing_guard \<Rightarrow> claim_fence
   \<Rightarrow> string \<Rightarrow> push_action \<Rightarrow> 'z claim_db_scheme \<Rightarrow> fabric_error + push_operation \<times> 'z claim_db_scheme" where
  "change_push_tx locks push_canon ev req guard fence i action db =
     res_bind (wall_now req) (\<lambda>now.
     res_bind (landing_fence locks guard fence (if action = BeginPush then Some now else None) db) (\<lambda>landing.
     res_bind (load_operation db (lg_project guard) i) (\<lambda>operation.
     let request = po_request operation in
     if ld_operation landing \<noteq> Some i \<or> pr_claim request \<noteq> cf_id fence \<or> pr_generation request \<noteq> cf_generation fence
        \<or> pr_actor request \<noteq> cf_actor fence
     then Inl FE_StaleFence
     else
       res_bind (push_transition request (po_phase operation) action) (\<lambda>phase.
       let operation' = operation\<lparr>po_observed_remote := observed_after operation action, po_phase := phase, po_updated_at := now\<rparr> in
       res_bind (save_operation push_canon operation' db) (\<lambda>db1.
       res_bind (claim_event ev (lg_project guard) fence PushChanged (push_phase_sql phase) now db1) (\<lambda>db2.
       Inr (operation', db2)))))))"

definition change_push ::
  "lock_directory \<Rightarrow> push_canon \<Rightarrow> event_canon \<Rightarrow> store_request \<Rightarrow> landing_guard \<Rightarrow> claim_fence
   \<Rightarrow> string \<Rightarrow> push_action \<Rightarrow> 'z claim_db_scheme \<Rightarrow> (fabric_error + push_operation) \<times> 'z claim_db_scheme" where
  "change_push locks push_canon ev req guard fence i action db =
     store_write req (change_push_tx locks push_canon ev req guard fence i action) db"

subsection \<open>Rows that are kept\<close>

lemma save_claim_keeps:
  assumes "save_claim kind w bytes rows ns = Inr (rows', ns')" and "x \<in> set rows" and "(cw_project x, cw_id x) \<noteq> (cp_project w, cp_id w)"
  shows "x \<in> set rows'"
  using assms by (auto simp: save_claim_def save_row_def row_of_write_def image_iff split: if_splits)

lemma save_claim_distinct:
  assumes "save_claim kind w bytes rows ns = Inr (rows', ns')" and "distinct (map claim_key rows)"
  shows "distinct (map claim_key rows')"
proof -
  from assms(1) obtain b where "rows' = save_row (row_of_write w b) rows" by (auto simp: save_claim_def split: if_splits)
  with assms(2) show ?thesis by (simp add: save_row_keys)
qed

lemma save_claim_key:
  assumes "save_claim kind w bytes rows ns = Inr (rows', ns')"
  shows "(cp_project w, cp_id w) \<in> set (map claim_key rows')"
proof -
  from assms obtain b where "rows' = save_row (row_of_write w b) rows" by (auto simp: save_claim_def split: if_splits)
  moreover have "claim_key (row_of_write w b) = (cp_project w, cp_id w)" by (simp add: claim_key_def row_of_write_def)
  ultimately show ?thesis by (simp only: save_row_keys) simp
qed

lemma save_claim_row_in:
  assumes "save_claim kind w (encode_record canon r) rows ns = Inr (rows', ns')" and "\<forall>row \<in> set rows. has_counter kind ns row"
  obtains b where "row_of_write w b \<in> set rows'" "decode_blob b = Inr r"
proof -
  from save_claim_key [OF assms(1)] obtain x where x: "x \<in> set rows'" "claim_key x = (cp_project w, cp_id w)" by auto
  from assms(1) x(1) assms(2) show thesis
  proof (cases rule: save_claim_rows)
    case 1
    with x(2) show thesis by (simp add: claim_key_def)
  next
    case (2 b)
    with x(1) that show thesis by blast
  qed
qed

subsection \<open>Unresolved pushes\<close>

definition push_unresolved :: "push_row \<Rightarrow> bool" where
  "push_unresolved o' \<longleftrightarrow> pu_phase o' \<in> {Pushing, PushUnknown}"

text \<open>The landing record names the push, and its actor holds the landing in the push's generation.\<close>

definition names_push :: "id option \<Rightarrow> nat \<Rightarrow> string option \<Rightarrow> push_row \<Rightarrow> bool" where
  "names_push holder generation operation o' \<longleftrightarrow> operation = Some (pu_id o')
     \<and> (\<exists>op. decode_blob (pu_record o') = Inr op \<and> holder = Some (pr_actor (po_request op)) \<and> generation = pr_generation (po_request op))"

definition pinned :: "landing claim_row list \<Rightarrow> push_row \<Rightarrow> bool" where
  "pinned rows o' \<longleftrightarrow> (\<exists>l \<in> set rows. \<exists>v. cw_project l = pu_project o' \<and> cw_id l = pu_claim o' \<and> decode_blob (cw_record l) = Inr v
     \<and> names_push (cw_holder l) (cw_generation l) (ld_operation v) o')"

definition landing_sound :: "landing claim_row \<Rightarrow> bool" where
  "landing_sound row \<longleftrightarrow> (\<forall>v. decode_blob (cw_record row) = Inr v \<longrightarrow> ld_project v = cw_project row \<and> ld_id v = cw_id row
     \<and> ld_reference v = cw_key row \<and> ld_generation v = cw_generation row)"

definition push_sound :: "push_row \<Rightarrow> bool" where
  "push_sound o' \<longleftrightarrow> (\<exists>op. decode_blob (pu_record o') = Inr op \<and> po_id op = pu_id o' \<and> pr_project (po_request op) = pu_project o'
     \<and> pr_claim (po_request op) = pu_claim o' \<and> po_phase op = pu_phase o')"

definition push_key :: "push_row \<Rightarrow> id \<times> string" where
  "push_key o' = (pu_project o', pu_id o')"

definition landings_ok :: "claim_counter list \<Rightarrow> landing claim_row list \<Rightarrow> bool" where
  "landings_ok ns rows \<longleftrightarrow> counters_ok ns \<and> rows_ok LandingKind ns rows \<and> (\<forall>l \<in> set rows. landing_sound l)"

definition landing_inv :: "'z claim_db_scheme \<Rightarrow> bool" where
  "landing_inv db \<longleftrightarrow> landings_ok (db_counters db) (db_landings db) \<and> distinct (map push_key (db_pushes db))
     \<and> (\<forall>o' \<in> set (db_pushes db). push_sound o' \<and> (push_unresolved o' \<longrightarrow> pinned (db_landings db) o'))"

lemma unresolved_None: "unresolved db project claim = None \<Longrightarrow> o' \<in> set (db_pushes db) \<Longrightarrow> pu_project o' = project \<Longrightarrow> pu_claim o' = claim \<Longrightarrow>
    \<not> push_unresolved o'"
  by (auto simp: unresolved_def find_None_iff push_unresolved_def)

lemma unresolved_Some: "o' \<in> set (db_pushes db) \<Longrightarrow> push_unresolved o' \<Longrightarrow> \<exists>i. unresolved db (pu_project o') (pu_claim o') = Some i"
  by (rule ccontr) (auto dest: unresolved_None)

text \<open>The row under a fence is the one that pins the unresolved pushes of its claim.\<close>

lemma pinned_row:
  assumes "landings_ok ns rows" and "pinned rows o'" and "row \<in> set rows" and "cw_project row = pu_project o'" and "cw_id row = pu_claim o'"
    and "decode_blob (cw_record row) = Inr v"
  shows "names_push (cw_holder row) (cw_generation row) (ld_operation v) o'"
proof -
  from assms(2) obtain l u where l: "l \<in> set rows" "cw_project l = pu_project o'" "cw_id l = pu_claim o'" "decode_blob (cw_record l) = Inr u"
    "names_push (cw_holder l) (cw_generation l) (ld_operation u) o'" unfolding pinned_def by blast
  have "rows_ok LandingKind ns rows" using assms(1) by (simp add: landings_ok_def)
  from rows_unique [OF this l(1) assms(3)] l(2,3) assms(4,5) have "l = row" by (simp add: claim_key_def)
  with l(4,5) assms(6) show ?thesis by simp
qed

lemma save_landing_inv:
  assumes inv: "landing_inv db" and save: "save_landing canon v token db = Inr db'"
    and i: "\<And>n. n \<in> set (db_counters db) \<Longrightarrow> cc_project n = ld_project v \<Longrightarrow> cc_kind n = LandingKind \<Longrightarrow> cc_key n = ld_reference v \<Longrightarrow> cc_id n = ld_id v"
    and pins: "\<And>o'. o' \<in> set (db_pushes db) \<Longrightarrow> push_unresolved o' \<Longrightarrow> pu_project o' = ld_project v \<Longrightarrow> pu_claim o' = ld_id v \<Longrightarrow>
      names_push (ld_holder v) (ld_generation v) (ld_operation v) o'"
  shows "landing_inv db'"
proof -
  let ?w = "\<lparr>cp_project = ld_project v, cp_id = ld_id v, cp_key = ld_reference v,
         cp_generation = ld_generation v, cp_holder = ld_holder v, cp_token = token, cp_expires = ld_expires_at v\<rparr>"
  from save obtain rows ns where s: "save_claim LandingKind ?w (encode_record canon v) (db_landings db) (db_counters db) = Inr (rows, ns)"
    and db': "db' = db\<lparr>db_landings := rows, db_counters := ns\<rparr>"
    by (auto simp: save_landing_def)
  from inv have ok: "counters_ok (db_counters db)" and dist: "distinct (map claim_key (db_landings db))"
    and has: "\<forall>row \<in> set (db_landings db). has_counter LandingKind (db_counters db) row"
    and sound: "\<forall>l \<in> set (db_landings db). landing_sound l"
    by (simp_all add: landing_inv_def landings_ok_def rows_ok_def)
  have hi: "\<And>n. n \<in> set (db_counters db) \<Longrightarrow> cc_project n = cp_project ?w \<Longrightarrow> cc_kind n = LandingKind \<Longrightarrow> cc_key n = cp_key ?w \<Longrightarrow> cc_id n = cp_id ?w"
    using i by simp
  have "has_counter LandingKind ns x \<and> landing_sound x" if "x \<in> set rows" for x
    using s that has
  proof (cases rule: save_claim_rows)
    case 1
    have "has_counter LandingKind ns x" by (rule save_claim_counters(2) [OF s ok hi bspec [OF has 1(1)]])
    with sound 1 show ?thesis by blast
  next
    case (2 b)
    have "has_counter LandingKind ns (row_of_write ?w b)" by (rule save_claim_counters(3) [OF s ok hi])
    with 2 show ?thesis by (simp add: landing_sound_def row_of_write_def)
  qed
  moreover have "counters_ok ns" by (rule save_claim_counters(1) [OF s ok hi])
  ultimately have lok: "landings_ok ns rows"
    using save_claim_distinct [OF s dist] by (simp add: landings_ok_def rows_ok_def)
  have "pinned rows o'" if o': "o' \<in> set (db_pushes db)" "push_unresolved o'" for o'
  proof (cases "pu_project o' = ld_project v \<and> pu_claim o' = ld_id v")
    case True
    obtain b where "row_of_write ?w b \<in> set rows" "decode_blob b = Inr v" using s has by (rule save_claim_row_in)
    with pins [OF o'] True show ?thesis unfolding pinned_def by (intro bexI [of _ "row_of_write ?w b"] exI [of _ v]) (simp_all add: row_of_write_def)
  next
    case False
    from inv o' obtain l u where l: "l \<in> set (db_landings db)" "cw_project l = pu_project o'" "cw_id l = pu_claim o'"
      "decode_blob (cw_record l) = Inr u" "names_push (cw_holder l) (cw_generation l) (ld_operation u) o'"
      unfolding landing_inv_def pinned_def by blast
    from False l(2,3) have "l \<in> set rows" by (intro save_claim_keeps [OF s l(1)]) auto
    with l show ?thesis unfolding pinned_def by blast
  qed
  with inv lok show ?thesis by (simp add: landing_inv_def db')
qed

lemma claim_event_inv:
  assumes "claim_event ev project fence kind detail now db = Inr db'"
  shows "landing_inv db' \<longleftrightarrow> landing_inv db" and "work_inv digest clock db' \<longleftrightarrow> work_inv digest clock db"
  using claim_event_tables [OF assms] by (simp_all add: landing_inv_def work_inv_def)

lemma grant_landing_inv:
  assumes "grant_landing canon ev claim now expires previous db = Inr (f, db')" and inv: "landing_inv db"
    and i: "\<And>n. n \<in> set (db_counters db) \<Longrightarrow> cc_project n = lq_project claim \<Longrightarrow> cc_kind n = LandingKind \<Longrightarrow> cc_key n = lq_reference claim \<Longrightarrow>
      cc_id n = (case previous of None \<Rightarrow> lq_id claim | Some r \<Rightarrow> sc_id r)"
    and free: "\<And>o'. o' \<in> set (db_pushes db) \<Longrightarrow> pu_project o' = lq_project claim \<Longrightarrow>
      pu_claim o' = (case previous of None \<Rightarrow> lq_id claim | Some r \<Rightarrow> sc_id r) \<Longrightarrow> \<not> push_unresolved o'"
  shows "landing_inv db'"
proof -
  let ?i = "case previous of None \<Rightarrow> lq_id claim | Some r \<Rightarrow> sc_id r"
  from assms(1) obtain generation extra db1 where
    save: "save_landing canon \<lparr>ld_extra = extra, ld_header = 1, ld_project = lq_project claim, ld_id = ?i,
          ld_reference = lq_reference claim, ld_expected = lq_expected claim, ld_candidate = lq_candidate claim,
          ld_holder = Some (lq_actor claim), ld_generation = generation, ld_expires_at = Some expires, ld_operation = None,
          ld_updated_at = now\<rparr> (Some (lq_token claim)) db = Inr db1"
    and event: "claim_event ev (lq_project claim) (landing_fence_for ?i claim generation) LandingAcquired ''acquired'' now db1 = Inr db'"
    unfolding grant_landing_def Let_def by auto
  have "landing_inv db1"
    by (rule save_landing_inv [OF inv save]) (use i free in auto)
  with claim_event_inv(1) [OF event] show ?thesis by simp
qed

text \<open>A new identity cannot be one that pins a push: the collision check would refuse it.\<close>

lemma new_landing_free:
  assumes "grant_landing canon ev claim now expires None db = Inr (f, db')" and inv: "landing_inv db"
    and none: "\<And>n. n \<in> set (db_counters db) \<Longrightarrow> cc_project n = lq_project claim \<Longrightarrow> cc_kind n = LandingKind \<Longrightarrow> cc_key n \<noteq> lq_reference claim"
    and o': "o' \<in> set (db_pushes db)" "pu_project o' = lq_project claim" "pu_claim o' = lq_id claim"
  shows "\<not> push_unresolved o'"
proof
  assume "push_unresolved o'"
  with inv o' obtain l where l: "l \<in> set (db_landings db)" "cw_project l = lq_project claim" "cw_id l = lq_id claim"
    unfolding landing_inv_def pinned_def by auto
  with inv have "has_counter LandingKind (db_counters db) l" by (simp add: landing_inv_def landings_ok_def rows_ok_def)
  then obtain n where n: "n \<in> set (db_counters db)" "counter_key n = (lq_project claim, LandingKind, cw_key l, lq_id claim)"
    unfolding has_counter_def l by (metis imageE)
  then have n': "cc_project n = lq_project claim" "cc_kind n = LandingKind" "cc_id n = lq_id claim" by (simp_all add: counter_key_def)
  with none [OF n(1)] have "cc_key n \<noteq> lq_reference claim" by simp
  with n(1) n' have "list_ex (\<lambda>n. cc_project n = lq_project claim \<and> cc_id n = lq_id claim
      \<and> (cc_kind n \<noteq> LandingKind \<or> cc_key n \<noteq> lq_reference claim)) (db_counters db)" by (auto simp: list_ex_iff)
  with assms(1) show False by (auto simp: grant_landing_def save_landing_def save_claim_def Let_def)
qed

lemma by_scope_None: "by_scope kind rows db project key = None \<Longrightarrow> n \<in> set (db_counters db) \<Longrightarrow> cc_project n = project \<Longrightarrow> cc_kind n = kind \<Longrightarrow> cc_key n \<noteq> key"
  by (auto simp: by_scope_def find_None_iff)

lemma acquire_landing_cases:
  assumes "acquire_landing_tx jiff canon ev req claim db = Inr (f, db')"
  obtains now expires where "by_scope LandingKind (db_landings db) db (lq_project claim) (lq_reference claim) = None"
      "grant_landing canon ev claim now expires None db = Inr (f, db')"
  | row now where "by_scope LandingKind (db_landings db) db (lq_project claim) (lq_reference claim) = Some row" "wall_now req = Inr now"
      "sc_holder row = Some (lq_actor claim)" "sc_token row = Some (lq_token claim)" "is_some_and (sc_expires row) (\<lambda>t. now < t)"
      "f = landing_fence_for (sc_id row) claim (sc_generation row)" "db' = db"
  | row now expires where "by_scope LandingKind (db_landings db) db (lq_project claim) (lq_reference claim) = Some row"
      "unresolved db (lq_project claim) (sc_id row) = None"
      "grant_landing canon ev claim now expires (Some row) db = Inr (f, db')"
proof -
  let ?previous = "by_scope LandingKind (db_landings db) db (lq_project claim) (lq_reference claim)"
  from assms obtain now expires where now: "wall_now req = Inr now" "lease_expiry jiff now (lq_lease claim) = Inr expires"
    by (auto simp: acquire_landing_tx_def)
  show thesis
  proof (cases ?previous)
    case None
    with assms now that(1) show thesis by (simp add: acquire_landing_tx_def)
  next
    case (Some row)
    show thesis
    proof (cases "sc_holder row = Some (lq_actor claim) \<and> sc_token row = Some (lq_token claim) \<and> is_some_and (sc_expires row) (\<lambda>t. now < t)")
      case True
      with assms now Some that(2) [of row now] show thesis by (auto simp: acquire_landing_tx_def split: if_splits)
    next
      case False
      with assms now Some that(3) show thesis by (auto simp: acquire_landing_tx_def simp del: de_Morgan_conj split: option.splits if_splits)
    qed
  qed
qed

lemma acquire_landing_inv:
  assumes "acquire_landing_tx jiff canon ev req claim db = Inr (f, db')" and inv: "landing_inv db"
  shows "landing_inv db'"
  using assms(1)
proof (cases rule: acquire_landing_cases)
  case (1 now expires)
  show ?thesis
  proof (rule grant_landing_inv [OF 1(2) inv])
    fix o'
    assume "o' \<in> set (db_pushes db)" "pu_project o' = lq_project claim" "pu_claim o' = (case None of None \<Rightarrow> lq_id claim | Some r \<Rightarrow> sc_id r)"
    then show "\<not> push_unresolved o'" by (intro new_landing_free [OF 1(2) inv by_scope_None [OF 1(1)]]) simp_all
  qed (use by_scope_None [OF 1(1)] in blast)
next
  case (3 row now expires)
  have ok: "counters_ok (db_counters db)" using inv by (simp add: landing_inv_def landings_ok_def)
  show ?thesis
  proof (rule grant_landing_inv [OF 3(3) inv])
    fix n
    assume "n \<in> set (db_counters db)" "cc_project n = lq_project claim" "cc_kind n = LandingKind" "cc_key n = lq_reference claim"
    then show "cc_id n = (case Some row of None \<Rightarrow> lq_id claim | Some r \<Rightarrow> sc_id r)" by (rule by_scope_id [OF ok 3(1)])
  next
    fix o'
    assume "o' \<in> set (db_pushes db)" "pu_project o' = lq_project claim" "pu_claim o' = (case Some row of None \<Rightarrow> lq_id claim | Some r \<Rightarrow> sc_id r)"
    then show "\<not> push_unresolved o'" using unresolved_None [OF 3(2)] by simp
  qed
qed (use inv in simp)

lemma landing_fence_row:
  assumes "landing_fence locks guard fence live db = Inr v"
  obtains row where "row \<in> set (db_landings db)" "cw_project row = lg_project guard" "cw_id row = cf_id fence" "decode_blob (cw_record row) = Inr v"
    "cw_holder row = Some (cf_actor fence)" "cw_generation row = cf_generation fence"
    "ld_project v = lg_project guard" "ld_id v = cf_id fence" "ld_reference v = lg_reference guard"
proof -
  from assms obtain row where row: "by_fence (db_landings db) (lg_project guard) fence live = Inr row" "decode_blob (cw_record row) = Inr v"
    "ld_project v = lg_project guard" "ld_id v = cf_id fence" "ld_reference v = lg_reference guard"
    by (auto simp: landing_fence_def split: if_splits)
  from row(1) have "find_claim (db_landings db) (lg_project guard) (cf_id fence) = Some row"
    "cw_holder row = Some (cf_actor fence)" "cw_generation row = cf_generation fence"
    by (auto simp: by_fence_def split: if_splits)
  with row that find_claim_Some show thesis by blast
qed

lemma landing_fence_facts:
  assumes inv: "landing_inv db" and fence: "landing_fence locks guard fence live db = Inr v"
  shows "ld_generation v = cf_generation fence" "ld_project v = lg_project guard" "ld_id v = cf_id fence"
    and "\<And>n. n \<in> set (db_counters db) \<Longrightarrow> cc_project n = ld_project v \<Longrightarrow> cc_kind n = LandingKind \<Longrightarrow> cc_key n = ld_reference v \<Longrightarrow> cc_id n = ld_id v"
    and "\<And>o'. o' \<in> set (db_pushes db) \<Longrightarrow> push_unresolved o' \<Longrightarrow> pu_project o' = lg_project guard \<Longrightarrow> pu_claim o' = cf_id fence \<Longrightarrow>
      names_push (Some (cf_actor fence)) (cf_generation fence) (ld_operation v) o'"
proof -
  from fence obtain row where row: "row \<in> set (db_landings db)" "cw_project row = lg_project guard" "cw_id row = cf_id fence"
    "decode_blob (cw_record row) = Inr v" "cw_holder row = Some (cf_actor fence)" "cw_generation row = cf_generation fence"
    and v: "ld_project v = lg_project guard" "ld_id v = cf_id fence" by (rule landing_fence_row)
  from inv have lok: "landings_ok (db_counters db) (db_landings db)" by (simp add: landing_inv_def)
  with row(1) have sound: "landing_sound row" and has: "has_counter LandingKind (db_counters db) row" and ok: "counters_ok (db_counters db)"
    by (auto simp: landings_ok_def rows_ok_def)
  from sound row(4,6) show "ld_generation v = cf_generation fence" by (simp add: landing_sound_def)
  from v show "ld_project v = lg_project guard" "ld_id v = cf_id fence" by simp_all
  from sound row(4) have key: "cw_key row = ld_reference v" by (simp add: landing_sound_def)
  show "cc_id n = ld_id v" if "n \<in> set (db_counters db)" "cc_project n = ld_project v" "cc_kind n = LandingKind" "cc_key n = ld_reference v" for n
    using counter_unique [OF ok, of "ld_project v" LandingKind "ld_reference v" "cc_id n" "ld_id v"] counter_in [OF that(1)] that(2-4)
      has row(2,3) v key unfolding has_counter_def by simp
  show "names_push (Some (cf_actor fence)) (cf_generation fence) (ld_operation v) o'"
    if "o' \<in> set (db_pushes db)" "push_unresolved o'" "pu_project o' = lg_project guard" "pu_claim o' = cf_id fence" for o'
  proof -
    from inv that have "pinned (db_landings db) o'" by (simp add: landing_inv_def)
    from pinned_row [OF lok this row(1) _ _ row(4)] that row show ?thesis by simp
  qed
qed

lemma change_landing_inv:
  assumes "change_landing_tx jiff locks canon ev req guard fence lease db = Inr (u, db')" and inv: "landing_inv db"
  shows "landing_inv db'"
proof -
  from assms(1) obtain now v expires db1 where fence: "landing_fence locks guard fence (map_option (\<lambda>_. now) lease) db = Inr v"
    and free: "lease = None \<Longrightarrow> unresolved db (lg_project guard) (cf_id fence) = None"
    and save: "save_landing canon (v\<lparr>ld_updated_at := now, ld_expires_at := expires, ld_holder := map_option (\<lambda>_. cf_actor fence) lease\<rparr>)
        (map_option (\<lambda>_. cf_token fence) lease) db = Inr db1"
    and event: "claim_event ev (lg_project guard) fence (if lease \<noteq> None then LandingRenewed else LandingReleased)
        (if lease \<noteq> None then ''renewed'' else ''released'') now db1 = Inr db'"
    unfolding change_landing_tx_def Let_def by (auto split: option.splits if_splits)
  note facts = landing_fence_facts [OF inv fence]
  have "landing_inv db1"
  proof (rule save_landing_inv [OF inv save])
    fix o'
    assume o': "o' \<in> set (db_pushes db)" "push_unresolved o'"
      "pu_project o' = ld_project (v\<lparr>ld_updated_at := now, ld_expires_at := expires, ld_holder := map_option (\<lambda>_. cf_actor fence) lease\<rparr>)"
      "pu_claim o' = ld_id (v\<lparr>ld_updated_at := now, ld_expires_at := expires, ld_holder := map_option (\<lambda>_. cf_actor fence) lease\<rparr>)"
    with facts(2,3) unresolved_None [OF free] obtain d where "lease = Some d" by (cases lease) auto
    with facts(1) facts(5) [OF o'(1,2)] o'(3,4) facts(2,3) show "names_push
        (ld_holder (v\<lparr>ld_updated_at := now, ld_expires_at := expires, ld_holder := map_option (\<lambda>_. cf_actor fence) lease\<rparr>))
        (ld_generation (v\<lparr>ld_updated_at := now, ld_expires_at := expires, ld_holder := map_option (\<lambda>_. cf_actor fence) lease\<rparr>))
        (ld_operation (v\<lparr>ld_updated_at := now, ld_expires_at := expires, ld_holder := map_option (\<lambda>_. cf_actor fence) lease\<rparr>)) o'"
      by simp
  qed (use facts(4) in simp)
  with claim_event_inv(1) [OF event] show ?thesis by simp
qed

lemma find_push_Some: "find_push db project i = Some o' \<Longrightarrow> o' \<in> set (db_pushes db) \<and> push_key o' = (project, i)"
  by (auto simp: find_push_def push_key_def dest!: find_Some_in)

lemma find_push_None: "find_push db project i = None \<Longrightarrow> (project, i) \<notin> set (map push_key (db_pushes db))"
  by (auto simp: find_push_def find_None_iff push_key_def)

lemma load_operation_NotFound: "load_operation db project i = Inl FE_NotFound \<Longrightarrow> find_push db project i = None"
  by (cases "find_push db project i"; cases "decode_blob (pu_record (the (find_push db project i)))")
    (auto simp: load_operation_def split: if_splits elim: decode_blob.elims)

lemma save_operation_new:
  assumes inv: "landing_inv db" and save: "save_operation canon operation db = Inr db'"
    and none: "find_push db (pr_project (po_request operation)) (po_id operation) = None"
    and phase: "po_phase operation \<notin> {Pushing, PushUnknown}"
  obtains row where "db' = db\<lparr>db_pushes := db_pushes db @ [row]\<rparr>" "landing_inv db'" "\<not> push_unresolved row"
proof -
  from save obtain b where b: "encode_record canon operation = Inr b" by (auto simp: save_operation_def)
  then have d: "decode_blob b = Inr operation" by (auto simp: encode_record_def split: sum.splits if_splits)
  let ?row = "\<lparr>pu_project = pr_project (po_request operation), pu_id = po_id operation,
        pu_claim = pr_claim (po_request operation), pu_phase = po_phase operation, pu_record = b\<rparr>"
  have fresh: "push_key ?row \<notin> set (map push_key (db_pushes db))" using find_push_None [OF none] by (simp add: push_key_def)
  have "push_key x \<noteq> push_key ?row" if "x \<in> set (db_pushes db)" for x
    using fresh that by (metis imageI set_map)
  then have "\<not> list_ex (\<lambda>row. pu_project row = pu_project ?row \<and> pu_id row = pu_id ?row) (db_pushes db)"
    unfolding list_ex_iff push_key_def by blast
  with save b have db': "db' = db\<lparr>db_pushes := db_pushes db @ [?row]\<rparr>" by (simp add: save_operation_def save_push_def)
  have "push_sound ?row" using d by (simp add: push_sound_def)
  moreover have free: "\<not> push_unresolved ?row" using phase by (simp add: push_unresolved_def)
  ultimately have "landing_inv db'" using inv fresh unfolding landing_inv_def db' by simp
  with db' free that show thesis by blast
qed

lemma prepare_push_cases:
  assumes "prepare_push_tx locks canon push_canon digest ev req guard fence i remote db = Inr (operation, db')"
  obtains "db' = db" "load_operation db (lg_project guard) i = Inr operation"
  | now v d db1 db2 where "landing_fence locks guard fence (Some now) db = Inr v" "is_none_or (ld_operation v) (\<lambda>old. old = i)"
      "load_operation db (lg_project guard) i = Inl FE_NotFound"
      "operation = prepared_operation i d (frozen_request guard fence v remote) now"
      "save_operation push_canon operation db = Inr db1"
      "save_landing canon (v\<lparr>ld_operation := Some i, ld_updated_at := now\<rparr>) (Some (cf_token fence)) db1 = Inr db2"
      "claim_event ev (lg_project guard) fence PushChanged ''prepared'' now db2 = Inr db'"
proof -
  from assms obtain now v where v: "wall_now req = Inr now" "landing_fence locks guard fence (Some now) db = Inr v"
    by (auto simp: prepare_push_tx_def)
  with assms have old: "\<not> is_some_and (ld_operation v) (\<lambda>old. old \<noteq> i)" by (auto simp: prepare_push_tx_def)
  let ?frozen = "frozen_request guard fence v remote"
  from assms v old obtain d where d: "digest ?frozen = Inr d"
    by (cases "digest ?frozen") (simp_all add: prepare_push_tx_def map_err_def Let_def)
  show thesis
  proof (cases "load_operation db (lg_project guard) i")
    case (Inr found)
    with assms v old d that(1) show thesis by (simp add: prepare_push_tx_def map_err_def Let_def split: if_splits)
  next
    case (Inl e)
    with assms v old d have e: "e = FE_NotFound" by (simp add: prepare_push_tx_def map_err_def Let_def split: if_splits)
    with assms v old d Inl obtain db1 db2 where "operation = prepared_operation i d ?frozen now"
      "save_operation push_canon operation db = Inr db1"
      "save_landing canon (v\<lparr>ld_operation := Some i, ld_updated_at := now\<rparr>) (Some (cf_token fence)) db1 = Inr db2"
      "claim_event ev (lg_project guard) fence PushChanged ''prepared'' now db2 = Inr db'"
      by (auto simp: prepare_push_tx_def map_err_def Let_def)
    with v(2) Inl e old show thesis by (intro that(2)) (auto simp: is_some_and_def is_none_or_iff split: option.splits)
  qed
qed

lemma prepare_push_inv:
  assumes "prepare_push_tx locks canon push_canon digest ev req guard fence i remote db = Inr (operation, db')" and inv: "landing_inv db"
  shows "landing_inv db'"
  using assms(1)
proof (cases rule: prepare_push_cases)
  case (2 now v d db1 db2)
  note facts = landing_fence_facts [OF inv 2(1)]
  have none: "find_push db (lg_project guard) i = None" by (rule load_operation_NotFound [OF 2(3)])
  obtain row where db1: "db1 = db\<lparr>db_pushes := db_pushes db @ [row]\<rparr>" "landing_inv db1" "\<not> push_unresolved row"
    by (rule save_operation_new [OF inv 2(5)]) (use 2(4) none in \<open>simp_all add: prepared_operation_def frozen_request_def\<close>)
  have "landing_inv db2"
  proof (rule save_landing_inv [OF db1(2) 2(6)])
    fix o'
    assume o': "o' \<in> set (db_pushes db1)" "push_unresolved o'" "pu_project o' = ld_project (v\<lparr>ld_operation := Some i, ld_updated_at := now\<rparr>)"
      "pu_claim o' = ld_id (v\<lparr>ld_operation := Some i, ld_updated_at := now\<rparr>)"
    with db1 have old: "o' \<in> set (db_pushes db)" by auto
    from facts(5) [OF old o'(2)] o'(3,4) facts(2,3) have "ld_operation v = Some (pu_id o')" by (simp add: names_push_def)
    with 2(2) have "push_key o' = (lg_project guard, i)" using o'(3) facts(2) by (simp add: push_key_def)
    with old find_push_None [OF none] have False by force
    then show "names_push (ld_holder (v\<lparr>ld_operation := Some i, ld_updated_at := now\<rparr>)) (ld_generation (v\<lparr>ld_operation := Some i, ld_updated_at := now\<rparr>))
        (ld_operation (v\<lparr>ld_operation := Some i, ld_updated_at := now\<rparr>)) o'" ..
  qed (use facts(4) db1(1) in simp)
  with claim_event_inv(1) [OF 2(7)] show ?thesis by simp
qed (use inv in simp)

lemma save_operation_old:
  assumes inv: "landing_inv db" and save: "save_operation canon operation db = Inr db'"
    and row: "row \<in> set (db_pushes db)" "pu_project row = pr_project (po_request operation)" "pu_id row = po_id operation"
      "pu_claim row = pr_claim (po_request operation)"
    and pins: "\<And>x. po_phase operation \<in> {Pushing, PushUnknown} \<Longrightarrow> pu_id x = po_id operation \<Longrightarrow> pu_project x = pr_project (po_request operation) \<Longrightarrow>
      pu_claim x = pr_claim (po_request operation) \<Longrightarrow> decode_blob (pu_record x) = Inr operation \<Longrightarrow> pinned (db_landings db) x"
  shows "landing_inv db'"
proof -
  from save obtain b where b: "encode_record canon operation = Inr b" by (auto simp: save_operation_def)
  then have d: "decode_blob b = Inr operation" by (auto simp: encode_record_def split: sum.splits if_splits)
  let ?new = "\<lambda>row. if pu_project row = pr_project (po_request operation) \<and> pu_id row = po_id operation
             then row\<lparr>pu_phase := po_phase operation, pu_record := b\<rparr> else row"
  from row have "list_ex (\<lambda>row. pu_project row = pr_project (po_request operation) \<and> pu_id row = po_id operation) (db_pushes db)"
    by (auto simp: list_ex_iff)
  with save b have db': "db' = db\<lparr>db_pushes := map ?new (db_pushes db)\<rparr>" by (simp add: save_operation_def save_push_def cong: if_cong)
  from inv have dist: "distinct (map push_key (db_pushes db))" by (simp add: landing_inv_def)
  have keys: "map push_key (map ?new (db_pushes db)) = map push_key (db_pushes db)" by (simp add: push_key_def)
  have same: "x = row" if "x \<in> set (db_pushes db)" "pu_project x = pr_project (po_request operation)" "pu_id x = po_id operation" for x
    using inj_onD [of push_key "set (db_pushes db)" x row] dist that row by (simp add: distinct_map push_key_def [of x] push_key_def [of row])
  have "push_sound y \<and> (push_unresolved y \<longrightarrow> pinned (db_landings db) y)" if y: "y \<in> set (map ?new (db_pushes db))" for y
  proof -
    from y obtain x where x: "x \<in> set (db_pushes db)" "y = ?new x" by auto
    show ?thesis
    proof (cases "pu_project x = pr_project (po_request operation) \<and> pu_id x = po_id operation")
      case True
      with same [OF x(1)] have "x = row" by simp
      with x(2) row have "y = row\<lparr>pu_phase := po_phase operation, pu_record := b\<rparr>" by simp
      with d row pins [of y] show ?thesis by (simp add: push_sound_def push_unresolved_def)
    next
      case False
      with x(2) have "y = x" by auto
      with inv x(1) show ?thesis by (simp add: landing_inv_def)
    qed
  qed
  with inv keys dist show ?thesis unfolding landing_inv_def db' by (simp del: set_map map_map)
qed

lemma change_push_cases:
  assumes "change_push_tx locks push_canon ev req guard fence i action db = Inr (operation', db')"
  obtains now v operation phase db1 where
      "landing_fence locks guard fence (if action = BeginPush then Some now else None) db = Inr v"
      "load_operation db (lg_project guard) i = Inr operation" "ld_operation v = Some i" "pr_claim (po_request operation) = cf_id fence"
      "pr_generation (po_request operation) = cf_generation fence" "pr_actor (po_request operation) = cf_actor fence"
      "push_transition (po_request operation) (po_phase operation) action = Inr phase"
      "operation' = operation\<lparr>po_observed_remote := observed_after operation action, po_phase := phase, po_updated_at := now\<rparr>"
      "save_operation push_canon operation' db = Inr db1"
      "claim_event ev (lg_project guard) fence PushChanged (push_phase_sql phase) now db1 = Inr db'"
proof -
  from assms obtain now v operation where o': "wall_now req = Inr now" "landing_fence locks guard fence (if action = BeginPush then Some now else None) db = Inr v"
      "load_operation db (lg_project guard) i = Inr operation"
    unfolding change_push_tx_def by auto
  with assms have g: "ld_operation v = Some i \<and> pr_claim (po_request operation) = cf_id fence \<and>
      pr_generation (po_request operation) = cf_generation fence \<and> pr_actor (po_request operation) = cf_actor fence"
    unfolding change_push_tx_def Let_def by (auto split: if_splits)
  with assms o' obtain phase db1 where "push_transition (po_request operation) (po_phase operation) action = Inr phase"
      "operation' = operation\<lparr>po_observed_remote := observed_after operation action, po_phase := phase, po_updated_at := now\<rparr>"
      "save_operation push_canon operation' db = Inr db1"
      "claim_event ev (lg_project guard) fence PushChanged (push_phase_sql phase) now db1 = Inr db'"
    unfolding change_push_tx_def Let_def by (auto simp del: push_transition.simps observed_after.simps)
  with o' g that show thesis by blast
qed

lemma load_operation_row:
  assumes "landing_inv db" and "load_operation db project i = Inr operation"
  obtains row where "row \<in> set (db_pushes db)" "pu_project row = project" "pu_id row = i" "pu_claim row = pr_claim (po_request operation)"
    "pr_project (po_request operation) = project" "po_id operation = i" "pu_phase row = po_phase operation"
proof -
  from assms(2) obtain row where row: "find_push db project i = Some row" "decode_blob (pu_record row) = Inr operation"
    "pr_project (po_request operation) = project" "po_id operation = i"
    by (auto simp: load_operation_def split: if_splits)
  from find_push_Some [OF row(1)] have k: "row \<in> set (db_pushes db)" "pu_project row = project" "pu_id row = i" by (auto simp: push_key_def)
  with assms(1) row(2) have "pu_claim row = pr_claim (po_request operation)" "pu_phase row = po_phase operation"
    by (auto simp: landing_inv_def push_sound_def)
  with k row that show thesis by blast
qed

lemma change_push_inv:
  assumes "change_push_tx locks push_canon ev req guard fence i action db = Inr (operation', db')" and inv: "landing_inv db"
  shows "landing_inv db'"
  using assms(1)
proof (cases rule: change_push_cases)
  case (1 now v operation phase db1)
  from inv 1(2) obtain row where row: "row \<in> set (db_pushes db)" "pu_project row = lg_project guard" "pu_id row = i"
    "pu_claim row = pr_claim (po_request operation)" "pr_project (po_request operation) = lg_project guard" "po_id operation = i"
    by (rule load_operation_row)
  from 1(1) obtain l where l: "l \<in> set (db_landings db)" "cw_project l = lg_project guard" "cw_id l = cf_id fence" "decode_blob (cw_record l) = Inr v"
    "cw_holder l = Some (cf_actor fence)" "cw_generation l = cf_generation fence" by (rule landing_fence_row)
  have "landing_inv db1"
  proof (rule save_operation_old [OF inv 1(9) row(1)])
    fix x :: push_row
    assume "pu_id x = po_id operation'" "pu_project x = pr_project (po_request operation')" "pu_claim x = pr_claim (po_request operation')"
      "decode_blob (pu_record x) = Inr operation'"
    with 1(3-6,8) row(5,6) l show "pinned (db_landings db) x"
      unfolding pinned_def names_push_def by (intro bexI [of _ l] exI [of _ v]) simp_all
  qed (use row 1(8) in simp_all)
  with claim_event_inv(1) [OF 1(10)] show ?thesis by simp
qed

subsection \<open>Frames\<close>

text \<open>What the operations on landings keep of the work claims, and those on work claims of the landings.\<close>

definition counters_grow :: "'z claim_db_scheme \<Rightarrow> 'z claim_db_scheme \<Rightarrow> bool" where
  "counters_grow db db' \<longleftrightarrow> counter_key ` set (db_counters db) \<subseteq> counter_key ` set (db_counters db')"

definition landing_frame :: "'z claim_db_scheme \<Rightarrow> 'z claim_db_scheme \<Rightarrow> bool" where
  "landing_frame db db' \<longleftrightarrow> counters_grow db db' \<and> db_work db' = db_work db \<and> db_claim_paths db' = db_claim_paths db"

definition claims_frame :: "'z claim_db_scheme \<Rightarrow> 'z claim_db_scheme \<Rightarrow> bool" where
  "claims_frame db db' \<longleftrightarrow> counters_grow db db' \<and> db_pushes db' = db_pushes db \<and> (\<exists>P. db_landings db' = filter P (db_landings db)
     \<and> (\<forall>l \<in> set (db_landings db). list_ex (\<lambda>o'. pu_project o' = cw_project l \<and> pu_claim o' = cw_id l) (db_pushes db) \<longrightarrow> P l))"

lemma landing_frame_refl: "landing_frame db db"
  by (simp add: landing_frame_def counters_grow_def)

lemma landing_frame_trans: "landing_frame a b \<Longrightarrow> landing_frame b c \<Longrightarrow> landing_frame a c"
  by (auto simp: landing_frame_def counters_grow_def)

lemma save_claim_grows: "save_claim kind w bytes rows ns = Inr (rows', ns') \<Longrightarrow> counter_key ` set ns \<subseteq> counter_key ` set ns'"
  by (auto simp: save_claim_def save_counter_keys split: if_splits)

lemma work_inv_frame:
  assumes "work_inv digest clock db" and "landing_frame db db'" and "counters_ok (db_counters db')"
  shows "work_inv digest clock db'"
  using assms unfolding work_inv_def landing_frame_def counters_grow_def has_counter_def by auto

lemma landing_inv_frame:
  assumes inv: "landing_inv db" and "claims_frame db db'" and ok: "counters_ok (db_counters db')"
  shows "landing_inv db'"
proof -
  from assms(2) obtain P where rows: "db_landings db' = filter P (db_landings db)" and push: "db_pushes db' = db_pushes db"
    and kept: "\<And>l. l \<in> set (db_landings db) \<Longrightarrow> list_ex (\<lambda>o'. pu_project o' = cw_project l \<and> pu_claim o' = cw_id l) (db_pushes db) \<Longrightarrow> P l"
    and grow: "counters_grow db db'"
    unfolding claims_frame_def by blast
  from inv have "landings_ok (db_counters db) (db_landings db)" by (simp add: landing_inv_def)
  with ok grow have lok: "landings_ok (db_counters db') (db_landings db')"
    unfolding landings_ok_def rows_ok_def has_counter_def counters_grow_def rows by (auto simp: distinct_map_filter)
  have "pinned (db_landings db') o'" if o': "o' \<in> set (db_pushes db)" "pinned (db_landings db) o'" for o'
  proof -
    from o'(2) obtain l v where l: "l \<in> set (db_landings db)" "cw_project l = pu_project o'" "cw_id l = pu_claim o'"
      "decode_blob (cw_record l) = Inr v" "names_push (cw_holder l) (cw_generation l) (ld_operation v) o'" unfolding pinned_def by blast
    with o'(1) have "P l" by (intro kept) (auto simp: list_ex_iff)
    with l rows show ?thesis unfolding pinned_def by auto
  qed
  with inv lok show ?thesis unfolding landing_inv_def push by blast
qed

lemma save_landing_frame:
  assumes "save_landing canon v token db = Inr db'"
  shows "landing_frame db db'"
proof -
  from assms obtain w rows ns where "save_claim LandingKind w (encode_record canon v) (db_landings db) (db_counters db) = Inr (rows, ns)"
    and "db' = db\<lparr>db_landings := rows, db_counters := ns\<rparr>" by (auto simp: save_landing_def)
  with save_claim_grows [OF this(1)] show ?thesis by (simp add: landing_frame_def counters_grow_def)
qed

lemma save_operation_frame: "save_operation canon operation db = Inr db' \<Longrightarrow> landing_frame db db'"
  by (auto simp: save_operation_def landing_frame_def counters_grow_def)

lemma claim_event_frame: "claim_event ev project fence kind detail now db = Inr db' \<Longrightarrow> landing_frame db db'"
  using claim_event_tables [of ev project fence kind detail now db db'] by (simp add: landing_frame_def counters_grow_def)

lemma grant_landing_frame: "grant_landing canon ev claim now expires previous db = Inr (f, db') \<Longrightarrow> landing_frame db db'"
  by (auto simp: grant_landing_def Let_def intro: landing_frame_trans [OF save_landing_frame claim_event_frame])

lemma acquire_landing_frame: "acquire_landing_tx jiff canon ev req claim db = Inr (f, db') \<Longrightarrow> landing_frame db db'"
  by (elim acquire_landing_cases) (auto intro: grant_landing_frame landing_frame_refl)

lemma change_landing_frame: "change_landing_tx jiff locks canon ev req guard fence lease db = Inr (u, db') \<Longrightarrow> landing_frame db db'"
  unfolding change_landing_tx_def Let_def
  by (auto split: option.splits if_splits intro: landing_frame_trans [OF save_landing_frame claim_event_frame])

lemma prepare_push_frame:
  "prepare_push_tx locks canon push_canon digest ev req guard fence i remote db = Inr (operation, db') \<Longrightarrow> landing_frame db db'"
  by (elim prepare_push_cases)
    (auto intro: landing_frame_refl landing_frame_trans [OF save_operation_frame landing_frame_trans [OF save_landing_frame claim_event_frame]])

lemma change_push_frame: "change_push_tx locks push_canon ev req guard fence i action db = Inr (operation, db') \<Longrightarrow> landing_frame db db'"
  by (elim change_push_cases) (blast intro: landing_frame_trans [OF save_operation_frame claim_event_frame])

lemma claims_frame_same:
  assumes "counters_grow db db'" and "db_pushes db' = db_pushes db" and "db_landings db' = db_landings db"
  shows "claims_frame db db'"
  unfolding claims_frame_def using assms by (intro conjI exI [of _ "\<lambda>_. True"]) simp_all

lemma claims_frame_refl: "claims_frame db db"
  by (simp add: claims_frame_same counters_grow_def)

lemma prune_released_frame:
  assumes "claims_frame (prune_released project db) db'"
  shows "claims_frame db db'"
proof -
  let ?db = "prune_released project db"
  define ids where "ids = take 100 (sort (prunable db project (db_work db) @ prunable db project (db_landings db)))"
  let ?P = "\<lambda>row. \<not> (cw_project row = project \<and> cw_id row \<in> set ids)"
  have db: "db_landings ?db = filter ?P (db_landings db)" "db_pushes ?db = db_pushes db" "db_counters ?db = db_counters db"
    unfolding prune_released_def ids_def Let_def by simp_all
  have ids: "\<not> list_ex (\<lambda>o'. pu_project o' = project \<and> pu_claim o' = i) (db_pushes db)" if "i \<in> set ids" for i
  proof -
    from that have "i \<in> set (prunable db project (db_work db)) \<or> i \<in> set (prunable db project (db_landings db))"
      unfolding ids_def by (auto dest: in_set_takeD)
    then show ?thesis by (auto simp: prunable_def list_ex_iff)
  qed
  from assms obtain Q where Q: "counters_grow ?db db'" "db_pushes db' = db_pushes ?db" "db_landings db' = filter Q (db_landings ?db)"
    "\<forall>l \<in> set (db_landings ?db). list_ex (\<lambda>o'. pu_project o' = cw_project l \<and> pu_claim o' = cw_id l) (db_pushes ?db) \<longrightarrow> Q l"
    unfolding claims_frame_def by blast
  show ?thesis
    unfolding claims_frame_def
  proof (intro conjI exI [of _ "\<lambda>l. ?P l \<and> Q l"] ballI impI)
    show "counters_grow db db'" using Q(1) unfolding counters_grow_def db .
    show "db_pushes db' = db_pushes db" using Q(2) unfolding db .
    show "db_landings db' = filter (\<lambda>l. ?P l \<and> Q l) (db_landings db)" using Q(3) unfolding db by (simp add: conj_commute)
    fix l
    assume l: "l \<in> set (db_landings db)" "list_ex (\<lambda>o'. pu_project o' = cw_project l \<and> pu_claim o' = cw_id l) (db_pushes db)"
    show "?P l" using ids [of "cw_id l"] l(2) by blast
    with l Q(4) show "Q l" unfolding db by simp
  qed
qed

lemma saved_claims_frame:
  assumes "save_claim kind w bytes (db_work db) (db_counters db) = Inr (rows, ns)"
    and "claim_event ev project fence event detail now (db\<lparr>db_work := rows, db_counters := ns, db_claim_paths := ps\<rparr>) = Inr db'"
  shows "claims_frame db db'"
  by (rule claims_frame_same)
    (use save_claim_grows [OF assms(1)] claim_event_tables [OF assms(2)] in \<open>simp_all add: counters_grow_def\<close>)

lemma grant_claim_frame: "grant_claim canon ev claim scope key now expires previous db = Inr (f, db') \<Longrightarrow> claims_frame db db'"
  by (auto simp: grant_claim_def Let_def intro: saved_claims_frame)

lemma acquire_claim_frame:
  assumes "acquire_claim_tx jiff canon ev req claim scope key db = Inr (f, db')"
  shows "claims_frame db db'"
proof -
  from assms consider "db' = db"
    | now expires previous where "grant_claim canon ev claim scope key now expires previous (prune_released (cq_project claim) db) = Inr (f, db')"
    by (auto simp: acquire_claim_tx_def Let_def split: option.splits if_splits)
  then show ?thesis
    by cases (auto intro: claims_frame_refl prune_released_frame grant_claim_frame)
qed

lemma change_claim_frame:
  assumes "change_claim_tx jiff digest canon ev req project fence lease db = Inr (v, db')"
  shows "claims_frame db db'"
proof -
  from assms obtain w r rows ns event detail now where
    "save_claim WorkKind w (encode_record canon r) (db_work db) (db_counters db) = Inr (rows, ns)"
    "claim_event ev project fence event detail now (db\<lparr>db_work := rows, db_counters := ns\<rparr>) = Inr db'"
    by (auto simp: change_claim_tx_def Let_def)
  note saved = this
  show ?thesis
    by (rule claims_frame_same)
      (use save_claim_grows [OF saved(1)] claim_event_tables [OF saved(2)] in \<open>simp_all add: counters_grow_def\<close>)
qed

subsection \<open>Runs\<close>

datatype landing_op =
    WorkOp claim_op
  | AcquireLanding landing_guard landing_request
  | RenewLanding landing_guard claim_fence duration_micros
  | ReleaseLanding landing_guard claim_fence
  | PreparePush landing_guard claim_fence string string
  | ChangePush landing_guard claim_fence string push_action

definition outcome :: "wall_time \<Rightarrow> (fabric_error + 'a) \<times> 'd \<Rightarrow> (wall_time \<times> 'd) \<times> bool list" where
  "outcome now r = ((now, snd r), [is_ok (fst r)])"

fun landing_step ::
  "(i64 \<Rightarrow> bool) \<Rightarrow> (string \<Rightarrow> io_cause + string) \<Rightarrow> scope_digest \<Rightarrow> claim_canon \<Rightarrow> landing_canon \<Rightarrow> push_canon \<Rightarrow> push_digest \<Rightarrow> event_canon
   \<Rightarrow> wall_time \<times> 'z claim_db_scheme \<Rightarrow> nat \<times> store_request \<times> lock_directory \<times> landing_op
   \<Rightarrow> (wall_time \<times> 'z claim_db_scheme) \<times> bool list" where
  "landing_step jiff realpath digest canon lcanon pcanon pdigest ev (clock, db) (gap, req, locks, op) =
     (let now = clock + int gap; req' = req\<lparr>sq_now := Inr now\<rparr> in
      case op of
        WorkOp op \<Rightarrow> (case claim_step jiff realpath digest canon ev (clock, db) (gap, req, op) of (s, rs) \<Rightarrow> (s, map is_ok rs))
      | AcquireLanding guard claim \<Rightarrow> outcome now (acquire_landing jiff locks lcanon ev req' guard claim db)
      | RenewLanding guard fence lease \<Rightarrow> outcome now (renew_landing jiff locks lcanon ev req' guard fence lease db)
      | ReleaseLanding guard fence \<Rightarrow> outcome now (release_landing jiff locks lcanon ev req' guard fence db)
      | PreparePush guard fence i remote \<Rightarrow> outcome now (prepare_push locks lcanon pcanon pdigest ev req' guard fence i remote db)
      | ChangePush guard fence i action \<Rightarrow> outcome now (change_push locks pcanon ev req' guard fence i action db))"

definition store_inv :: "scope_digest \<Rightarrow> wall_time \<times> 'z claim_db_scheme \<Rightarrow> bool" where
  "store_inv digest s \<longleftrightarrow> work_inv digest (fst s) (snd s) \<and> landing_inv (snd s)"

lemma landing_write_inv:
  assumes "store_inv digest (clock, db)" and "clock \<le> now"
    and "\<And>v db'. action db = Inr (v, db') \<Longrightarrow> landing_inv db \<Longrightarrow> landing_inv db'"
    and "\<And>v db'. action db = Inr (v, db') \<Longrightarrow> landing_frame db db'"
  shows "store_inv digest (now, snd (store_write req action db))"
proof (rule store_write_keeps [where P = "\<lambda>db. store_inv digest (now, db)"])
  from assms(1,2) show inv: "store_inv digest (now, db)" unfolding store_inv_def by (auto intro: work_inv_later)
  fix v db'
  assume a: "action db = Inr (v, db')"
  with inv assms(3) have l: "landing_inv db'" by (auto simp: store_inv_def)
  moreover have "work_inv digest now db'"
    by (rule work_inv_frame [OF _ assms(4) [OF a]]) (use inv l in \<open>simp_all add: store_inv_def landing_inv_def landings_ok_def\<close>)
  ultimately show "store_inv digest (now, db')" by (simp add: store_inv_def)
qed

text \<open>An operation on work claims commits nothing, or a transaction with the frame above.\<close>

lemma claim_step_frame: "claims_frame db (snd (fst (claim_step jiff realpath digest canon ev (clock, db) (gap, req, op))))"
proof -
  have written: "claims_frame db (snd (store_write r action db))" if "\<And>v db'. action db = Inr (v, db') \<Longrightarrow> claims_frame db db'"
    for r and action :: "'a claim_db_scheme \<Rightarrow> fabric_error + unit \<times> 'a claim_db_scheme"
    by (rule store_write_keeps [where P = "claims_frame db", OF claims_frame_refl that])
  have "claims_frame db (snd (acquire_claim jiff realpath digest canon ev r claim db))" for r claim
    unfolding acquire_claim_def
    by (auto split: sum.splits intro: claims_frame_refl acquire_claim_frame
        intro!: store_write_keeps [where P = "claims_frame db"])
  moreover have "claims_frame db (snd (renew_claim jiff digest canon ev r project fence lease db))" for r project fence lease
    unfolding renew_claim_def by (rule written) (rule change_claim_frame)
  moreover have "claims_frame db (snd (release_claim jiff digest canon ev r project fence db))" for r project fence
    unfolding release_claim_def by (rule written) (rule change_claim_frame)
  ultimately show ?thesis by (cases op) (simp_all add: Let_def case_prod_beta)
qed

lemma landing_step_inv:
  assumes real: "realpath_ok realpath" and "store_inv digest s"
  shows "store_inv digest (fst (landing_step jiff realpath digest canon lcanon pcanon pdigest ev s e))"
proof -
  obtain clock db gap req locks op where s: "s = (clock, db)" and e: "e = (gap, req, locks, op)" by (cases s, cases e) auto
  let ?now = "clock + int gap" and ?req = "req\<lparr>sq_now := Inr (clock + int gap)\<rparr>"
  have inv: "store_inv digest (clock, db)" using assms(2) s by simp
  then have later: "store_inv digest (?now, db)" unfolding store_inv_def by (auto intro: work_inv_later)
  note tx = landing_write_inv [OF inv, of ?now, simplified]
  have "store_inv digest (?now, snd (store_write ?req (acquire_landing_tx jiff lcanon ev ?req claim) db))" for claim
    by (rule tx) (rule acquire_landing_inv, assumption, assumption, rule acquire_landing_frame)
  with later have acquire: "store_inv digest (?now, snd (acquire_landing jiff locks lcanon ev ?req guard claim db))" for guard claim
    unfolding acquire_landing_def by (cases "check_guard locks guard") simp_all
  have change: "store_inv digest (?now, snd (store_write ?req (change_landing_tx jiff locks lcanon ev ?req guard fence lease) db))" for guard fence lease
    by (rule tx) (rule change_landing_inv, assumption, assumption, rule change_landing_frame)
  have "store_inv digest (?now, snd (store_write ?req (prepare_push_tx locks lcanon pcanon pdigest ev ?req guard fence i remote) db))" for guard fence i remote
    by (rule tx) (rule prepare_push_inv, assumption, assumption, rule prepare_push_frame)
  with later have prepare: "store_inv digest (?now, snd (prepare_push locks lcanon pcanon pdigest ev ?req guard fence i remote db))" for guard fence i remote
    unfolding prepare_push_def by simp
  have push: "store_inv digest (?now, snd (change_push locks pcanon ev ?req guard fence i action db))" for guard fence i action
    unfolding change_push_def by (rule tx) (rule change_push_inv, assumption, assumption, rule change_push_frame)
  show ?thesis
  proof (cases op)
    case (WorkOp op')
    let ?s = "fst (claim_step jiff realpath digest canon ev (clock, db) (gap, req, op'))"
    have w: "work_inv digest (fst ?s) (snd ?s)"
      using claim_step_inv [OF real, where s = "(clock, db)" and digest = digest and jiff = jiff and canon = canon and ev = ev and e = "(gap, req, op')"] inv by (simp add: store_inv_def case_prod_beta)
    moreover have "landing_inv (snd ?s)"
      by (rule landing_inv_frame [OF _ claim_step_frame]) (use inv w in \<open>simp_all add: store_inv_def work_inv_def\<close>)
    ultimately have "store_inv digest ?s" by (simp add: store_inv_def)
    with s e WorkOp show ?thesis by (simp add: Let_def case_prod_beta del: claim_step.simps)
  next
    case (AcquireLanding guard claim)
    with s e acquire show ?thesis by (simp add: Let_def outcome_def)
  next
    case (RenewLanding guard fence lease)
    with s e change show ?thesis by (simp add: Let_def outcome_def renew_landing_def)
  next
    case (ReleaseLanding guard fence)
    with s e change show ?thesis by (simp add: Let_def outcome_def release_landing_def)
  next
    case (PreparePush guard fence i remote)
    with s e prepare show ?thesis by (simp add: Let_def outcome_def)
  next
    case (ChangePush guard fence i action)
    with s e push show ?thesis by (simp add: Let_def outcome_def)
  qed
qed

interpretation landings: invariant_machine "landing_step jiff realpath digest canon lcanon pcanon pdigest ev"
  "\<lambda>s. realpath_ok realpath \<and> store_inv digest (s :: wall_time \<times> 'z claim_db_scheme)"
  for jiff realpath digest canon lcanon pcanon pdigest ev
  by unfold_locales (simp add: landing_step_inv)

lemma find_claim_row:
  assumes "landings_ok ns rows" and "l \<in> set rows"
  shows "find_claim rows (cw_project l) (cw_id l) = Some l"
proof (cases "find_claim rows (cw_project l) (cw_id l)")
  case None
  with assms(2) show ?thesis by (auto simp: find_claim_def find_None_iff)
next
  case (Some r)
  from assms(1) have "rows_ok LandingKind ns rows" by (simp add: landings_ok_def)
  from rows_unique [OF this _ assms(2), of r] find_claim_Some [OF Some] Some show ?thesis by (simp add: claim_key_def)
qed

lemma pinned_find:
  assumes "landing_inv db" and "o' \<in> set (db_pushes db)" and "push_unresolved o'"
  obtains l v operation where "find_claim (db_landings db) (pu_project o') (pu_claim o') = Some l" "decode_blob (cw_record l) = Inr v"
    "decode_blob (pu_record o') = Inr operation" "ld_operation v = Some (pu_id o')"
    "cw_holder l = Some (pr_actor (po_request operation))" "cw_generation l = pr_generation (po_request operation)"
proof -
  from assms have lok: "landings_ok (db_counters db) (db_landings db)" and "pinned (db_landings db) o'" by (simp_all add: landing_inv_def)
  then obtain l v where l: "l \<in> set (db_landings db)" "cw_project l = pu_project o'" "cw_id l = pu_claim o'" "decode_blob (cw_record l) = Inr v"
    "names_push (cw_holder l) (cw_generation l) (ld_operation v) o'" unfolding pinned_def by blast
  with find_claim_row [OF lok l(1)] that show thesis unfolding names_push_def by auto
qed

lemma unresolved_unique:
  assumes inv: "landing_inv db" and o': "o' \<in> set (db_pushes db)" "push_unresolved o'" and x: "x \<in> set (db_pushes db)" "push_unresolved x"
    and same: "pu_project x = pu_project o'" "pu_claim x = pu_claim o'"
  shows "x = o'"
proof -
  from inv o' obtain l v operation where l: "find_claim (db_landings db) (pu_project o') (pu_claim o') = Some l" "decode_blob (cw_record l) = Inr v"
    "decode_blob (pu_record o') = Inr operation" "ld_operation v = Some (pu_id o')" by (rule pinned_find)
  from inv x obtain k u operation where k: "find_claim (db_landings db) (pu_project x) (pu_claim x) = Some k" "decode_blob (cw_record k) = Inr u"
    "decode_blob (pu_record x) = Inr operation" "ld_operation u = Some (pu_id x)" by (rule pinned_find)
  from l k same have "push_key x = push_key o'" by (simp add: push_key_def)
  moreover have "inj_on push_key (set (db_pushes db))" using inv by (simp add: landing_inv_def distinct_map)
  ultimately show ?thesis using x(1) o'(1) by (auto dest: inj_onD)
qed

lemma pinned_not_released:
  assumes "o' \<in> set (db_pushes db)" and "push_unresolved o'" and "lg_project guard = pu_project o'" and "cf_id fence = pu_claim o'"
  shows "\<not> is_ok (fst (release_landing jiff locks canon ev req guard fence db))"
proof -
  from unresolved_Some [OF assms(1,2)] assms(3,4) obtain i where "unresolved db (lg_project guard) (cf_id fence) = Some i" by auto
  then have "change_landing_tx jiff locks canon ev req guard fence None db \<noteq> Inr r" for r
    by (auto simp: change_landing_tx_def)
  then show ?thesis
    using store_write_Inr [of req "change_landing_tx jiff locks canon ev req guard fence None" db]
    by (cases "release_landing jiff locks canon ev req guard fence db"; cases "fst (release_landing jiff locks canon ev req guard fence db)")
      (simp_all add: release_landing_def is_ok_def)
qed

lemma pinned_not_taken:
  assumes inv: "landing_inv db" and o': "o' \<in> set (db_pushes db)" "push_unresolved o'"
    and acquire: "acquire_landing jiff locks canon ev req guard claim db = (Inr f, db')"
    and claim: "lq_project claim = pu_project o'" "cf_id f = pu_claim o'"
  shows "db' = db \<and> (\<exists>operation. decode_blob (pu_record o') = Inr operation \<and> cf_actor f = pr_actor (po_request operation))"
proof -
  from acquire have "store_write req (acquire_landing_tx jiff canon ev req claim) db = (Inr f, db')"
    by (simp add: acquire_landing_def split: sum.splits if_splits)
  from store_write_Inr [OF this] show ?thesis
  proof (cases rule: acquire_landing_cases)
    case (1 now expires)
    have "cf_id f = lq_id claim" using 1(2) by (auto simp: grant_landing_def Let_def landing_fence_for_def)
    with claim(2) have "pu_claim o' = lq_id claim" by simp
    then have "\<not> push_unresolved o'"
      by (intro new_landing_free [OF 1(2) inv _ o'(1) claim(1) [symmetric]]) (erule (2) by_scope_None [OF 1(1)])
    with o'(2) show ?thesis by simp
  next
    case (2 row now)
    from inv o' obtain l v operation where l: "find_claim (db_landings db) (pu_project o') (pu_claim o') = Some l"
      "decode_blob (pu_record o') = Inr operation" "cw_holder l = Some (pr_actor (po_request operation))" by (rule pinned_find)
    have "sc_id row = pu_claim o'" using 2(6) claim(2) by (simp add: landing_fence_for_def)
    with 2(1) l(1) claim(1) have "sc_holder row = cw_holder l" by (auto simp: by_scope_def Let_def)
    with 2(3,6,7) l(2,3) show ?thesis by (simp add: landing_fence_for_def)
  next
    case (3 row now expires)
    have "cf_id f = sc_id row" using 3(3) by (auto simp: grant_landing_def Let_def landing_fence_for_def)
    with unresolved_None [OF 3(2) o'(1)] o'(2) claim show ?thesis by simp
  qed
qed

lemma landing_inv_empty: "db_counters db = [] \<Longrightarrow> db_landings db = [] \<Longrightarrow> db_pushes db = [] \<Longrightarrow> landing_inv db"
  by (simp add: landing_inv_def landings_ok_def rows_ok_def counters_ok_def)

subsection \<open>Example\<close>

definition example_guard :: landing_guard where
  "example_guard = \<lparr>lg_project = ''p'', lg_reference = ''refs/heads/m'', lg_directory = (1, 2)\<rparr>"

definition example_landing_fence :: claim_fence where
  "example_landing_fence = \<lparr>cf_extra = [], cf_id = ''i'', cf_actor = ''a'', cf_generation = 1, cf_token = ''t''\<rparr>"

definition example_landing_op :: "landing_op \<Rightarrow> nat \<times> store_request \<times> lock_directory \<times> landing_op" where
  "example_landing_op op = (1, \<lparr>sq_cancelled = False, sq_now = Inr 0, sq_begin = None, sq_commit = None\<rparr>, Some (Inr (1, 2)), op)"

definition example_landing_run :: "(wall_time \<times> claim_db) \<times> bool list" where
  "example_landing_run = run_machine
     (landing_step (\<lambda>_. True) example_realpath (\<lambda>s. Inr (concat (scope_paths s))) (\<lambda>_. Inr 10) (\<lambda>_. Inr 10) (\<lambda>_. Inr 10) (\<lambda>_. Inr ''d'') (\<lambda>_. Inr 10))
     (0, example_claims_db)
     [example_landing_op (AcquireLanding example_guard \<lparr>lq_extra = [], lq_id = ''i'', lq_project = ''p'', lq_actor = ''a'', lq_token = ''t'',
        lq_reference = ''refs/heads/m'', lq_expected = Sha1 ''x'', lq_candidate = Sha1 ''y'', lq_lease = 1000000\<rparr>),
      example_landing_op (PreparePush example_guard example_landing_fence ''o'' ''r''),
      example_landing_op (ChangePush example_guard example_landing_fence ''o'' BeginPush)]"

definition example_push :: push_row where
  "example_push = \<lparr>pu_project = ''p'', pu_id = ''o'', pu_claim = ''i'', pu_phase = Pushing, pu_record = Blob 10
     \<lparr>po_extra = [], po_header = 1, po_id = ''o'', po_digest = ''d'', po_request =
        \<lparr>pr_extra = [], pr_header = 1, pr_project = ''p'', pr_claim = ''i'', pr_actor = ''a'', pr_generation = 1, pr_reference = ''refs/heads/m'',
         pr_expected = Sha1 ''x'', pr_candidate = Sha1 ''y'', pr_remote = ''r''\<rparr>,
      po_phase = Pushing, po_observed_remote = None, po_updated_at = 3\<rparr>\<rparr>"

lemmas example_landings = example_landing_run_def example_landing_op_def example_guard_def example_landing_fence_def example_push_def
  outcome_def acquire_landing_def acquire_landing_tx_def grant_landing_def landing_fence_for_def landing_extra_def check_guard_def
  lock_metadata_def save_landing_def prepare_push_def prepare_push_tx_def remote_ok_def landing_fence_def by_fence_def
  load_operation_def find_push_def frozen_request_def prepared_operation_def save_operation_def save_push_def change_push_def
  change_push_tx_def

lemma example_landing_outcome:
  "snd example_landing_run = [True, True, True] \<and> fst (fst example_landing_run) = 3 \<and> db_pushes (snd (fst example_landing_run)) = [example_push]"
  by (simp add: example_landings example_claims run_machine_Cons is_none_or_iff del: run_machine.simps(2))

text \<open>
  C10: An unresolved push pins its landing. After every run of operations on the work claims and
  landings of a fresh store, by any actors and at times that do not go back, a push that is under
  way or whose outcome is unknown is named by the landing it was made under, which is still held by
  the push's actor in the push's generation; no other push of that landing is unresolved; the landing
  cannot be released; and nobody but that actor can acquire it, even after the lease has ended, while
  a repeated acquisition by that actor changes nothing.
\<close>

theorem unresolved_push_pins_landing:
  assumes "realpath_ok realpath" and "db_counters db = []" and "db_work db = []" and "db_landings db = []" and "db_pushes db = []"
    and run: "fst (run_machine (landing_step jiff realpath digest canon lcanon pcanon pdigest ev) (clock, db) ops) = (now, db')"
    and o': "o' \<in> set (db_pushes db')" "pu_phase o' \<in> {Pushing, PushUnknown}"
  shows "(\<exists>l v operation. find_claim (db_landings db') (pu_project o') (pu_claim o') = Some l
        \<and> decode_blob (cw_record l) = Inr v \<and> decode_blob (pu_record o') = Inr operation \<and> ld_operation v = Some (pu_id o')
        \<and> cw_holder l = Some (pr_actor (po_request operation)) \<and> cw_generation l = pr_generation (po_request operation)) \<and>
    (\<forall>x \<in> set (db_pushes db'). pu_phase x \<in> {Pushing, PushUnknown} \<longrightarrow> pu_project x = pu_project o' \<longrightarrow> pu_claim x = pu_claim o' \<longrightarrow> x = o') \<and>
    (\<forall>locks req guard fence. lg_project guard = pu_project o' \<longrightarrow> cf_id fence = pu_claim o' \<longrightarrow>
        \<not> is_ok (fst (release_landing jiff locks lcanon ev req guard fence db'))) \<and>
    (\<forall>locks req guard claim f db''. acquire_landing jiff locks lcanon ev req guard claim db' = (Inr f, db'') \<longrightarrow>
        lq_project claim = pu_project o' \<longrightarrow> cf_id f = pu_claim o' \<longrightarrow>
        db'' = db' \<and> (\<exists>operation. decode_blob (pu_record o') = Inr operation \<and> cf_actor f = pr_actor (po_request operation)))"
proof -
  have u: "push_unresolved x \<longleftrightarrow> pu_phase x \<in> {Pushing, PushUnknown}" for x by (simp add: push_unresolved_def)
  have inv: "landing_inv db'"
    using landings.run_inv [where s = "(clock, db)" and es = ops and realpath = realpath and digest = digest and jiff = jiff and canon = canon
        and lcanon = lcanon and pcanon = pcanon and pdigest = pdigest and ev = ev]
      assms(1) work_inv_empty [OF assms(2,3)] landing_inv_empty [OF assms(2,4,5)] run by (simp add: store_inv_def)
  from o' have pu: "push_unresolved o'" by (simp add: push_unresolved_def)
  from inv o'(1) pu obtain l v operation where "find_claim (db_landings db') (pu_project o') (pu_claim o') = Some l" "decode_blob (cw_record l) = Inr v"
    "decode_blob (pu_record o') = Inr operation" "ld_operation v = Some (pu_id o')"
    "cw_holder l = Some (pr_actor (po_request operation))" "cw_generation l = pr_generation (po_request operation)" by (rule pinned_find)
  then show ?thesis
    using unresolved_unique [OF inv o'(1) pu] pinned_not_released [OF o'(1) pu] pinned_not_taken [OF inv o'(1) pu] unfolding u by blast
qed

theorem unresolved_push_pins_landing_witness:
  "db_pushes (snd (fst example_landing_run)) = [example_push]
   \<and> (\<exists>l v. find_claim (db_landings (snd (fst example_landing_run))) ''p'' ''i'' = Some l \<and> decode_blob (cw_record l) = Inr v
      \<and> ld_operation v = Some ''o'' \<and> cw_holder l = Some ''a'')"
proof -
  have run: "fst example_landing_run = (3, snd (fst example_landing_run))"
    using example_landing_outcome by (metis prod.collapse)
  show ?thesis
    using unresolved_push_pins_landing [OF example_realpath_ok _ _ _ _ run [unfolded example_landing_run_def], of example_push]
      example_landing_outcome
    unfolding example_landing_run_def [symmetric] by (auto simp: example_claims_db_def example_push_def)
qed

end
