(* ===== verification/Fabric_Mail.thy ===== *)
theory Fabric_Mail
  imports Fabric_Store
begin

section \<open>Mail (crate fabric-store)\<close>

text \<open>
  \<open>fabric-store/src/messages.rs\<close>: messages, their deliveries numbered per project, and the cursor of
  each recipient. What is shown of the mail is compared with the messages accepted so far.
\<close>

subsection \<open>Messages\<close>

datatype message_kind = MailNote | MailRequest | MailResponse

datatype message_ref = LocalMessage extra_fields id | RemoteMessage extra_fields id id

datatype task_ref = LocalTask extra_fields id | RemoteTask extra_fields id id

record artifact_ref =
  af_extra :: extra_fields
  af_path :: path_wire
  af_digest :: "digest option"

record message =
  ms_extra :: extra_fields
  ms_header :: nat
  ms_project :: id
  ms_id :: id
  ms_sender :: id
  ms_recipients :: "id list"
  ms_conversation :: "message_ref option"
  ms_kind :: message_kind
  ms_body :: string
  ms_artifacts :: "artifact_ref list"
  ms_reply_to :: "message_ref option"
  ms_task :: "task_ref option"
  ms_created_at :: wall_time

record mail_delivery =
  dv_extra :: extra_fields
  dv_seq :: nat
  dv_message :: message

record delivery_row =
  dl_project :: id
  dl_message :: id
  dl_recipient :: id
  dl_seq :: nat

record mail_db = fabric_db +
  db_messages :: "id \<times> id \<rightharpoonup> message blob"
  db_delivery_seqs :: "id \<rightharpoonup> nat"
  db_deliveries :: "delivery_row list"
  db_mail_cursors :: "id \<times> id \<rightharpoonup> nat"

type_synonym message_canon = "message \<Rightarrow> canonical_error + nat"

text \<open>One delivery for each recipient, with the next number of the project.\<close>

fun deliver_all :: "id \<Rightarrow> id \<Rightarrow> id list \<Rightarrow> nat \<Rightarrow> delivery_row list \<Rightarrow> fabric_error + nat \<times> delivery_row list" where
  "deliver_all project message [] seq rows = Inr (seq, rows)"
| "deliver_all project message (recipient # recipients) seq rows =
     (if seq < 9223372036854775807
      then deliver_all project message recipients (Suc seq)
        (rows @ [\<lparr>dl_project = project, dl_message = message, dl_recipient = recipient, dl_seq = Suc seq\<rparr>])
      else Inl (FE_Invalid ''delivery sequence exhausted''))"

definition insert_message ::
  "message_canon \<Rightarrow> event_canon \<Rightarrow> message \<Rightarrow> 'z mail_db_scheme \<Rightarrow> fabric_error + bool \<times> 'z mail_db_scheme" where
  "insert_message canon ev message db =
     res_bind (check_text (ms_body message) ''body'') (\<lambda>_.
     if ms_recipients message = [] \<or> 100 < length (ms_recipients message) \<or> \<not> distinct (ms_recipients message)
        \<or> 100 < length (ms_artifacts message)
     then Inl (FE_Invalid ''recipients or artifacts'')
     else if list_ex (\<lambda>artifact. \<not> is_ok (from_utf8 (pw_path (af_path artifact)))) (ms_artifacts message)
     then Inl (FE_Invalid ''artifact path encoding'')
     else res_bind (encode_record canon message) (\<lambda>bytes.
       case db_messages db (ms_project message, ms_id message) of
         Some previous \<Rightarrow> if previous \<noteq> bytes then Inl FE_Conflict else Inr (False, db)
       | None \<Rightarrow>
           res_bind (deliver_all (ms_project message) (ms_id message) (ms_recipients message)
               (unwrap_or 0 (db_delivery_seqs db (ms_project message))) (db_deliveries db)) (\<lambda>(seq, rows).
           res_bind (append_event ev (event_of (ms_project message) (Some (ms_sender message)) MailSent
               (Some (show_id (ms_id message))) ''sent'' (ms_created_at message)) None
               (db\<lparr>db_messages := (db_messages db)((ms_project message, ms_id message) \<mapsto> bytes),
                   db_delivery_seqs := (db_delivery_seqs db)(ms_project message \<mapsto> seq), db_deliveries := rows\<rparr>)) (\<lambda>(_, db').
           Inr (True, db')))))"

definition send ::
  "message_canon \<Rightarrow> event_canon \<Rightarrow> store_request \<Rightarrow> message \<Rightarrow> 'z mail_db_scheme \<Rightarrow> (fabric_error + unit) \<times> 'z mail_db_scheme" where
  "send canon ev req message db =
     store_write req (\<lambda>db. res_bind (insert_message canon ev message db) (\<lambda>(_, db'). Inr ((), db'))) db"

definition mail_cursor :: "store_request \<Rightarrow> id \<Rightarrow> id \<Rightarrow> 'z mail_db_scheme \<Rightarrow> fabric_error + nat" where
  "mail_cursor req project recipient db =
     res_bind (request_check req) (\<lambda>_. query_rows req (Inr (unwrap_or 0 (db_mail_cursors db (project, recipient)))))"

text \<open>The rows of the query: the deliveries after the cursor, joined with their messages.\<close>

definition mail_rows :: "id \<Rightarrow> id \<Rightarrow> int \<Rightarrow> 'z mail_db_scheme \<Rightarrow> (message blob \<times> nat \<times> id) list" where
  "mail_rows project recipient after db =
     List.map_filter (\<lambda>d. map_option (\<lambda>b. (b, dl_seq d, dl_message d)) (db_messages db (project, dl_message d)))
       (sort_key dl_seq (filter (\<lambda>d. dl_project d = project \<and> dl_recipient d = recipient \<and> after < int (dl_seq d)) (db_deliveries db)))"

definition mail_item :: "id \<Rightarrow> message blob \<times> nat \<times> id \<Rightarrow> fabric_error + mail_delivery" where
  "mail_item project row = (case row of (bytes, seq, i) \<Rightarrow>
     res_bind (decode_blob bytes) (\<lambda>message.
     if ms_project message \<noteq> project \<or> ms_id message \<noteq> i then Inl (FE_Invalid ''stored message identity'')
     else Inr \<lparr>dv_extra = [], dv_seq = seq, dv_message = message\<rparr>))"

definition read_mail ::
  "store_request \<Rightarrow> id \<Rightarrow> id \<Rightarrow> int option \<Rightarrow> nat \<Rightarrow> 'z mail_db_scheme \<Rightarrow> fabric_error + mail_delivery fabric_page" where
  "read_mail req project recipient after limit db =
     res_bind (request_check req) (\<lambda>_.
     res_bind (check_page (unwrap_or 0 after) limit) (\<lambda>n.
     query_rows req (bounded_rows 0 (mail_item project)
       (take n (mail_rows project recipient
          (case after of Some a \<Rightarrow> a | None \<Rightarrow> int (unwrap_or 0 (db_mail_cursors db (project, recipient)))) db)))))"

definition mark_mail_read ::
  "event_canon \<Rightarrow> store_request \<Rightarrow> id \<Rightarrow> id \<Rightarrow> int \<Rightarrow> 'z mail_db_scheme \<Rightarrow> (fabric_error + unit) \<times> 'z mail_db_scheme" where
  "mark_mail_read ev req project recipient seq db =
     (if seq < 0 then (Inl (FE_Invalid ''mail cursor''), db)
      else store_write req (\<lambda>db.
        res_bind (wall_now req) (\<lambda>now.
        let highest = fold max (map dl_seq (filter (\<lambda>d. dl_project d = project \<and> dl_recipient d = recipient) (db_deliveries db))) 0 in
        if int highest < seq then Inl (FE_Invalid ''mail cursor'')
        else if int (unwrap_or 0 (db_mail_cursors db (project, recipient))) < seq then
          res_bind (append_event ev (event_of project (Some recipient) MailRead None (decimal (nat seq)) now) None
              (db\<lparr>db_mail_cursors := (db_mail_cursors db)((project, recipient) \<mapsto> nat seq)\<rparr>)) (\<lambda>(_, db').
          Inr ((), db'))
        else Inr ((), db))) db)"

subsection \<open>Runs and their mail\<close>

datatype mail_op =
    SendMail message
  | ReadMail id id "int option" nat
  | MarkMail id id int

datatype mail_event =
    MailAccepted message
  | MailShown id id "int option" "(nat \<times> message) list"
  | MailMarked id id nat

fun mail_step ::
  "message_canon \<Rightarrow> event_canon \<Rightarrow> 'z mail_db_scheme \<Rightarrow> store_request \<times> mail_op \<Rightarrow> 'z mail_db_scheme \<times> mail_event list" where
  "mail_step canon ev db (req, SendMail message) = (case send canon ev req message db of
       (Inl e, db') \<Rightarrow> (db', [])
     | (Inr _, db') \<Rightarrow> (db', if db_messages db (ms_project message, ms_id message) = None then [MailAccepted message] else []))"
| "mail_step canon ev db (req, ReadMail project recipient after limit) = (case read_mail req project recipient after limit db of
       Inl e \<Rightarrow> (db, [])
     | Inr page \<Rightarrow> (db, [MailShown project recipient after (map (\<lambda>d. (dv_seq d, dv_message d)) (pg_items page))]))"
| "mail_step canon ev db (req, MarkMail project recipient seq) = (case mark_mail_read ev req project recipient seq db of
       (Inl e, db') \<Rightarrow> (db', [])
     | (Inr _, db') \<Rightarrow> (db', [MailMarked project recipient (nat seq)]))"

text \<open>
  The accepted messages of a project in their order, what they deliver, the numbered part of it
  that goes to one recipient after a position, and the position marked last.
\<close>

fun accepted :: "id \<Rightarrow> mail_event \<Rightarrow> message list" where
  "accepted p (MailAccepted m) = (if ms_project m = p then [m] else [])"
| "accepted p (MailShown _ _ _ _) = []"
| "accepted p (MailMarked _ _ _) = []"

definition sent :: "mail_event list \<Rightarrow> id \<Rightarrow> message list" where
  "sent tr p = concat (map (accepted p) tr)"

definition mailbox :: "mail_event list \<Rightarrow> id \<Rightarrow> (id \<times> message) list" where
  "mailbox tr p = concat (map (\<lambda>m. map (\<lambda>r. (r, m)) (ms_recipients m)) (sent tr p))"

definition inbox :: "mail_event list \<Rightarrow> id \<Rightarrow> id \<Rightarrow> int \<Rightarrow> (nat \<times> message) list" where
  "inbox tr p r after = map (\<lambda>(n, _, m). (n, m)) (filter (\<lambda>(n, r', _). r' = r \<and> after < int n) (enumerate 1 (mailbox tr p)))"

fun mark_of :: "id \<Rightarrow> id \<Rightarrow> mail_event \<Rightarrow> nat" where
  "mark_of p r (MailMarked q s n) = (if q = p \<and> s = r then n else 0)"
| "mark_of p r (MailAccepted _) = 0"
| "mark_of p r (MailShown _ _ _ _) = 0"

definition marked :: "mail_event list \<Rightarrow> id \<Rightarrow> id \<Rightarrow> nat" where
  "marked tr p r = fold max (map (mark_of p r) tr) 0"

text \<open>What may be accepted, shown and marked after a trace.\<close>

fun mail_admissible :: "mail_event list \<Rightarrow> mail_event \<Rightarrow> bool" where
  "mail_admissible tr (MailAccepted m) \<longleftrightarrow> ms_id m \<notin> ms_id ` set (sent tr (ms_project m)) \<and> ms_recipients m \<noteq> [] \<and> distinct (ms_recipients m)"
| "mail_admissible tr (MailShown p r after shown) \<longleftrightarrow>
     (let unread = inbox tr p r (case after of Some a \<Rightarrow> a | None \<Rightarrow> int (marked tr p r)) in
      (\<exists>k. shown = take k unread) \<and> (shown = [] \<longrightarrow> unread = []))"
| "mail_admissible tr (MailMarked p r n) \<longleftrightarrow> n = 0 \<or> (\<exists>(k, m) \<in> set (inbox tr p r 0). n \<le> k)"

definition empty_mail :: "'z \<Rightarrow> 'z mail_db_scheme" where
  "empty_mail rest = \<lparr>db_events = [], db_event_seq = 0, db_event_cursors = Map.empty, db_operations = Map.empty,
     db_messages = Map.empty, db_delivery_seqs = Map.empty, db_deliveries = [], db_mail_cursors = Map.empty, \<dots> = rest\<rparr>"

subsection \<open>The tables follow the trace\<close>

definition delivers_row :: "delivery_row \<Rightarrow> nat \<times> id \<times> message \<Rightarrow> bool" where
  "delivers_row d x \<longleftrightarrow> (case x of (n, r, m) \<Rightarrow> dl_seq d = n \<and> dl_recipient d = r \<and> dl_message d = ms_id m)"

definition mail_traced :: "mail_event list \<Rightarrow> 'z mail_db_scheme \<Rightarrow> bool" where
  "mail_traced tr db \<longleftrightarrow> (\<forall>p.
     list_all2 delivers_row (filter (\<lambda>d. dl_project d = p) (db_deliveries db)) (enumerate 1 (mailbox tr p))
     \<and> unwrap_or 0 (db_delivery_seqs db p) = length (mailbox tr p)
     \<and> (\<forall>m \<in> set (sent tr p). ms_project m = p \<and> (\<exists>n. db_messages db (p, ms_id m) = Some (Blob n m)))
     \<and> (\<forall>r. unwrap_or 0 (db_mail_cursors db (p, r)) = marked tr p r))"

lemma enumerate_map: "enumerate n (map f xs) = map (\<lambda>(k, x). (k, f x)) (enumerate n xs)"
  by (induction xs arbitrary: n) simp_all

lemma list_all2_filter:
  assumes "list_all2 P xs ys" and "\<And>x y. P x y \<Longrightarrow> Q x \<longleftrightarrow> R y"
  shows "list_all2 P (filter Q xs) (filter R ys)"
  using assms(1) by (induction rule: list_all2_induct) (auto simp: assms(2))

lemma list_all2_partner: "list_all2 P xs ys \<Longrightarrow> x \<in> set xs \<Longrightarrow> \<exists>y \<in> set ys. P x y"
  by (induction rule: list_all2_induct) auto

lemma enumerate_member: "(n, x) \<in> set (enumerate k xs) \<Longrightarrow> x \<in> set xs"
  by (induction xs arbitrary: k) auto

lemma deliver_all_effect:
  assumes "deliver_all project message recipients seq rows = Inr (seq', rows')"
  shows "seq' = seq + length recipients \<and> rows' = rows @
    map (\<lambda>(n, r). \<lparr>dl_project = project, dl_message = message, dl_recipient = r, dl_seq = n\<rparr>) (enumerate (Suc seq) recipients)"
  using assms by (induction project message recipients seq rows rule: deliver_all.induct) (auto split: if_splits)

lemma sent_snoc [simp]: "sent (tr @ [x]) p = sent tr p @ accepted p x" "sent [] p = []"
  by (simp_all add: sent_def)

lemma marked_snoc [simp]: "marked (tr @ [x]) p r = max (marked tr p r) (mark_of p r x)" "marked [] p r = 0"
  by (simp_all add: marked_def max.commute)

lemma mailbox_snoc: "mailbox (tr @ [x]) p = mailbox tr p @ concat (map (\<lambda>m. map (\<lambda>r. (r, m)) (ms_recipients m)) (accepted p x))"
  by (simp add: mailbox_def)

lemma mail_traced_start: "mail_traced [] (empty_mail rest)"
  by (simp add: mail_traced_def empty_mail_def mailbox_def unwrap_or_def)
lemma append_event_mail:
  assumes "append_event ev r dedup db = Inr (seq, db')"
  shows "db_messages db' = db_messages db" "db_delivery_seqs db' = db_delivery_seqs db" "db_deliveries db' = db_deliveries db"
    "db_mail_cursors db' = db_mail_cursors db"
  using assms by (auto elim!: append_event_effect)

lemma insert_message_cases:
  assumes "insert_message canon ev m db = Inr (b, db')"
  obtains "db' = db" "db_messages db (ms_project m, ms_id m) \<noteq> None"
  | n where "db_messages db (ms_project m, ms_id m) = None" "ms_recipients m \<noteq> []" "distinct (ms_recipients m)"
      "db_messages db' = (db_messages db)((ms_project m, ms_id m) \<mapsto> Blob n m)"
      "db_delivery_seqs db' = (db_delivery_seqs db)(ms_project m \<mapsto> unwrap_or 0 (db_delivery_seqs db (ms_project m)) + length (ms_recipients m))"
      "db_deliveries db' = db_deliveries db @ map (\<lambda>(n, r). \<lparr>dl_project = ms_project m, dl_message = ms_id m, dl_recipient = r, dl_seq = n\<rparr>)
         (enumerate (Suc (unwrap_or 0 (db_delivery_seqs db (ms_project m)))) (ms_recipients m))"
      "db_mail_cursors db' = db_mail_cursors db"
proof (cases "db_messages db (ms_project m, ms_id m)")
  case (Some previous)
  with assms that(1) show thesis by (auto simp: insert_message_def split: if_splits)
next
  case None
  from assms have ok: "ms_recipients m \<noteq> []" "distinct (ms_recipients m)" by (auto simp: insert_message_def split: if_splits)
  from assms None obtain bytes seq rows s where bytes: "encode_record canon m = Inr bytes"
    and rows: "deliver_all (ms_project m) (ms_id m) (ms_recipients m) (unwrap_or 0 (db_delivery_seqs db (ms_project m))) (db_deliveries db) = Inr (seq, rows)"
    and e: "append_event ev (event_of (ms_project m) (Some (ms_sender m)) MailSent (Some (show_id (ms_id m))) ''sent'' (ms_created_at m)) None
        (db\<lparr>db_messages := (db_messages db)((ms_project m, ms_id m) \<mapsto> bytes),
            db_delivery_seqs := (db_delivery_seqs db)(ms_project m \<mapsto> seq), db_deliveries := rows\<rparr>) = Inr (s, db')"
    by (auto simp: insert_message_def split: if_splits)
  from bytes obtain n where "bytes = Blob n m" by (auto simp: encode_record_def split: sum.splits if_splits)
  with that(2) [OF None ok, of n] deliver_all_effect [OF rows] append_event_mail [OF e] show thesis by simp
qed

lemma mail_traced_accepted:
  assumes tr: "mail_traced tr db" and ins: "insert_message canon ev m db = Inr (b, db')" and new: "db_messages db (ms_project m, ms_id m) = None"
  shows "mail_traced (tr @ [MailAccepted m]) db' \<and> mail_admissible tr (MailAccepted m)"
  using ins
proof (cases rule: insert_message_cases)
  case (2 n)
  let ?p = "ms_project m"
  let ?new = "map (\<lambda>(n, r). \<lparr>dl_project = ?p, dl_message = ms_id m, dl_recipient = r, dl_seq = n\<rparr>)
         (enumerate (Suc (unwrap_or 0 (db_delivery_seqs db ?p))) (ms_recipients m))"
  have filter_new: "filter (\<lambda>d. dl_project d = p) ?new = (if p = ?p then ?new else [])" for p
    by (auto simp: filter_map filter_id_conv comp_def case_prod_beta)
  have len: "unwrap_or 0 (db_delivery_seqs db p) = length (mailbox tr p)" for p using tr by (simp add: mail_traced_def)
  have fresh: "ms_id m' \<noteq> ms_id m" if "m' \<in> set (sent tr ?p)" for m'
    using tr that new unfolding mail_traced_def by force
  have "list_all2 delivers_row ?new (enumerate (Suc (length (mailbox tr ?p))) (map (\<lambda>r. (r, m)) (ms_recipients m)))"
    unfolding len enumerate_map by (auto simp: list_all2_map1 list_all2_map2 delivers_row_def intro!: list.rel_refl_strong)
  then have "list_all2 delivers_row (filter (\<lambda>d. dl_project d = p) (db_deliveries db')) (enumerate 1 (mailbox (tr @ [MailAccepted m]) p))" for p
    using tr unfolding 2(6) filter_append filter_new mailbox_snoc mail_traced_def
    by (auto simp: enumerate_append_eq intro: list_all2_appendI)
  moreover have "unwrap_or 0 (db_delivery_seqs db' p) = length (mailbox (tr @ [MailAccepted m]) p)" for p
    using len by (simp add: 2(5) mailbox_snoc unwrap_or_def)
  moreover have "ms_project m' = p \<and> (\<exists>n. db_messages db' (p, ms_id m') = Some (Blob n m'))" if "m' \<in> set (sent (tr @ [MailAccepted m]) p)" for p m'
  proof (cases "m' \<in> set (sent tr p)")
    case True
    with tr have "ms_project m' = p" "\<exists>n. db_messages db (p, ms_id m') = Some (Blob n m')" by (auto simp: mail_traced_def)
    with fresh [of m'] True show ?thesis by (auto simp: 2(4))
  next
    case False
    with that show ?thesis by (auto simp: 2(4) split: if_splits)
  qed
  moreover have "unwrap_or 0 (db_mail_cursors db' (p, r)) = marked (tr @ [MailAccepted m]) p r" for p r
    using tr by (simp add: 2(7) mail_traced_def)
  ultimately have "mail_traced (tr @ [MailAccepted m]) db'" unfolding mail_traced_def by blast
  moreover have "mail_admissible tr (MailAccepted m)" using fresh 2(2,3) by (metis imageE mail_admissible.simps(1))
  ultimately show ?thesis by blast
qed (use new in simp)

lemma mail_traced_shown: "mail_traced tr db \<Longrightarrow> mail_traced (tr @ [MailShown p r after shown]) db"
  by (simp add: mail_traced_def mailbox_snoc)

lemma enumerate_sorted: "sorted (map fst (filter P (enumerate n xs)))"
proof -
  have "sorted (map fst (enumerate n xs))" by simp
  then show ?thesis by (rule sorted_filter)
qed

text \<open>The rows a query finds are the numbered messages of the recipient.\<close>

lemma mail_rows_inbox:
  assumes "mail_traced tr db"
  shows "list_all2 (\<lambda>(b, n, i) (k, m). n = k \<and> i = ms_id m \<and> ms_project m = p \<and> decode_blob b = Inr m) (mail_rows p r after db) (inbox tr p r after)"
proof -
  let ?ds = "filter (\<lambda>d. dl_project d = p) (db_deliveries db)"
  let ?rows = "filter (\<lambda>d. dl_recipient d = r \<and> after < int (dl_seq d)) ?ds"
  let ?box = "filter (\<lambda>(n, r', _). r' = r \<and> after < int n) (enumerate 1 (mailbox tr p))"
  from assms have "list_all2 delivers_row ?ds (enumerate 1 (mailbox tr p))" by (simp add: mail_traced_def)
  then have rel: "list_all2 delivers_row ?rows ?box" by (rule list_all2_filter) (auto simp: delivers_row_def)
  then have seqs: "map dl_seq ?rows = map fst ?box"
    by (induction rule: list_all2_induct) (auto simp: delivers_row_def)
  have "sorted (map dl_seq ?rows)" unfolding seqs by (rule enumerate_sorted)
  then have rows: "sort_key dl_seq (filter (\<lambda>d. dl_project d = p \<and> dl_recipient d = r \<and> after < int (dl_seq d)) (db_deliveries db)) = ?rows"
    by (simp add: sort_key_id_if_sorted conj_commute conj_left_commute)
  have known: "\<forall>x \<in> set ?box. ms_project (snd (snd x)) = p \<and> (\<exists>n. db_messages db (p, ms_id (snd (snd x))) = Some (Blob n (snd (snd x))))"
  proof
    fix x
    assume "x \<in> set ?box"
    then have "snd x \<in> set (mailbox tr p)" by (auto intro: enumerate_member)
    then have "snd (snd x) \<in> set (sent tr p)" by (auto simp: mailbox_def)
    with assms show "ms_project (snd (snd x)) = p \<and> (\<exists>n. db_messages db (p, ms_id (snd (snd x))) = Some (Blob n (snd (snd x))))"
      unfolding mail_traced_def by blast
  qed
  from rel known show ?thesis
    unfolding mail_rows_def rows inbox_def
  proof (induction rule: list_all2_induct)
    case (Cons d ds x xs)
    obtain n r' m where x: "x = (n, r', m)" by (cases x)
    from Cons.prems x obtain k where "db_messages db (p, ms_id m) = Some (Blob k m)" "ms_project m = p" by auto
    moreover have "dl_seq d = n" "dl_message d = ms_id m" using Cons.hyps(1) x by (auto simp: delivers_row_def)
    moreover from Cons.prems have "\<forall>x \<in> set xs. ms_project (snd (snd x)) = p \<and> (\<exists>n. db_messages db (p, ms_id (snd (snd x))) = Some (Blob n (snd (snd x))))"
      by simp
    ultimately show ?case using Cons.IH x by (simp add: map_filter_simps)
  qed (simp add: map_filter_simps)
qed

lemma mail_shown:
  assumes tr: "mail_traced tr db" and read: "read_mail req p r after limit db = Inr page"
  shows "mail_admissible tr (MailShown p r after (map (\<lambda>d. (dv_seq d, dv_message d)) (pg_items page)))"
proof -
  let ?a = "case after of Some a \<Rightarrow> a | None \<Rightarrow> int (marked tr p r)"
  let ?rows = "mail_rows p r ?a db" and ?box = "inbox tr p r ?a"
  have cursor: "(case after of Some a \<Rightarrow> a | None \<Rightarrow> int (unwrap_or 0 (db_mail_cursors db (p, r)))) = ?a"
    using tr by (simp add: mail_traced_def split: option.splits)
  from read obtain n where n: "check_page (unwrap_or 0 after) limit = Inr n" and page: "bounded_rows 0 (mail_item p) (take n ?rows) = Inr page"
    by (auto simp: read_mail_def query_rows_def cursor split: option.splits)
  from n have pos: "0 < n" by (auto simp: check_page_def split: if_splits)
  from bounded_rows_prefix [OF page] obtain k where k: "list_all2 (\<lambda>row x. mail_item p row = Inr x) (take k (take n ?rows)) (pg_items page)" by blast
  have rel: "list_all2 (\<lambda>(b, n, i) (k, m). n = k \<and> i = ms_id m \<and> ms_project m = p \<and> decode_blob b = Inr m) ?rows ?box"
    by (rule mail_rows_inbox [OF tr])
  have "map (\<lambda>d. (dv_seq d, dv_message d)) items = box"
    if "list_all2 (\<lambda>(b, n, i) (k, m). n = k \<and> i = ms_id m \<and> ms_project m = p \<and> decode_blob b = Inr m) rows box"
      "list_all2 (\<lambda>row x. mail_item p row = Inr x) rows items" for rows box items
    using that
  proof (induction rows arbitrary: box items)
    case (Cons row rows)
    then show ?case by (auto simp: list_all2_Cons1 mail_item_def)
  qed simp
  from this [OF list_all2_takeI [OF list_all2_takeI [OF rel, of n], of k] k]
  have shown: "map (\<lambda>d. (dv_seq d, dv_message d)) (pg_items page) = take (min k n) ?box" by simp
  moreover have "?box = []" if "pg_items page = []"
  proof -
    from bounded_rows_progress [OF page] that have "take n ?rows = []" by blast
    with pos have "?rows = []" by simp
    with rel show ?thesis by simp
  qed
  ultimately show ?thesis by (auto simp: Let_def)
qed

lemma fold_max_in: "fold max xs (0 :: nat) = 0 \<or> fold max xs 0 \<in> set xs"
proof -
  have "fold max xs a = a \<or> fold max xs a \<in> set xs" for a :: nat
    by (induction xs arbitrary: a) (auto simp: max_def split: if_splits)
  then show ?thesis .
qed

lemma mail_marked:
  assumes tr: "mail_traced tr db" and mark: "mark_mail_read ev req p r seq db = (Inr u, db')"
  shows "mail_traced (tr @ [MailMarked p r (nat seq)]) db' \<and> mail_admissible tr (MailMarked p r (nat seq))"
proof -
  let ?rows = "filter (\<lambda>d. dl_project d = p \<and> dl_recipient d = r) (db_deliveries db)"
  let ?cursor = "unwrap_or 0 (db_mail_cursors db (p, r))"
  from mark have pos: "0 \<le> seq" by (auto simp: mark_mail_read_def split: if_splits)
  with mark obtain now where tx: "(let highest = fold max (map dl_seq ?rows) 0 in
        if int highest < seq then Inl (FE_Invalid ''mail cursor'')
        else if int ?cursor < seq then
          res_bind (append_event ev (event_of p (Some r) MailRead None (decimal (nat seq)) now) None
              (db\<lparr>db_mail_cursors := (db_mail_cursors db)((p, r) \<mapsto> nat seq)\<rparr>)) (\<lambda>(_, db'). Inr ((), db'))
        else Inr ((), db)) = Inr (u, db')"
    by (auto simp: mark_mail_read_def dest!: store_write_Inr)
  then have high: "nat seq \<le> fold max (map dl_seq ?rows) 0" by (auto simp: Let_def split: if_splits)
  have tables: "db_messages db' = db_messages db \<and> db_delivery_seqs db' = db_delivery_seqs db \<and> db_deliveries db' = db_deliveries db \<and>
      (\<forall>q s. unwrap_or 0 (db_mail_cursors db' (q, s)) = (if q = p \<and> s = r then max ?cursor (nat seq) else unwrap_or 0 (db_mail_cursors db (q, s))))"
  proof (cases "int ?cursor < seq")
    case True
    with tx high pos obtain k where e: "append_event ev (event_of p (Some r) MailRead None (decimal (nat seq)) now) None
        (db\<lparr>db_mail_cursors := (db_mail_cursors db)((p, r) \<mapsto> nat seq)\<rparr>) = Inr (k, db')" by (auto simp: Let_def split: if_splits)
    from append_event_mail [OF e] True show ?thesis by (auto simp: unwrap_or_def)
  next
    case False
    with tx have "db' = db" by (auto simp: Let_def split: if_splits)
    with False show ?thesis by auto
  qed
  have "mail_traced (tr @ [MailMarked p r (nat seq)]) db'"
    using tr tables by (auto simp: mail_traced_def mailbox_snoc)
  moreover have "mail_admissible tr (MailMarked p r (nat seq))"
  proof (cases "nat seq = 0")
    case False
    with high fold_max_in [of "map dl_seq ?rows"] obtain d where d: "d \<in> set ?rows" "nat seq \<le> dl_seq d" by auto
    from tr have "list_all2 delivers_row (filter (\<lambda>d. dl_project d = p) (db_deliveries db)) (enumerate 1 (mailbox tr p))" by (simp add: mail_traced_def)
    then have rel: "list_all2 delivers_row (filter (\<lambda>d. dl_recipient d = r) (filter (\<lambda>d. dl_project d = p) (db_deliveries db)))
        (filter (\<lambda>(n, r', _). r' = r) (enumerate 1 (mailbox tr p)))"
      by (rule list_all2_filter) (auto simp: delivers_row_def)
    from d(1) have "d \<in> set (filter (\<lambda>d. dl_recipient d = r) (filter (\<lambda>d. dl_project d = p) (db_deliveries db)))" by simp
    from list_all2_partner [OF rel this] obtain x
      where x: "x \<in> set (filter (\<lambda>(n, r', _). r' = r) (enumerate 1 (mailbox tr p)))" "delivers_row d x" ..
    then obtain m where "x = (dl_seq d, r, m)" by (auto simp: delivers_row_def)
    with x(1) False d(2) have "(dl_seq d, m) \<in> set (inbox tr p r 0)" by (force simp: inbox_def)
    with d(2) show ?thesis by auto
  qed simp
  ultimately show ?thesis by blast
qed

lemma mail_step_ok:
  assumes tr: "mail_traced tr db"
  shows "(snd (mail_step canon ev db e) = [] \<and> mail_traced tr (fst (mail_step canon ev db e))) \<or>
    (\<exists>x. snd (mail_step canon ev db e) = [x] \<and> mail_admissible tr x \<and> mail_traced (tr @ [x]) (fst (mail_step canon ev db e)))"
proof -
  obtain req op where e: "e = (req, op)" by (cases e)
  show ?thesis
  proof (cases op)
    case (SendMail m)
    obtain r db' where s: "send canon ev req m db = (r, db')" by fastforce
    show ?thesis
    proof (cases r)
      case (Inl x)
      with s have "db' = db" by (auto simp: send_def elim: store_write_cases)
      with Inl s e SendMail tr show ?thesis by simp
    next
      case (Inr u)
      with s have "store_write req (\<lambda>db. res_bind (insert_message canon ev m db) (\<lambda>(_, db'). Inr ((), db'))) db = (Inr u, db')"
        by (simp add: send_def)
      from store_write_Inr [OF this] have "res_bind (insert_message canon ev m db) (\<lambda>(_, db'). Inr ((), db')) = Inr (u, db')" .
      then obtain b where i: "insert_message canon ev m db = Inr (b, db')" by auto
      show ?thesis
      proof (cases "db_messages db (ms_project m, ms_id m)")
        case None
        with mail_traced_accepted [OF tr i None] Inr s e SendMail show ?thesis by simp
      next
        case (Some old)
        from i have "db' = db" by (cases rule: insert_message_cases) (use Some in simp_all)
        with Some Inr s e SendMail tr show ?thesis by simp
      qed
    qed
  next
    case (ReadMail p r after limit)
    show ?thesis
    proof (cases "read_mail req p r after limit db")
      case (Inl x)
      with e ReadMail tr show ?thesis by simp
    next
      case (Inr page)
      with mail_shown [OF tr Inr] mail_traced_shown [OF tr] e ReadMail show ?thesis by simp
    qed
  next
    case (MarkMail p r seq)
    obtain res db' where s: "mark_mail_read ev req p r seq db = (res, db')" by fastforce
    show ?thesis
    proof (cases res)
      case (Inl x)
      with s have "db' = db" by (auto simp: mark_mail_read_def split: if_splits elim: store_write_cases)
      with Inl s e MarkMail tr show ?thesis by simp
    next
      case (Inr u)
      with mail_marked [OF tr, of ev req p r seq u db'] s e MarkMail show ?thesis by simp
    qed
  qed
qed

interpretation mail: traced_machine "mail_step canon ev" "empty_mail rest" "\<lambda>_. True" mail_traced mail_admissible
  for canon ev and rest :: 'z
proof unfold_locales
  show "mail_traced [] (empty_mail rest)" by (rule mail_traced_start)
next
  fix tr and db :: "'z mail_db_scheme" and e
  assume "mail_traced tr db"
  from mail_step_ok [OF this, of canon ev e]
  show "mail_traced (tr @ snd (mail_step canon ev db e)) (fst (mail_step canon ev db e))" by auto
next
  fix tr and db :: "'z mail_db_scheme" and e xs x ys
  assume "mail_traced tr db" "snd (mail_step canon ev db e) = xs @ x # ys"
  with mail_step_ok [OF this(1), of canon ev e] show "mail_admissible (tr @ xs) x" by (auto simp: append_eq_Cons_conv)
qed

subsection \<open>Example\<close>

definition example_mail :: "string \<Rightarrow> string list \<Rightarrow> message" where
  "example_mail i recipients = \<lparr>ms_extra = [], ms_header = 1, ms_project = ''p'', ms_id = i, ms_sender = ''a'', ms_recipients = recipients,
     ms_conversation = None, ms_kind = MailNote, ms_body = ''hello'', ms_artifacts = [], ms_reply_to = None, ms_task = None, ms_created_at = 1\<rparr>"

definition example_mail_request :: store_request where
  "example_mail_request = \<lparr>sq_cancelled = False, sq_now = Inr 1, sq_begin = None, sq_commit = None\<rparr>"

definition example_mail_run :: "(store_request \<times> mail_op) list" where
  "example_mail_run = map (Pair example_mail_request)
     [SendMail (example_mail ''i'' [''b'', ''c'']), SendMail (example_mail ''i'' [''b'', ''c'']), SendMail (example_mail ''j'' [''c'']),
      MarkMail ''p'' ''c'' 2, ReadMail ''p'' ''c'' None 10]"

lemma decimal_two: "decimal 2 = ''2''"
  by code_simp

lemma example_mail_trace:
  "snd (run_machine (mail_step (\<lambda>_. Inr 10) (\<lambda>_. Inr 10)) (empty_mail ()) example_mail_run) =
     [MailAccepted (example_mail ''i'' [''b'', ''c'']), MailAccepted (example_mail ''j'' [''c'']), MailMarked ''p'' ''c'' 2] @
     MailShown ''p'' ''c'' None [(3, example_mail ''j'' [''c''])] # []"
  by (simp add: example_mail_run_def example_mail_def example_mail_request_def empty_mail_def send_def insert_message_def
      mark_mail_read_def read_mail_def mail_rows_def mail_item_def store_write_def request_check_def wall_now_def map_err_def query_rows_def check_page_def check_text_def
      encode_record_def append_event_def event_of_def unwrap_or_def MAX_BODY_BYTES_def FABRIC_RECORD_BYTES_def MAX_PAGE_ROWS_def
      MAX_PAGE_BYTES_def read_length_def decimal_two Let_def map_filter_simps run_machine_Cons del: run_machine.simps(2))

text \<open>
  C13: Mail is delivered in order, once and completely. Along every run of sending, reading and
  marking by any actors, whichever operations fail: a message is accepted at most once under its
  identity; a page of mail shown to a recipient is exactly the next part of the accepted messages
  that name them, in the order of acceptance, after the position they asked for or last marked, and
  it is empty only when there are none; and only positions of delivered mail are marked.
\<close>

theorem mail_is_delivered_in_order:
  assumes "snd (run_machine (mail_step canon ev) (empty_mail rest) ops) = before @ x # later"
  shows "(\<forall>m. x = MailAccepted m \<longrightarrow> ms_id m \<notin> ms_id ` set (sent before (ms_project m)))
    \<and> (\<forall>p r after shown. x = MailShown p r after shown \<longrightarrow>
        (\<exists>k. shown = take k (inbox before p r (case after of Some a \<Rightarrow> a | None \<Rightarrow> int (marked before p r))))
        \<and> (shown = [] \<longrightarrow> inbox before p r (case after of Some a \<Rightarrow> a | None \<Rightarrow> int (marked before p r)) = []))
    \<and> (\<forall>p r n. x = MailMarked p r n \<longrightarrow> n = 0 \<or> (\<exists>(k, m) \<in> set (inbox before p r 0). n \<le> k))"
proof -
  have "mail_admissible before x" using mail.run_admissible [OF _ assms] by (simp add: list_all_iff)
  then show ?thesis by (cases x) (simp_all add: Let_def)
qed

theorem mail_is_delivered_in_order_witness:
  "snd (run_machine (mail_step (\<lambda>_. Inr 10) (\<lambda>_. Inr 10)) (empty_mail ()) example_mail_run) =
     [MailAccepted (example_mail ''i'' [''b'', ''c'']), MailAccepted (example_mail ''j'' [''c'']), MailMarked ''p'' ''c'' 2] @
     MailShown ''p'' ''c'' None [(3, example_mail ''j'' [''c''])] # []
   \<and> (\<exists>k. [(3, example_mail ''j'' [''c''])] = take k (inbox [MailAccepted (example_mail ''i'' [''b'', ''c'']),
       MailAccepted (example_mail ''j'' [''c'']), MailMarked ''p'' ''c'' 2] ''p'' ''c'' 2))"
proof -
  have "marked [MailAccepted (example_mail ''i'' [''b'', ''c'']), MailAccepted (example_mail ''j'' [''c'']), MailMarked ''p'' ''c'' 2] ''p'' ''c'' = 2"
    by (simp add: marked_def)
  with example_mail_trace mail_is_delivered_in_order [OF example_mail_trace] show ?thesis by simp
qed

end
