(* ===== verification/Spec2Isabelle.thy ===== *)
theory Spec2Isabelle
  imports Core_Time Supervisor_Machine Records_Adapters Records_Jsonc Workflow_Reconciler Workflow_Coverage Workflow_Handoff Quota_Store Fabric_Landing Fabric_Mail
begin

text \<open>
  Provenant launches coding agents of several providers, supervises them, and keeps the evidence
  (quota readings, refusals, readiness, review receipts) that decides what may be launched and
  published next. This library models parts of its front door, the Rust crates below
  \<open>src/tools/front-door/crates\<close>, as executable functions, and proves what makes them correct.
  File names in the theories are relative to that directory.

  \<^bold>\<open>The parts and how they interact.\<close>
  A launch is resolved to a route (an adapter, a model, an account). Before it starts, the crate
  \<open>quota\<close> checks the account's stored evidence (\<open>admission.rs\<close>, \<open>readiness.rs\<close>). The run is
  driven by the pure machine of the crate \<open>supervisor\<close> (\<open>machine.rs\<close>). What the provider said is
  written back to the account's file by \<open>cli/src/quota.rs\<close>, under a lock and with a revision
  check; a timer tick of the same file reserves, probes and completes accounts by the schedule of
  \<open>quota/src/schedule.rs\<close> and publishes a report. Files are JSON, checked by
  \<open>records/src/json.rs\<close> before they are decoded. A reviewed head of a pull request is tracked by
  the crate \<open>workflow\<close> (\<open>reconciler.rs\<close>), which persists every external effect before it is
  issued. A delivery has a receipt (\<open>receipt.rs\<close>, \<open>store.rs\<close>) with its risk, its review attempts
  and the decision; claims of reviewers are bound to recorded attempts (\<open>bind.rs\<close>), and the bound
  reviews decide whether the risk is covered (\<open>coverage.rs\<close>). A chair that runs out of quota hands
  its session over to another account (\<open>chair.rs\<close>). Agents that work on the same project coordinate
  through the crate \<open>fabric-store\<close>, a SQLite database with an event log, tasks, claims on work,
  exclusive landings of branches with their pushes, and mail.

  \<^bold>\<open>Conventions.\<close>
  \<^item> A struct is a record with prefixed fields, an enum a datatype with the source's constructors.
  \<^item> \<open>u64\<close>, \<open>u32\<close>, \<open>u8\<close> and \<open>usize\<close> are \<open>nat\<close> and \<open>i64\<close> is \<open>int\<close>; each checked, saturating or
    wrapping operation of the source is written out at its width (\<open>Prov_Prelude\<close>).
  \<^item> A \<open>Result\<close> is \<open>'e + 'a\<close>, with \<open>res_bind\<close> for the operator \<open>?\<close>; a panic or early return is a
    branch. A \<open>String\<close> is its list of bytes.
  \<^item> State is passed explicitly. \<open>run_machine\<close> runs a step function over a list of events and
    collects what the steps emit; the locales \<open>invariant_machine\<close>, \<open>monotone_machine\<close> and
    \<open>traced_machine\<close> prove once what holds of all runs.
  \<^item> Code outside the repository is an argument: the calendar of jiff, the typed decoder of
    serde_json, the canonical length of a record, Unicode lower-casing, the outcomes of file
    operations, and whether a SQLite transaction commits.

  \<^bold>\<open>The theories.\<close>
  \<^item> \<open>Prov_Prelude\<close>: integers, results, byte strings, list updates, and the locales
    \<open>keyed_upsert\<close> (retain the other keys, push the new entry), \<open>invariant_machine\<close>,
    \<open>monotone_machine\<close> (states only grow in a relation) and \<open>traced_machine\<close> (the state is
    determined by the trace, and each emitted event is admissible after those before it).
  \<^item> \<open>Prov_Text\<close>: trimming of UTF-8 white space and decimal text, from the standard library.
  \<^item> \<open>Core_Ids\<close> (\<open>core/src/ids.rs\<close>, \<open>core/src/bytes.rs\<close>): hexadecimal text and the identities,
    which parse exactly from the texts they print as.
  \<^item> \<open>Core_Time\<close> (\<open>core/src/time.rs\<close>, \<open>core/src/retry.rs\<close>): wait budgets, the virtual clock, retry
    delays. The delay loop equals the capped exponential, with its bounds; an accepted wait lasts
    its duration.
  \<^item> \<open>Supervisor_Machine\<close> (\<open>supervisor/src/machine.rs\<close>): the states, the step and the stop
    requests. Every reachable state is well formed; a stop signal has a cause; an observed exit
    wins over a stop; the exit is published once and can always be reached; a timeout is
    reported only after a delivered signal; the wake-up time is exact.
  \<^item> \<open>Records_Adapters\<close> (\<open>records/src/adapters.rs\<close>): the adapter table and the launch checks
    against a field-by-field reference.
  \<^item> \<open>Records_Route\<close> (\<open>records/src/resolved_route.rs\<close>): routes and exclusion reasons.
  \<^item> \<open>Records_Json\<close> (\<open>records/src/json.rs\<close>): the bounded validator, with an inductive grammar it
    accepts exactly. The recursion of the validator is on fuel; the fuel \<open>validate_document\<close> gives,
    two for each byte and one more, always suffices, so out of fuel (\<open>None\<close>) is never a result.
  \<^item> \<open>Records_Jsonc\<close> (\<open>records/src/jsonc.rs\<close>): documents with comments. The projection blanks
    exactly comments and trailing commas and keeps positions; the tokens cover the source. The
    scanner's loop terminates because every step takes at least a byte.
  \<^item> \<open>Quota_State\<close>, \<open>Quota_Settings\<close>, \<open>Quota_Schedule\<close> (\<open>quota/src\<close>: \<open>source.rs\<close>, \<open>state.rs\<close>,
    \<open>settings.rs\<close>, \<open>calibration.rs\<close>, \<open>schedule.rs\<close>): account records and their validity, the
    locale \<open>account_operation\<close> of the operations that propose an update, calibration floors, due
    times, reservations, completions and tick plans.
  \<^item> \<open>Quota_Admission\<close>, \<open>Quota_Readiness\<close>, \<open>Quota_Report\<close> (\<open>admission.rs\<close>, \<open>readiness.rs\<close> and the
    report of \<open>schedule.rs\<close>): recorded refusals and cooldowns, the admission check, the readiness
    file, and what the report may show.
  \<^item> \<open>Quota_Store\<close> (\<open>cli/src/quota.rs\<close>): the files below the state directory and the locked
    sections of the program over them. Writing an intent refines compare and swap on one register
    per account; however the sections interleave and fail, the files stay readable.
  \<^item> \<open>Workflow_Reconciler\<close> (\<open>workflow/src/reconciler.rs\<close>): the two tables and every operation of the
    store as a transaction that may fail. No effect is issued twice on a guess, work for a
    superseded head has no effect, and each stored state is backed by its receipts.
  \<^item> \<open>Workflow_Records\<close> (\<open>records/src/workflow.rs\<close>): risk factors and tiers, subjects, routes,
    authors, decisions, and the delivery receipt with the operations that build its next revision.
  \<^item> \<open>Workflow_Receipt\<close> (\<open>workflow/src\<close>: \<open>risk.rs\<close>, \<open>review.rs\<close>, \<open>receipt.rs\<close>, \<open>store.rs\<close>): the checks
    of risk and reviews, and the locked save at an expected revision. Each check of the wait, each
    system call and the clock enter as the outcomes of one save. Committed revisions form one line,
    a saved receipt has passed every check, and a failed save leaves the stored receipt.
  \<^item> \<open>Workflow_Coverage\<close> (\<open>workflow/src/bind.rs\<close>, \<open>coverage.rs\<close>): the binding of review claims and the
    search over all subsets of at most sixteen candidates. The search passes exactly when some
    choice of reviews satisfies the policy, and what it counts rests on succeeded attempts.
  \<^item> \<open>Workflow_Handoff\<close> (\<open>workflow/src/chair.rs\<close>): the handoff files of a working directory with the
    order of their writes. A handoff is taken once, by the account it names and within its hour; a
    session launches its successor once.
  \<^item> \<open>Fabric_Store\<close> (\<open>fabric-store/src\<close>: \<open>lib.rs\<close>, \<open>db.rs\<close>, \<open>events.rs\<close>, \<open>operations.rs\<close>): the tables as
    fields of a record that the next theories extend, transactions that commit or leave the tables,
    bounded pages, the event log, and operations that take effect once and are replayed afterwards.
  \<^item> \<open>Fabric_Tasks\<close> (\<open>tasks.rs\<close>): tasks under a lease. Fences exclude each other, and generations grow.
  \<^item> \<open>Fabric_Claims\<close> (\<open>claims.rs\<close>): claims on issues, paths and work trees. The range and ancestor
    queries find every overlapping path, so that claims which live at the same time are disjoint.
  \<^item> \<open>Fabric_Landing\<close> (\<open>landing.rs\<close>): the claim on a branch and the phases of a push, in one machine
    with the work claims, whose pruning and counters they share. A push whose outcome is not known
    pins its landing.
  \<^item> \<open>Fabric_Mail\<close> (\<open>messages.rs\<close>): messages and numbered deliveries. A page of mail is the next part
    of what was accepted for the recipient.
  \<^item> This theory: a persisted refusal reaches the admission check of the next launch.

  \<^bold>\<open>Not modelled.\<close>
  Process control, sockets, terminal output, argument parsing and the operating system's sandbox
  are effects on the outside. SQLite, serde and the provider streams are third-party formats or
  services. The crates \<open>fabric-runtime\<close>, \<open>run\<close>, \<open>telemetry\<close>, \<open>routing\<close> and \<open>providers\<close>
  hold further pure decisions over large documents that have no theory here yet, and so do the
  chairs, the federation, the human inbox and the viewer of \<open>fabric-store\<close>. Within a
  modelled file, serde attributes, error texts and the conversions between formats are left out
  unless a decision reads them.
\<close>

section \<open>From a provider's refusal to the next launch\<close>

lemma persisted_refusal_register:
  assumes persisted: "persist_provider_refusal env io wall ks (from_resolved route (Some label) source) pool now resets =
      (Inr (), ks')"
    and ks: "store_ok ks" and key: "ro_account_key route = Some key" "key \<noteq> HISTORY_DIRECTORY"
  obtains cur account ui n where "acc_adapter account = ro_adapter route" "acc_key account = key"
    "record_refusal cur account (ro_adapter route @ ''/'' @ ro_model route) pool now resets = Inr ui"
    "ui_replacement ui = Some n" "registers_of ks' (ro_adapter route, key) = Some n" "store_ok ks'"
proof -
  let ?launch = "from_resolved route (Some label) source"
  let ?account = "\<lparr>acc_adapter = ro_adapter route, acc_key = key, acc_label = label\<rparr>"
  let ?model = "ro_adapter route @ ''/'' @ ro_model route"
  note body = persisted [unfolded persist_provider_refusal_def persist_provider_refusal_once_def]
  obtain x where x: "res_bind (of_quota (route_scope ''provider refusal'' ?launch)) (\<lambda>scope.
      res_bind (locked_records io ks) (\<lambda>records. Inr (scope, records))) = Inr x"
    using body by (auto split: sum.splits)
  then obtain model account records where xs: "x = ((model, account), records)"
    and scope: "route_scope ''provider refusal'' ?launch = Inr (model, account)"
    and records: "locked_records io ks = Inr records" by (cases x) auto
  have launch: "model = ?model" "account = ?account"
    using scope key(1) by (auto simp: route_scope_def from_resolved_def Let_def)
  let ?cur = "List.find (same_id account) records"
  obtain ui where ui: "record_refusal ?cur (stored_scope account ?cur) ?model pool now resets = Inr ui"
    and applied: "apply_intent env io wall ks ui records = (Inr (), ks')"
    using body [unfolded x xs sum.case prod.case Let_def] launch(1) by (auto split: sum.splits)
  obtain records' where w: "write_intent env io wall ks ui records = (Inr (), ks', records')"
    using applied by (auto simp: apply_intent_def split: prod.splits)
  have at: "ui_account ui = stored_scope account ?cur" using record_refusal_account [OF ui] .
  have id: "acc_adapter (stored_scope account ?cur) = ro_adapter route" "acc_key (stored_scope account ?cur) = key"
    using launch(2) by (auto simp: stored_scope_def same_id_def split: option.splits dest!: find_Some_in)
  have "store_ok ks' \<and> registers_of ks' = (registers_of ks)(account_id (ui_account ui) := ui_replacement ui)"
    using write_intent_effect [OF w ks locked_records_mirrors [OF records ks]] at id(2) key(2) by auto
  moreover obtain n where "ui_replacement ui = Some n"
    using refusal_recording.next_revision [of ?cur "(stored_scope account ?cur, ?model, pool, now, resets)" ui] ui
    by auto
  ultimately show thesis
    using that [OF id ui] at id by (auto simp: account_id_def)
qed



end
